(* ===== verification/Prelude.thy ===== *)
theory Prelude
  imports Main "HOL-Library.Char_ord" "HOL-Library.List_Lexorder" "HOL-Library.AList"
begin

section \<open>Shared types, machine integers and list facts\<close>

text \<open>
  Everything the component theories share: the names of the model's types, Go's
  64-bit signed integers with their wrap-around written out, slice expressions that can
  panic, decimal printing, and the collections of rewrite rules.

  A Go string and a Go byte slice are both sequences of bytes. A HOL \<^typ>\<open>char\<close> is a
  byte, so both are modelled as \<^typ>\<open>string\<close> and the conversions between them
  are the identity.
\<close>

named_theorems go_int \<open>64-bit arithmetic within its range\<close>
named_theorems byte_simps \<open>facts on byte values\<close>

type_synonym bytes = string
type_synonym time = int        \<comment> \<open>an instant, in nanoseconds\<close>
type_synonym duration = int    \<comment> \<open>a time.Duration, in nanoseconds\<close>

subsection \<open>Signed 64-bit integers\<close>

definition wrap64 :: "int \<Rightarrow> int" where
  "wrap64 n = (n + 2 ^ 63) mod 2 ^ 64 - 2 ^ 63"

definition max_int64 :: int where
  "max_int64 = 2 ^ 63 - 1"

definition min_int64 :: int where
  "min_int64 = - (2 ^ 63)"

definition fits64 :: "int \<Rightarrow> bool" where
  "fits64 n \<longleftrightarrow> min_int64 \<le> n \<and> n \<le> max_int64"

lemma wrap64_id [go_int]: "fits64 n \<Longrightarrow> wrap64 n = n"
  by (simp add: wrap64_def fits64_def min_int64_def max_int64_def)

lemma wrap64_nonneg [go_int]: "0 \<le> n \<Longrightarrow> n \<le> max_int64 \<Longrightarrow> wrap64 n = n"
  by (simp add: wrap64_def max_int64_def)

lemma wrap64_zero [simp]: "wrap64 0 = 0"
  by (simp add: wrap64_def)

lemma wrap64_overflow:
  assumes "max_int64 < n" "n \<le> 2 * max_int64"
  shows "wrap64 n = n - 2 ^ 64"
proof -
  have "(n + 2 ^ 63) mod 2 ^ 64 = (n + 2 ^ 63 - 2 ^ 64) mod (2 ^ 64 :: int)"
    by (rule minus_mod_self2 [symmetric])
  also have "\<dots> = n + 2 ^ 63 - 2 ^ 64"
    using assms by (intro mod_pos_pos_trivial) (simp_all add: max_int64_def)
  finally show ?thesis by (simp add: wrap64_def)
qed

lemma fits64_wrap64: "fits64 (wrap64 n)"
proof -
  have "0 \<le> (n + 2 ^ 63) mod 2 ^ 64" "(n + 2 ^ 63) mod 2 ^ 64 < (2 ^ 64 :: int)"
    by simp_all
  then show ?thesis
    by (simp add: wrap64_def fits64_def min_int64_def max_int64_def)
qed

text \<open>Subtracting two instants saturates at the ends of the int64 range (time.Time.Sub).\<close>

definition time_sub :: "time \<Rightarrow> time \<Rightarrow> duration" where
  "time_sub t u = max min_int64 (min max_int64 (t - u))"

definition millisecond :: duration where "millisecond = 1000000"
definition second :: duration where "second = 1000000000"
definition minute :: duration where "minute = 60 * second"
definition hour :: duration where "hour = 60 * minute"

lemmas duration_defs = millisecond_def second_def minute_def hour_def

subsection \<open>Lengths and slice expressions\<close>

abbreviation blen :: "'a list \<Rightarrow> int" where
  "blen xs \<equiv> int (length xs)"

text \<open>\<open>slice xs i j\<close> is the Go expression xs[i:j]; \<^const>\<open>None\<close> is the bounds panic.\<close>

definition slice :: "'a list \<Rightarrow> int \<Rightarrow> int \<Rightarrow> 'a list option" where
  "slice xs i j =
     (if 0 \<le> i \<and> i \<le> j \<and> j \<le> blen xs
      then Some (take (nat (j - i)) (drop (nat i) xs)) else None)"

lemma slice_in_range:
  "0 \<le> i \<Longrightarrow> i \<le> j \<Longrightarrow> j \<le> blen xs
   \<Longrightarrow> slice xs i j = Some (take (nat (j - i)) (drop (nat i) xs))"
  by (simp add: slice_def)

lemma slice_length: "slice xs i j = Some ys \<Longrightarrow> blen ys = j - i"
  by (auto simp: slice_def min_def split: if_splits)

subsection \<open>Decimal printing (strconv.FormatInt and strconv.Itoa)\<close>

definition digit :: "nat \<Rightarrow> char" where
  "digit n = char_of (48 + n)"

fun show_nat :: "nat \<Rightarrow> string" where
  "show_nat n = (if n < 10 then [digit n] else show_nat (n div 10) @ [digit (n mod 10)])"

declare show_nat.simps [simp del]

definition show_int :: "int \<Rightarrow> string" where
  "show_int i = (if i < 0 then CHR ''-'' # show_nat (nat (- i)) else show_nat (nat i))"

definition numeral_chars :: "char set" where
  "numeral_chars = insert (CHR ''-'') (digit ` {0..<10})"

lemma digit_value: "n < 10 \<Longrightarrow> of_char (digit n) = 48 + n"
  by (simp add: digit_def)

lemma digit_inj: "m < 10 \<Longrightarrow> n < 10 \<Longrightarrow> digit m = digit n \<Longrightarrow> m = n"
  by (metis digit_value add_left_cancel)

lemma show_nat_chars: "set (show_nat n) \<subseteq> digit ` {0..<10}"
proof (induction n rule: show_nat.induct)
  case (1 n)
  then show ?case
    by (subst show_nat.simps) auto
qed

lemma show_int_chars: "set (show_int i) \<subseteq> numeral_chars"
  using show_nat_chars by (auto simp: show_int_def numeral_chars_def)

lemma show_nat_nonempty [simp]: "show_nat n \<noteq> []"
  by (subst show_nat.simps) simp

text \<open>The value of a digit string, by which printing is seen to be injective.\<close>

definition digits_value :: "string \<Rightarrow> nat" where
  "digits_value s = foldl (\<lambda>a c. 10 * a + (of_char c - 48)) 0 s"

lemma digits_value_show_nat: "digits_value (show_nat n) = n"
proof (induction n rule: show_nat.induct)
  case (1 n)
  show ?case
  proof (cases "n < 10")
    case True
    then show ?thesis
      by (subst show_nat.simps) (simp add: digits_value_def digit_value)
  next
    case False
    with 1 have "digits_value (show_nat (n div 10)) = n div 10" by simp
    with False show ?thesis
      by (subst show_nat.simps) (simp add: digits_value_def digit_value)
  qed
qed

lemma show_nat_inject [simp]: "show_nat m = show_nat n \<longleftrightarrow> m = n"
  by (metis digits_value_show_nat)

lemma minus_not_digit: "n < 10 \<Longrightarrow> digit n \<noteq> CHR ''-''"
proof
  assume "n < 10" "digit n = CHR ''-''"
  then have "of_char (CHR ''-'') = (48 + n :: nat)"
    by (metis digit_value)
  then show False by simp
qed

lemma show_nat_no_minus: "show_nat m \<noteq> CHR ''-'' # s"
proof
  assume "show_nat m = CHR ''-'' # s"
  then have "CHR ''-'' \<in> digit ` {0..<10}"
    using show_nat_chars [of m] by auto
  then show False using minus_not_digit by (metis atLeastLessThan_iff imageE)
qed

lemma show_int_inject [simp]: "show_int i = show_int j \<longleftrightarrow> i = j"
proof
  assume eq: "show_int i = show_int j"
  show "i = j"
  proof (cases "i < 0"; cases "j < 0")
    assume "i < 0" "j < 0"
    with eq show ?thesis by (simp add: show_int_def)
  next
    assume "i < 0" "\<not> j < 0"
    with eq show ?thesis by (simp add: show_int_def) (metis show_nat_no_minus)
  next
    assume "\<not> i < 0" "j < 0"
    with eq show ?thesis by (simp add: show_int_def) (metis show_nat_no_minus)
  next
    assume "\<not> i < 0" "\<not> j < 0"
    with eq show ?thesis by (simp add: show_int_def)
  qed
qed simp

subsection \<open>The NUL separator of composed keys\<close>

definition nul :: char where
  "nul = CHR 0x00"

lemma nul_value [byte_simps]: "of_char nul = (0 :: nat)"
  by (simp add: nul_def)

lemma nul_not_numeral: "nul \<notin> numeral_chars"
proof
  assume "nul \<in> numeral_chars"
  then obtain n :: nat where "n < 10" "nul = digit n"
    by (auto simp: numeral_chars_def nul_def)
  then have "of_char nul = (48 + n :: nat)" by (metis digit_value)
  then show False by (simp add: nul_value)
qed

lemma nul_not_in_show_int: "nul \<notin> set (show_int i)"
  using nul_not_numeral show_int_chars by blast

text \<open>A separator that the first parts cannot hold splits a concatenation uniquely.\<close>

lemma split_at_first:
  assumes "xs @ z # ys = xs' @ z # ys'" "z \<notin> set xs" "z \<notin> set xs'"
  shows "xs = xs' \<and> ys = ys'"
  using assms
proof (induction xs arbitrary: xs')
  case Nil
  then show ?case by (cases xs') auto
next
  case (Cons x xs)
  then show ?case by (cases xs') auto
qed

lemma split_at_last:
  assumes "xs @ z # ys = xs' @ z # ys'" "z \<notin> set ys" "z \<notin> set ys'"
  shows "xs = xs' \<and> ys = ys'"
proof -
  have "rev ys @ z # rev xs = rev ys' @ z # rev xs'"
    using arg_cong [OF assms(1), of rev] by simp
  from split_at_first [OF this] assms(2,3) show ?thesis by simp
qed

subsection \<open>Association lists and sums\<close>

lemma map_of_delete_ne: "k \<noteq> k' \<Longrightarrow> map_of (AList.delete k xs) k' = map_of xs k'"
  by (simp add: delete_conv)

lemma map_of_delete_eq [simp]: "map_of (AList.delete k xs) k = None"
  by (simp add: delete_conv)

lemma sum_list_remove1:
  fixes f :: "'a \<Rightarrow> int"
  shows "x \<in> set xs \<Longrightarrow> sum_list (map f (remove1 x xs)) = sum_list (map f xs) - f x"
  by (induction xs) auto

lemma sum_list_nonneg_int:
  fixes xs :: "int list"
  shows "(\<forall>x \<in> set xs. 0 \<le> x) \<Longrightarrow> 0 \<le> sum_list xs"
  by (induction xs) auto

lemma last_not_in_butlast: "distinct xs \<Longrightarrow> xs \<noteq> [] \<Longrightarrow> last xs \<notin> set (butlast xs)"
  by (metis append_butlast_last_id distinct_append disjoint_iff list.set_intros(1))

lemma remove1_last:
  "distinct xs \<Longrightarrow> xs \<noteq> [] \<Longrightarrow> remove1 (last xs) xs = butlast xs"
  by (metis append_butlast_last_id last_not_in_butlast remove1_append remove1.simps(2)
      append_Nil2)

end
