(* ===== verification/Database.thy ===== *)
theory Database
  imports Prelude "HOL-Library.Multiset"
begin

section \<open>The tables and the database interface (internal/storage/models.go)\<close>

text \<open>
  The rows of the five tables are records with the fields of the Go models. The database
  itself (GORM, and SQLite or Postgres below it) is not code of this repository: it is an
  argument of the model, a record of the statements that the repositories issue, over an
  abstract connection state. The locale \<open>sql_table\<close> states what the code relies on for
  one table, \<open>sql_database\<close> for all of them: a failed statement changes nothing, a
  successful one has its documented effect on the rows, unique indexes hold, a
  transaction is all or nothing. Every statement may fail at any time with \<open>DbError\<close>.

  The last section is a database in memory, with a script that says which statements
  fail; it is an instance of the interface, and the concrete examples run on it.

  Instants are stored exactly. CreatedAt is set by GORM when a row is created; the
  model writes it where the row is built.
\<close>

subsection \<open>Rows\<close>

datatype actor_kind = AgentKind | HumanKind

record actor =
  actor_id :: string
  actor_name :: string
  actor_kind :: actor_kind
  actor_created :: time

record agent_credential =
  cred_id :: string
  cred_actor :: string
  cred_label :: string
  cred_hash :: string
  cred_created :: time
  cred_revoked :: "time option"
  cred_last_used :: "time option"

record user_identity =
  ident_actor :: string
  ident_subject :: string
  ident_role :: string

record session =
  sess_id :: string
  sess_subject :: string
  sess_name :: string
  sess_role :: string
  sess_refresh :: string
  sess_expires :: time
  sess_created :: time

record tool_call =
  call_id :: string
  call_actor :: string
  call_tool :: string
  call_input :: string
  call_is_error :: bool
  call_duration_ms :: int
  call_output_size :: int
  call_output :: string
  call_truncated :: bool
  call_called_at :: time

record tables =
  tb_actors :: "actor list"
  tb_credentials :: "agent_credential list"
  tb_identities :: "user_identity list"
  tb_sessions :: "session list"
  tb_calls :: "tool_call list"

text \<open>The primary keys and unique indexes of the models.\<close>

definition uniq_actors :: "actor list \<Rightarrow> bool" where
  "uniq_actors rows \<longleftrightarrow> distinct (map actor_id rows) \<and> distinct (map actor_name rows)"

definition uniq_credentials :: "agent_credential list \<Rightarrow> bool" where
  "uniq_credentials rows \<longleftrightarrow> distinct (map cred_id rows) \<and> distinct (map cred_hash rows)"

definition uniq_identities :: "user_identity list \<Rightarrow> bool" where
  "uniq_identities rows \<longleftrightarrow> distinct (map ident_actor rows) \<and> distinct (map ident_subject rows)"

definition uniq_sessions :: "session list \<Rightarrow> bool" where
  "uniq_sessions rows \<longleftrightarrow> distinct (map sess_id rows)"

definition uniq_calls :: "tool_call list \<Rightarrow> bool" where
  "uniq_calls rows \<longleftrightarrow> distinct (map call_id rows)"

definition tables_ok :: "tables \<Rightarrow> bool" where
  "tables_ok c \<longleftrightarrow> uniq_actors (tb_actors c) \<and> uniq_credentials (tb_credentials c)
     \<and> uniq_identities (tb_identities c) \<and> uniq_sessions (tb_sessions c) \<and> uniq_calls (tb_calls c)"

lemmas uniq_defs = uniq_actors_def uniq_credentials_def uniq_identities_def uniq_sessions_def uniq_calls_def

lemma distinct_map_eq:
  "distinct (map f xs) \<Longrightarrow> x \<in> set xs \<Longrightarrow> y \<in> set xs \<Longrightarrow> f x = f y \<Longrightarrow> x = y"
  by (auto simp: distinct_map inj_on_def)

subsection \<open>Statements\<close>

datatype db_error = RecordNotFound | DbError string

record 'r sql_query =
  q_where :: "'r \<Rightarrow> bool"
  q_before :: "'r \<Rightarrow> 'r \<Rightarrow> bool"    \<comment> \<open>ORDER BY: the first row sorts strictly before the second\<close>
  q_limit :: "nat option"

definition strict_weak :: "('r \<Rightarrow> 'r \<Rightarrow> bool) \<Rightarrow> bool" where
  "strict_weak lt \<longleftrightarrow> (\<forall>a b. lt a b \<longrightarrow> \<not> lt b a) \<and> (\<forall>a b c. \<not> lt b a \<longrightarrow> \<not> lt c b \<longrightarrow> \<not> lt c a)"

lemma strict_weak_trans: "strict_weak lt \<Longrightarrow> \<not> lt b a \<Longrightarrow> \<not> lt c b \<Longrightarrow> \<not> lt c a"
  unfolding strict_weak_def by blast

lemma strict_weak_asym: "strict_weak lt \<Longrightarrow> lt a b \<Longrightarrow> \<not> lt b a"
  unfolding strict_weak_def by blast

definition limit_to :: "nat option \<Rightarrow> 'r list \<Rightarrow> 'r list" where
  "limit_to lim rows = (case lim of None \<Rightarrow> rows | Some n \<Rightarrow> take n rows)"

definition save_row :: "('r \<Rightarrow> string) \<Rightarrow> 'r \<Rightarrow> 'r list \<Rightarrow> 'r list" where
  "save_row key r rows =
     (if list_ex (\<lambda>r'. key r' = key r) rows then map (\<lambda>r'. if key r' = key r then r else r') rows
      else rows @ [r])"

lemma save_row_set: "set (save_row key r rows) = insert r {r' \<in> set rows. key r' \<noteq> key r}"
  by (auto simp: save_row_def list_ex_iff)

lemma save_row_keys: "map key (save_row key r rows) = (if key r \<in> key ` set rows then map key rows else map key rows @ [key r])"
proof -
  have "(\<exists>r' \<in> set rows. key r' = key r) \<longleftrightarrow> key r \<in> key ` set rows" by (metis image_iff)
  then show ?thesis by (auto simp: save_row_def list_ex_iff)
qed

definition answers :: "'r sql_query \<Rightarrow> 'r list \<Rightarrow> 'r list \<Rightarrow> bool" where
  "answers q rows rs \<longleftrightarrow> (\<exists>full. mset full = mset (filter (q_where q) rows)
     \<and> sorted_wrt (\<lambda>a b. \<not> q_before q b a) full \<and> rs = limit_to (q_limit q) full)"

lemma answers_subset: "answers q rows rs \<Longrightarrow> set rs \<subseteq> {r \<in> set rows. q_where q r}"
proof -
  assume "answers q rows rs"
  then obtain full where full: "mset full = mset (filter (q_where q) rows)" "rs = limit_to (q_limit q) full"
    unfolding answers_def by blast
  have "set full = {r \<in> set rows. q_where q r}" using mset_eq_setD [OF full(1)] by simp
  with full(2) show ?thesis by (auto simp: limit_to_def dest: in_set_takeD split: option.splits)
qed

record ('d, 'r) table_ops =
  sql_first :: "('r \<Rightarrow> bool) \<Rightarrow> 'd \<Rightarrow> (db_error + 'r) \<times> 'd"
  sql_find :: "'r sql_query \<Rightarrow> 'd \<Rightarrow> (db_error + 'r list) \<times> 'd"
  sql_pluck :: "('r \<Rightarrow> bool) \<Rightarrow> ('r \<Rightarrow> string) \<Rightarrow> (string \<Rightarrow> string \<Rightarrow> bool) \<Rightarrow> 'd
      \<Rightarrow> (db_error + string list) \<times> 'd"
    \<comment> \<open>SELECT DISTINCT of one column, with its ORDER BY\<close>
  sql_create :: "'r \<Rightarrow> 'd \<Rightarrow> db_error option \<times> 'd"
  sql_create_new :: "('r \<Rightarrow> string) \<Rightarrow> 'r \<Rightarrow> 'd \<Rightarrow> (db_error + int) \<times> 'd"
    \<comment> \<open>INSERT .. ON CONFLICT (column) DO NOTHING, with RowsAffected\<close>
  sql_update :: "('r \<Rightarrow> bool) \<Rightarrow> ('r \<Rightarrow> 'r) \<Rightarrow> 'd \<Rightarrow> db_error option \<times> 'd"
  sql_delete :: "('r \<Rightarrow> bool) \<Rightarrow> 'd \<Rightarrow> (db_error + int) \<times> 'd"
  sql_save :: "('r \<Rightarrow> string) \<Rightarrow> 'r \<Rightarrow> 'd \<Rightarrow> db_error option \<times> 'd"
    \<comment> \<open>gorm's Save: UPDATE of every column of the row with this primary key, and an INSERT when there is none\<close>

record 'd database =
  db_actors :: "('d, actor) table_ops"
  db_credentials :: "('d, agent_credential) table_ops"
  db_identities :: "('d, user_identity) table_ops"
  db_sessions :: "('d, session) table_ops"
  db_calls :: "('d, tool_call) table_ops"
  db_transaction :: "('d \<Rightarrow> (bool \<times> db_error option) \<times> 'd) \<Rightarrow> 'd \<Rightarrow> (bool \<times> db_error option) \<times> 'd"
    \<comment> \<open>db.Transaction; the flag is what the closure assigns\<close>
  db_less :: "string \<Rightarrow> string \<Rightarrow> bool"     \<comment> \<open>the collation of the text columns\<close>

subsection \<open>The contract\<close>

locale sql_table =
  fixes content :: "'d \<Rightarrow> 'c"
    and rows :: "'c \<Rightarrow> 'r list"
    and change :: "('r list \<Rightarrow> 'r list) \<Rightarrow> 'c \<Rightarrow> 'c"
    and uniq :: "'r list \<Rightarrow> bool"
    and t :: "('d, 'r) table_ops"
  assumes rows_change: "rows (change f c) = f (rows c)"
    and uniq_filter: "uniq rs \<Longrightarrow> uniq (filter P rs)"
    and first_found: "sql_first t P d = (Inr r, d') \<Longrightarrow>
      r \<in> set (rows (content d)) \<and> P r \<and> content d' = content d"
    and first_missing: "sql_first t P d = (Inl e, d') \<Longrightarrow> content d' = content d
      \<and> (e = RecordNotFound \<longrightarrow> (\<forall>r \<in> set (rows (content d)). \<not> P r))"
    and find_rows: "sql_find t q d = (Inr rs, d') \<Longrightarrow> strict_weak (q_before q) \<Longrightarrow>
      answers q (rows (content d)) rs"
    and find_keeps: "sql_find t q d = (res, d') \<Longrightarrow> content d' = content d"
    and pluck_values: "sql_pluck t P col lt d = (Inr vs, d') \<Longrightarrow> strict_weak lt \<Longrightarrow>
      distinct vs \<and> set vs = col ` {r \<in> set (rows (content d)). P r} \<and> sorted_wrt (\<lambda>a b. \<not> lt b a) vs"
    and pluck_keeps: "sql_pluck t P col lt d = (res1, d') \<Longrightarrow> content d' = content d"
    and create_ok: "sql_create t r d = (None, d') \<Longrightarrow>
      content d' = change (\<lambda>rs. rs @ [r]) (content d) \<and> uniq (rows (content d) @ [r])"
    and create_failed: "sql_create t r d = (Some e, d') \<Longrightarrow> content d' = content d"
    and create_new_ok: "sql_create_new t col r d = (Inr n, d') \<Longrightarrow>
      (if \<exists>r' \<in> set (rows (content d)). col r' = col r then n = 0 \<and> content d' = content d
       else n = 1 \<and> content d' = change (\<lambda>rs. rs @ [r]) (content d) \<and> uniq (rows (content d) @ [r]))"
    and create_new_failed: "sql_create_new t col r d = (Inl e, d') \<Longrightarrow> content d' = content d"
    and update_ok: "sql_update t P g d = (None, d') \<Longrightarrow>
      content d' = change (map (\<lambda>r. if P r then g r else r)) (content d)
      \<and> uniq (map (\<lambda>r. if P r then g r else r) (rows (content d)))"
    and update_failed: "sql_update t P g d = (Some e, d') \<Longrightarrow> content d' = content d"
    and delete_ok: "sql_delete t P d = (Inr n, d') \<Longrightarrow>
      content d' = change (filter (\<lambda>r. \<not> P r)) (content d)
      \<and> n = blen (filter P (rows (content d)))"
    and delete_failed: "sql_delete t P d = (Inl e, d') \<Longrightarrow> content d' = content d"
    and save_ok: "sql_save t key r d = (None, d') \<Longrightarrow>
      content d' = change (save_row key r) (content d) \<and> uniq (save_row key r (rows (content d)))"
    and save_failed: "sql_save t key r d = (Some e, d') \<Longrightarrow> content d' = content d"

locale sql_database =
  actors: sql_table content tb_actors tb_actors_update uniq_actors "db_actors db" +
  credentials: sql_table content tb_credentials tb_credentials_update uniq_credentials "db_credentials db" +
  identities: sql_table content tb_identities tb_identities_update uniq_identities "db_identities db" +
  sessions: sql_table content tb_sessions tb_sessions_update uniq_sessions "db_sessions db" +
  calls: sql_table content tb_calls tb_calls_update uniq_calls "db_calls db"
  for content :: "'d \<Rightarrow> tables" and db :: "'d database" +
  assumes commit: "db_transaction db body d = ((w, None), d') \<Longrightarrow>
      \<exists>d0 d1. content d0 = content d \<and> body d0 = ((w, None), d1) \<and> content d' = content d1"
    and rollback: "db_transaction db body d = ((w, Some e), d') \<Longrightarrow> content d' = content d"
    and less_irrefl: "\<not> db_less db s s"
    and less_trans: "db_less db s1 s2 \<Longrightarrow> db_less db s2 s3 \<Longrightarrow> db_less db s1 s3"
    and less_total: "s1 \<noteq> s2 \<Longrightarrow> db_less db s1 s2 \<or> db_less db s2 s1"

text \<open>A database that works: in a calm state no statement fails, but for the unique indexes, and the
  next state is calm again. What the service promises when nothing fails rests on it.\<close>

locale calm_table = sql_table content rows change uniq t
  for content :: "'d \<Rightarrow> 'c"
    and rows :: "'c \<Rightarrow> 'r list"
    and change :: "('r list \<Rightarrow> 'r list) \<Rightarrow> 'c \<Rightarrow> 'c"
    and uniq :: "'r list \<Rightarrow> bool"
    and t :: "('d, 'r) table_ops" +
  fixes calm :: "'d \<Rightarrow> bool"
  assumes first_calm: "sql_first t P d = (res1, d') \<Longrightarrow> calm d \<Longrightarrow> calm d' \<and> res1 \<noteq> Inl (DbError e)"
    and find_calm: "sql_find t q d = (res2, d') \<Longrightarrow> calm d \<Longrightarrow> calm d' \<and> (\<exists>rs. res2 = Inr rs)"
    and create_calm: "sql_create t r d = (res3, d') \<Longrightarrow> calm d
      \<Longrightarrow> calm d' \<and> (uniq (rows (content d) @ [r]) \<longrightarrow> res3 = None)"
    and update_calm: "sql_update t P g d = (res4, d') \<Longrightarrow> calm d
      \<Longrightarrow> calm d' \<and> (uniq (map (\<lambda>r. if P r then g r else r) (rows (content d))) \<longrightarrow> res4 = None)"
    and save_calm: "sql_save t key r d = (res5, d') \<Longrightarrow> calm d
      \<Longrightarrow> calm d' \<and> (uniq (save_row key r (rows (content d))) \<longrightarrow> res5 = None)"
    and delete_calm: "sql_delete t P d = (res6, d') \<Longrightarrow> calm d \<Longrightarrow> calm d' \<and> (\<exists>n. res6 = Inr n)"
begin

lemma found_when_calm:
  assumes "calm d" "r \<in> set (rows (content d))" "P r" "sql_first t P d = (res, d')"
  shows "calm d' \<and> content d' = content d \<and> (\<exists>x. res = Inr x \<and> x \<in> set (rows (content d)) \<and> P x)"
proof (cases res)
  case (Inl e)
  with first_missing [OF assms(4) [unfolded Inl]] first_calm [OF assms(4,1)] assms(2,3) show ?thesis
    by (cases e) auto
qed (use first_calm [OF assms(4,1)] first_found assms(4) in blast)

end

locale calm_database = sql_database content db +
  actors: calm_table content tb_actors tb_actors_update uniq_actors "db_actors db" calm +
  credentials: calm_table content tb_credentials tb_credentials_update uniq_credentials "db_credentials db" calm +
  calls: calm_table content tb_calls tb_calls_update uniq_calls "db_calls db" calm +
  sessions: calm_table content tb_sessions tb_sessions_update uniq_sessions "db_sessions db" calm
  for content :: "'d \<Rightarrow> tables" and db :: "'d database" and calm :: "'d \<Rightarrow> bool"

subsection \<open>A database in memory\<close>

record 'c mem_store =
  md_tables :: 'c
  md_faults :: "string option list"   \<comment> \<open>for each statement to come, whether it fails\<close>

type_synonym mem_db = "tables mem_store"

definition mem_empty :: mem_db where
  "mem_empty = \<lparr>md_tables = \<lparr>tb_actors = [], tb_credentials = [], tb_identities = [], tb_sessions = [],
     tb_calls = []\<rparr>, md_faults = []\<rparr>"

definition mem_statement :: "('c mem_store \<Rightarrow> (db_error + 'a) \<times> 'c mem_store) \<Rightarrow> 'c mem_store
    \<Rightarrow> (db_error + 'a) \<times> 'c mem_store" where
  "mem_statement run d =
     (case md_faults d of
        [] \<Rightarrow> run d
      | None # fs \<Rightarrow> run (d\<lparr>md_faults := fs\<rparr>)
      | Some e # fs \<Rightarrow> (Inl (DbError e), d\<lparr>md_faults := fs\<rparr>))"

definition as_error :: "(db_error + 'a) \<times> 'd \<Rightarrow> db_error option \<times> 'd" where
  "as_error x = (case x of (Inl e, d) \<Rightarrow> (Some e, d) | (Inr _, d) \<Rightarrow> (None, d))"

fun insert_before :: "('r \<Rightarrow> 'r \<Rightarrow> bool) \<Rightarrow> 'r \<Rightarrow> 'r list \<Rightarrow> 'r list" where
  "insert_before lt x [] = [x]"
| "insert_before lt x (y # ys) = (if lt y x then y # insert_before lt x ys else x # y # ys)"

definition order_rows :: "('r \<Rightarrow> 'r \<Rightarrow> bool) \<Rightarrow> 'r list \<Rightarrow> 'r list" where
  "order_rows lt rs = foldr (insert_before lt) rs []"

definition mem_write :: "('c \<Rightarrow> 'r list) \<Rightarrow> (('r list \<Rightarrow> 'r list) \<Rightarrow> 'c \<Rightarrow> 'c)
    \<Rightarrow> ('r list \<Rightarrow> bool) \<Rightarrow> ('r list \<Rightarrow> 'r list) \<Rightarrow> 'a \<Rightarrow> 'c mem_store \<Rightarrow> (db_error + 'a) \<times> 'c mem_store" where
  "mem_write rows change uniq f x d =
     (if uniq (f (rows (md_tables d))) then (Inr x, d\<lparr>md_tables := change f (md_tables d)\<rparr>)
      else (Inl (DbError ''UNIQUE constraint failed''), d))"

definition mem_table :: "('c \<Rightarrow> 'r list) \<Rightarrow> (('r list \<Rightarrow> 'r list) \<Rightarrow> 'c \<Rightarrow> 'c)
    \<Rightarrow> ('r list \<Rightarrow> bool) \<Rightarrow> ('c mem_store, 'r) table_ops" where
  "mem_table rows change uniq =
     \<lparr>sql_first = (\<lambda>P. mem_statement (\<lambda>d.
              case filter P (rows (md_tables d)) of [] \<Rightarrow> (Inl RecordNotFound, d) | r # _ \<Rightarrow> (Inr r, d))),
          sql_find = (\<lambda>q. mem_statement (\<lambda>d.
              (Inr (limit_to (q_limit q) (order_rows (q_before q) (filter (q_where q) (rows (md_tables d))))), d))),
          sql_pluck = (\<lambda>P col lt. mem_statement (\<lambda>d.
              (Inr (order_rows lt (remdups (map col (filter P (rows (md_tables d)))))), d))),
          sql_create = (\<lambda>r d. as_error (mem_statement (mem_write rows change uniq (\<lambda>rs. rs @ [r]) ()) d)),
          sql_create_new = (\<lambda>col r. mem_statement (\<lambda>d.
              if list_ex (\<lambda>r'. col r' = col r) (rows (md_tables d)) then (Inr 0, d)
              else mem_write rows change uniq (\<lambda>rs. rs @ [r]) 1 d)),
          sql_update = (\<lambda>P g d. as_error (mem_statement (mem_write rows change uniq (map (\<lambda>r. if P r then g r else r)) ()) d)),
          sql_delete = (\<lambda>P. mem_statement (\<lambda>d.
              (Inr (blen (filter P (rows (md_tables d)))), d\<lparr>md_tables := change (filter (\<lambda>r. \<not> P r)) (md_tables d)\<rparr>))),
          sql_save = (\<lambda>key r d. as_error (mem_statement (mem_write rows change uniq (save_row key r) ()) d))\<rparr>"

definition mem_database :: "mem_db database" where
  "mem_database =
     \<lparr>db_actors = mem_table tb_actors tb_actors_update uniq_actors,
      db_credentials = mem_table tb_credentials tb_credentials_update uniq_credentials,
      db_identities = mem_table tb_identities tb_identities_update uniq_identities,
      db_sessions = mem_table tb_sessions tb_sessions_update uniq_sessions,
      db_calls = mem_table tb_calls tb_calls_update uniq_calls,
      db_transaction = (\<lambda>body d. case body d of
          ((w, None), d') \<Rightarrow> ((w, None), d')
        | ((w, Some e), d') \<Rightarrow> ((w, Some e), d'\<lparr>md_tables := md_tables d\<rparr>)),
      db_less = (\<lambda>s s'. s < s')\<rparr>"

lemma insert_before_mset: "mset (insert_before lt x xs) = add_mset x (mset xs)"
  by (induction xs) auto

lemma order_rows_mset: "mset (order_rows lt rs) = mset rs"
  by (induction rs) (simp_all add: order_rows_def insert_before_mset)

lemma insert_before_sorted:
  assumes "strict_weak lt" "sorted_wrt (\<lambda>a b. \<not> lt b a) xs"
  shows "sorted_wrt (\<lambda>a b. \<not> lt b a) (insert_before lt x xs)"
  using assms(2)
proof (induction xs)
  case (Cons y ys)
  have "set (insert_before lt x ys) = insert x (set ys)"
    by (metis insert_before_mset set_mset_add_mset_insert set_mset_mset)
  moreover have "\<not> lt x y" if "lt y x" using assms(1) that by (rule strict_weak_asym)
  moreover have "\<not> lt z x" if "\<not> lt y x" "z \<in> set ys" for z
    using strict_weak_trans [OF assms(1) that(1)] Cons.prems that(2) by simp
  ultimately show ?case using Cons by simp
qed simp

lemma order_rows_sorted: "strict_weak lt \<Longrightarrow> sorted_wrt (\<lambda>a b. \<not> lt b a) (order_rows lt rs)"
  by (induction rs) (simp_all add: order_rows_def insert_before_sorted)

lemma order_rows_distinct: "distinct (order_rows lt rs) \<longleftrightarrow> distinct rs"
  by (metis distinct_count_atmost_1 order_rows_mset set_mset_mset)

lemma order_rows_set: "set (order_rows lt rs) = set rs"
  by (metis order_rows_mset set_mset_mset)

lemma mem_statement_cases:
  assumes "mem_statement run d = (res, d')"
  obtains d0 where "md_tables d0 = md_tables d" "run d0 = (res, d')"
  | e where "md_tables d' = md_tables d" "res = Inl (DbError e)"
proof (cases "md_faults d")
  case Nil
  with assms have "run d = (res, d')" by (simp add: mem_statement_def)
  then show thesis by (rule that(1) [OF refl])
next
  case (Cons x fs)
  show thesis
  proof (cases x)
    case None
    with assms Cons have "run (d\<lparr>md_faults := fs\<rparr>) = (res, d')" by (simp add: mem_statement_def)
    then show thesis by (rule that(1) [rotated]) simp
  next
    case (Some e)
    with assms Cons have "res = Inl (DbError e)" "d' = d\<lparr>md_faults := fs\<rparr>"
      by (simp_all add: mem_statement_def)
    then show thesis by (intro that(2)) simp_all
  qed
qed

lemma mem_write_result:
  assumes "mem_write rows change uniq f x d = (res, d')"
  shows "(case res of
      Inr y \<Rightarrow> y = x \<and> md_tables d' = change f (md_tables d) \<and> uniq (f (rows (md_tables d)))
    | Inl e \<Rightarrow> e \<noteq> RecordNotFound \<and> md_tables d' = md_tables d)"
  using assms by (auto simp: mem_write_def split: if_splits)

lemma as_error_None: "as_error x = (None, d') \<longleftrightarrow> (\<exists>y. x = (Inr y, d'))"
  by (auto simp: as_error_def split: prod.splits sum.splits)

lemma as_error_Some: "as_error x = (Some e, d') \<longleftrightarrow> x = (Inl e, d')"
  by (auto simp: as_error_def split: prod.splits sum.splits)

lemma order_rows_answers: "strict_weak (q_before q) \<Longrightarrow>
    answers q rs (limit_to (q_limit q) (order_rows (q_before q) (filter (q_where q) rs)))"
  unfolding answers_def
  by (rule exI [of _ "order_rows (q_before q) (filter (q_where q) rs)"])
    (simp add: order_rows_mset order_rows_sorted)

text \<open>One law at a time; \<open>mem_statement_cases\<close> separates the scripted failure from the statement.\<close>

lemma mem_first_found:
  assumes "sql_first (mem_table rows change uniq) P d = (Inr r, d')"
  shows "r \<in> set (rows (md_tables d)) \<and> P r \<and> md_tables d' = md_tables d"
  using assms unfolding mem_table_def table_ops.select_convs
  by (elim mem_statement_cases) (auto simp: filter_eq_Cons_iff split: list.splits)

lemma mem_first_missing:
  assumes "sql_first (mem_table rows change uniq) P d = (Inl e, d')"
  shows "md_tables d' = md_tables d \<and> (e = RecordNotFound \<longrightarrow> (\<forall>r \<in> set (rows (md_tables d)). \<not> P r))"
  using assms unfolding mem_table_def table_ops.select_convs
  by (elim mem_statement_cases) (auto simp: filter_empty_conv split: list.splits)

lemma mem_find:
  assumes "sql_find (mem_table rows change uniq) q d = (res, d')"
  shows "md_tables d' = md_tables d
    \<and> (\<forall>rs. res = Inr rs \<longrightarrow> strict_weak (q_before q) \<longrightarrow> answers q (rows (md_tables d)) rs)"
  using assms unfolding mem_table_def table_ops.select_convs
  by (elim mem_statement_cases) (auto simp: order_rows_answers)

lemma mem_pluck:
  assumes "sql_pluck (mem_table rows change uniq) P col lt d = (res, d')"
  shows "md_tables d' = md_tables d \<and> (\<forall>vs. res = Inr vs \<longrightarrow> strict_weak lt \<longrightarrow>
    distinct vs \<and> set vs = col ` {r \<in> set (rows (md_tables d)). P r} \<and> sorted_wrt (\<lambda>a b. \<not> lt b a) vs)"
  using assms unfolding mem_table_def table_ops.select_convs
  by (elim mem_statement_cases) (auto simp: order_rows_distinct order_rows_set order_rows_sorted)

lemma mem_create:
  assumes "sql_create (mem_table rows change uniq) r d = (res, d')"
  shows "md_tables d' = (if res = None then change (\<lambda>rs. rs @ [r]) (md_tables d) else md_tables d)
    \<and> (res = None \<longrightarrow> uniq (rows (md_tables d) @ [r]))"
  using assms unfolding mem_table_def table_ops.select_convs
  by (cases res) (auto simp: as_error_None as_error_Some elim!: mem_statement_cases dest!: mem_write_result)

lemma mem_create_new:
  assumes "sql_create_new (mem_table rows change uniq) col r d = (res, d')"
  shows "case res of Inl e \<Rightarrow> md_tables d' = md_tables d
    | Inr n \<Rightarrow> if \<exists>r' \<in> set (rows (md_tables d)). col r' = col r then n = 0 \<and> md_tables d' = md_tables d
       else n = 1 \<and> md_tables d' = change (\<lambda>rs. rs @ [r]) (md_tables d) \<and> uniq (rows (md_tables d) @ [r])"
  using assms unfolding mem_table_def table_ops.select_convs
  by (elim mem_statement_cases; cases res)
    (auto simp: list_ex_iff dest!: mem_write_result split: if_splits)

lemma mem_update:
  assumes "sql_update (mem_table rows change uniq) P g d = (res, d')"
  shows "md_tables d' = (if res = None then change (map (\<lambda>r. if P r then g r else r)) (md_tables d)
      else md_tables d)
    \<and> (res = None \<longrightarrow> uniq (map (\<lambda>r. if P r then g r else r) (rows (md_tables d))))"
  using assms unfolding mem_table_def table_ops.select_convs
  by (cases res) (auto simp: as_error_None as_error_Some elim!: mem_statement_cases dest!: mem_write_result)

lemma mem_delete:
  assumes "sql_delete (mem_table rows change uniq) P d = (res, d')"
  shows "case res of Inl e \<Rightarrow> md_tables d' = md_tables d
    | Inr n \<Rightarrow> md_tables d' = change (filter (\<lambda>r. \<not> P r)) (md_tables d)
        \<and> n = blen (filter P (rows (md_tables d)))"
  using assms unfolding mem_table_def table_ops.select_convs
  by (elim mem_statement_cases) auto

lemma mem_save:
  assumes "sql_save (mem_table rows change uniq) key r d = (res, d')"
  shows "md_tables d' = (if res = None then change (save_row key r) (md_tables d) else md_tables d)
    \<and> (res = None \<longrightarrow> uniq (save_row key r (rows (md_tables d))))"
  using assms unfolding mem_table_def table_ops.select_convs
  by (cases res) (auto simp: as_error_None as_error_Some elim!: mem_statement_cases dest!: mem_write_result)

lemmas mem_laws = mem_first_found mem_first_missing mem_find mem_pluck mem_create mem_create_new
  mem_update mem_delete mem_save

lemma mem_table_laws:
  assumes "\<And>f c. rows (change f c) = f (rows c)" "\<And>P rs. uniq rs \<Longrightarrow> uniq (filter P rs)"
  shows "sql_table md_tables rows change uniq (mem_table rows change uniq)"
proof (unfold_locales, goal_cases)
  case (4 P d e d') then show ?case by (rule mem_first_missing)
next
  case (10 r d e d') then show ?case by (auto dest: mem_create)
next
  case (11 col r d n d') then show ?case by (drule_tac mem_create_new) simp
next
  case (12 col r d e d') then show ?case by (drule_tac mem_create_new) simp
qed (use assms in \<open>auto dest: mem_first_found mem_find mem_pluck mem_create mem_update mem_delete mem_save\<close>)

text \<open>Every table of the database in memory meets the contract, and so does the whole.\<close>

lemma uniq_filter_rows:
  "uniq_actors as \<Longrightarrow> uniq_actors (filter P1 as)"
  "uniq_credentials cs \<Longrightarrow> uniq_credentials (filter P2 cs)"
  "uniq_identities is \<Longrightarrow> uniq_identities (filter P3 is)"
  "uniq_sessions ss \<Longrightarrow> uniq_sessions (filter P4 ss)"
  "uniq_calls ts \<Longrightarrow> uniq_calls (filter P5 ts)"
  by (simp_all add: uniq_defs distinct_map_filter)

lemma mem_tables:
  "sql_table md_tables tb_actors tb_actors_update uniq_actors (db_actors mem_database)"
  "sql_table md_tables tb_credentials tb_credentials_update uniq_credentials (db_credentials mem_database)"
  "sql_table md_tables tb_identities tb_identities_update uniq_identities (db_identities mem_database)"
  "sql_table md_tables tb_sessions tb_sessions_update uniq_sessions (db_sessions mem_database)"
  "sql_table md_tables tb_calls tb_calls_update uniq_calls (db_calls mem_database)"
  unfolding mem_database_def database.select_convs
  by (rule mem_table_laws; simp add: uniq_filter_rows)+

lemma mem_database_axioms: "sql_database_axioms md_tables mem_database"
proof
  fix body d w d'
  assume "db_transaction mem_database body d = ((w, None), d')"
  then show "\<exists>d0 d1. md_tables d0 = md_tables d \<and> body d0 = ((w, None), d1) \<and> md_tables d' = md_tables d1"
    by (auto simp: mem_database_def split: prod.splits option.splits intro: exI [of _ d])
qed (auto simp: mem_database_def split: prod.splits option.splits)

interpretation mem: sql_database md_tables mem_database
  by (intro sql_database.intro mem_tables mem_database_axioms)

text \<open>Without scripted failures the database in memory is calm.\<close>

definition mem_calm :: "'c mem_store \<Rightarrow> bool" where
  "mem_calm d \<longleftrightarrow> md_faults d = []"

lemma mem_calm_laws:
  assumes "sql_table md_tables rows change uniq (mem_table rows change uniq)"
  shows "calm_table md_tables rows change uniq (mem_table rows change uniq) mem_calm"
  by (rule calm_table.intro [OF assms], unfold_locales)
    (auto simp: mem_calm_def mem_table_def mem_statement_def mem_write_def as_error_def split: list.splits if_splits)

interpretation calm: calm_database md_tables mem_database mem_calm
proof (intro calm_database.intro mem.sql_database_axioms)
  show "calm_table md_tables tb_actors tb_actors_update uniq_actors (db_actors mem_database) mem_calm"
    using mem_tables(1) unfolding mem_database_def database.select_convs by (rule mem_calm_laws)
  show "calm_table md_tables tb_credentials tb_credentials_update uniq_credentials (db_credentials mem_database) mem_calm"
    using mem_tables(2) unfolding mem_database_def database.select_convs by (rule mem_calm_laws)
  show "calm_table md_tables tb_calls tb_calls_update uniq_calls (db_calls mem_database) mem_calm"
    using mem_tables(5) unfolding mem_database_def database.select_convs by (rule mem_calm_laws)
  show "calm_table md_tables tb_sessions tb_sessions_update uniq_sessions (db_sessions mem_database) mem_calm"
    using mem_tables(4) unfolding mem_database_def database.select_convs by (rule mem_calm_laws)
qed

text \<open>Evaluation of statements on a concrete database.\<close>

lemmas mem_eval = mem_database_def mem_table_def mem_statement_def mem_write_def as_error_def
  order_rows_def limit_to_def uniq_defs

end
