(* ===== verification/Open_Db.thy ===== *)
theory Open_Db
  imports Database
begin

section \<open>Opening and migrating the database (internal/storage/db.go, db_postgres.go, db_sqlite.go)\<close>

text \<open>
  Open with its choice of the backend, the steps of both openers, the advisory lock around
  the migration, and the backfill of the columns that were renamed. gorm.Open, AutoMigrate
  and the statements of the driver are arguments that say whether they fail; the trace of the
  steps is part of the result. The rows of tool_calls are modelled with the columns of both
  schemas, which may be NULL, and the four UPDATE statements of the backfill are written
  out on them.
\<close>

subsection \<open>The backend\<close>

definition has_prefix :: "string \<Rightarrow> string \<Rightarrow> bool" where
  "has_prefix s p \<longleftrightarrow> take (length p) s = p"

definition is_postgres_dsn :: "string \<Rightarrow> bool" where
  "is_postgres_dsn dsn \<longleftrightarrow> has_prefix dsn ''postgres://'' \<or> has_prefix dsn ''postgresql://''"

datatype open_step =
  MkdirAll string
| GormOpenSqlite string
| GormOpenPostgres string
| Pragma string
| PooledHandle
| CheckoutConn
| Lock int
| AutoMigrate
| Backfill
| Unlock int
| CloseConn

datatype open_error = StepFailed open_step string

text \<open>Steps run one after the other until one fails; \<open>fails\<close> says what each of them answers.\<close>

fun run_steps :: "(open_step \<Rightarrow> string option) \<Rightarrow> open_step list \<Rightarrow> open_error option \<times> open_step list" where
  "run_steps fails [] = (None, [])"
| "run_steps fails (x # xs) =
     (case fails x of
        Some e \<Rightarrow> (Some (StepFailed x e), [x])
      | None \<Rightarrow> (case run_steps fails xs of (r, tr) \<Rightarrow> (r, x # tr)))"

text \<open>\<open>dir\<close> is filepath.Dir of the file.\<close>

definition open_sqlite :: "(open_step \<Rightarrow> string option) \<Rightarrow> (string \<Rightarrow> string) \<Rightarrow> string
    \<Rightarrow> open_error option \<times> open_step list" where
  "open_sqlite fails dir dsn = run_steps fails
     ((if dsn \<noteq> '':memory:'' \<and> dir dsn \<noteq> ''.'' \<and> dir dsn \<noteq> [] then [MkdirAll (dir dsn)] else [])
      @ [GormOpenSqlite dsn, Pragma ''PRAGMA busy_timeout = 5000'', Pragma ''PRAGMA journal_mode = WAL''])"

definition open_postgres :: "(open_step \<Rightarrow> string option) \<Rightarrow> string \<Rightarrow> open_error option \<times> open_step list" where
  "open_postgres fails dsn = run_steps fails [GormOpenPostgres dsn]"

definition migration_lock_key :: int where
  "migration_lock_key = 87430002"

text \<open>The deferred unlock and close run after the function on every path that reached them; a failed
  unlock is ignored.\<close>

definition with_migration_lock :: "(open_step \<Rightarrow> string option) \<Rightarrow> (open_error option \<times> open_step list)
    \<Rightarrow> open_error option \<times> open_step list" where
  "with_migration_lock fails fn =
     (case run_steps fails [PooledHandle, CheckoutConn] of
        (Some e, tr) \<Rightarrow> (Some e, tr)
      | (None, tr) \<Rightarrow>
          (case run_steps fails [Lock migration_lock_key] of
             (Some e, tr') \<Rightarrow> (Some e, tr @ tr' @ [CloseConn])
           | (None, tr') \<Rightarrow> (fst fn, tr @ tr' @ snd fn @ [Unlock migration_lock_key, CloseConn])))"

definition migrate :: "(open_step \<Rightarrow> string option) \<Rightarrow> open_error option \<times> open_step list" where
  "migrate fails = run_steps fails [AutoMigrate, Backfill]"

definition open_db :: "(open_step \<Rightarrow> string option) \<Rightarrow> (string \<Rightarrow> string) \<Rightarrow> string
    \<Rightarrow> open_error option \<times> open_step list" where
  "open_db fails dir dsn =
     (case (if is_postgres_dsn dsn then open_postgres fails dsn else open_sqlite fails dir dsn) of
        (Some e, tr) \<Rightarrow> (Some e, tr)
      | (None, tr) \<Rightarrow>
          (case (if is_postgres_dsn dsn then with_migration_lock fails (migrate fails) else migrate fails) of
             (r, tr') \<Rightarrow> (r, tr @ tr')))"

lemma run_steps_trace: "set (snd (run_steps fails xs)) \<subseteq> set xs"
  by (induction xs) (auto split: option.splits prod.splits)

lemma run_steps_ok: "fst (run_steps fails xs) = None \<Longrightarrow> snd (run_steps fails xs) = xs"
  by (induction xs) (auto split: option.splits prod.splits)

text \<open>On Postgres the schema is touched only between the lock and the unlock, which is reached however
  the migration ends.\<close>

lemma migration_under_lock:
  assumes "is_postgres_dsn dsn" "open_db fails dir dsn = (res, tr)" "AutoMigrate \<in> set tr \<or> Backfill \<in> set tr"
  shows "\<exists>before during. tr = before @ Lock migration_lock_key # during @ [Unlock migration_lock_key, CloseConn]
    \<and> AutoMigrate \<notin> set before \<and> Backfill \<notin> set before"
proof -
  let ?opened = "open_postgres fails dsn" and ?handle = "run_steps fails [PooledHandle, CheckoutConn]"
    and ?lock = "run_steps fails [Lock migration_lock_key]"
  have out: "AutoMigrate \<notin> set (snd ?opened)" "Backfill \<notin> set (snd ?opened)"
    "AutoMigrate \<notin> set (snd ?handle)" "Backfill \<notin> set (snd ?handle)"
    "AutoMigrate \<notin> set (snd ?lock)" "Backfill \<notin> set (snd ?lock)"
    unfolding open_postgres_def using run_steps_trace by fastforce+
  have ok: "fst ?opened = None" "fst ?handle = None" "fst ?lock = None"
    using assms out
    by (auto simp: open_db_def with_migration_lock_def split: option.splits prod.splits)
  then have "snd ?lock = [Lock migration_lock_key]" using run_steps_ok by metis
  with assms(1,2) ok have "tr = snd ?opened @ snd ?handle @ Lock migration_lock_key # snd (migrate fails)
      @ [Unlock migration_lock_key, CloseConn]"
    by (auto simp: open_db_def with_migration_lock_def split: option.splits prod.splits)
  with out show ?thesis by (intro exI [of _ "snd ?opened @ snd ?handle"] exI [of _ "snd (migrate fails)"]) auto
qed

subsection \<open>The backfill\<close>

text \<open>A row of tool_calls while both schemas coexist; None is NULL.\<close>

record legacy_row =
  lr_input :: "string option"
  lr_output :: "string option"
  lr_called_at :: "time option"
  lr_is_error :: bool
  lr_args :: "string option"
  lr_preview :: "string option"
  lr_created_at :: "time option"
  lr_status :: "string option"

definition blank :: "string option \<Rightarrow> bool" where
  "blank x \<longleftrightarrow> x = None \<or> x = Some []"

text \<open>What the SET and the WHERE of a statement make of one column of one row.\<close>

definition filled_text :: "string option \<Rightarrow> string option \<Rightarrow> string option" where
  "filled_text new_value old_value = (if blank new_value \<and> old_value \<noteq> None then old_value else new_value)"

definition filled_time :: "time option \<Rightarrow> time option \<Rightarrow> time option" where
  "filled_time new_value old_value = (if new_value = None \<and> old_value \<noteq> None then old_value else new_value)"

definition filled_flag :: "bool \<Rightarrow> string option \<Rightarrow> bool" where
  "filled_flag new_value status = (if status \<noteq> None then status = Some ''error'' else new_value)"

definition fill_input :: "legacy_row \<Rightarrow> legacy_row" where
  "fill_input r = r\<lparr>lr_input := filled_text (lr_input r) (lr_args r)\<rparr>"

definition fill_output :: "legacy_row \<Rightarrow> legacy_row" where
  "fill_output r = r\<lparr>lr_output := filled_text (lr_output r) (lr_preview r)\<rparr>"

definition fill_called_at :: "legacy_row \<Rightarrow> legacy_row" where
  "fill_called_at r = r\<lparr>lr_called_at := filled_time (lr_called_at r) (lr_created_at r)\<rparr>"

definition fill_is_error :: "legacy_row \<Rightarrow> legacy_row" where
  "fill_is_error r = r\<lparr>lr_is_error := filled_flag (lr_is_error r) (lr_status r)\<rparr>"

text \<open>The statements in their order, each guarded by the old column; \<open>fault n\<close> is the error of the
  statement number \<open>n\<close>, which ends the backfill.\<close>

definition backfill_updates :: "(string \<times> (legacy_row \<Rightarrow> legacy_row)) list" where
  "backfill_updates = [(''args'', fill_input), (''response_preview'', fill_output),
     (''created_at'', fill_called_at), (''status'', fill_is_error)]"

fun run_updates :: "(string \<Rightarrow> bool) \<Rightarrow> (nat \<Rightarrow> string option) \<Rightarrow> (string \<times> (legacy_row \<Rightarrow> legacy_row)) list
    \<Rightarrow> legacy_row list \<Rightarrow> string option \<times> legacy_row list" where
  "run_updates has_column fault [] rows = (None, rows)"
| "run_updates has_column fault ((col, f) # us) rows =
     (if \<not> has_column col then run_updates has_column (\<lambda>n. fault (Suc n)) us rows
      else case fault 0 of
        Some e \<Rightarrow> (Some e, rows)
      | None \<Rightarrow> run_updates has_column (\<lambda>n. fault (Suc n)) us (map f rows))"

definition backfill_tool_call_rename :: "(string \<Rightarrow> bool) \<Rightarrow> (nat \<Rightarrow> string option) \<Rightarrow> legacy_row list
    \<Rightarrow> string option \<times> legacy_row list" where
  "backfill_tool_call_rename has_column fault rows = run_updates has_column fault backfill_updates rows"

text \<open>The updates as functions of a row, and the complete backfill of a row.\<close>

definition if_column :: "(string \<Rightarrow> bool) \<Rightarrow> string \<times> (legacy_row \<Rightarrow> legacy_row) \<Rightarrow> legacy_row \<Rightarrow> legacy_row" where
  "if_column has_column u = (if has_column (fst u) then snd u else id)"

definition apply_updates :: "(string \<Rightarrow> bool) \<Rightarrow> (string \<times> (legacy_row \<Rightarrow> legacy_row)) list \<Rightarrow> legacy_row \<Rightarrow> legacy_row" where
  "apply_updates has_column us r = foldl (\<lambda>r u. if_column has_column u r) r us"

definition backfilled :: "(string \<Rightarrow> bool) \<Rightarrow> legacy_row \<Rightarrow> legacy_row" where
  "backfilled has_column = apply_updates has_column backfill_updates"

text \<open>Each statement writes one field, from fields that no other statement writes.\<close>

lemmas fill_fields = fill_input_def fill_output_def fill_called_at_def fill_is_error_def

lemma filled_again [simp]:
  "filled_text (filled_text a b) b = filled_text a b" "filled_time (filled_time t u) u = filled_time t u"
  "filled_flag (filled_flag f s) s = filled_flag f s"
  by (auto simp: filled_text_def filled_time_def filled_flag_def)

lemma fill_commute:
  "fill_input (fill_output r) = fill_output (fill_input r)"
  "fill_input (fill_called_at r) = fill_called_at (fill_input r)"
  "fill_input (fill_is_error r) = fill_is_error (fill_input r)"
  "fill_output (fill_called_at r) = fill_called_at (fill_output r)"
  "fill_output (fill_is_error r) = fill_is_error (fill_output r)"
  "fill_called_at (fill_is_error r) = fill_is_error (fill_called_at r)"
  by (simp_all add: fill_fields)

lemma fill_idem:
  "fill_input (fill_input r) = fill_input r" "fill_output (fill_output r) = fill_output r"
  "fill_called_at (fill_called_at r) = fill_called_at r" "fill_is_error (fill_is_error r) = fill_is_error r"
  by (simp_all add: fill_fields)

lemma updates_commute:
  "u \<in> set backfill_updates \<Longrightarrow> v \<in> set backfill_updates \<Longrightarrow> if_column h u (if_column h v r) = if_column h v (if_column h u r)"
  by (auto simp: backfill_updates_def if_column_def fill_commute)

lemma updates_idem: "u \<in> set backfill_updates \<Longrightarrow> if_column h u (if_column h u r) = if_column h u r"
  by (auto simp: backfill_updates_def if_column_def fill_idem)

lemma apply_absorbs:
  "u \<in> set us \<Longrightarrow> set us \<subseteq> set backfill_updates \<Longrightarrow> apply_updates h us (if_column h u r) = apply_updates h us r"
proof (induction us arbitrary: r)
  case (Cons v us)
  show ?case
  proof (cases "u = v")
    case False
    with Cons have "apply_updates h us (if_column h u (if_column h v r)) = apply_updates h us (if_column h v r)" by simp
    with Cons.prems False updates_commute [of u v h r] show ?thesis by (auto simp: apply_updates_def)
  qed (use Cons.prems in \<open>simp add: apply_updates_def updates_idem\<close>)
qed simp

lemma run_updates_absorbed:
  assumes "run_updates h fault us rows = (res, rows')" "set us \<subseteq> set backfill_updates"
  shows "map (backfilled h) rows' = map (backfilled h) rows"
  using assms
proof (induction us arbitrary: fault rows)
  case (Cons u us)
  obtain col f where u: "u = (col, f)" by fastforce
  have absorb: "backfilled h (if_column h u r) = backfilled h r" for r
    unfolding backfilled_def using Cons.prems(2) by (intro apply_absorbs) auto
  show ?case
  proof (cases "h col \<and> fault 0 = None")
    case True
    with Cons.prems(1) u have "run_updates h (\<lambda>n. fault (Suc n)) us (map (if_column h u) rows) = (res, rows')"
      by (simp add: if_column_def)
    from Cons.IH [OF this] Cons.prems(2) absorb show ?thesis by simp
  next
    case False
    with Cons.prems u Cons.IH [of "\<lambda>n. fault (Suc n)" rows] show ?thesis by (auto split: if_splits)
  qed
qed simp

lemma run_updates_succeeds: "run_updates h (\<lambda>_. None) us rows = (None, map (apply_updates h us) rows)"
proof (induction us arbitrary: rows)
  case (Cons u us)
  obtain col f where u: "u = (col, f)" by fastforce
  with Cons show ?case by (simp add: apply_updates_def if_column_def comp_def)
next
  case Nil
  have "apply_updates h [] = id" by (rule ext) (simp add: apply_updates_def)
  then show ?case by simp
qed

lemma backfill_succeeds:
  "backfill_tool_call_rename h (\<lambda>_. None) rows = (None, map (backfilled h) rows)"
  by (simp add: backfill_tool_call_rename_def backfilled_def run_updates_succeeds)

lemma if_column_record:
  "if_column h (c, fill_input) r = r\<lparr>lr_input := (if h c then filled_text (lr_input r) (lr_args r) else lr_input r)\<rparr>"
  "if_column h (c, fill_output) r = r\<lparr>lr_output := (if h c then filled_text (lr_output r) (lr_preview r) else lr_output r)\<rparr>"
  "if_column h (c, fill_called_at) r
     = r\<lparr>lr_called_at := (if h c then filled_time (lr_called_at r) (lr_created_at r) else lr_called_at r)\<rparr>"
  "if_column h (c, fill_is_error) r = r\<lparr>lr_is_error := (if h c then filled_flag (lr_is_error r) (lr_status r) else lr_is_error r)\<rparr>"
  by (simp_all add: if_column_def fill_fields)

lemma filled_text_if: "(if h then filled_text new old else new) = (if h \<and> blank new \<and> old \<noteq> None then old else new)"
  by (auto simp: filled_text_def)

lemma filled_time_if: "(if h then filled_time new old else new) = (if h \<and> new = None then old else new)"
  by (auto simp: filled_time_def)

lemma filled_flag_if:
  "(if h then filled_flag new status else new) = (if h \<and> status \<noteq> None then status = Some ''error'' else new)"
  by (auto simp: filled_flag_def)

lemma backfilled_columns:
  "backfilled h r = r\<lparr>
     lr_input := (if h ''args'' \<and> blank (lr_input r) \<and> lr_args r \<noteq> None then lr_args r else lr_input r),
     lr_output := (if h ''response_preview'' \<and> blank (lr_output r) \<and> lr_preview r \<noteq> None then lr_preview r else lr_output r),
     lr_called_at := (if h ''created_at'' \<and> lr_called_at r = None then lr_created_at r else lr_called_at r),
     lr_is_error := (if h ''status'' \<and> lr_status r \<noteq> None then lr_status r = Some ''error'' else lr_is_error r)\<rparr>"
  unfolding backfilled_def apply_updates_def backfill_updates_def
  by (cases r) (simp only: foldl.simps if_column_record legacy_row.select_convs legacy_row.update_convs filled_text_if filled_time_if filled_flag_if)

subsection \<open>Properties\<close>

text \<open>C39: the backfill can be interrupted and repeated. Wherever a run stops on an error, a complete run
  after it leaves the rows that one complete run would have left at first; so a second
  complete run changes nothing. A complete run is known column by column: a new text column
  that is filled stays, and an empty one takes the old value, if the old column exists and
  is not NULL; called_at likewise takes created_at only where it is NULL; is_error is
  rewritten from the status wherever a status is stored, filled or not; the old columns stay.\<close>

theorem backfill_is_resumable:
  assumes "backfill_tool_call_rename has_column fault rows = (res, rows1)"
    "backfill_tool_call_rename has_column (\<lambda>_. None) rows1 = (res2, rows2)"
  shows "res2 = None \<and> backfill_tool_call_rename has_column (\<lambda>_. None) rows = (None, rows2)
    \<and> backfill_tool_call_rename has_column (\<lambda>_. None) rows2 = (None, rows2)
    \<and> rows2 = map (\<lambda>r. r\<lparr>
        lr_input := (if has_column ''args'' \<and> blank (lr_input r) \<and> lr_args r \<noteq> None then lr_args r else lr_input r),
        lr_output := (if has_column ''response_preview'' \<and> blank (lr_output r) \<and> lr_preview r \<noteq> None then lr_preview r
                      else lr_output r),
        lr_called_at := (if has_column ''created_at'' \<and> lr_called_at r = None then lr_created_at r else lr_called_at r),
        lr_is_error := (if has_column ''status'' \<and> lr_status r \<noteq> None then lr_status r = Some ''error''
                        else lr_is_error r)\<rparr>) rows"
proof -
  have rows2: "rows2 = map (backfilled has_column) rows"
    using assms(2) run_updates_absorbed [OF assms(1) [unfolded backfill_tool_call_rename_def]]
    by (simp add: backfill_succeeds)
  have "map (backfilled has_column) rows2 = rows2"
    using run_updates_absorbed [of has_column "\<lambda>_. None" backfill_updates rows None rows2]
      backfill_succeeds [of has_column rows] by (simp add: rows2 backfill_tool_call_rename_def)
  with assms(2) show ?thesis by (simp add: backfill_succeeds rows2 backfilled_columns)
qed

definition example_legacy :: legacy_row where
  "example_legacy = \<lparr>lr_input = Some [], lr_output = None, lr_called_at = None, lr_is_error = False,
     lr_args = Some ''{}'', lr_preview = Some ''out'', lr_created_at = Some 5, lr_status = Some ''error''\<rparr>"

theorem backfill_is_resumable_witness:
  "let half = backfill_tool_call_rename (\<lambda>_. True) (\<lambda>n. if n = 1 then Some ''connection lost'' else None) [example_legacy]
   in half = (Some ''connection lost'', [example_legacy\<lparr>lr_input := Some ''{}''\<rparr>])
      \<and> backfill_tool_call_rename (\<lambda>_. True) (\<lambda>_. None) (snd half) = (None, [example_legacy\<lparr>lr_input := Some ''{}'',
          lr_output := Some ''out'', lr_called_at := Some 5, lr_is_error := True\<rparr>])"
proof -
  let ?h = "\<lambda>_ :: string. True"
  have half: "backfill_tool_call_rename ?h (\<lambda>n. if n = 1 then Some ''connection lost'' else None) [example_legacy]
      = (Some ''connection lost'', [example_legacy\<lparr>lr_input := Some ''{}''\<rparr>])"
    by (simp add: backfill_tool_call_rename_def backfill_updates_def fill_input_def filled_text_def blank_def example_legacy_def)
  obtain res2 rows2 where full: "backfill_tool_call_rename ?h (\<lambda>_. None) [example_legacy\<lparr>lr_input := Some ''{}''\<rparr>]
      = (res2, rows2)" by fastforce
  from backfill_is_resumable [OF half full] half full show ?thesis by (simp add: Let_def example_legacy_def blank_def)
qed

end
