(* ===== verification/Utf8.thy ===== *)
theory Utf8
  imports Prelude
begin

section \<open>UTF-8 as Go decodes it, and the two routines that cut at a rune boundary\<close>

text \<open>
  Go's unicode/utf8 decoders, the trimming of strings.TrimSpace, and on top of them
  cutToUTF8Boundary of internal/tools/fetch/fetch.go and TruncateUTF8 of
  internal/recorder/recorder.go. A rune unit (\<open>is_rune\<close>) is one complete, valid
  encoding; a string is valid UTF-8 when it is a sequence of units. The lemmas show that
  the backwards decoder finds a unit exactly when the string ends with one, and from it
  that cutting keeps a prefix, loses at most three bytes of a valid string, and keeps
  valid strings valid on both sides of the cut.
\<close>

subsection \<open>Decoding\<close>

abbreviation bv :: "char \<Rightarrow> nat" where
  "bv c \<equiv> of_char c"

definition rune_error :: nat where
  "rune_error = 0xFFFD"

definition cont :: "char \<Rightarrow> bool" where
  "cont c \<longleftrightarrow> 0x80 \<le> bv c \<and> bv c \<le> 0xBF"

text \<open>
  The table \<open>first\<close> of unicode/utf8: for a non-ASCII leading byte, the length of the
  encoding and the range allowed for its second byte.
\<close>

definition lead_info :: "nat \<Rightarrow> (nat \<times> nat \<times> nat) option" where
  "lead_info b =
     (if b < 0xC2 then None
      else if b \<le> 0xDF then Some (2, 0x80, 0xBF)
      else if b = 0xE0 then Some (3, 0xA0, 0xBF)
      else if b \<le> 0xEC then Some (3, 0x80, 0xBF)
      else if b = 0xED then Some (3, 0x80, 0x9F)
      else if b \<le> 0xEF then Some (3, 0x80, 0xBF)
      else if b = 0xF0 then Some (4, 0x90, 0xBF)
      else if b \<le> 0xF3 then Some (4, 0x80, 0xBF)
      else if b = 0xF4 then Some (4, 0x80, 0x8F)
      else None)"

definition decode_rune :: "bytes \<Rightarrow> nat \<times> nat" where
  "decode_rune s =
     (case s of
        [] \<Rightarrow> (rune_error, 0)
      | c # _ \<Rightarrow>
          if bv c < 0x80 then (bv c, 1)
          else case lead_info (bv c) of
            None \<Rightarrow> (rune_error, 1)
          | Some (sz, lo, hi) \<Rightarrow>
              if length s < sz then (rune_error, 1)
              else if bv (s ! 1) < lo \<or> hi < bv (s ! 1) then (rune_error, 1)
              else if sz \<le> 2 then (bv c mod 32 * 64 + bv (s ! 1) mod 64, 2)
              else if \<not> cont (s ! 2) then (rune_error, 1)
              else if sz \<le> 3 then
                (bv c mod 16 * 4096 + bv (s ! 1) mod 64 * 64 + bv (s ! 2) mod 64, 3)
              else if \<not> cont (s ! 3) then (rune_error, 1)
              else (bv c mod 8 * 262144 + bv (s ! 1) mod 64 * 4096
                    + bv (s ! 2) mod 64 * 64 + bv (s ! 3) mod 64, 4))"

text \<open>The test for a broken encoding, as the source writes it: r == RuneError && size <= 1.\<close>

definition bad_rune :: "nat \<times> nat \<Rightarrow> bool" where
  "bad_rune d \<longleftrightarrow> fst d = rune_error \<and> snd d \<le> 1"

text \<open>utf8.RuneStart and the backwards scan of utf8.DecodeLastRune.\<close>

definition rune_start :: "char \<Rightarrow> bool" where
  "rune_start c \<longleftrightarrow> \<not> cont c"

fun scan_start :: "bytes \<Rightarrow> nat \<Rightarrow> nat \<Rightarrow> nat" where
  "scan_start s lim 0 = 0"
| "scan_start s lim (Suc i) =
     (if i < lim then i else if rune_start (s ! i) then i else scan_start s lim i)"

definition decode_last_rune :: "bytes \<Rightarrow> nat \<times> nat" where
  "decode_last_rune s =
     (if s = [] then (rune_error, 0)
      else if bv (last s) < 0x80 then (bv (last s), 1)
      else let st = scan_start s (length s - 4) (length s - 1);
               d = decode_rune (drop st s)
           in if st + snd d \<noteq> length s then (rune_error, 1) else d)"

subsection \<open>Rune units\<close>

definition is_rune :: "bytes \<Rightarrow> bool" where
  "is_rune u \<longleftrightarrow> u \<noteq> [] \<and> snd (decode_rune u) = length u \<and> \<not> bad_rune (decode_rune u)"

lemma lead_info_cases:
  "lead_info b = Some (n, lo, hi) \<Longrightarrow>
     (n = 2 \<or> n = 3 \<or> n = 4) \<and> 0x80 \<le> lo \<and> hi \<le> 0xBF \<and> 0xC2 \<le> b"
  by (auto simp: lead_info_def split: if_splits)

lemma decode_rune_Nil [simp]: "decode_rune [] = (rune_error, 0)"
  by (simp add: decode_rune_def)

lemma decode_rune_ascii [simp]: "bv c < 0x80 \<Longrightarrow> decode_rune (c # s) = (bv c, 1)"
  by (simp add: decode_rune_def)

lemma decode_rune_size_pos: "s \<noteq> [] \<Longrightarrow> 0 < snd (decode_rune s)"
  by (auto simp: decode_rune_def split: list.splits option.splits)

lemma decode_rune_lead:
  "s \<noteq> [] \<Longrightarrow> 0x80 \<le> bv (s ! 0) \<Longrightarrow> lead_info (bv (s ! 0)) = Some (m, lo, hi) \<Longrightarrow>
   decode_rune s =
     (if length s < m then (rune_error, 1)
      else if bv (s ! 1) < lo \<or> hi < bv (s ! 1) then (rune_error, 1)
      else if m \<le> 2 then (bv (s ! 0) mod 32 * 64 + bv (s ! 1) mod 64, 2)
      else if \<not> cont (s ! 2) then (rune_error, 1)
      else if m \<le> 3 then
        (bv (s ! 0) mod 16 * 4096 + bv (s ! 1) mod 64 * 64 + bv (s ! 2) mod 64, 3)
      else if \<not> cont (s ! 3) then (rune_error, 1)
      else (bv (s ! 0) mod 8 * 262144 + bv (s ! 1) mod 64 * 4096
            + bv (s ! 2) mod 64 * 64 + bv (s ! 3) mod 64, 4))"
  by (cases s) (simp_all add: decode_rune_def)

text \<open>The decoder reads no further than the length its first byte announces.\<close>

lemma decode_rune_local:
  assumes "s \<noteq> []" "0x80 \<le> bv (s ! 0)" "lead_info (bv (s ! 0)) = Some (m, lo, hi)"
    "m \<le> length s" "m \<le> length x" "\<And>i. i < m \<Longrightarrow> x ! i = s ! i"
  shows "decode_rune x = decode_rune s"
proof -
  from lead_info_cases [OF assms(3)] have m: "m = 2 \<or> m = 3 \<or> m = 4" by simp
  have "x ! 0 = s ! 0" "x ! 1 = s ! 1" using m by (auto intro!: assms(6))
  moreover have "3 \<le> m \<Longrightarrow> x ! 2 = s ! 2" "4 \<le> m \<Longrightarrow> x ! 3 = s ! 3" by (auto intro!: assms(6))
  moreover have "x \<noteq> []" using m assms(5) by auto
  moreover note decode_rune_lead [of s m lo hi] decode_rune_lead [of x m lo hi]
  ultimately show ?thesis using m assms(1-5) by auto
qed

text \<open>One analysis of the decoder gives every fact about units that is used below.\<close>

lemma decode_rune_ok:
  assumes "\<not> bad_rune (decode_rune s)" "decode_rune s = (r, n)"
  shows "s \<noteq> []" "1 \<le> n" "n \<le> 4" "n \<le> length s"
    "\<not> cont (s ! 0)" "\<forall>i. 0 < i \<and> i < n \<longrightarrow> cont (s ! i)"
    "decode_rune (take n s @ t) = (r, n)"
proof -
  obtain c s' where s: "s = c # s'"
    using assms by (cases s) (auto simp: bad_rune_def)
  consider (ascii) "bv c < 0x80"
    | (multi) m lo hi where "0x80 \<le> bv c" "lead_info (bv c) = Some (m, lo, hi)"
  proof (cases "bv c < 0x80")
    case False
    with assms s have "lead_info (bv c) \<noteq> None"
      by (cases "lead_info (bv c)") (auto simp: decode_rune_def bad_rune_def)
    with False that show ?thesis by auto
  qed (use that in blast)
  then have "s \<noteq> [] \<and> 1 \<le> n \<and> n \<le> 4 \<and> n \<le> length s \<and> \<not> cont (s ! 0)
    \<and> (\<forall>i. 0 < i \<and> i < n \<longrightarrow> cont (s ! i)) \<and> decode_rune (take n s @ t) = (r, n)"
  proof cases
    case ascii
    with assms s show ?thesis by (auto simp: cont_def)
  next
    case multi
    note lead = lead_info_cases [OF multi(2)]
    have nocont: "\<not> cont (s ! 0)"
      using lead s by (simp add: cont_def)
    have m: "m = 2 \<or> m = 3 \<or> m = 4" "n = m" "m \<le> length s" "lo \<le> bv (s ! 1)" "bv (s ! 1) \<le> hi"
      "3 \<le> m \<Longrightarrow> cont (s ! 2)" "4 \<le> m \<Longrightarrow> cont (s ! 3)"
      using assms s multi lead decode_rune_lead [of s m lo hi]
      by (auto simp: bad_rune_def split: if_splits)
    have "cont (s ! 1)"
      using m lead by (simp add: cont_def)
    then have conts: "\<forall>i. 0 < i \<and> i < n \<longrightarrow> cont (s ! i)"
      using m by (auto simp: numeral_eq_Suc less_Suc_eq)
    have "decode_rune (take n s @ t) = decode_rune s"
      using s multi m by (intro decode_rune_local [of s m lo hi]) (simp_all add: nth_append)
    with nocont conts m s assms(2) show ?thesis by auto
  qed
  then show "s \<noteq> []" "1 \<le> n" "n \<le> 4" "n \<le> length s"
    "\<not> cont (s ! 0)" "\<forall>i. 0 < i \<and> i < n \<longrightarrow> cont (s ! i)"
    "decode_rune (take n s @ t) = (r, n)"
    by simp_all
qed

lemma is_rune_take:
  assumes "\<not> bad_rune (decode_rune s)" "n = snd (decode_rune s)"
  shows "is_rune (take n s)"
proof -
  note ok = decode_rune_ok [OF assms(1), of "fst (decode_rune s)" n]
  from ok(7) [of "[]"] assms(2) have "decode_rune (take n s) = (fst (decode_rune s), n)"
    by (simp add: prod_eq_iff)
  with ok(1,2,4) assms show ?thesis
    by (auto simp: is_rune_def bad_rune_def)
qed

lemma is_rune_decode_append: "is_rune u \<Longrightarrow> decode_rune (u @ s) = decode_rune u"
  using decode_rune_ok(7) [of u "fst (decode_rune u)" "length u" s]
  by (auto simp: is_rune_def prod_eq_iff)

lemma is_rune_length: "is_rune u \<Longrightarrow> 1 \<le> length u \<and> length u \<le> 4"
  using decode_rune_ok(2,3) [of u "fst (decode_rune u)" "length u"]
  by (auto simp: is_rune_def prod_eq_iff)

lemma is_rune_not_Nil [dest]: "is_rune u \<Longrightarrow> u \<noteq> []"
  by (simp add: is_rune_def)

lemma is_rune_head: "is_rune (c # cs) \<Longrightarrow> \<not> cont c"
  using decode_rune_ok(5) [of "c # cs" "fst (decode_rune (c # cs))" "Suc (length cs)"]
  by (auto simp: is_rune_def prod_eq_iff)

lemma is_rune_tail: "is_rune (c # cs) \<Longrightarrow> x \<in> set cs \<Longrightarrow> cont x"
  using decode_rune_ok(6) [of "c # cs" "fst (decode_rune (c # cs))" "Suc (length cs)"]
  by (auto simp: is_rune_def prod_eq_iff in_set_conv_nth)

lemma is_rune_prefix_free: "is_rune u \<Longrightarrow> is_rune (u @ s) \<Longrightarrow> s = []"
  using is_rune_decode_append [of u s] by (auto simp: is_rune_def)

lemma is_rune_ascii: "bv c < 0x80 \<Longrightarrow> is_rune [c]"
  by (simp add: is_rune_def bad_rune_def rune_error_def)

text \<open>A unit that ends inside another unit would start with a continuation byte.\<close>

lemma is_rune_no_inner_suffix: "is_rune (c # cs) \<Longrightarrow> ws \<noteq> [] \<Longrightarrow> cs = vs @ ws \<Longrightarrow> \<not> is_rune (ws @ x)"
  using is_rune_tail is_rune_head
  by (metis append_Cons list.exhaust list.set_intros(1) in_set_conv_decomp)

subsection \<open>Decoding backwards\<close>

lemma scan_start_finds:
  "rune_start (s ! l) \<Longrightarrow> lim \<le> l \<Longrightarrow> l < j \<Longrightarrow> (\<And>i. l < i \<Longrightarrow> i < j \<Longrightarrow> \<not> rune_start (s ! i))
   \<Longrightarrow> scan_start s lim j = l"
proof (induction j)
  case (Suc j)
  show ?case
  proof (cases "j = l")
    case False
    with Suc.prems have "l < j" "\<not> rune_start (s ! j)" by simp_all
    moreover have "scan_start s lim j = l"
      using Suc.IH Suc.prems \<open>l < j\<close> by simp
    ultimately show ?thesis using Suc.prems by simp
  qed (use Suc.prems in simp)
qed simp

lemma scan_start_le: "scan_start s lim j \<le> j - 1"
  by (induction j) auto

lemma decode_last_rune_size_pos: "s \<noteq> [] \<Longrightarrow> 0 < snd (decode_last_rune s)"
proof -
  assume ne: "s \<noteq> []"
  then have "scan_start s (length s - 4) (length s - 1) < length s"
    using scan_start_le [of s "length s - 4" "length s - 1"] by (cases s) auto
  with ne show ?thesis
    using decode_rune_size_pos [of "drop (scan_start s (length s - 4) (length s - 1)) s"]
    by (simp add: decode_last_rune_def Let_def)
qed

lemma decode_last_rune_unit:
  assumes "is_rune u"
  shows "decode_last_rune (p @ u) = decode_rune u"
proof -
  obtain c cs where u: "u = c # cs"
    using assms by (cases u) auto
  show ?thesis
  proof (cases cs rule: rev_cases)
    case Nil
    then have "bv c < 0x80 \<or> 0x80 \<le> bv c" by linarith
    then show ?thesis
    proof
      assume "0x80 \<le> bv c"
      then have "bad_rune (decode_rune [c])"
        by (auto simp: decode_rune_def bad_rune_def lead_info_def)
      with assms u Nil show ?thesis by (simp add: is_rune_def)
    qed (simp add: u Nil decode_last_rune_def)
  next
    case (snoc ds d)
    let ?s = "p @ u"
    have conts: "cont x" if "x \<in> set cs" for x
      using assms u is_rune_tail that by blast
    then have "0x80 \<le> bv (last ?s)"
      using u snoc by (auto simp: cont_def)
    moreover have "scan_start ?s (length ?s - 4) (length ?s - 1) = length p"
    proof (rule scan_start_finds)
      show "rune_start (?s ! length p)"
        using assms u is_rune_head by (auto simp: rune_start_def)
      have "length u \<le> 4" using is_rune_length [OF assms] by simp
      then show "length ?s - 4 \<le> length p" by simp
      show "length p < length ?s - 1"
        using u snoc by simp
      fix i assume i: "length p < i" "i < length ?s - 1"
      then have "?s ! i = cs ! (i - length p - 1)"
        using u by (simp add: nth_append nth_Cons')
      moreover have "cs ! (i - length p - 1) \<in> set cs"
        using i u by simp
      ultimately show "\<not> rune_start (?s ! i)"
        using conts by (simp add: rune_start_def)
    qed
    ultimately show ?thesis
      using assms u by (simp add: decode_last_rune_def is_rune_def)
  qed
qed

lemma decode_last_rune_ok:
  assumes "\<not> bad_rune (decode_last_rune s)"
  shows "\<exists>p u. s = p @ u \<and> is_rune u"
proof -
  have ne: "s \<noteq> []"
    using assms by (auto simp: decode_last_rune_def bad_rune_def)
  show ?thesis
  proof (cases "bv (last s) < 0x80")
    case True
    then show ?thesis
      using ne is_rune_ascii by (metis append_butlast_last_id)
  next
    case False
    define st where "st = scan_start s (length s - 4) (length s - 1)"
    define d where "d = decode_rune (drop st s)"
    have *: "decode_last_rune s = (if st + snd d \<noteq> length s then (rune_error, 1) else d)"
      using ne False by (simp add: decode_last_rune_def st_def d_def Let_def)
    with assms have "st + snd d = length s" "\<not> bad_rune d"
      by (auto simp: bad_rune_def split: if_splits)
    then have "is_rune (drop st s)"
      unfolding d_def is_rune_def by (metis bad_rune_def decode_rune_Nil diff_add_inverse
          fst_conv length_drop snd_conv zero_le_one)
    then show ?thesis by (metis append_take_drop_id)
  qed
qed

definition ends_in_rune :: "bytes \<Rightarrow> bool" where
  "ends_in_rune s \<longleftrightarrow> \<not> bad_rune (decode_last_rune s)"

lemma ends_in_rune_iff: "ends_in_rune s \<longleftrightarrow> (\<exists>p u. s = p @ u \<and> is_rune u)"
  using decode_last_rune_ok decode_last_rune_unit
  by (auto simp: ends_in_rune_def is_rune_def)

lemma ends_in_rune_Nil [simp]: "\<not> ends_in_rune []"
  by (auto simp: ends_in_rune_iff)

lemma ends_in_rune_unit: "is_rune u \<Longrightarrow> ends_in_rune (p @ u)"
  by (auto simp: ends_in_rune_iff)

text \<open>Bytes after a complete unit are judged without looking into the unit.\<close>

lemma ends_in_rune_after_unit:
  assumes "is_rune u" "x \<noteq> []"
  shows "ends_in_rune (u @ x) \<longleftrightarrow> ends_in_rune x"
proof
  assume "ends_in_rune (u @ x)"
  then obtain p v where pv: "u @ x = p @ v" "is_rune v"
    by (auto simp: ends_in_rune_iff)
  from pv(1) obtain w where "u = p @ w \<and> w @ x = v \<or> u @ w = p \<and> x = w @ v"
    by (auto simp: append_eq_append_conv2)
  then consider "x = w @ v" | "u = p @ w" "v = w @ x" "w \<noteq> []"
    by (cases w) auto
  then show "ends_in_rune x"
  proof cases
    case 1
    with pv show ?thesis by (auto simp: ends_in_rune_iff)
  next
    case 2
    show ?thesis
    proof (cases p)
      case Nil
      with 2 pv assms is_rune_prefix_free show ?thesis by fastforce
    next
      case (Cons c cs)
      then show ?thesis
        using 2 pv assms(1) is_rune_no_inner_suffix [of c "cs @ w" w cs x] by auto
    qed
  qed
next
  assume "ends_in_rune x"
  then show "ends_in_rune (u @ x)"
    by (metis append.assoc ends_in_rune_iff)
qed

lemma proper_prefix_no_rune:
  assumes "is_rune u" "u = v @ w" "w \<noteq> []"
  shows "\<not> ends_in_rune v"
proof
  assume "ends_in_rune v"
  then obtain p r where pr: "v = p @ r" "is_rune r"
    by (auto simp: ends_in_rune_iff)
  show False
  proof (cases p)
    case Nil
    with pr assms is_rune_prefix_free show ?thesis by fastforce
  next
    case (Cons c cs)
    obtain d ds where r: "r = d # ds" using pr(2) by (cases r) auto
    have "is_rune (c # (cs @ r @ w))" using assms pr Cons by simp
    then have "cont d" by (rule is_rune_tail) (simp add: r)
    then show ?thesis using is_rune_head pr(2) r by blast
  qed
qed

lemma no_rune_in_conts:
  assumes "\<forall>c \<in> set s. cont c"
  shows "\<not> ends_in_rune s"
proof
  assume "ends_in_rune s"
  then obtain p u where "s = p @ u" "is_rune u"
    by (auto simp: ends_in_rune_iff)
  moreover from this(2) obtain c cs where "u = c # cs" by (cases u) auto
  ultimately show False using assms is_rune_head by auto
qed

subsection \<open>Valid strings\<close>

function valid_utf8 :: "bytes \<Rightarrow> bool" where
  "valid_utf8 s =
     (if s = [] then True
      else if bad_rune (decode_rune s) then False
      else valid_utf8 (drop (snd (decode_rune s)) s))"
  by pat_completeness auto
termination
  by (relation "measure length") (auto intro!: diff_less decode_rune_size_pos)

declare valid_utf8.simps [simp del]

lemma valid_utf8_Nil [simp]: "valid_utf8 []"
  by (subst valid_utf8.simps) simp

lemma valid_utf8_unit: "is_rune u \<Longrightarrow> valid_utf8 (u @ s) \<longleftrightarrow> valid_utf8 s"
  using is_rune_decode_append [of u s]
  by (subst valid_utf8.simps) (auto simp: is_rune_def)

lemma valid_utf8_ascii [simp]: "bv c < 0x80 \<Longrightarrow> valid_utf8 (c # s) \<longleftrightarrow> valid_utf8 s"
  using valid_utf8_unit [of "[c]" s] by (simp add: is_rune_ascii)

text \<open>Induction over the units of a valid string.\<close>

lemma valid_utf8_induct [consumes 1, case_names Nil unit]:
  assumes "valid_utf8 s" "P []"
    "\<And>u s. is_rune u \<Longrightarrow> valid_utf8 s \<Longrightarrow> P s \<Longrightarrow> P (u @ s)"
  shows "P s"
  using assms(1)
proof (induction s rule: valid_utf8.induct)
  case (1 s)
  show ?case
  proof (cases "s = []")
    case False
    with "1.prems" have ok: "\<not> bad_rune (decode_rune s)" "valid_utf8 (drop (snd (decode_rune s)) s)"
      by (subst (asm) valid_utf8.simps; simp split: if_splits)+
    with False "1.IH" have "P (drop (snd (decode_rune s)) s)" by blast
    with assms(3) [OF is_rune_take [OF ok(1) refl] ok(2)] show ?thesis by simp
  qed (use assms(2) in simp)
qed

lemma valid_utf8_append: "valid_utf8 s \<Longrightarrow> valid_utf8 t \<Longrightarrow> valid_utf8 (s @ t)"
  by (induction s rule: valid_utf8_induct) (simp_all add: valid_utf8_unit)

lemma valid_utf8_is_rune: "is_rune u \<Longrightarrow> valid_utf8 u"
  using valid_utf8_unit [of u "[]"] by simp

lemma valid_utf8_ends: "valid_utf8 s \<Longrightarrow> s \<noteq> [] \<Longrightarrow> ends_in_rune s"
proof (induction s rule: valid_utf8_induct)
  case (unit u s)
  then show ?case
    using ends_in_rune_unit [of u "[]"] by (cases "s = []") (auto simp: ends_in_rune_after_unit)
qed simp

subsection \<open>Cutting back to a rune boundary (fetch.go)\<close>

function cut_to_utf8_boundary :: "bytes \<Rightarrow> bytes" where
  "cut_to_utf8_boundary b =
     (if b \<noteq> [] then
        let (r, size') = decode_last_rune b
        in if r = rune_error \<and> size' \<le> 1 then cut_to_utf8_boundary (butlast b) else b
      else b)"
  by pat_completeness auto
termination
  by (relation "measure length") auto

declare cut_to_utf8_boundary.simps [simp del]

lemma cut_unfold:
  "cut_to_utf8_boundary b =
     (if b = [] \<or> ends_in_rune b then b else cut_to_utf8_boundary (butlast b))"
  by (subst cut_to_utf8_boundary.simps)
    (auto simp: ends_in_rune_def bad_rune_def split: prod.splits)

lemma cut_Nil [simp]: "cut_to_utf8_boundary [] = []"
  by (subst cut_unfold) simp

lemma cut_whole: "ends_in_rune b \<Longrightarrow> cut_to_utf8_boundary b = b"
  by (subst cut_unfold) simp

lemma cut_snoc: "\<not> ends_in_rune (b @ [c]) \<Longrightarrow> cut_to_utf8_boundary (b @ [c]) = cut_to_utf8_boundary b"
  by (subst cut_unfold) simp

lemma cut_take: "\<exists>n \<le> length b. cut_to_utf8_boundary b = take n b"
proof (induction b rule: rev_induct)
  case (snoc c b)
  show ?case
  proof (cases "ends_in_rune (b @ [c])")
    case True
    then show ?thesis by (intro exI [of _ "length (b @ [c])"]) (simp add: cut_whole)
  next
    case False
    with snoc obtain n where "n \<le> length b" "cut_to_utf8_boundary (b @ [c]) = take n b"
      by (auto simp: cut_snoc)
    then show ?thesis by (intro exI [of _ n]) simp
  qed
qed simp

lemma cut_is_prefix: "cut_to_utf8_boundary b = take (length (cut_to_utf8_boundary b)) b"
  using cut_take [of b] by (auto simp: min_def)

lemma cut_length: "length (cut_to_utf8_boundary b) \<le> length b"
  using cut_take [of b] by auto

lemma cut_ends: "cut_to_utf8_boundary b = [] \<or> ends_in_rune (cut_to_utf8_boundary b)"
proof (induction b rule: rev_induct)
  case (snoc c b)
  then show ?case by (cases "ends_in_rune (b @ [c])") (auto simp: cut_whole cut_snoc)
qed simp

lemma cut_idem: "cut_to_utf8_boundary (cut_to_utf8_boundary b) = cut_to_utf8_boundary b"
  using cut_ends [of b] by (auto simp: cut_whole)

text \<open>The result is the longest prefix that is empty or ends with a complete unit.\<close>

lemma cut_longest:
  assumes "n \<le> length b" "ends_in_rune (take n b)"
  shows "n \<le> length (cut_to_utf8_boundary b)"
  using assms
proof (induction b rule: rev_induct)
  case (snoc c b)
  show ?case
  proof (cases "ends_in_rune (b @ [c])")
    case False
    with snoc.prems have "n \<le> length b" by (cases "n = Suc (length b)") auto
    with snoc False show ?thesis by (simp add: cut_snoc)
  qed (use snoc.prems in \<open>simp add: cut_whole\<close>)
qed simp

lemma cut_after_unit:
  assumes "is_rune u"
  shows "cut_to_utf8_boundary (u @ x) = u @ cut_to_utf8_boundary x"
proof (induction x rule: rev_induct)
  case Nil
  show ?case using ends_in_rune_unit [OF assms, of "[]"] by (simp add: cut_whole)
next
  case (snoc c x)
  have "ends_in_rune (u @ x @ [c]) \<longleftrightarrow> ends_in_rune (x @ [c])"
    using ends_in_rune_after_unit [OF assms, of "x @ [c]"] by simp
  with snoc show ?case
    by (cases "ends_in_rune (x @ [c])")
      (simp_all add: cut_whole cut_snoc flip: append_assoc)
qed

lemma cut_no_rune: "(\<And>n. n \<le> length x \<Longrightarrow> \<not> ends_in_rune (take n x)) \<Longrightarrow> cut_to_utf8_boundary x = []"
  using cut_ends [of x] cut_take [of x] by metis

lemma cut_within_unit:
  assumes "is_rune (v @ w)" "w \<noteq> []"
  shows "cut_to_utf8_boundary v = []"
proof (rule cut_no_rune)
  fix n assume "n \<le> length v"
  show "\<not> ends_in_rune (take n v)"
    using proper_prefix_no_rune [OF assms(1), of "take n v" "drop n v @ w"] assms(2) by simp
qed

lemma cut_Nil_iff: "cut_to_utf8_boundary x = [] \<longleftrightarrow> (\<forall>before u rest. x = before @ u @ rest \<longrightarrow> \<not> is_rune u)"
proof
  assume nil: "cut_to_utf8_boundary x = []"
  show "\<forall>before u rest. x = before @ u @ rest \<longrightarrow> \<not> is_rune u"
  proof (intro allI impI notI)
    fix before u rest assume u: "x = before @ u @ rest" "is_rune u"
    then have "ends_in_rune (take (length (before @ u)) x)" by (simp add: ends_in_rune_unit)
    from cut_longest [OF _ this] u nil show False by auto
  qed
next
  assume none: "\<forall>before u rest. x = before @ u @ rest \<longrightarrow> \<not> is_rune u"
  show "cut_to_utf8_boundary x = []"
  proof (rule cut_no_rune)
    fix n show "\<not> ends_in_rune (take n x)"
    proof
      assume "ends_in_rune (take n x)"
      then obtain p u where u: "take n x = p @ u" "is_rune u" unfolding ends_in_rune_iff by blast
      then have "x = p @ u @ drop n x" by (metis append.assoc append_take_drop_id)
      with none u(2) show False by blast
    qed
  qed
qed

lemma cut_conts: "\<forall>c \<in> set x. cont c \<Longrightarrow> cut_to_utf8_boundary x = []"
  by (rule cut_no_rune) (auto intro!: no_rune_in_conts dest: in_set_takeD)

text \<open>
  A valid string cut at any byte: both sides stay valid and the left side loses at most
  three bytes.
\<close>

lemma cut_valid_prefix:
  assumes "valid_utf8 b" "n \<le> length b"
  shows "\<exists>k \<le> n. n < k + 4 \<and> cut_to_utf8_boundary (take n b) = take k b
    \<and> valid_utf8 (take k b) \<and> valid_utf8 (drop k b)"
  using assms
proof (induction b arbitrary: n rule: valid_utf8_induct)
  case (unit u s)
  note u = is_rune_length [OF unit(1)]
  show ?case
  proof (cases "n < length u")
    case True
    then have "cut_to_utf8_boundary (take n u) = []"
      using unit(1) by (intro cut_within_unit [of _ "drop n u"]) auto
    moreover have "valid_utf8 (u @ s)"
      using unit(1,2) by (simp add: valid_utf8_unit)
    ultimately show ?thesis
      using True u by (intro exI [of _ 0]) auto
  next
    case False
    then have "n - length u \<le> length s" using unit.prems by simp
    from unit.IH [OF this] obtain k where k: "k \<le> n - length u" "n - length u < k + 4"
      "cut_to_utf8_boundary (take (n - length u) s) = take k s"
      "valid_utf8 (take k s)" "valid_utf8 (drop k s)" by blast
    then show ?thesis
      using False unit(1)
      by (intro exI [of _ "length u + k"]) (auto simp: cut_after_unit valid_utf8_unit)
  qed
qed simp

lemma cut_valid: "valid_utf8 b \<Longrightarrow> cut_to_utf8_boundary b = b"
  using valid_utf8_ends [of b] by (cases "b = []") (auto simp: cut_whole)

subsection \<open>Truncating a history preview (recorder.go)\<close>

text \<open>
  TruncateUTF8 has its own copy of the loop, over a string; \<open>trim_partial_rune\<close> is that
  loop. A limit outside 0..len(s) would make s[:limit] panic (\<^const>\<open>None\<close>).
\<close>

function trim_partial_rune :: "string \<Rightarrow> string" where
  "trim_partial_rune cs =
     (if cs \<noteq> [] then
        let (r, size') = decode_last_rune cs
        in if r = rune_error \<and> size' \<le> 1 then trim_partial_rune (butlast cs) else cs
      else cs)"
  by pat_completeness auto
termination
  by (relation "measure length") auto

declare trim_partial_rune.simps [simp del]

definition truncate_utf8 :: "string \<Rightarrow> int \<Rightarrow> (string \<times> bool) option" where
  "truncate_utf8 s limit =
     (if blen s \<le> limit then Some (s, False)
      else case slice s 0 limit of
        None \<Rightarrow> None
      | Some cs \<Rightarrow> Some (trim_partial_rune cs, True))"

lemma trim_partial_rune_eq: "trim_partial_rune s = cut_to_utf8_boundary s"
proof (induction s rule: trim_partial_rune.induct)
  case (1 s)
  then show ?case
    by (subst trim_partial_rune.simps, subst cut_to_utf8_boundary.simps)
      (auto split: prod.splits)
qed

lemma truncate_utf8_eq:
  "0 \<le> limit \<Longrightarrow> truncate_utf8 s limit =
     Some (if blen s \<le> limit then (s, False) else (cut_to_utf8_boundary (take (nat limit) s), True))"
  by (simp add: truncate_utf8_def slice_def trim_partial_rune_eq)

subsection \<open>Trimming white space (strings.TrimSpace)\<close>

definition is_space :: "nat \<Rightarrow> bool" where
  "is_space r \<longleftrightarrow> r \<in> {9, 10, 11, 12, 13, 32, 0x85, 0xA0, 0x1680, 0x2028, 0x2029, 0x202F, 0x205F, 0x3000}
     \<or> 0x2000 \<le> r \<and> r \<le> 0x200A"

function trim_left :: "string \<Rightarrow> string" where
  "trim_left s =
     (if s \<noteq> [] \<and> is_space (fst (decode_rune s))
      then trim_left (drop (snd (decode_rune s)) s) else s)"
  by pat_completeness auto
termination
proof (relation "measure length")
  fix s :: string
  assume "s \<noteq> [] \<and> is_space (fst (decode_rune s))"
  with decode_rune_size_pos [of s]
  show "(drop (snd (decode_rune s)) s, s) \<in> measure length" by simp
qed simp

function trim_right :: "string \<Rightarrow> string" where
  "trim_right s =
     (if s \<noteq> [] \<and> is_space (fst (decode_last_rune s))
      then trim_right (take (length s - snd (decode_last_rune s)) s) else s)"
  by pat_completeness auto
termination
proof (relation "measure length")
  fix s :: string
  assume "s \<noteq> [] \<and> is_space (fst (decode_last_rune s))"
  with decode_last_rune_size_pos [of s]
  show "(take (length s - snd (decode_last_rune s)) s, s) \<in> measure length" by simp
qed simp

declare trim_left.simps [simp del] trim_right.simps [simp del]

definition trim_space :: "string \<Rightarrow> string" where
  "trim_space s = trim_right (trim_left s)"

lemma trim_left_Nil [simp]: "trim_left [] = []"
  by (subst trim_left.simps) simp

lemma trim_right_Nil [simp]: "trim_right [] = []"
  by (subst trim_right.simps) simp

lemma trim_space_Nil [simp]: "trim_space [] = []"
  by (simp add: trim_space_def)

text \<open>A string whose first and last bytes are visible ASCII is not blank.\<close>

lemma trim_space_visible:
  assumes "s \<noteq> []" "32 < bv (hd s)" "bv (hd s) < 0x80" "32 < bv (last s)" "bv (last s) < 0x80"
  shows "trim_space s = s"
proof -
  have "\<not> is_space (bv (hd s))" "\<not> is_space (bv (last s))"
    using assms by (auto simp: is_space_def)
  moreover have "decode_rune s = (bv (hd s), 1)"
    using assms by (cases s) auto
  moreover have "decode_last_rune s = (bv (last s), 1)"
    using assms by (simp add: decode_last_rune_def)
  ultimately show ?thesis
    by (simp add: trim_space_def trim_left.simps [of s] trim_right.simps [of s])
qed

end
