(* ===== verification/Encoding.thy ===== *)
theory Encoding
  imports Utf8
begin

section \<open>Hexadecimal and base64 (encoding/hex and encoding/base64)\<close>

text \<open>
  The encodings of tokens, session identifiers, encryption keys and encrypted refresh
  tokens. \<open>hex_encode\<close> is hex.EncodeToString; \<open>b64_encode\<close> is base64.RawURLEncoding (no
  padding, the URL alphabet) or base64.StdEncoding; \<open>b64_std_decode\<close> is
  StdEncoding.DecodeString, which skips line breaks. Encoding is injective, and decoding
  inverts it.
\<close>

lemma byte_less: "bv c < 256"
  by (simp add: of_char_def) 

subsection \<open>Hexadecimal\<close>

definition hex_digit :: "nat \<Rightarrow> char" where
  "hex_digit n = (if n < 10 then char_of (48 + n) else char_of (87 + n))"

definition hex_encode :: "bytes \<Rightarrow> string" where
  "hex_encode bs = concat (map (\<lambda>c. [hex_digit (bv c div 16), hex_digit (bv c mod 16)]) bs)"

lemma hex_digit_inj: "m < 16 \<Longrightarrow> n < 16 \<Longrightarrow> hex_digit m = hex_digit n \<longleftrightarrow> m = n"
  by (auto simp: hex_digit_def char_of_eq_iff take_bit_eq_mod split: if_splits)

lemma byte_div_mod:
  assumes "bv c div n = bv d div n" "bv c mod n = bv d mod n" shows "c = d"
  using assms by (metis div_mult_mod_eq of_char_eq_iff)

lemma hex_encode_inj: "hex_encode xs = hex_encode ys \<Longrightarrow> xs = ys"
proof (induction xs arbitrary: ys)
  case Nil
  then show ?case by (cases ys) (simp_all add: hex_encode_def)
next
  case (Cons x xs)
  then obtain y ys' where ys: "ys = y # ys'" by (cases ys) (simp_all add: hex_encode_def)
  have small: "bv c div 16 < 16" "bv c mod 16 < 16" for c
    using byte_less [of c] by (simp_all add: less_mult_imp_div_less)
  with Cons.prems have "x = y" "hex_encode xs = hex_encode ys'"
    by (auto simp: hex_encode_def ys hex_digit_inj small intro: byte_div_mod)
  with Cons.IH ys show ?case by simp
qed

lemma hex_encode_length: "length (hex_encode xs) = 2 * length xs"
  by (induction xs) (simp_all add: hex_encode_def)

subsection \<open>Base64\<close>

definition b64_char :: "bool \<Rightarrow> nat \<Rightarrow> char" where
  "b64_char url n =
     (if n < 26 then char_of (65 + n)
      else if n < 52 then char_of (71 + n)
      else if n < 62 then char_of (n - 4)
      else if n = 62 then (if url then CHR ''-'' else CHR ''+'')
      else (if url then CHR ''_'' else CHR ''/''))"

definition b64_value :: "char \<Rightarrow> nat option" where
  "b64_value c =
     (let n = bv c in
      if 65 \<le> n \<and> n < 91 then Some (n - 65)
      else if 97 \<le> n \<and> n < 123 then Some (n - 71)
      else if 48 \<le> n \<and> n < 58 then Some (n + 4)
      else if c = CHR ''+'' then Some 62
      else if c = CHR ''/'' then Some 63
      else None)"

fun b64_encode :: "bool \<Rightarrow> bytes \<Rightarrow> string" where
  "b64_encode url [] = []"
| "b64_encode url [a] =
     [b64_char url (bv a div 4), b64_char url (bv a mod 4 * 16)] @ (if url then [] else ''=='')"
| "b64_encode url [a, b] =
     [b64_char url (bv a div 4), b64_char url (bv a mod 4 * 16 + bv b div 16),
      b64_char url (bv b mod 16 * 4)] @ (if url then [] else ''='')"
| "b64_encode url (a # b # c # rest) =
     [b64_char url (bv a div 4), b64_char url (bv a mod 4 * 16 + bv b div 16),
      b64_char url (bv b mod 16 * 4 + bv c div 64), b64_char url (bv c mod 64)] @ b64_encode url rest"

fun b64_quads :: "string \<Rightarrow> bytes option" where
  "b64_quads [] = Some []"
| "b64_quads (p # q # r # s # rest) =
     (case (b64_value p, b64_value q) of
        (Some x, Some y) \<Rightarrow>
          if rest = [] \<and> r = CHR ''='' \<and> s = CHR ''='' then Some [char_of (x * 4 + y div 16)]
          else (case b64_value r of
            None \<Rightarrow> None
          | Some z \<Rightarrow>
              if rest = [] \<and> s = CHR ''='' then
                Some [char_of (x * 4 + y div 16), char_of (y mod 16 * 16 + z div 4)]
              else (case (b64_value s, b64_quads rest) of
                (Some w, Some out) \<Rightarrow>
                  Some (char_of (x * 4 + y div 16) # char_of (y mod 16 * 16 + z div 4)
                        # char_of (z mod 4 * 64 + w) # out)
              | _ \<Rightarrow> None))
      | _ \<Rightarrow> None)"
| "b64_quads _ = None"

definition b64_std_decode :: "string \<Rightarrow> bytes option" where
  "b64_std_decode s = b64_quads (filter (\<lambda>c. c \<noteq> CHR 0x0A \<and> c \<noteq> CHR 0x0D) s)"

lemma b64_value_char: "n < 64 \<Longrightarrow> b64_value (b64_char False n) = Some n"
  by (auto simp: b64_char_def b64_value_def Let_def)

lemma b64_char_plain:
  assumes "n < 64"
  shows "b64_char False n \<noteq> CHR ''=''" "b64_char False n \<noteq> CHR 0x0A" "b64_char False n \<noteq> CHR 0x0D"
  using b64_value_char [OF assms] by (auto simp: b64_value_def)

lemma byte_div: "bv c div 4 < 64" "bv c div 16 < 16" "bv c div 64 < 4"
  using byte_less [of c] by (simp_all add: less_mult_imp_div_less)

lemma byte_mod: "bv c mod 4 < 4" "bv c mod 16 < 16" "bv c mod 64 < 64"
  by simp_all

lemma byte_bits:
  "bv c div 4 < 64" "bv c mod 4 * 16 < 64" "bv c mod 16 * 4 < 64" "bv c mod 64 < 64"
  "bv c mod 4 * 16 + bv d div 16 < 64" "bv c mod 16 * 4 + bv d div 64 < 64"
  using byte_div [of c] byte_div [of d] byte_mod [of c] by linarith+

lemma byte_parts:
  "bv c div 16 div 16 = 0" "bv c div 16 mod 16 = bv c div 16"
  "bv c div 64 div 4 = 0" "bv c div 64 mod 4 = bv c div 64"
  using byte_div [of c] by simp_all

lemma b64_quads_encode: "b64_quads (b64_encode False bs) = Some bs"
proof (induction "False" bs rule: b64_encode.induct)
  case (4 a b c rest)
  then show ?case
    by (simp add: b64_value_char b64_char_plain byte_bits byte_parts del: b64_encode.simps(2,3))
qed (simp_all add: b64_value_char b64_char_plain byte_bits byte_parts)

lemma b64_encode_plain: "filter (\<lambda>c. c \<noteq> CHR 0x0A \<and> c \<noteq> CHR 0x0D) (b64_encode False bs) = b64_encode False bs"
  by (induction "False" bs rule: b64_encode.induct) (simp_all add: b64_char_plain byte_bits)

theorem b64_roundtrip: "b64_std_decode (b64_encode False bs) = Some bs"
  by (simp add: b64_std_decode_def b64_encode_plain b64_quads_encode)

end
