(* ===== verification/Actor_Repo.thy ===== *)
theory Actor_Repo
  imports Database Encoding
begin

section \<open>Agents and their tokens (internal/storage/actor_repo.go)\<close>

text \<open>
  The repository functions over actors and credentials, each a function of the database
  handle, the randomness and the clock reading it uses, and the connection state. SHA-256
  is an argument (\<open>sha\<close>), uuid.NewString and rand.Read deliver their values as
  arguments. The lemmas inside \<open>sql_database\<close> say what every function does to the tables
  on each of its outcomes; the properties follow the life of a token: what is issued
  authenticates, what is revoked never authenticates again.
\<close>

datatype repo_error =
  ErrInvalidToken
| ErrEmptyDisplayName
| ErrToolCallNotFound
| ErrUnknownCursor
| RandError string
| DbErr db_error

definition token_prefix :: string where
  "token_prefix = ''wt_''"

definition hash_token :: "(bytes \<Rightarrow> bytes) \<Rightarrow> string \<Rightarrow> string" where
  "hash_token sha raw = hex_encode (sha raw)"

definition create_agent :: "'d database \<Rightarrow> string \<Rightarrow> time \<Rightarrow> string \<Rightarrow> 'd \<Rightarrow> (repo_error + actor) \<times> 'd" where
  "create_agent db uuid now display_name d =
     (if trim_space display_name = [] then (Inl ErrEmptyDisplayName, d)
      else
        let a = \<lparr>actor_id = uuid, actor_name = display_name, actor_kind = AgentKind, actor_created = now\<rparr>
        in case sql_create (db_actors db) a d of
          (Some e, d1) \<Rightarrow> (Inl (DbErr e), d1)
        | (None, d1) \<Rightarrow> (Inr a, d1))"

definition issue_agent_token :: "'d database \<Rightarrow> (bytes \<Rightarrow> bytes) \<Rightarrow> string + bytes \<Rightarrow> string \<Rightarrow> time
    \<Rightarrow> string \<Rightarrow> 'd \<Rightarrow> (repo_error + string) \<times> 'd" where
  "issue_agent_token db sha rnd uuid now actorID d =
     (case rnd of
        Inl e \<Rightarrow> (Inl (RandError e), d)
      | Inr raw \<Rightarrow>
          let raw_token = token_prefix @ b64_encode True raw;
              cred = \<lparr>cred_id = uuid, cred_actor = actorID, cred_label = [],
                      cred_hash = hash_token sha raw_token, cred_created = now,
                      cred_revoked = None, cred_last_used = None\<rparr>
          in case sql_create (db_credentials db) cred d of
            (Some e, d1) \<Rightarrow> (Inl (DbErr e), d1)
          | (None, d1) \<Rightarrow> (Inr raw_token, d1))"

definition authenticate_agent_token :: "'d database \<Rightarrow> (bytes \<Rightarrow> bytes) \<Rightarrow> time \<Rightarrow> string \<Rightarrow> 'd
    \<Rightarrow> (repo_error + actor) \<times> 'd" where
  "authenticate_agent_token db sha now raw_token d =
     (case sql_first (db_credentials db)
             (\<lambda>c. cred_hash c = hash_token sha raw_token \<and> cred_revoked c = None) d of
        (Inl e, d1) \<Rightarrow> (Inl (if e = RecordNotFound then ErrInvalidToken else DbErr e), d1)
      | (Inr cred, d1) \<Rightarrow>
          case sql_update (db_credentials db) (\<lambda>c. cred_id c = cred_id cred)
                 (\<lambda>c. c\<lparr>cred_last_used := Some now\<rparr>) d1 of
            (ignored, d2) \<Rightarrow>
              case sql_first (db_actors db) (\<lambda>a. actor_id a = cred_actor cred) d2 of
                (Inl e, d3) \<Rightarrow> (Inl (DbErr e), d3)
              | (Inr a, d3) \<Rightarrow> (Inr a, d3))"

definition list_agents :: "'d database \<Rightarrow> 'd \<Rightarrow> (repo_error + actor list) \<times> 'd" where
  "list_agents db d =
     (case sql_find (db_actors db)
             \<lparr>q_where = (\<lambda>a. actor_kind a = AgentKind),
              q_before = (\<lambda>a b. actor_created a < actor_created b), q_limit = None\<rparr> d of
        (Inl e, d1) \<Rightarrow> (Inl (DbErr e), d1)
      | (Inr agents, d1) \<Rightarrow> (Inr agents, d1))"

definition list_agent_credentials :: "'d database \<Rightarrow> string \<Rightarrow> 'd
    \<Rightarrow> (repo_error + agent_credential list) \<times> 'd" where
  "list_agent_credentials db actorID d =
     (case sql_find (db_credentials db)
             \<lparr>q_where = (\<lambda>c. cred_actor c = actorID),
              q_before = (\<lambda>a b. cred_created b < cred_created a), q_limit = None\<rparr> d of
        (Inl e, d1) \<Rightarrow> (Inl (DbErr e), d1)
      | (Inr creds, d1) \<Rightarrow> (Inr creds, d1))"

definition actor_names_by_id :: "'d database \<Rightarrow> string list \<Rightarrow> 'd
    \<Rightarrow> (repo_error + (string \<Rightarrow> string option)) \<times> 'd" where
  "actor_names_by_id db ids d =
     (if ids = [] then (Inr Map.empty, d)
      else case sql_find (db_actors db)
             \<lparr>q_where = (\<lambda>a. actor_id a \<in> set ids), q_before = (\<lambda>_ _. False), q_limit = None\<rparr> d of
        (Inl e, d1) \<Rightarrow> (Inl (DbErr e), d1)
      | (Inr actors, d1) \<Rightarrow>
          (Inr (foldl (\<lambda>names a. names(actor_id a \<mapsto> actor_name a)) Map.empty actors), d1))"

definition actors_with_active_token :: "'d database \<Rightarrow> 'd \<Rightarrow> (repo_error + (string \<Rightarrow> bool)) \<times> 'd" where
  "actors_with_active_token db d =
     (case sql_pluck (db_credentials db) (\<lambda>c. cred_revoked c = None) cred_actor (\<lambda>_ _. False) d of
        (Inl e, d1) \<Rightarrow> (Inl (DbErr e), d1)
      | (Inr ids, d1) \<Rightarrow> (Inr (\<lambda>i. i \<in> set ids), d1))"

definition revoke_agent_token :: "'d database \<Rightarrow> time \<Rightarrow> string \<Rightarrow> 'd \<Rightarrow> db_error option \<times> 'd" where
  "revoke_agent_token db now credentialID =
     sql_update (db_credentials db) (\<lambda>c. cred_id c = credentialID \<and> cred_revoked c = None)
       (\<lambda>c. c\<lparr>cred_revoked := Some now\<rparr>)"

definition revoke_all_agent_credentials :: "'d database \<Rightarrow> time \<Rightarrow> string \<Rightarrow> 'd \<Rightarrow> db_error option \<times> 'd" where
  "revoke_all_agent_credentials db now actorID =
     sql_update (db_credentials db) (\<lambda>c. cred_actor c = actorID \<and> cred_revoked c = None)
       (\<lambda>c. c\<lparr>cred_revoked := Some now\<rparr>)"

subsection \<open>Credentials: the predicates the lemmas speak of\<close>

text \<open>A live credential admits its token; a dead hash is one whose credential is revoked.\<close>

definition live :: "string \<Rightarrow> tables \<Rightarrow> agent_credential \<Rightarrow> bool" where
  "live h c cred \<longleftrightarrow> cred \<in> set (tb_credentials c) \<and> cred_hash cred = h \<and> cred_revoked cred = None"

definition dead_hash :: "string \<Rightarrow> tables \<Rightarrow> bool" where
  "dead_hash h c \<longleftrightarrow> uniq_credentials (tb_credentials c)
     \<and> (\<exists>cred \<in> set (tb_credentials c). cred_hash cred = h \<and> cred_revoked cred \<noteq> None)"

lemma dead_hash_not_live:
  assumes "dead_hash h c" shows "\<not> live h c cred"
  using assms distinct_map_eq [of cred_hash "tb_credentials c"]
  by (auto simp: dead_hash_def live_def uniq_credentials_def)

lemma dead_hash_append:
  "dead_hash h c \<Longrightarrow> uniq_credentials (tb_credentials c @ [x])
   \<Longrightarrow> dead_hash h (tb_credentials_update (\<lambda>rs. rs @ [x]) c)"
  by (auto simp: dead_hash_def)

lemma uniq_credentials_map:
  assumes "uniq_credentials rs" "\<And>x. cred_id (u x) = cred_id x" "\<And>x. cred_hash (u x) = cred_hash x"
  shows "uniq_credentials (map u rs)"
  using assms by (simp add: uniq_credentials_def comp_def)

text \<open>A revocation of the live rows that P selects leaves their hashes dead.\<close>

lemma dead_after_revocation:
  assumes "uniq_credentials (tb_credentials c)" "cred \<in> set (tb_credentials c)" "P cred"
    "c' = tb_credentials_update (map (\<lambda>x. if P x \<and> cred_revoked x = None then x\<lparr>cred_revoked := Some now\<rparr> else x)) c"
  shows "dead_hash (cred_hash cred) c'"
proof -
  let ?u = "\<lambda>x. if P x \<and> cred_revoked x = None then x\<lparr>cred_revoked := Some now\<rparr> else x"
  have "uniq_credentials (map ?u (tb_credentials c))"
    using assms(1) by (rule uniq_credentials_map) auto
  moreover have "?u cred \<in> ?u ` set (tb_credentials c)" "cred_hash (?u cred) = cred_hash cred" "cred_revoked (?u cred) \<noteq> None"
    using assms(2,3) by auto
  ultimately show ?thesis unfolding dead_hash_def assms(4) by (auto simp: image_iff)
qed

text \<open>An update that keeps hashes and never clears a revocation keeps dead hashes dead.\<close>

lemma dead_hash_update:
  assumes "dead_hash h c" "\<And>x. cred_id (g x) = cred_id x" "\<And>x. cred_hash (g x) = cred_hash x"
    "\<And>x. cred_revoked x \<noteq> None \<Longrightarrow> cred_revoked (g x) \<noteq> None"
  shows "dead_hash h (tb_credentials_update (map (\<lambda>x. if P x then g x else x)) c)"
proof -
  let ?u = "\<lambda>x. if P x then g x else x"
  have "uniq_credentials (map ?u (tb_credentials c))"
    using assms(1-3) by (intro uniq_credentials_map) (auto simp: dead_hash_def)
  moreover obtain cred where "cred \<in> set (tb_credentials c)" "cred_hash cred = h" "cred_revoked cred \<noteq> None"
    using assms(1) by (auto simp: dead_hash_def)
  then have "?u cred \<in> ?u ` set (tb_credentials c)" "cred_hash (?u cred) = h" "cred_revoked (?u cred) \<noteq> None"
    using assms(3,4) by simp_all
  ultimately show ?thesis by (auto simp: dead_hash_def)
qed

subsection \<open>What each function does to the tables\<close>

context sql_database begin

lemma create_agent_effect:
  assumes "create_agent db uuid now name d = (res, d')"
  shows "case res of
      Inl e \<Rightarrow> content d' = content d
    | Inr a \<Rightarrow> a = \<lparr>actor_id = uuid, actor_name = name, actor_kind = AgentKind, actor_created = now\<rparr>
        \<and> trim_space name \<noteq> [] \<and> content d' = tb_actors_update (\<lambda>rs. rs @ [a]) (content d)
        \<and> uniq_actors (tb_actors (content d) @ [a])"
  using assms actors.create_ok actors.create_failed
  by (auto simp: create_agent_def Let_def split: if_splits prod.splits option.splits)

lemma issue_agent_token_effect:
  assumes "issue_agent_token db sha rnd uuid now i d = (res, d')"
  shows "case res of
      Inl e \<Rightarrow> content d' = content d
    | Inr token \<Rightarrow> \<exists>cred. content d' = tb_credentials_update (\<lambda>rs. rs @ [cred]) (content d)
        \<and> uniq_credentials (tb_credentials (content d) @ [cred])
        \<and> cred_hash cred = hash_token sha token \<and> cred_actor cred = i \<and> cred_revoked cred = None
        \<and> (\<exists>raw. rnd = Inr raw \<and> token = token_prefix @ b64_encode True raw)"
  using assms credentials.create_ok credentials.create_failed
  by (auto simp: issue_agent_token_def Let_def split: sum.splits prod.splits option.splits)

lemma authenticate_effect:
  assumes "authenticate_agent_token db sha now raw d = (res, d')"
  obtains "content d' = content d"
      "res = Inl ErrInvalidToken \<and> (\<forall>cred. \<not> live (hash_token sha raw) (content d) cred)
       \<or> (\<exists>s. res = Inl (DbErr (DbError s)))"
  | cred where "live (hash_token sha raw) (content d) cred"
      "content d' = content d \<or> content d' = tb_credentials_update
         (map (\<lambda>c. if cred_id c = cred_id cred then c\<lparr>cred_last_used := Some now\<rparr> else c)) (content d)"
      "case res of
         Inr a \<Rightarrow> a \<in> set (tb_actors (content d)) \<and> actor_id a = cred_actor cred
       | Inl e \<Rightarrow> \<exists>e'. e = DbErr e'
           \<and> (e' = RecordNotFound \<longrightarrow> (\<forall>a \<in> set (tb_actors (content d)). actor_id a \<noteq> cred_actor cred))"
proof -
  let ?P = "\<lambda>c. cred_hash c = hash_token sha raw \<and> cred_revoked c = None"
  obtain r1 d1 where f: "sql_first (db_credentials db) ?P d = (r1, d1)" by fastforce
  show thesis
  proof (cases r1)
    case (Inl e)
    with f credentials.first_missing have "content d1 = content d"
      "e = RecordNotFound \<longrightarrow> (\<forall>r \<in> set (tb_credentials (content d)). \<not> ?P r)" by blast+
    with assms f Inl show thesis
      by (cases e; intro that(1)) (auto simp: authenticate_agent_token_def live_def)
  next
    case (Inr cred)
    with f credentials.first_found
    have c: "content d1 = content d" "live (hash_token sha raw) (content d) cred"
      by (auto simp: live_def)
    obtain r2 d2 where u: "sql_update (db_credentials db) (\<lambda>c. cred_id c = cred_id cred)
        (\<lambda>c. c\<lparr>cred_last_used := Some now\<rparr>) d1 = (r2, d2)" by fastforce
    have d2: "content d2 = content d \<or> content d2 = tb_credentials_update
         (map (\<lambda>c. if cred_id c = cred_id cred then c\<lparr>cred_last_used := Some now\<rparr> else c)) (content d)"
      using u c(1) credentials.update_ok credentials.update_failed by (cases r2) metis+
    obtain r3 d3 where g: "sql_first (db_actors db) (\<lambda>a. actor_id a = cred_actor cred) d2 = (r3, d3)"
      by fastforce
    have acts: "tb_actors (content d2) = tb_actors (content d)" using d2 by auto
    have run: "d' = d3" "res = (case r3 of Inl e \<Rightarrow> Inl (DbErr e) | Inr a \<Rightarrow> Inr a)"
      using assms f Inr u g by (auto simp: authenticate_agent_token_def split: sum.splits)
    show thesis
    proof (cases r3)
      case (Inl e)
      with actors.first_missing [OF g [unfolded Inl]] run acts c(2) d2 show thesis
        by (intro that(2)) auto
    next
      case (Inr a)
      with actors.first_found [OF g [unfolded Inr]] run acts c(2) d2 show thesis
        by (intro that(2)) auto
    qed
  qed
qed

lemma lists_keep:
  "list_agents db d = (r1, d') \<Longrightarrow> content d' = content d"
  "list_agent_credentials db i d = (r2, d') \<Longrightarrow> content d' = content d"
  "actor_names_by_id db ids d = (r3, d') \<Longrightarrow> content d' = content d"
  "actors_with_active_token db d = (r4, d') \<Longrightarrow> content d' = content d"
  using actors.find_keeps credentials.find_keeps credentials.pluck_keeps
  by (auto simp: list_agents_def list_agent_credentials_def actor_names_by_id_def
      actors_with_active_token_def split: prod.splits sum.splits if_splits)

lemma revoke_agent_token_effect:
  assumes "revoke_agent_token db now i d = (res, d')"
  shows "content d' = (if res = None then tb_credentials_update
      (map (\<lambda>c. if cred_id c = i \<and> cred_revoked c = None then c\<lparr>cred_revoked := Some now\<rparr> else c)) (content d)
      else content d)"
  using assms credentials.update_ok credentials.update_failed
  unfolding revoke_agent_token_def by (cases res) auto

lemma revoke_all_effect:
  assumes "revoke_all_agent_credentials db now i d = (res, d')"
  shows "content d' = (if res = None then tb_credentials_update
      (map (\<lambda>c. if cred_actor c = i \<and> cred_revoked c = None then c\<lparr>cred_revoked := Some now\<rparr> else c)) (content d)
      else content d)"
  using assms credentials.update_ok credentials.update_failed
  unfolding revoke_all_agent_credentials_def by (cases res) auto

lemma list_agents_rows:
  assumes "list_agents db d = (Inr agents, d')"
  shows "mset agents = mset (filter (\<lambda>a. actor_kind a = AgentKind) (tb_actors (content d)))
    \<and> sorted_wrt (\<lambda>a b. actor_created a \<le> actor_created b) agents"
proof -
  have "strict_weak (\<lambda>a b. actor_created a < actor_created b)" by (auto simp: strict_weak_def)
  with assms actors.find_rows show ?thesis
    by (fastforce simp: list_agents_def answers_def limit_to_def linorder_not_less
        split: prod.splits sum.splits)
qed

lemma actors_with_active_token_set:
  assumes "actors_with_active_token db d = (Inr active, d')"
  shows "active i \<longleftrightarrow> (\<exists>c \<in> set (tb_credentials (content d)). cred_actor c = i \<and> cred_revoked c = None)"
proof -
  have "strict_weak (\<lambda>_ _ :: string. False)" by (simp add: strict_weak_def)
  with assms credentials.pluck_values show ?thesis
    by (fastforce simp: actors_with_active_token_def split: prod.splits sum.splits)
qed

end

text \<open>On a calm database a live credential authenticates.\<close>

context calm_database begin

lemma authenticate_calm:
  assumes "calm d" "live (hash_token sha raw) (content d) cred" "uniq_credentials (tb_credentials (content d))"
    "a \<in> set (tb_actors (content d))" "actor_id a = cred_actor cred" "uniq_actors (tb_actors (content d))"
    "authenticate_agent_token db sha now raw d = (res, d')"
  shows "res = Inr a \<and> calm d'"
proof -
  let ?P = "\<lambda>c. cred_hash c = hash_token sha raw \<and> cred_revoked c = None"
  obtain r1 d1 where f: "sql_first (db_credentials db) ?P d = (r1, d1)" by fastforce
  have "cred \<in> set (tb_credentials (content d))" "?P cred" using assms(2) by (simp_all add: live_def)
  from credentials.found_when_calm [OF assms(1) this f] obtain x where
    x: "calm d1" "content d1 = content d" "r1 = Inr x" "x \<in> set (tb_credentials (content d))" "?P x" by blast
  then have "x = cred" using assms(2,3) distinct_map_eq [of cred_hash "tb_credentials (content d)" x cred]
    by (auto simp: live_def uniq_credentials_def)
  obtain r2 d2 where u: "sql_update (db_credentials db) (\<lambda>c. cred_id c = cred_id x)
      (\<lambda>c. c\<lparr>cred_last_used := Some now\<rparr>) d1 = (r2, d2)" by fastforce
  have d2: "calm d2" "tb_actors (content d2) = tb_actors (content d)"
    using credentials.update_calm [OF u x(1)] credentials.update_ok [of _ _ d1 d2] credentials.update_failed [of _ _ d1 _ d2] u x(2)
    by (cases r2; force)+
  obtain r3 d3 where g: "sql_first (db_actors db) (\<lambda>b. actor_id b = cred_actor x) d2 = (r3, d3)" by fastforce
  have "a \<in> set (tb_actors (content d2))" "actor_id a = cred_actor x" using assms(4,5) d2(2) \<open>x = cred\<close> by simp_all
  from actors.found_when_calm [OF d2(1) this g] obtain b where
    b: "calm d3" "r3 = Inr b" "b \<in> set (tb_actors (content d2))" "actor_id b = cred_actor x" by blast
  then have "b = a" using assms(4-6) d2(2) \<open>x = cred\<close> distinct_map_eq [of actor_id "tb_actors (content d)" a b]
    by (simp add: uniq_actors_def)
  with assms(7) f x(3) u g b show ?thesis by (simp add: authenticate_agent_token_def)
qed

lemma actor_names_calm:
  assumes "calm d" "actor_names_by_id db ids d = (res, d')"
  shows "calm d' \<and> (\<exists>names. res = Inr names)"
  using assms actors.find_calm
  by (fastforce simp: actor_names_by_id_def split: if_splits prod.splits sum.splits)

end

subsection \<open>Runs of the repository\<close>

datatype actor_op =
  CreateAgentOp string time string
| IssueTokenOp "string + bytes" string time string
| AuthenticateOp time string
| ListAgentsOp
| ListCredentialsOp string
| NamesOp "string list"
| ActiveOp
| RevokeTokenOp time string
| RevokeAllOp time string

fun run_actor_op :: "'d database \<Rightarrow> (bytes \<Rightarrow> bytes) \<Rightarrow> actor_op \<Rightarrow> 'd \<Rightarrow> 'd" where
  "run_actor_op db sha (CreateAgentOp uuid now name) d = snd (create_agent db uuid now name d)"
| "run_actor_op db sha (IssueTokenOp rnd uuid now i) d = snd (issue_agent_token db sha rnd uuid now i d)"
| "run_actor_op db sha (AuthenticateOp now raw) d = snd (authenticate_agent_token db sha now raw d)"
| "run_actor_op db sha ListAgentsOp d = snd (list_agents db d)"
| "run_actor_op db sha (ListCredentialsOp i) d = snd (list_agent_credentials db i d)"
| "run_actor_op db sha (NamesOp ids) d = snd (actor_names_by_id db ids d)"
| "run_actor_op db sha ActiveOp d = snd (actors_with_active_token db d)"
| "run_actor_op db sha (RevokeTokenOp now i) d = snd (revoke_agent_token db now i d)"
| "run_actor_op db sha (RevokeAllOp now i) d = snd (revoke_all_agent_credentials db now i d)"

definition run_actor_ops :: "'d database \<Rightarrow> (bytes \<Rightarrow> bytes) \<Rightarrow> actor_op list \<Rightarrow> 'd \<Rightarrow> 'd" where
  "run_actor_ops db sha ops d = foldl (\<lambda>d op. run_actor_op db sha op d) d ops"

context sql_database begin

lemma dead_hash_authenticate:
  assumes "dead_hash h (content d)" "authenticate_agent_token db sha now raw d = (res, d')"
  shows "dead_hash h (content d')"
  using assms(2)
proof (cases rule: authenticate_effect)
  case (2 cred)
  from 2(2) assms(1) show ?thesis by (auto intro!: dead_hash_update)
qed (use assms(1) in simp)

lemma dead_hash_op:
  assumes "dead_hash h (content d)"
  shows "dead_hash h (content (run_actor_op db sha op d))"
proof (cases op)
  case (CreateAgentOp uuid now name)
  obtain r d' where run: "create_agent db uuid now name d = (r, d')" by fastforce
  from create_agent_effect [OF run] assms run CreateAgentOp show ?thesis
    by (auto simp: dead_hash_def split: sum.splits)
next
  case (IssueTokenOp rnd uuid now i)
  obtain r d' where run: "issue_agent_token db sha rnd uuid now i d = (r, d')" by fastforce
  from issue_agent_token_effect [OF run] assms run IssueTokenOp show ?thesis
    by (auto intro: dead_hash_append split: sum.splits)
next
  case (AuthenticateOp now raw)
  obtain r d' where run: "authenticate_agent_token db sha now raw d = (r, d')" by fastforce
  from dead_hash_authenticate [OF assms run] run AuthenticateOp show ?thesis by simp
next
  case (RevokeTokenOp now i)
  obtain r d' where run: "revoke_agent_token db now i d = (r, d')" by fastforce
  from revoke_agent_token_effect [OF run] assms run RevokeTokenOp show ?thesis
    by (auto intro!: dead_hash_update)
next
  case (RevokeAllOp now i)
  obtain r d' where run: "revoke_all_agent_credentials db now i d = (r, d')" by fastforce
  from revoke_all_effect [OF run] assms run RevokeAllOp show ?thesis
    by (auto intro!: dead_hash_update)
next
  case ListAgentsOp
  with assms show ?thesis by (metis lists_keep(1) run_actor_op.simps(4) prod.collapse)
next
  case (ListCredentialsOp i)
  with assms show ?thesis by (metis lists_keep(2) run_actor_op.simps(5) prod.collapse)
next
  case (NamesOp ids)
  with assms show ?thesis by (metis lists_keep(3) run_actor_op.simps(6) prod.collapse)
next
  case ActiveOp
  with assms show ?thesis by (metis lists_keep(4) run_actor_op.simps(7) prod.collapse)
qed

lemma dead_hash_run: "dead_hash h (content d) \<Longrightarrow> dead_hash h (content (run_actor_ops db sha ops d))"
  by (induction ops arbitrary: d) (simp_all add: run_actor_ops_def dead_hash_op)

lemma dead_hash_refused:
  assumes "dead_hash (hash_token sha raw) (content d)" "authenticate_agent_token db sha now raw d = (res, d')"
  shows "\<exists>e. res = Inl e"
  using assms(2)
proof (cases rule: authenticate_effect)
  case 1
  then show ?thesis by (cases res) auto
next
  case (2 cred)
  with dead_hash_not_live [OF assms(1)] show ?thesis by blast
qed

lemma revoked_is_dead:
  assumes "uniq_credentials (tb_credentials (content d))"
    "cred \<in> set (tb_credentials (content d))" "cred_hash cred = hash_token sha raw"
    "revoke_agent_token db now (cred_id cred) d = (None, d1)"
  shows "dead_hash (hash_token sha raw) (content d1)"
  using dead_after_revocation [OF assms(1,2), of "\<lambda>c. cred_id c = cred_id cred" "content d1" now]
    revoke_agent_token_effect [OF assms(4)] assms(3) by simp

end

subsection \<open>Properties\<close>

definition example_actor :: actor where
  "example_actor = \<lparr>actor_id = ''a1'', actor_name = ''bot'', actor_kind = AgentKind, actor_created = 5\<rparr>"

definition example_agents :: "string list \<Rightarrow> mem_db" where
  "example_agents tokens = mem_empty\<lparr>md_tables := (md_tables mem_empty)
     \<lparr>tb_actors := [example_actor],
      tb_credentials := map (\<lambda>t. \<lparr>cred_id = ''id'' @ t, cred_actor = ''a1'', cred_label = [],
        cred_hash = hash_token id t, cred_created = 6, cred_revoked = None, cred_last_used = None\<rparr>) tokens\<rparr>\<rparr>"

lemmas example_agents_defs = example_actor_def example_agents_def mem_empty_def

text \<open>A token that IssueAgentToken returned authenticates as the actor it was issued for: a later
  AuthenticateAgentToken answers with that actor, unless the database fails; it never
  answers that the token is invalid or the actor missing.\<close>

theorem issued_token_authenticates:
  assumes "sql_database content db" "issue_agent_token db sha rnd uuid now i d = (Inr token, d1)"
    "a \<in> set (tb_actors (content d))" "actor_id a = i" "uniq_actors (tb_actors (content d))"
    "authenticate_agent_token db sha now' token d1 = (res, d2)"
  shows "res = Inr a \<or> (\<exists>e. res = Inl (DbErr (DbError e)))"
proof -
  obtain cred where c: "content d1 = tb_credentials_update (\<lambda>rs. rs @ [cred]) (content d)"
    "uniq_credentials (tb_credentials (content d) @ [cred])" "cred_hash cred = hash_token sha token"
    "cred_actor cred = i" "cred_revoked cred = None"
    using sql_database.issue_agent_token_effect [OF assms(1,2)] by auto
  then have lv: "live (hash_token sha token) (content d1) cred" by (simp add: live_def)
  have only: "x = cred" if "live (hash_token sha token) (content d1) x" for x
    using that c distinct_map_eq [of cred_hash "tb_credentials (content d) @ [cred]" x cred]
    by (auto simp: live_def uniq_credentials_def)
  show ?thesis
    using sql_database.authenticate_effect [OF assms(1,6)]
  proof cases
    case 1
    with lv show ?thesis by blast
  next
    case (2 x)
    with only c(4) have "cred_actor x = i" by simp
    note ids = distinct_map_eq [of actor_id "tb_actors (content d)" _ a]
    show ?thesis
    proof (cases res)
      case (Inr b)
      with 2(3) c(1) \<open>cred_actor x = i\<close> have "b \<in> set (tb_actors (content d))" "actor_id b = i" by simp_all
      with ids assms(3-5) Inr show ?thesis by (simp add: uniq_actors_def)
    next
      case (Inl e)
      with 2(3) obtain e' where e: "e = DbErr e'"
        "e' = RecordNotFound \<longrightarrow> (\<forall>a \<in> set (tb_actors (content d1)). actor_id a \<noteq> i)"
        using \<open>cred_actor x = i\<close> by auto
      moreover have "a \<in> set (tb_actors (content d1))" using assms(3) c(1) by simp
      ultimately have "e' \<noteq> RecordNotFound" using assms(4) by blast
      with e(1) Inl show ?thesis by (cases e') auto
    qed
  qed
qed

theorem issued_token_authenticates_witness:
  "\<exists>token d1. issue_agent_token mem_database id (Inr ''key'') ''c1'' 7 ''a1'' (example_agents []) = (Inr token, d1)
     \<and> fst (authenticate_agent_token mem_database id 8 token d1) = Inr example_actor"
proof -
  let ?d = "example_agents []"
  define token where "token = token_prefix @ b64_encode True ''key''"
  obtain d1 where issue: "issue_agent_token mem_database id (Inr ''key'') ''c1'' 7 ''a1'' ?d = (Inr token, d1)"
    "md_faults d1 = []"
    by (auto simp: issue_agent_token_def token_def mem_eval example_agents_defs Let_def)
  obtain res d2 where auth: "authenticate_agent_token mem_database id 8 token d1 = (res, d2)" by fastforce
  have "res = Inr example_actor \<or> (\<exists>e. res = Inl (DbErr (DbError e)))"
    using issued_token_authenticates [OF mem.sql_database_axioms issue(1) _ _ _ auth, of example_actor]
    by (simp add: example_agents_defs uniq_actors_def)
  moreover have "\<nexists>e. res = Inl (DbErr (DbError e))"
    using auth issue(2)
    by (auto simp: authenticate_agent_token_def mem_eval split: list.splits if_splits)
  ultimately show ?thesis using issue(1) auth by auto
qed

text \<open>Revocation is final. Once a credential has been revoked, its token is refused after any
  sequence of repository calls, whatever they are and however they fail.\<close>

theorem revoked_token_never_authenticates:
  assumes "sql_database content db" "uniq_credentials (tb_credentials (content d))"
    "cred \<in> set (tb_credentials (content d))" "cred_hash cred = hash_token sha raw"
    "revoke_agent_token db now (cred_id cred) d = (None, d1)"
    "authenticate_agent_token db sha now' raw (run_actor_ops db sha ops d1) = (res, d2)"
  shows "\<exists>e. res = Inl e"
proof -
  have "dead_hash (hash_token sha raw) (content (run_actor_ops db sha ops d1))"
    using sql_database.dead_hash_run [OF assms(1)] sql_database.revoked_is_dead [OF assms(1-5)] by blast
  with sql_database.dead_hash_refused [OF assms(1)] assms(6) show ?thesis by blast
qed

theorem revoked_token_never_authenticates_witness:
  "let d1 = snd (revoke_agent_token mem_database 9 ''idT'' (example_agents [''T'', ''U'']));
       d2 = run_actor_ops mem_database id [AuthenticateOp 10 ''U'', RevokeTokenOp 11 ''idT'',
              IssueTokenOp (Inr ''key'') ''c3'' 12 ''a1'', ListAgentsOp] d1
   in \<forall>a. fst (authenticate_agent_token mem_database id 13 ''T'' d2) \<noteq> Inr a"
proof -
  let ?d = "example_agents [''T'', ''U'']" and ?ops = "[AuthenticateOp 10 ''U'', RevokeTokenOp 11 ''idT'',
              IssueTokenOp (Inr ''key'') ''c3'' 12 ''a1'', ListAgentsOp]"
  let ?cred = "\<lparr>cred_id = ''idT'', cred_actor = ''a1'', cred_label = [],
        cred_hash = hash_token id ''T'', cred_created = 6, cred_revoked = None, cred_last_used = None\<rparr>"
  have ne: "hash_token id ''T'' \<noteq> hash_token id ''U''"
    using hash_token_def hex_encode_inj by fastforce
  have uniq: "uniq_credentials (tb_credentials (md_tables ?d))"
    using ne by (simp add: example_agents_defs uniq_credentials_def)
  obtain d1 where rev: "revoke_agent_token mem_database 9 (cred_id ?cred) ?d = (None, d1)"
    using ne by (auto simp: revoke_agent_token_def mem_eval example_agents_defs)
  obtain res d2 where auth:
    "authenticate_agent_token mem_database id 13 ''T'' (run_actor_ops mem_database id ?ops d1) = (res, d2)"
    by fastforce
  have "\<exists>e. res = Inl e"
    by (rule revoked_token_never_authenticates [OF mem.sql_database_axioms uniq _ _ rev auth])
      (simp_all add: example_agents_defs)
  then show ?thesis using rev auth by (auto simp: Let_def)
qed

text \<open>What AuthenticateAgentToken answers is what the tables hold: an actor only for a live
  credential with the hash of the token, and that credential's actor; ErrInvalidToken
  only when there is none. No row but last_used_at changes.\<close>

theorem authenticate_sound:
  assumes "sql_database content db" "authenticate_agent_token db sha now raw d = (res, d')"
  shows "case res of
      Inr a \<Rightarrow> \<exists>cred. live (hash_token sha raw) (content d) cred \<and> a \<in> set (tb_actors (content d))
                \<and> actor_id a = cred_actor cred
    | Inl e \<Rightarrow> e = ErrInvalidToken \<longrightarrow> (\<forall>cred. \<not> live (hash_token sha raw) (content d) cred)"
  using sql_database.authenticate_effect [OF assms]
proof cases
  case 1
  then show ?thesis by (cases res) auto
next
  case (2 cred)
  then show ?thesis by (cases res) auto
qed

theorem authenticate_sound_witness:
  "fst (authenticate_agent_token mem_database id 8 ''T'' (example_agents [''T''])) = Inr example_actor
   \<and> (\<exists>cred. live (hash_token id ''T'') (md_tables (example_agents [''T''])) cred \<and> cred_actor cred = ''a1'')"
proof -
  obtain d' where run:
    "authenticate_agent_token mem_database id 8 ''T'' (example_agents [''T'']) = (Inr example_actor, d')"
    by (auto simp: authenticate_agent_token_def mem_eval example_agents_defs)
  with authenticate_sound [OF mem.sql_database_axioms run] show ?thesis
    by (auto simp: example_actor_def)
qed

text \<open>Deleting an agent through RevokeAllAgentCredentials takes away every live token and nothing
  else: the agent is still listed afterwards, and is not among the actors with an active
  token.\<close>

theorem deleted_agent_is_listed_without_token:
  assumes "sql_database content db" "revoke_all_agent_credentials db now (actor_id a) d = (None, d1)"
    "list_agents db d1 = (Inr agents, d2)" "actors_with_active_token db d2 = (Inr active, d3)"
    "a \<in> set (tb_actors (content d))" "actor_kind a = AgentKind"
  shows "a \<in> set agents \<and> \<not> active (actor_id a)"
proof -
  note d1 = sql_database.revoke_all_effect [OF assms(1,2)]
  note d2 = sql_database.lists_keep(1) [OF assms(1,3)]
  have "mset agents = mset (filter (\<lambda>a. actor_kind a = AgentKind) (tb_actors (content d1)))"
    using sql_database.list_agents_rows [OF assms(1,3)] by simp
  then have "set agents = set (filter (\<lambda>a. actor_kind a = AgentKind) (tb_actors (content d1)))"
    by (metis set_mset_mset)
  moreover have "\<not> active (actor_id a)"
    using sql_database.actors_with_active_token_set [OF assms(1,4)] d1 d2 by auto
  ultimately show ?thesis using assms(5,6) d1 by simp
qed

theorem deleted_agent_is_listed_without_token_witness:
  "\<exists>d1 d2 d3 agents active. revoke_all_agent_credentials mem_database 9 ''a1'' (example_agents [''T'']) = (None, d1)
     \<and> list_agents mem_database d1 = (Inr agents, d2) \<and> actors_with_active_token mem_database d2 = (Inr active, d3)
     \<and> example_actor \<in> set agents \<and> \<not> active ''a1''"
proof -
  obtain d1 where d1: "revoke_all_agent_credentials mem_database 9 (actor_id example_actor) (example_agents [''T'']) = (None, d1)"
    "md_faults d1 = []"
    by (auto simp: revoke_all_agent_credentials_def mem_eval example_agents_defs)
  obtain agents where d2: "list_agents mem_database d1 = (Inr agents, d1)"
    using d1(2) by (auto simp: list_agents_def mem_eval)
  obtain active where d3: "actors_with_active_token mem_database d1 = (Inr active, d1)"
    using d1(2) by (auto simp: actors_with_active_token_def mem_eval)
  from deleted_agent_is_listed_without_token [OF mem.sql_database_axioms d1(1) d2 d3]
  have "example_actor \<in> set agents \<and> \<not> active (actor_id example_actor)"
    by (simp add: example_agents_defs)
  with d1(1) d2 d3 show ?thesis by (auto simp: example_actor_def)
qed

end
