(* ===== verification/Http.thy ===== *)
theory Http
  imports Prelude
begin

section \<open>Requests and replies (net/http as the handlers use it)\<close>

text \<open>
  The part of an HTTP request that the handlers read, as net/http has parsed it (method, path,
  Accept header, cookies and query parameters in their order, body), and the replies
  they write with http.Error, http.Redirect and http.SetCookie.
\<close>

record http_request =
  rq_method :: string
  rq_path :: string
  rq_accept :: string
  rq_cookies :: "(string \<times> string) list"
  rq_query :: "(string \<times> string) list"
  rq_body :: string

record set_cookie =
  ck_name :: string
  ck_value :: string
  ck_path :: string
  ck_max_age :: int
  ck_http_only :: bool
  ck_secure :: bool
  ck_same_site_lax :: bool

record http_reply =
  hr_status :: int
  hr_headers :: "(string \<times> string) list"
  hr_cookies :: "set_cookie list"
  hr_body :: string

text \<open>r.Cookie, the first cookie of the name, and r.URL.Query().Get, the first value or the empty string.\<close>

definition cookie_value :: "string \<Rightarrow> http_request \<Rightarrow> string option" where
  "cookie_value name req = map_of (rq_cookies req) name"

definition query_get :: "string \<Rightarrow> http_request \<Rightarrow> string" where
  "query_get name req = (case map_of (rq_query req) name of None \<Rightarrow> [] | Some v \<Rightarrow> v)"

text \<open>http.Error\<close>

definition http_error :: "(string \<times> string) list \<Rightarrow> string \<Rightarrow> int \<Rightarrow> http_reply" where
  "http_error headers msg status =
     \<lparr>hr_status = status,
      hr_headers = headers @ [(''Content-Type'', ''text/plain; charset=utf-8''), (''X-Content-Type-Options'', ''nosniff'')],
      hr_cookies = [], hr_body = msg @ [CHR 0x0A]\<rparr>"

text \<open>http.Redirect with http.StatusFound, to a path that is already clean or to an absolute URL\<close>

fun html_escape :: "string \<Rightarrow> string" where
  "html_escape [] = []"
| "html_escape (c # cs) =
     (if c = CHR ''&'' then ''&amp;''
      else if c = CHR ''<'' then ''&lt;''
      else if c = CHR ''>'' then ''&gt;''
      else if c = CHR 0x22 then ''&#34;''
      else if c = CHR 0x27 then ''&#39;''
      else [c]) @ html_escape cs"

definition http_found :: "set_cookie list \<Rightarrow> http_request \<Rightarrow> string \<Rightarrow> http_reply" where
  "http_found cookies req url =
     \<lparr>hr_status = 302,
      hr_headers = (''Location'', url) # (if rq_method req \<in> {''GET'', ''HEAD''}
         then [(''Content-Type'', ''text/html; charset=utf-8'')] else []),
      hr_cookies = cookies,
      hr_body = (if rq_method req = ''GET''
         then ''<a href='' @ [CHR 0x22] @ html_escape url @ [CHR 0x22] @ ''>Found</a>.'' @ [CHR 0x0A, CHR 0x0A] else [])\<rparr>"

datatype 'r guarded = Refused http_reply | Served 'r

text \<open>strings.CutPrefix and strings.Contains\<close>

definition cut_prefix :: "string \<Rightarrow> string \<Rightarrow> string option" where
  "cut_prefix s prefix = (if take (length prefix) s = prefix then Some (drop (length prefix) s) else None)"

fun contains_text :: "string \<Rightarrow> string \<Rightarrow> bool" where
  "contains_text [] sub \<longleftrightarrow> sub = []"
| "contains_text (c # cs) sub \<longleftrightarrow> take (length sub) (c # cs) = sub \<or> contains_text cs sub"

lemma http_status [simp]: "hr_status (http_error h msg s) = s" "hr_status (http_found cs req url) = 302"
  by (simp_all add: http_error_def http_found_def)

lemma http_cookies [simp]: "hr_cookies (http_error h msg s) = []" "hr_cookies (http_found cs req url) = cs"
  by (simp_all add: http_error_def http_found_def)

end
