(* ===== verification/Auth.thy ===== *)
theory Auth
  imports Actor_Repo Http
begin

section \<open>Authentication of agents (internal/auth/auth.go)\<close>

text \<open>
  RequireBearer as a function of the Authorization header and of the handler behind it: the
  answer is a refusal or what the handler answered for the authenticated actor, which is
  the value that the Go code puts into the request context.
\<close>

definition auth_authenticate :: "'d database \<Rightarrow> (bytes \<Rightarrow> bytes) \<Rightarrow> time \<Rightarrow> string \<Rightarrow> 'd
    \<Rightarrow> (repo_error + actor) \<times> 'd" where
  "auth_authenticate db sha now raw = authenticate_agent_token db sha now raw"

definition auth_issue :: "'d database \<Rightarrow> (bytes \<Rightarrow> bytes) \<Rightarrow> string + bytes \<Rightarrow> string \<Rightarrow> time
    \<Rightarrow> string \<Rightarrow> string \<Rightarrow> 'd \<Rightarrow> (repo_error + string) \<times> 'd" where
  "auth_issue db sha rnd uuid now actorID label = issue_agent_token db sha rnd uuid now actorID"

definition missing_token_reply :: http_reply where
  "missing_token_reply = http_error [(''WWW-Authenticate'', ''Bearer realm=\"webtools\"'')] ''missing bearer token'' 401"

definition invalid_token_reply :: http_reply where
  "invalid_token_reply = http_error
     [(''WWW-Authenticate'', ''Bearer realm=\"webtools\", error=\"invalid_token\"'')]
     ''invalid or revoked token'' 401"

definition require_bearer :: "'d database \<Rightarrow> (bytes \<Rightarrow> bytes) \<Rightarrow> time \<Rightarrow> string
    \<Rightarrow> (actor \<Rightarrow> 'd \<Rightarrow> 'r \<times> 'd) \<Rightarrow> 'd \<Rightarrow> 'r guarded \<times> 'd" where
  "require_bearer db sha now header handler d =
     (case cut_prefix header ''Bearer '' of
        None \<Rightarrow> (Refused missing_token_reply, d)
      | Some token \<Rightarrow>
          if token = [] then (Refused missing_token_reply, d)
          else case auth_authenticate db sha now token d of
            (Inl e, d1) \<Rightarrow> (Refused invalid_token_reply, d1)
          | (Inr a, d1) \<Rightarrow> case handler a d1 of (r, d2) \<Rightarrow> (Served r, d2))"

lemma require_bearer_cases:
  assumes "sql_database content db" "require_bearer db sha now header handler d = (res, d')"
  obtains reply where "res = Refused reply" "hr_status reply = 401"
      "content d' = (content d)\<lparr>tb_credentials := tb_credentials (content d')\<rparr>"
  | token a cred d1 r where "header = ''Bearer '' @ token" "token \<noteq> []"
      "authenticate_agent_token db sha now token d = (Inr a, d1)"
      "live (hash_token sha token) (content d) cred" "a \<in> set (tb_actors (content d))" "actor_id a = cred_actor cred"
      "content d1 = (content d)\<lparr>tb_credentials := tb_credentials (content d1)\<rparr>"
      "handler a d1 = (r, d')" "res = Served r"
proof (cases "\<exists>token. cut_prefix header ''Bearer '' = Some token \<and> token \<noteq> []")
  case False
  then have "res = Refused missing_token_reply" "d' = d"
    using assms(2) by (auto simp: require_bearer_def split: option.splits if_splits)
  then show thesis by (intro that(1) [of missing_token_reply]) (simp_all add: missing_token_reply_def http_error_def)
next
  case True
  then obtain token where t: "cut_prefix header ''Bearer '' = Some token" "token \<noteq> []" by blast
  then have header: "header = ''Bearer '' @ token"
    by (auto simp: cut_prefix_def split: if_splits) (metis append_take_drop_id append_Cons append_Nil)
  obtain r1 d1 where auth: "authenticate_agent_token db sha now token d = (r1, d1)" by fastforce
  have frame: "content d1 = (content d)\<lparr>tb_credentials := tb_credentials (content d1)\<rparr>"
    using sql_database.authenticate_effect [OF assms(1) auth] by cases auto
  show thesis
  proof (cases r1)
    case (Inl e)
    with t auth assms(2) have "res = Refused invalid_token_reply" "d' = d1"
      by (auto simp: require_bearer_def auth_authenticate_def)
    with frame show thesis by (intro that(1) [of invalid_token_reply]) (simp_all add: invalid_token_reply_def http_error_def)
  next
    case (Inr a)
    obtain r d2 where h: "handler a d1 = (r, d2)" by fastforce
    with t auth Inr assms(2) have res: "res = Served r" "d' = d2"
      by (auto simp: require_bearer_def auth_authenticate_def)
    from sql_database.authenticate_effect [OF assms(1) auth [unfolded Inr]]
    obtain cred where "live (hash_token sha token) (content d) cred" "a \<in> set (tb_actors (content d))"
      "actor_id a = cred_actor cred" by cases auto
    with header t(2) auth Inr frame h res show thesis by (intro that(2) [of token a d1 cred r]) simp_all
  qed
qed

subsection \<open>Properties\<close>

text \<open>The handler behind RequireBearer runs for nobody but the actor of a live credential whose
  hash is that of the presented token; everybody else is refused with 401, and a refusal
  changes no actor, no identity, no session and no history.\<close>

theorem bearer_admits_only_live_tokens:
  assumes "sql_database content db" "require_bearer db sha now header handler d = (res, d')"
  shows "case res of
      Refused reply \<Rightarrow> hr_status reply = 401 \<and> tb_actors (content d') = tb_actors (content d)
        \<and> tb_identities (content d') = tb_identities (content d)
        \<and> tb_sessions (content d') = tb_sessions (content d) \<and> tb_calls (content d') = tb_calls (content d)
    | Served r \<Rightarrow> \<exists>token a cred d1. header = ''Bearer '' @ token \<and> live (hash_token sha token) (content d) cred
        \<and> a \<in> set (tb_actors (content d)) \<and> actor_id a = cred_actor cred \<and> handler a d1 = (r, d')"
  using assms
proof (cases rule: require_bearer_cases)
  case (1 reply)
  from 1(3) have "tb_actors (content d') = tb_actors (content d)" "tb_identities (content d') = tb_identities (content d)"
    "tb_sessions (content d') = tb_sessions (content d)" "tb_calls (content d') = tb_calls (content d)"
    by (metis tables.select_convs tables.surjective tables.update_convs(2))+
  with 1 show ?thesis by simp
next
  case 2
  then show ?thesis by auto
qed

theorem bearer_admits_only_live_tokens_witness:
  "fst (require_bearer mem_database id 8 ''Bearer T'' (\<lambda>a d. (actor_name a, d)) (example_agents [''T''])) = Served ''bot''
   \<and> (\<exists>reply. fst (require_bearer mem_database id 8 ''Bearer X'' (\<lambda>a d. (actor_name a, d)) (example_agents [])) = Refused reply
        \<and> hr_status reply = 401)"
proof -
  let ?h = "\<lambda>a (d :: mem_db). (actor_name a, d)"
  have ok: "fst (require_bearer mem_database id 8 ''Bearer T'' ?h (example_agents [''T''])) = Served ''bot''"
    by (simp add: require_bearer_def cut_prefix_def auth_authenticate_def authenticate_agent_token_def
        mem_eval example_agents_defs)
  obtain res d' where run: "require_bearer mem_database id 8 ''Bearer X'' ?h (example_agents []) = (res, d')"
    by fastforce
  have "\<exists>reply. res = Refused reply"
    using run by (auto simp: require_bearer_def cut_prefix_def auth_authenticate_def authenticate_agent_token_def
        mem_eval example_agents_defs)
  with bearer_admits_only_live_tokens [OF mem.sql_database_axioms run] run ok show ?thesis by auto
qed

end
