(* ===== verification/Json.thy ===== *)
theory Json
  imports Utf8
begin

section \<open>The JSON that goes into history (encoding/json as recorder.go uses it)\<close>

text \<open>
  MarshalForHistory calls json.Marshal on the inputs and outputs of the two tools and on the
  error object: objects, arrays, strings, integers and booleans. \<open>marshal\<close> renders such a
  value as encoding/json does: strings with the HTML-safe escapes, an invalid byte as the
  escape of U+FFFD, U+2028 and U+2029 escaped. On these values Marshal does not fail, so the
  fallback of MarshalForHistory is not reached. The point of the lemmas is the claim of
  its comment: the result can be stored in a text column, it is valid UTF-8 without NUL
  bytes or any other control character.
\<close>

definition backslash :: char where
  "backslash = CHR 0x5C"

definition low_hex :: "nat \<Rightarrow> char" where
  "low_hex n = (if n < 10 then char_of (48 + n) else char_of (87 + n))"

definition escape_ascii :: "char \<Rightarrow> string" where
  "escape_ascii c =
     (if c = CHR 0x22 \<or> c = backslash then [backslash, c]
      else if c = CHR 0x08 then [backslash, CHR ''b'']
      else if c = CHR 0x0C then [backslash, CHR ''f'']
      else if c = CHR 0x0A then [backslash, CHR ''n'']
      else if c = CHR 0x0D then [backslash, CHR ''r'']
      else if c = CHR 0x09 then [backslash, CHR ''t'']
      else if bv c < 0x20 \<or> c \<in> {CHR ''<'', CHR ''>'', CHR ''&''} then
        [backslash, CHR ''u'', CHR ''0'', CHR ''0'', low_hex (bv c div 16), low_hex (bv c mod 16)]
      else [c])"

function escape_string :: "string \<Rightarrow> string" where
  "escape_string s =
     (if s = [] then []
      else if bv (hd s) < 0x80 then escape_ascii (hd s) @ escape_string (tl s)
      else if bad_rune (decode_rune s) then
        backslash # ''ufffd'' @ escape_string (tl s)
      else if fst (decode_rune s) \<in> {0x2028, 0x2029} then
        backslash # ''u202'' @ [low_hex (fst (decode_rune s) mod 16)]
          @ escape_string (drop (snd (decode_rune s)) s)
      else take (snd (decode_rune s)) s @ escape_string (drop (snd (decode_rune s)) s))"
  by pat_completeness auto
termination
  by (relation "measure length") (auto intro!: diff_less decode_rune_size_pos)

declare escape_string.simps [simp del]

definition quote :: "string \<Rightarrow> string" where
  "quote s = CHR 0x22 # escape_string s @ [CHR 0x22]"

datatype json =
  JStr string
| JInt int
| JBool bool
| JArr "json list"
| JObj "(string \<times> json) list"

fun join_comma :: "string list \<Rightarrow> string" where
  "join_comma [] = []"
| "join_comma [x] = x"
| "join_comma (x # y # zs) = x @ CHR '','' # join_comma (y # zs)"

fun marshal :: "json \<Rightarrow> string" where
  "marshal (JStr s) = quote s"
| "marshal (JInt i) = show_int i"
| "marshal (JBool b) = (if b then ''true'' else ''false'')"
| "marshal (JArr js) = CHR ''['' # join_comma (map marshal js) @ '']''"
| "marshal (JObj fields) =
     CHR ''{'' # join_comma (map (\<lambda>f. quote (fst f) @ CHR '':'' # marshal (snd f)) fields) @ ''}''"

definition marshal_for_history :: "json \<Rightarrow> string" where
  "marshal_for_history v = marshal v"

text \<open>A field with omitempty is left out when it is empty.\<close>

definition omit_empty :: "bool \<Rightarrow> string \<times> json \<Rightarrow> (string \<times> json) list" where
  "omit_empty is_empty f = (if is_empty then [] else [f])"

subsection \<open>What a text column accepts\<close>

definition printable :: "char \<Rightarrow> bool" where
  "printable c \<longleftrightarrow> 0x20 \<le> bv c"

definition storable :: "string \<Rightarrow> bool" where
  "storable s \<longleftrightarrow> valid_utf8 s \<and> (\<forall>c \<in> set s. printable c)"

lemma storable_Nil [simp]: "storable []"
  by (simp add: storable_def)

lemma storable_append: "storable s \<Longrightarrow> storable t \<Longrightarrow> storable (s @ t)"
  by (auto simp: storable_def valid_utf8_append)

lemma storable_ascii: "0x20 \<le> bv c \<Longrightarrow> bv c < 0x80 \<Longrightarrow> storable s \<Longrightarrow> storable (c # s)"
  by (auto simp: storable_def printable_def)

lemma storable_no_nul: "storable s \<Longrightarrow> nul \<notin> set s"
  by (auto simp: storable_def printable_def nul_def)

lemma storable_rune:
  assumes "is_rune u" "0x80 \<le> bv (hd u)" shows "storable u"
proof -
  have "printable c" if "c \<in> set u" for c
    using that assms is_rune_tail [of "hd u" "tl u" c]
    by (cases u) (auto simp: printable_def cont_def)
  with assms(1) show ?thesis by (simp add: storable_def valid_utf8_is_rune)
qed

lemma low_hex_ascii: "n < 16 \<Longrightarrow> 0x20 \<le> bv (low_hex n) \<and> bv (low_hex n) < 0x80"
  by (auto simp: low_hex_def take_bit_eq_mod)

lemma storable_low_hex: "n < 16 \<Longrightarrow> storable s \<Longrightarrow> storable (low_hex n # s)"
  using low_hex_ascii storable_ascii by blast

lemma storable_escape_ascii:
  assumes "bv c < 0x80" "storable s" shows "storable (escape_ascii c @ s)"
proof -
  have "bv c div 16 < 16" "bv c mod 16 < 16" using assms(1) by (simp_all add: less_mult_imp_div_less)
  with assms show ?thesis
    by (auto simp: escape_ascii_def backslash_def storable_ascii storable_low_hex)
qed

lemma storable_escape_string: "storable (escape_string s)"
proof (induction s rule: escape_string.induct)
  case (1 s)
  show ?case
  proof (cases "s = [] \<or> bv (hd s) < 0x80 \<or> bad_rune (decode_rune s)")
    case True
    with 1 show ?thesis
      by (subst escape_string.simps)
        (auto simp: storable_escape_ascii backslash_def storable_ascii)
  next
    case False
    then have rest: "storable (escape_string (drop (snd (decode_rune s)) s))"
      using 1 by (cases "fst (decode_rune s) \<in> {0x2028, 0x2029}") blast+
    show ?thesis
    proof (cases "fst (decode_rune s) \<in> {0x2028, 0x2029}")
      case True
      with False rest show ?thesis
        by (subst escape_string.simps) (auto simp: backslash_def storable_ascii storable_low_hex)
    next
      case hi: False
      have "is_rune (take (snd (decode_rune s)) s)" using is_rune_take [of s] False by blast
      moreover have "hd (take (snd (decode_rune s)) s) = hd s"
        using decode_rune_size_pos [of s] False by (simp add: hd_take)
      ultimately have "storable (take (snd (decode_rune s)) s)"
        using storable_rune False by simp
      with False hi rest show ?thesis
        by (subst escape_string.simps) (simp add: storable_append)
    qed
  qed
qed

lemma storable_quote: "storable (quote s)"
  by (simp add: quote_def storable_ascii storable_append storable_escape_string)

lemma storable_show_int: "storable (show_int i)"
proof -
  have ok: "0x20 \<le> bv c \<and> bv c < 0x80" if "c \<in> numeral_chars" for c
    using that by (auto simp: numeral_chars_def digit_value)
  have "storable s" if "set s \<subseteq> numeral_chars" for s
    using that by (induction s) (auto simp: storable_ascii ok)
  with show_int_chars show ?thesis by blast
qed

lemma storable_join: "\<forall>x \<in> set xs. storable x \<Longrightarrow> storable (join_comma xs)"
  by (induction xs rule: join_comma.induct) (auto simp: storable_append storable_ascii)

lemma storable_marshal: "storable (marshal j)"
proof (induction j rule: marshal.induct)
  case (4 js)
  then have "storable (join_comma (map marshal js))" by (intro storable_join) auto
  then show ?case by (simp add: storable_ascii storable_append)
next
  case (5 fields)
  then have "storable (join_comma (map (\<lambda>f. quote (fst f) @ CHR '':'' # marshal (snd f)) fields))"
    by (intro storable_join) (auto simp: storable_append storable_quote storable_ascii)
  then show ?case by (simp add: storable_ascii storable_append)
qed (simp_all add: storable_quote storable_show_int storable_ascii)

text \<open>Truncation keeps a prefix that is storable as well, and loses at most three bytes more than it must.\<close>

lemma storable_truncated:
  assumes "storable s" "0 \<le> limit" "truncate_utf8 s limit = Some (t, dropped)"
  shows "storable t \<and> blen t \<le> limit \<and> (\<exists>n. t = take n s)
    \<and> (dropped \<longleftrightarrow> limit < blen s) \<and> (if dropped then limit < blen t + 4 else t = s)"
proof (cases "blen s \<le> limit")
  case True
  with assms show ?thesis by (auto simp: truncate_utf8_eq intro: exI [of _ "length s"])
next
  case False
  then have le: "nat limit \<le> length s" by simp
  from assms(1) have "valid_utf8 s" by (simp add: storable_def)
  from cut_valid_prefix [OF this le] obtain k where k: "k \<le> nat limit" "nat limit < k + 4"
    "cut_to_utf8_boundary (take (nat limit) s) = take k s" "valid_utf8 (take k s)" by blast
  have t: "t = take k s" "dropped" using assms(2,3) False k(3) by (simp_all add: truncate_utf8_eq)
  have "storable t" using k(4) assms(1) t(1) by (auto simp: storable_def dest: in_set_takeD)
  moreover have "blen t = int k" using t(1) k(1) le by simp
  ultimately show ?thesis using t k(1,2) False assms(2) by (auto intro: exI [of _ k])
qed

lemma truncate_total: "0 \<le> limit \<Longrightarrow> \<exists>t dropped. truncate_utf8 s limit = Some (t, dropped)"
  by (auto simp: truncate_utf8_eq)

end
