(* ===== verification/History_Repo.thy ===== *)
theory History_Repo
  imports Actor_Repo
begin

section \<open>Tool-call history (internal/storage/history_repo.go)\<close>

text \<open>
  RecordToolCall, the keyset-paged ListToolCalls, GetToolCall, DistinctTools and
  PruneToolCalls. The history that a filter selects is the list \<open>history\<close>: the matching
  rows, newest first and by descending identifier among calls of the same instant. The lemmas
  show that a page is a slice of it, found from the cursor row alone, and the main
  property is that following the cursors enumerates it exactly, although calls are recorded
  between the pages.
\<close>

text \<open>The zero time.Time is the instant 0.\<close>

definition zero_time :: time where
  "zero_time = 0"

definition default_history_page_size :: int where
  "default_history_page_size = 50"

definition max_history_page_size :: int where
  "max_history_page_size = 200"

record history_filter =
  hf_actor :: string
  hf_tool :: string
  hf_is_error :: "bool option"
  hf_limit :: int
  hf_cursor :: string

definition completed_call :: "string \<Rightarrow> time \<Rightarrow> tool_call \<Rightarrow> tool_call" where
  "completed_call uuid now call =
     (let c1 = (if call_id call = [] then call\<lparr>call_id := uuid\<rparr> else call)
      in if call_called_at c1 = zero_time then c1\<lparr>call_called_at := now\<rparr> else c1)"

definition record_tool_call :: "'d database \<Rightarrow> string \<Rightarrow> time \<Rightarrow> tool_call \<Rightarrow> 'd \<Rightarrow> db_error option \<times> 'd" where
  "record_tool_call db uuid now call = sql_create (db_calls db) (completed_call uuid now call)"

definition page_limit :: "history_filter \<Rightarrow> int" where
  "page_limit f =
     (if hf_limit f \<le> 0 \<or> max_history_page_size < hf_limit f then default_history_page_size
      else hf_limit f)"

definition call_matches :: "history_filter \<Rightarrow> tool_call \<Rightarrow> bool" where
  "call_matches f c \<longleftrightarrow> (hf_actor f \<noteq> [] \<longrightarrow> call_actor c = hf_actor f)
     \<and> (hf_tool f \<noteq> [] \<longrightarrow> call_tool c = hf_tool f)
     \<and> (case hf_is_error f of None \<Rightarrow> True | Some b \<Rightarrow> call_is_error c = b)"

text \<open>\<open>older db a c\<close>: c comes after a in the order called_at DESC, id DESC. It is the condition
  of the keyset page after row a as well.\<close>

definition older :: "'d database \<Rightarrow> tool_call \<Rightarrow> tool_call \<Rightarrow> bool" where
  "older db a c \<longleftrightarrow> call_called_at c < call_called_at a
     \<or> (call_called_at c = call_called_at a \<and> db_less db (call_id c) (call_id a))"

definition find_cursor :: "'d database \<Rightarrow> string \<Rightarrow> 'd \<Rightarrow> (repo_error + tool_call option) \<times> 'd" where
  "find_cursor db cursor d =
     (if cursor = [] then (Inr None, d)
      else case sql_first (db_calls db) (\<lambda>c. call_id c = cursor) d of
        (Inl e, d1) \<Rightarrow> (Inl (if e = RecordNotFound then ErrUnknownCursor else DbErr e), d1)
      | (Inr after, d1) \<Rightarrow> (Inr (Some after), d1))"

definition list_tool_calls :: "'d database \<Rightarrow> history_filter \<Rightarrow> 'd
    \<Rightarrow> (repo_error + tool_call list \<times> string) \<times> 'd" where
  "list_tool_calls db f d =
     (let limit = page_limit f
      in case find_cursor db (hf_cursor f) d of
        (Inl e, d1) \<Rightarrow> (Inl e, d1)
      | (Inr after, d1) \<Rightarrow>
          case sql_find (db_calls db)
                 \<lparr>q_where = (\<lambda>c. call_matches f c \<and> (case after of None \<Rightarrow> True | Some a \<Rightarrow> older db a c)),
                  q_before = older db, q_limit = Some (nat limit)\<rparr> d1 of
            (Inl e, d2) \<Rightarrow> (Inl (DbErr e), d2)
          | (Inr calls, d2) \<Rightarrow>
              (Inr (calls, if blen calls = limit then call_id (last calls) else []), d2))"

definition get_tool_call :: "'d database \<Rightarrow> string \<Rightarrow> 'd \<Rightarrow> (repo_error + tool_call) \<times> 'd" where
  "get_tool_call db i d =
     (case sql_first (db_calls db) (\<lambda>c. call_id c = i) d of
        (Inl e, d1) \<Rightarrow> (Inl (if e = RecordNotFound then ErrToolCallNotFound else DbErr e), d1)
      | (Inr call, d1) \<Rightarrow> (Inr call, d1))"

definition distinct_tools :: "'d database \<Rightarrow> 'd \<Rightarrow> (repo_error + string list) \<times> 'd" where
  "distinct_tools db d =
     (case sql_pluck (db_calls db) (\<lambda>_. True) call_tool (db_less db) d of
        (Inl e, d1) \<Rightarrow> (Inl (DbErr e), d1)
      | (Inr tools, d1) \<Rightarrow> (Inr tools, d1))"

definition prune_tool_calls :: "'d database \<Rightarrow> time \<Rightarrow> duration \<Rightarrow> 'd \<Rightarrow> (db_error + int) \<times> 'd" where
  "prune_tool_calls db now retention d =
     (if retention \<le> 0 then (Inr 0, d)
      else sql_delete (db_calls db) (\<lambda>c. call_called_at c < now + wrap64 (- retention)) d)"

subsection \<open>Strictly sorted lists\<close>

lemma sorted_unique:
  assumes "\<And>a b. lt a b \<Longrightarrow> \<not> lt b a" "sorted_wrt lt xs" "sorted_wrt lt ys" "set xs = set ys"
  shows "xs = ys"
  using assms(2-4)
proof (induction xs arbitrary: ys)
  case (Cons x xs)
  then obtain y ys' where ys: "ys = y # ys'" by (cases ys) auto
  have irrefl: "\<not> lt a a" for a using assms(1) by blast
  have "x = y"
  proof (rule ccontr)
    assume "x \<noteq> y"
    with Cons.prems(3) ys have "y \<in> set xs" "x \<in> set ys'" by auto
    with Cons.prems(1,2) ys assms(1) show False by auto
  qed
  moreover have "x \<notin> set xs" "y \<notin> set ys'" using Cons.prems(1,2) ys irrefl by auto
  ultimately have "set xs = set ys'" using Cons.prems(3) ys by auto
  with Cons.IH [of ys'] Cons.prems(1,2) ys \<open>x = y\<close> show ?case by simp
qed simp

lemma sorted_filter_after:
  assumes "\<And>a b. lt a b \<Longrightarrow> \<not> lt b a" "sorted_wrt lt (xs @ y # zs)"
  shows "filter (lt y) (xs @ y # zs) = zs"
proof -
  have irrefl: "\<not> lt y y" using assms(1) by blast
  have "\<forall>x \<in> set xs. \<not> lt y x" "\<forall>z \<in> set zs. lt y z"
    using assms by (auto simp: sorted_wrt_append)
  with irrefl show ?thesis by (simp add: filter_id_conv filter_empty_conv)
qed

lemma sorted_strict:
  assumes "sorted_wrt (\<lambda>a b. \<not> lt b a) xs" "distinct xs"
    "\<And>a b. a \<in> set xs \<Longrightarrow> b \<in> set xs \<Longrightarrow> a \<noteq> b \<Longrightarrow> lt a b \<or> lt b a"
  shows "sorted_wrt lt xs"
  using assms by (induction xs) auto

subsection \<open>The history a filter selects\<close>

definition history :: "'d database \<Rightarrow> history_filter \<Rightarrow> tool_call list \<Rightarrow> tool_call list" where
  "history db f rows = order_rows (older db) (filter (call_matches f) rows)"

lemma history_set: "set (history db f rows) = {c \<in> set rows. call_matches f c}"
  by (auto simp: history_def order_rows_set)

lemma history_cursor [simp]: "history db (f\<lparr>hf_cursor := x\<rparr>) rows = history db f rows"
  by (simp add: history_def call_matches_def [abs_def])

lemma page_limit_cursor [simp]: "page_limit (f\<lparr>hf_cursor := x\<rparr>) = page_limit f"
  by (simp add: page_limit_def)

lemma page_limit_pos: "0 < page_limit f"
  by (simp add: page_limit_def default_history_page_size_def)

text \<open>What a page is to hold, of the rows that are in the table: the filtered history without a cursor,
  and with one what is older than the row it names, which need not match the filter itself.\<close>

definition history_after :: "'d database \<Rightarrow> history_filter \<Rightarrow> tool_call list \<Rightarrow> tool_call list" where
  "history_after db f rows =
     (case List.find (\<lambda>a. hf_cursor f \<noteq> [] \<and> call_id a = hf_cursor f) rows of
        None \<Rightarrow> history db f rows
      | Some a \<Rightarrow> filter (older db a) (history db f rows))"

definition page_of :: "'d database \<Rightarrow> history_filter \<Rightarrow> tool_call list \<Rightarrow> tool_call list" where
  "page_of db f rows = take (nat (page_limit f)) (history_after db f rows)"

context sql_database begin

lemma less_asym: "db_less db s s' \<Longrightarrow> \<not> db_less db s' s"
  using less_trans less_irrefl by blast

lemma older_asym: "older db a b \<Longrightarrow> \<not> older db b a"
  using less_asym by (auto simp: older_def)

lemma older_total: "call_id a \<noteq> call_id b \<Longrightarrow> older db a b \<or> older db b a"
  using less_total by (fastforce simp: older_def)

lemma older_trans: "older db a b \<Longrightarrow> older db b c \<Longrightarrow> older db a c"
  using less_trans by (auto simp: older_def)

lemma strict_weak_older: "strict_weak (older db)"
proof -
  have "\<not> older db c a" if "\<not> older db b a" "\<not> older db c b" for a b c
  proof
    assume ca: "older db c a"
    show False
    proof (cases "call_id a = call_id b \<or> call_id b = call_id c")
      case True
      with that ca show False by (auto simp: older_def)
    next
      case False
      with that older_total older_trans ca older_asym show False by metis
    qed
  qed
  then show ?thesis using older_asym unfolding strict_weak_def by blast
qed

lemma history_sorted:
  assumes "uniq_calls rows" shows "sorted_wrt (older db) (history db f rows)"
proof (rule sorted_strict)
  show "sorted_wrt (\<lambda>a b. \<not> older db b a) (history db f rows)"
    unfolding history_def by (rule order_rows_sorted [OF strict_weak_older])
  show "distinct (history db f rows)"
    using assms by (simp add: history_def order_rows_distinct uniq_calls_def distinct_map)
  fix a b assume "a \<in> set (history db f rows)" "b \<in> set (history db f rows)" "a \<noteq> b"
  with assms distinct_map_eq [of call_id rows a b] have "call_id a \<noteq> call_id b"
    by (auto simp: history_set uniq_calls_def)
  then show "older db a b \<or> older db b a" by (rule older_total)
qed

text \<open>Whatever order the database finds for the selected rows, it is this one.\<close>

lemma answers_unique:
  assumes "answers \<lparr>q_where = P, q_before = older db, q_limit = Some n\<rparr> rows rs" "uniq_calls rows"
    "sorted_wrt (older db) full" "set full = {c \<in> set rows. P c}"
  shows "rs = take n full"
proof -
  obtain xs where xs: "mset xs = mset (filter P rows)" "sorted_wrt (\<lambda>a b. \<not> older db b a) xs" "rs = take n xs"
    using assms(1) by (auto simp: answers_def limit_to_def)
  have set: "set xs = {c \<in> set rows. P c}" using xs(1) by (metis set_mset_mset set_filter)
  have "distinct xs"
    using xs(1) assms(2) mset_eq_imp_distinct_iff [of xs "filter P rows"]
    by (simp add: uniq_calls_def distinct_map)
  moreover have "older db a b \<or> older db b a" if "a \<in> set xs" "b \<in> set xs" "a \<noteq> b" for a b
    using that set assms(2) distinct_map_eq [of call_id rows a b] older_total [of a b]
    by (auto simp: uniq_calls_def)
  ultimately have "sorted_wrt (older db) xs" using sorted_strict [OF xs(2)] by blast
  then have "xs = full" using sorted_unique older_asym assms(3,4) set by blast
  with xs(3) show ?thesis by simp
qed

lemma find_cursor_effect:
  assumes "find_cursor db cursor d = (res, d')"
  shows "content d' = content d \<and> (case res of
      Inl e \<Rightarrow> cursor \<noteq> [] \<and> (e = ErrUnknownCursor \<and> cursor \<notin> call_id ` set (tb_calls (content d))
              \<or> (\<exists>s. e = DbErr (DbError s)))
    | Inr None \<Rightarrow> cursor = []
    | Inr (Some a) \<Rightarrow> a \<in> set (tb_calls (content d)) \<and> call_id a = cursor)"
proof (cases "cursor = []")
  case False
  obtain r d1 where f: "sql_first (db_calls db) (\<lambda>c. call_id c = cursor) d = (r, d1)" by fastforce
  show ?thesis
  proof (cases r)
    case (Inl e)
    with calls.first_missing [OF f [unfolded Inl]] f False assms show ?thesis
      by (cases e) (auto simp: find_cursor_def)
  next
    case (Inr a)
    with calls.first_found [OF f [unfolded Inr]] f False assms show ?thesis
      by (auto simp: find_cursor_def)
  qed
qed (use assms in \<open>auto simp: find_cursor_def\<close>)

text \<open>A page is the start of the history, or the part of it after the cursor row. It does not
  matter what newer calls have been recorded since (\<open>old\<close> are the rows at the start).\<close>

lemma list_tool_calls_page:
  assumes "list_tool_calls db f d = (Inr (page, nxt), d')"
    and uniq: "uniq_calls (tb_calls (content d))" "uniq_calls old"
    and new: "set old \<subseteq> set (tb_calls (content d))"
      "\<forall>c \<in> set (tb_calls (content d)) - set old. \<forall>r \<in> set old. older db c r"
    and split: "history db f old = before @ rest"
      "hf_cursor f = (if before = [] then [] else call_id (last before))"
    and ids: "\<forall>c \<in> set old. call_id c \<noteq> []" "before = [] \<Longrightarrow> set (tb_calls (content d)) = set old"
  shows "page = take (nat (page_limit f)) rest \<and> content d' = content d
    \<and> nxt = (if blen page = page_limit f then call_id (last page) else [])"
proof -
  obtain r d1 where c: "find_cursor db (hf_cursor f) d = (r, d1)" by fastforce
  with assms(1) obtain after where r: "r = Inr after" by (cases r) (auto simp: list_tool_calls_def)
  define P where "P = (\<lambda>c. call_matches f c \<and> (case after of None \<Rightarrow> True | Some a \<Rightarrow> older db a c))"
  obtain r2 d2 where q: "sql_find (db_calls db)
      \<lparr>q_where = P, q_before = older db, q_limit = Some (nat (page_limit f))\<rparr> d1 = (r2, d2)" by fastforce
  have d1: "content d1 = content d" using find_cursor_effect [OF c] by simp
  have run: "r2 = Inr page" "d' = d2" "nxt = (if blen page = page_limit f then call_id (last page) else [])"
    using assms(1) c r q by (auto simp: list_tool_calls_def P_def Let_def split: sum.splits)
  have sorted: "sorted_wrt (older db) (before @ rest)"
    using history_sorted [OF uniq(2), of f] split(1) by simp
  have "set rest = {c \<in> set (tb_calls (content d)). P c}"
  proof (cases "before = []")
    case True
    with find_cursor_effect [OF c] r split ids have "after = None" by (cases after) auto
    with True split(1) history_set [of db f old] ids(2) show ?thesis by (simp add: P_def)
  next
    case False
    have lb: "last before \<in> set (history db f old)" using False split(1) by simp
    then have lo: "last before \<in> set old" by (simp add: history_set)
    with ids(1) False split(2) have "hf_cursor f \<noteq> []" by simp
    with find_cursor_effect [OF c] r obtain a where a: "after = Some a"
      "a \<in> set (tb_calls (content d))" "call_id a = hf_cursor f" by (cases after) auto
    have "a = last before"
      using distinct_map_eq [of call_id "tb_calls (content d)" a "last before"] uniq(1) a lo new(1) False split(2)
      by (auto simp: uniq_calls_def)
    moreover have eq: "before @ rest = butlast before @ last before # rest"
      using False by (metis append.assoc append_Cons append_Nil append_butlast_last_id)
    have "filter (older db (last before)) (before @ rest) = rest"
      unfolding eq by (rule sorted_filter_after [OF older_asym sorted [unfolded eq]])
    ultimately have "set rest = {c \<in> set (history db f old). older db a c}"
      unfolding split(1) by (metis set_filter)
    moreover have "\<not> older db a c" if "c \<in> set (tb_calls (content d)) - set old" for c
      using new(2) that lo \<open>a = last before\<close> older_asym by blast
    ultimately show ?thesis using a(1) new(1) by (auto simp: history_set P_def)
  qed
  moreover have "strict_weak (q_before \<lparr>q_where = P, q_before = older db, q_limit = Some (nat (page_limit f))\<rparr>)"
    using strict_weak_older by simp
  ultimately have "page = take (nat (page_limit f)) rest"
    using answers_unique [OF calls.find_rows [OF q [unfolded run(1)]], of rest] uniq(1) sorted d1
    by (simp add: sorted_wrt_append)
  with run calls.find_keeps [OF q] d1 show ?thesis by simp
qed

lemma list_tool_calls_outcome:
  assumes "list_tool_calls db f d = (res, d')" "uniq_calls (tb_calls (content d))"
  shows "content d' = content d \<and> (case res of
      Inl e \<Rightarrow> e = ErrUnknownCursor \<and> hf_cursor f \<noteq> [] \<and> hf_cursor f \<notin> call_id ` set (tb_calls (content d))
        \<or> (\<exists>s. e = DbErr s)
    | Inr (page, nxt) \<Rightarrow> (hf_cursor f = [] \<or> hf_cursor f \<in> call_id ` set (tb_calls (content d)))
        \<and> page = page_of db f (tb_calls (content d)) \<and> nxt = (if blen page = page_limit f then call_id (last page) else []))"
proof -
  let ?rows = "tb_calls (content d)"
  obtain r d1 where c: "find_cursor db (hf_cursor f) d = (r, d1)" by fastforce
  note cursor = find_cursor_effect [OF c]
  show ?thesis
  proof (cases r)
    case (Inl e)
    with assms(1) c have "res = Inl e" "d' = d1" by (simp_all add: list_tool_calls_def Let_def)
    with cursor Inl show ?thesis by auto
  next
    case (Inr after)
    define P where "P = (\<lambda>c. call_matches f c \<and> (case after of None \<Rightarrow> True | Some a \<Rightarrow> older db a c))"
    let ?q = "\<lparr>q_where = P, q_before = older db, q_limit = Some (nat (page_limit f))\<rparr>"
    obtain r2 d2 where q: "sql_find (db_calls db) ?q d1 = (r2, d2)" by fastforce
    have d': "d' = d2" "content d2 = content d"
      using assms(1) c Inr q cursor calls.find_keeps [OF q] by (auto simp: list_tool_calls_def P_def Let_def split: sum.splits)
    show ?thesis
    proof (cases r2)
      case (Inl e)
      with assms(1) c Inr q have "res = Inl (DbErr e)" by (auto simp: list_tool_calls_def P_def Let_def)
      with d' show ?thesis by simp
    next
      case page: (Inr page)
      have found: "List.find (\<lambda>a. hf_cursor f \<noteq> [] \<and> call_id a = hf_cursor f) ?rows = after"
      proof (cases after)
        case None
        with cursor Inr show ?thesis by (simp add: find_None_iff)
      next
        case (Some a)
        with cursor Inr have a: "a \<in> set ?rows" "call_id a = hf_cursor f" "hf_cursor f \<noteq> []"
          using c by (auto simp: find_cursor_def)
        then obtain a' where a': "List.find (\<lambda>a. hf_cursor f \<noteq> [] \<and> call_id a = hf_cursor f) ?rows = Some a'"
          by (cases "List.find (\<lambda>a. hf_cursor f \<noteq> [] \<and> call_id a = hf_cursor f) ?rows") (auto simp: find_None_iff)
        then have "a' \<in> set ?rows" "call_id a' = hf_cursor f" by (auto simp: find_Some_iff)
        with a(1,2) assms(2) distinct_map_eq [of call_id ?rows a a'] Some a' show ?thesis by (simp add: uniq_calls_def)
      qed
      have "sorted_wrt (older db) (history_after db f ?rows)" "set (history_after db f ?rows) = {c \<in> set ?rows. P c}"
        using history_sorted [OF assms(2), of f] found
        by (auto simp: history_after_def P_def history_set sorted_wrt_filter split: option.splits)
      then have "page = page_of db f ?rows"
        using answers_unique [OF calls.find_rows [OF q [unfolded page]]] strict_weak_older cursor assms(2) by (simp add: page_of_def)
      moreover have "res = Inr (page, if blen page = page_limit f then call_id (last page) else [])"
        using assms(1) c Inr q page by (auto simp: list_tool_calls_def P_def Let_def)
      moreover have "hf_cursor f = [] \<or> hf_cursor f \<in> call_id ` set ?rows"
        using cursor Inr by (cases after) force+
      ultimately show ?thesis using d' by simp
    qed
  qed
qed

end

lemma page_of_rows: "set (page_of db f rows) \<subseteq> {c \<in> set rows. call_matches f c}"
proof -
  have "set (page_of db f rows) \<subseteq> set (history_after db f rows)" by (simp add: page_of_def set_take_subset)
  also have "\<dots> \<subseteq> set (history db f rows)" by (auto simp: history_after_def split: option.splits)
  finally show ?thesis by (simp add: history_set)
qed

subsection \<open>Following the cursors while calls are recorded\<close>

fun record_calls :: "'d database \<Rightarrow> (string \<times> time \<times> tool_call) list \<Rightarrow> 'd \<Rightarrow> 'd" where
  "record_calls db [] d = d"
| "record_calls db ((uuid, now, c) # cs) d = record_calls db cs (snd (record_tool_call db uuid now c d))"

text \<open>A client that asks for page after page; the n-th batch of \<open>news\<close> is recorded after the n-th page.\<close>

fun walk_history :: "nat \<Rightarrow> 'd database \<Rightarrow> history_filter \<Rightarrow> (string \<times> time \<times> tool_call) list list
    \<Rightarrow> 'd \<Rightarrow> (repo_error + tool_call list) option" where
  "walk_history 0 db f news d = None"
| "walk_history (Suc n) db f news d =
     (case list_tool_calls db f d of
        (Inl e, d1) \<Rightarrow> Some (Inl e)
      | (Inr (page, nxt), d1) \<Rightarrow>
          if nxt = [] then Some (Inr page)
          else case walk_history n db (f\<lparr>hf_cursor := nxt\<rparr>) (drop 1 news)
                      (record_calls db (concat (take 1 news)) d1) of
            Some (Inr others) \<Rightarrow> Some (Inr (page @ others))
          | stop \<Rightarrow> stop)"

definition grown :: "'d database \<Rightarrow> tool_call list \<Rightarrow> tables \<Rightarrow> bool" where
  "grown db old c \<longleftrightarrow> uniq_calls (tb_calls c) \<and> set old \<subseteq> set (tb_calls c)
     \<and> (\<forall>x \<in> set (tb_calls c) - set old. \<forall>r \<in> set old. older db x r)"

context calm_database begin

lemma list_tool_calls_calm:
  assumes "calm d" "list_tool_calls db f d = (res, d')"
  shows "calm d' \<and> (\<forall>e. res = Inl e \<longrightarrow> e = ErrUnknownCursor)"
proof -
  obtain r1 d1 where c: "find_cursor db (hf_cursor f) d = (r1, d1)" by fastforce
  have c': "calm d1" "r1 = Inl e \<Longrightarrow> e = ErrUnknownCursor" for e
    using c assms(1) calls.first_calm
    by (auto simp: find_cursor_def split: if_splits prod.splits sum.splits) (metis db_error.exhaust)
  show ?thesis
  proof (cases r1)
    case (Inl e)
    with c c' assms(2) show ?thesis by (auto simp: list_tool_calls_def Let_def)
  next
    case (Inr after)
    with c c'(1) assms(2) calls.find_calm show ?thesis
      by (fastforce simp: list_tool_calls_def Let_def split: prod.splits sum.splits)
  qed
qed

end

context sql_database begin

lemma record_tool_call_effect:
  assumes "record_tool_call db uuid now call d = (res, d')"
  shows "if res = None then content d' = tb_calls_update (\<lambda>rs. rs @ [completed_call uuid now call]) (content d)
      \<and> uniq_calls (tb_calls (content d) @ [completed_call uuid now call])
    else content d' = content d"
  using assms calls.create_ok calls.create_failed unfolding record_tool_call_def by (cases res) auto

lemma record_calls_grown:
  assumes "grown db old (content d)" "\<forall>(u, n, c) \<in> set cs. \<forall>r \<in> set old. older db (completed_call u n c) r"
  shows "grown db old (content (record_calls db cs d))"
  using assms
proof (induction cs arbitrary: d)
  case (Cons x cs)
  obtain u n c where x: "x = (u, n, c)" by (cases x) auto
  obtain res d1 where run: "record_tool_call db u n c d = (res, d1)" by fastforce
  from record_tool_call_effect [OF run] Cons.prems x have "grown db old (content d1)"
    by (auto simp: grown_def split: if_splits)
  with Cons run x show ?case by simp
qed simp

lemma walk_history_rest:
  assumes "length rest < n" "grown db old (content d)" "uniq_calls old"
    "history db f old = before @ rest" "hf_cursor f = (if before = [] then [] else call_id (last before))"
    "\<forall>c \<in> set old. call_id c \<noteq> []" "before = [] \<Longrightarrow> set (tb_calls (content d)) = set old"
    "\<forall>batch \<in> set news. \<forall>(u, n, c) \<in> set batch. \<forall>r \<in> set old. older db (completed_call u n c) r"
  shows "\<exists>res. walk_history n db f news d = Some res
    \<and> (case res of Inr calls \<Rightarrow> calls = rest | Inl e \<Rightarrow> \<exists>e'. e = DbErr e')"
  using assms
proof (induction n arbitrary: rest before f news d)
  case (Suc n)
  obtain res d1 where run: "list_tool_calls db f d = (res, d1)" by fastforce
  show ?case
  proof (cases res)
    case (Inl e)
    obtain r d0 where c: "find_cursor db (hf_cursor f) d = (r, d0)" by fastforce
    have "hf_cursor f = [] \<or> hf_cursor f \<in> call_id ` set (tb_calls (content d))"
      using Suc.prems(2,4,5) history_set [of db f old] by (fastforce simp: grown_def)
    with find_cursor_effect [OF c] c run Inl have "\<exists>e'. e = DbErr e'"
      by (auto simp: list_tool_calls_def Let_def split: sum.splits prod.splits)
    with run Inl show ?thesis by simp
  next
    case (Inr x)
    obtain page nxt where x: "x = (page, nxt)" by fastforce
    let ?m = "nat (page_limit f)"
    have page: "page = take ?m rest" "content d1 = content d"
      "nxt = (if blen page = page_limit f then call_id (last page) else [])"
      using list_tool_calls_page [OF run [unfolded Inr x] _ Suc.prems(3) _ _ Suc.prems(4,5,6)] Suc.prems(2,7)
      by (auto simp: grown_def)
    show ?thesis
    proof (cases "nxt = []")
      case True
      have "rest = page"
      proof (cases "blen page = page_limit f")
        case True
        then have "last page \<in> set old"
          using page(1) page_limit_pos [of f] history_set [of db f old] Suc.prems(4)
          by (metis (no_types, lifting) UnCI in_set_takeD last_in_set length_0_conv of_nat_0 mem_Collect_eq
              set_append order_less_irrefl)
        with Suc.prems(6) have "call_id (last page) \<noteq> []" by blast
        with True page(3) \<open>nxt = []\<close> show ?thesis by simp
      qed (use page(1) page_limit_pos [of f] in \<open>auto simp: min_def split: if_splits\<close>)
      with True run Inr x show ?thesis by simp
    next
      case False
      then have full: "blen page = page_limit f" "nxt = call_id (last page)" using page(3) by presburger+
      then have ne: "page \<noteq> []" using page_limit_pos [of f] by auto
      let ?d2 = "record_calls db (concat (take 1 news)) d1"
      have "\<forall>(u, n, c) \<in> set (concat (take 1 news)). \<forall>r \<in> set old. older db (completed_call u n c) r"
        using Suc.prems(8) by (cases news) auto
      then have g: "grown db old (content ?d2)"
        using Suc.prems(2) page(2) by (intro record_calls_grown) simp_all
      have "history db f old = (before @ page) @ drop ?m rest"
        using Suc.prems(4) page(1) by simp
      moreover have "length (drop ?m rest) < n"
        using Suc.prems(1) full(1) page(1) ne by (cases rest) (auto simp: min_def split: if_splits)
      moreover have "\<forall>batch \<in> set (drop 1 news). \<forall>(u, n, c) \<in> set batch. \<forall>r \<in> set old.
          older db (completed_call u n c) r"
        using Suc.prems(8) by (blast dest: in_set_dropD)
      ultimately have "\<exists>res. walk_history n db (f\<lparr>hf_cursor := nxt\<rparr>) (drop 1 news) ?d2 = Some res
          \<and> (case res of Inr calls \<Rightarrow> calls = drop ?m rest | Inl e \<Rightarrow> \<exists>e'. e = DbErr e')"
        using Suc.prems(3,6) g ne full(2)
        by (intro Suc.IH [where before = "before @ page"]) auto
      then obtain res2 where w: "walk_history n db (f\<lparr>hf_cursor := nxt\<rparr>) (drop 1 news) ?d2 = Some res2"
        "case res2 of Inr calls \<Rightarrow> calls = drop ?m rest | Inl e \<Rightarrow> \<exists>e'. e = DbErr e'" by blast
      have step: "walk_history (Suc n) db f news d =
          (case res2 of Inr others \<Rightarrow> Some (Inr (page @ others)) | Inl e \<Rightarrow> Some (Inl e))"
        using run Inr x False w(1) by (simp split: sum.splits)
      show ?thesis
        using step w(2) page(1) by (cases res2) auto
    qed
  qed
qed simp

end

lemma prune_tool_calls_effect:
  assumes "sql_database content db" "prune_tool_calls db now retention d = (res, d')" "retention \<le> max_int64"
  shows "case res of
      Inl e \<Rightarrow> content d' = content d
    | Inr n \<Rightarrow>
        let expired = (\<lambda>c. 0 < retention \<and> retention < now - call_called_at c)
        in n = blen (filter expired (tb_calls (content d)))
           \<and> content d' = tb_calls_update (filter (\<lambda>c. \<not> expired c)) (content d)"
proof (cases "retention \<le> 0")
  case True
  then have no: "\<not> (0 < retention \<and> retention < x)" for x by linarith
  have "filter (\<lambda>c. \<not> (0 < retention \<and> retention < now - call_called_at c)) = id" by (rule ext) (simp add: no)
  with True assms(2) no show ?thesis by (auto simp: prune_tool_calls_def Let_def)
next
  case False
  then have w: "wrap64 (- retention) = - retention"
    using assms(3) by (intro wrap64_id) (simp add: fits64_def max_int64_def min_int64_def)
  have eq: "call_called_at c < now + wrap64 (- retention)
      \<longleftrightarrow> 0 < retention \<and> retention < now - call_called_at c" for c
    using False by (auto simp: w)
  have run: "sql_delete (db_calls db)
      (\<lambda>c. 0 < retention \<and> retention < now - call_called_at c) d = (res, d')"
    using assms(2) False by (simp add: prune_tool_calls_def eq)
  note table = sql_database.axioms(5) [OF assms(1)]
  show ?thesis
  proof (cases res)
    case (Inl e)
    with sql_table.delete_failed [OF table run [unfolded Inl]] show ?thesis by simp
  next
    case (Inr n)
    with sql_table.delete_ok [OF table run [unfolded Inr]] show ?thesis by (simp add: Let_def)
  qed
qed

subsection \<open>Properties\<close>

definition example_call :: "string \<Rightarrow> string \<Rightarrow> time \<Rightarrow> tool_call" where
  "example_call i tool t = \<lparr>call_id = i, call_actor = ''a1'', call_tool = tool, call_input = ''{}'',
     call_is_error = False, call_duration_ms = 1, call_output_size = 2, call_output = ''{}'',
     call_truncated = False, call_called_at = t\<rparr>"

definition example_history :: "tool_call list \<Rightarrow> mem_db" where
  "example_history cs = mem_empty\<lparr>md_tables := (md_tables mem_empty)\<lparr>tb_calls := cs\<rparr>\<rparr>"

lemmas example_history_defs = example_call_def example_history_def mem_empty_def

lemma mem_less [simp]: "db_less mem_database s s' \<longleftrightarrow> s < s'"
  by (simp add: mem_database_def)

text \<open>C12: a client that follows the cursors from the first page terminates, and the pages it collects
  are exactly the history that its filter selected when it started, newest first, every call
  once and none missing, although new calls are recorded between the pages. It can only
  be stopped by a database error; it never sees an unknown cursor.\<close>

theorem history_pages_enumerate:
  assumes "sql_database content db" "uniq_calls (tb_calls (content d))"
    "\<forall>c \<in> set (tb_calls (content d)). call_id c \<noteq> []" "hf_cursor f = []"
    "\<forall>batch \<in> set news. \<forall>(u, n, c) \<in> set batch. \<forall>r \<in> set (tb_calls (content d)).
       older db (completed_call u n c) r"
    "length (history db f (tb_calls (content d))) < fuel"
  shows "\<exists>res. walk_history fuel db f news d = Some res
    \<and> (case res of Inr calls \<Rightarrow> calls = history db f (tb_calls (content d))
         \<and> sorted_wrt (older db) calls \<and> set calls = {c \<in> set (tb_calls (content d)). call_matches f c}
       | Inl e \<Rightarrow> \<exists>e'. e = DbErr e')"
proof -
  let ?h = "history db f (tb_calls (content d))"
  have "grown db (tb_calls (content d)) (content d)" using assms(2) by (simp add: grown_def)
  with sql_database.walk_history_rest [OF assms(1) assms(6), where d = d and old = "tb_calls (content d)"
      and before = "[]" and f = f and news = news] assms(2-5)
  obtain res where "walk_history fuel db f news d = Some res"
    "case res of Inr calls \<Rightarrow> calls = ?h | Inl e \<Rightarrow> \<exists>e'. e = DbErr e'" by auto
  then show ?thesis
    using sql_database.history_sorted [OF assms(1,2)] history_set [of db f "tb_calls (content d)"]
    by (auto split: sum.splits)
qed

theorem history_pages_enumerate_witness:
  "let f = \<lparr>hf_actor = [], hf_tool = ''fetch'', hf_is_error = None, hf_limit = 1, hf_cursor = []\<rparr>;
       d = example_history [example_call ''1'' ''fetch'' 5, example_call ''2'' ''search'' 6,
             example_call ''3'' ''fetch'' 5];
       news = [[(''4'', 9, example_call [] ''fetch'' 0)]]
   in walk_history 3 mem_database f news d
        = Some (Inr [example_call ''3'' ''fetch'' 5, example_call ''1'' ''fetch'' 5])"
proof -
  let ?f = "\<lparr>hf_actor = [], hf_tool = ''fetch'', hf_is_error = None, hf_limit = 1, hf_cursor = []\<rparr>"
  let ?rows = "[example_call ''1'' ''fetch'' 5, example_call ''2'' ''search'' 6, example_call ''3'' ''fetch'' 5]"
  let ?news = "[[(''4'', 9, example_call [] ''fetch'' 0)]]"
  have h: "history mem_database ?f ?rows = [example_call ''3'' ''fetch'' 5, example_call ''1'' ''fetch'' 5]"
    by (simp add: history_def call_matches_def order_rows_def older_def example_call_def)
  have d: "tb_calls (md_tables (example_history ?rows)) = ?rows"
    by (simp add: example_history_def mem_empty_def)
  have "uniq_calls ?rows" "\<forall>c \<in> set ?rows. call_id c \<noteq> []"
    by (simp_all add: uniq_calls_def example_call_def)
  moreover have "\<forall>batch \<in> set ?news. \<forall>(u, n, c) \<in> set batch. \<forall>r \<in> set ?rows.
      older mem_database (completed_call u n c) r"
    by (simp add: example_call_def older_def completed_call_def zero_time_def)
  ultimately have "\<exists>res. walk_history 3 mem_database ?f ?news (example_history ?rows) = Some res
      \<and> (\<forall>calls. res = Inr calls \<longrightarrow> calls = [example_call ''3'' ''fetch'' 5, example_call ''1'' ''fetch'' 5])"
    using history_pages_enumerate [OF mem.sql_database_axioms, of "example_history ?rows" ?f ?news 3]
    unfolding d h by fastforce
  then obtain res where w: "walk_history 3 mem_database ?f ?news (example_history ?rows) = Some res"
    "\<forall>calls. res = Inr calls \<longrightarrow> calls = [example_call ''3'' ''fetch'' 5, example_call ''1'' ''fetch'' 5]"
    by blast
  have "\<exists>calls. res = Inr calls"
    using w(1)
    by (auto simp: numeral_3_eq_3 list_tool_calls_def find_cursor_def page_limit_def mem_eval
        example_history_defs max_history_page_size_def record_tool_call_def completed_call_def zero_time_def
        call_matches_def older_def)
  with w show ?thesis by (auto simp: Let_def)
qed

text \<open>What RecordToolCall stores GetToolCall returns, completed with an identifier and the
  instant of the call when they were unset, unless the database fails.\<close>

theorem recorded_call_is_found:
  assumes "sql_database content db" "record_tool_call db uuid now call d = (None, d1)"
    "get_tool_call db (call_id (completed_call uuid now call)) d1 = (res, d2)"
  shows "res = Inr (completed_call uuid now call) \<or> (\<exists>e. res = Inl (DbErr (DbError e)))"
proof -
  let ?c = "completed_call uuid now call"
  have e: "content d1 = tb_calls_update (\<lambda>rs. rs @ [?c]) (content d)" "uniq_calls (tb_calls (content d) @ [?c])"
    using sql_database.record_tool_call_effect [OF assms(1,2)] by auto
  obtain r d' where f: "sql_first (db_calls db) (\<lambda>c. call_id c = call_id ?c) d1 = (r, d')" by fastforce
  show ?thesis
  proof (cases r)
    case (Inl x)
    with sql_table.first_missing [OF sql_database.axioms(5) [OF assms(1)] f [unfolded Inl]] e(1) f assms(3)
    show ?thesis by (cases x) (auto simp: get_tool_call_def)
  next
    case (Inr c)
    with sql_table.first_found [OF sql_database.axioms(5) [OF assms(1)] f [unfolded Inr]] e
      distinct_map_eq [of call_id "tb_calls (content d) @ [?c]" c ?c]
    have "c = ?c" by (auto simp: uniq_calls_def)
    with Inr f assms(3) show ?thesis by (simp add: get_tool_call_def)
  qed
qed

theorem recorded_call_is_found_witness:
  "let call = example_call [] ''fetch'' 0; d1 = snd (record_tool_call mem_database ''u1'' 7 call (example_history []))
   in fst (get_tool_call mem_database ''u1'' d1) = Inr (call\<lparr>call_id := ''u1'', call_called_at := 7\<rparr>)"
proof -
  let ?call = "example_call [] ''fetch'' 0"
  have c: "completed_call ''u1'' 7 ?call = ?call\<lparr>call_id := ''u1'', call_called_at := 7\<rparr>"
    by (simp add: completed_call_def example_call_def zero_time_def)
  obtain d1 where d1: "record_tool_call mem_database ''u1'' 7 ?call (example_history []) = (None, d1)" "md_faults d1 = []"
    by (auto simp: record_tool_call_def mem_eval example_history_defs)
  obtain res d2 where g: "get_tool_call mem_database (call_id (completed_call ''u1'' 7 ?call)) d1 = (res, d2)"
    by fastforce
  have "\<nexists>e. res = Inl (DbErr (DbError e))"
    using g d1(2) by (auto simp: get_tool_call_def mem_eval split: list.splits)
  with recorded_call_is_found [OF mem.sql_database_axioms d1(1) g] g d1(1) c
  show ?thesis by (simp add: Let_def)
qed

text \<open>Pruning deletes exactly the calls older than the retention and reports how many, and an
  unset or negative retention deletes nothing. A failed prune deletes nothing either.\<close>

theorem prune_deletes_exactly_expired:
  assumes "sql_database content db" "prune_tool_calls db now retention d = (res, d')" "retention \<le> max_int64"
  shows "case res of
      Inl e \<Rightarrow> content d' = content d
    | Inr n \<Rightarrow>
        let expired = (\<lambda>c. 0 < retention \<and> retention < now - call_called_at c)
        in n = blen (filter expired (tb_calls (content d)))
           \<and> content d' = tb_calls_update (filter (\<lambda>c. \<not> expired c)) (content d)"
  using assms by (rule prune_tool_calls_effect)

theorem prune_deletes_exactly_expired_witness:
  "let d = example_history [example_call ''1'' ''fetch'' 5, example_call ''2'' ''fetch'' 60]
   in fst (prune_tool_calls mem_database 100 50 d) = Inr 1
      \<and> map call_id (tb_calls (md_tables (snd (prune_tool_calls mem_database 100 50 d)))) = [''2'']
      \<and> tb_calls (md_tables (snd (prune_tool_calls mem_database 100 0 d))) = tb_calls (md_tables d)"
proof -
  let ?d = "example_history [example_call ''1'' ''fetch'' 5, example_call ''2'' ''fetch'' 60]"
  obtain res d' where r: "prune_tool_calls mem_database 100 50 ?d = (res, d')" by fastforce
  obtain res0 d0 where r0: "prune_tool_calls mem_database 100 0 ?d = (res0, d0)" by fastforce
  have ok: "\<exists>n. res = Inr n" "\<exists>n. res0 = Inr n"
    using r r0 by (auto simp: prune_tool_calls_def mem_eval example_history_defs)
  show ?thesis
    using prune_deletes_exactly_expired [OF mem.sql_database_axioms r]
      prune_deletes_exactly_expired [OF mem.sql_database_axioms r0] ok r r0
    by (auto simp: Let_def max_int64_def example_history_defs)
qed

end
