(* ===== verification/Recorder.thy ===== *)
theory Recorder
  imports Json History_Repo
begin

section \<open>Recording tool calls (internal/recorder/recorder.go)\<close>

text \<open>
  The wrapper \<open>recorded\<close> around a tool handler and the row that it writes. A handler is a
  function of its input and its own state; its outcome is an error or an output. What the
  wrapper returns is the handler's outcome and state, and the database afterwards
  (\<^const>\<open>None\<close> would be a panic of the wrapper). The values are encoded with functions that
  give their JSON (\<open>enc_in\<close>, \<open>enc_out\<close>) and the error text (\<open>enc_err\<close>).
\<close>

definition default_preview_bytes :: int where
  "default_preview_bytes = 64 * 1024"

record 'd recorder =
  rec_db :: "'d database option"
  rec_preview_bytes :: int

definition preview_limit :: "'d recorder \<Rightarrow> int" where
  "preview_limit rec = (if rec_preview_bytes rec \<le> 0 then default_preview_bytes else rec_preview_bytes rec)"

definition error_json :: "string \<Rightarrow> json" where
  "error_json msg = JObj [(''error'', JStr msg)]"

text \<open>The row of a call that failed with an error text, or returned an output.\<close>

definition history_row :: "'d recorder \<Rightarrow> actor \<Rightarrow> string \<Rightarrow> json \<Rightarrow> string + json \<Rightarrow> duration \<Rightarrow> tool_call option" where
  "history_row rec a tool inp outcome elapsed =
     (let call = \<lparr>call_id = [], call_actor = actor_id a, call_tool = tool,
                  call_input = marshal_for_history inp, call_is_error = False,
                  call_duration_ms = elapsed div 1000000, call_output_size = 0, call_output = [],
                  call_truncated = False, call_called_at = zero_time\<rparr>
      in case outcome of
           Inl msg \<Rightarrow> Some (call\<lparr>call_is_error := True, call_output := marshal_for_history (error_json msg)\<rparr>)
         | Inr out \<Rightarrow>
             let encoded = marshal_for_history out
             in case truncate_utf8 encoded (preview_limit rec) of
               None \<Rightarrow> None
             | Some (preview, truncated) \<Rightarrow>
                 Some (call\<lparr>call_output_size := blen encoded, call_output := preview,
                            call_truncated := truncated\<rparr>))"

definition record_call :: "'d recorder \<Rightarrow> actor option \<Rightarrow> string \<Rightarrow> json \<Rightarrow> string + json \<Rightarrow> duration
    \<Rightarrow> string \<Rightarrow> time \<Rightarrow> 'd \<Rightarrow> 'd option" where
  "record_call rec actor tool inp outcome elapsed uuid now d =
     (case rec_db rec of
        None \<Rightarrow> Some d
      | Some db \<Rightarrow>
          case actor of
            None \<Rightarrow> Some d
          | Some a \<Rightarrow>
              case history_row rec a tool inp outcome elapsed of
                None \<Rightarrow> None
              | Some call \<Rightarrow>
                  case record_tool_call db uuid now call d of
                    (ignored, d1) \<Rightarrow> Some d1)"

text \<open>The readings of one call: how long it took, and what the repository draws for the row.\<close>

record call_stamp =
  st_elapsed :: duration
  st_uuid :: string
  st_now :: time

definition recorded :: "'d recorder \<Rightarrow> string \<Rightarrow> ('i \<Rightarrow> json) \<Rightarrow> ('e \<Rightarrow> string) \<Rightarrow> ('o \<Rightarrow> json)
    \<Rightarrow> (actor option \<Rightarrow> 'i \<Rightarrow> 's \<Rightarrow> ('e + 'o) \<times> 's)
    \<Rightarrow> call_stamp \<Rightarrow> actor option \<Rightarrow> 'i \<Rightarrow> 's \<Rightarrow> 'd \<Rightarrow> (('e + 'o) \<times> 's \<times> 'd) option" where
  "recorded rec tool enc_in enc_err enc_out h stamp actor inp s d =
     (case h actor inp s of
        (res, s1) \<Rightarrow>
          case record_call rec actor tool (enc_in inp)
                 (case res of Inl e \<Rightarrow> Inl (enc_err e) | Inr out \<Rightarrow> Inr (enc_out out))
                 (st_elapsed stamp) (st_uuid stamp) (st_now stamp) d of
            None \<Rightarrow> None
          | Some d1 \<Rightarrow> Some (res, s1, d1))"

lemma preview_limit_pos: "0 < preview_limit rec"
  by (simp add: preview_limit_def default_preview_bytes_def)

text \<open>What the row of a call holds.\<close>

definition faithful_row :: "int \<Rightarrow> actor \<Rightarrow> string \<Rightarrow> json \<Rightarrow> string + json \<Rightarrow> tool_call \<Rightarrow> bool" where
  "faithful_row limit a tool inp outcome c \<longleftrightarrow>
     call_actor c = actor_id a \<and> call_tool c = tool \<and> call_input c = marshal inp
     \<and> storable (call_input c) \<and> storable (call_output c)
     \<and> (case outcome of
          Inl msg \<Rightarrow> call_is_error c \<and> call_output c = marshal (error_json msg)
        | Inr out \<Rightarrow> \<not> call_is_error c \<and> call_output_size c = blen (marshal out)
            \<and> blen (call_output c) \<le> limit
            \<and> (call_truncated c \<longleftrightarrow> limit < blen (marshal out))
            \<and> (\<exists>n. call_output c = take n (marshal out))
            \<and> (\<not> call_truncated c \<longrightarrow> call_output c = marshal out))"

lemma history_row_faithful:
  "\<exists>c. history_row rec a tool inp outcome elapsed = Some c \<and> faithful_row (preview_limit rec) a tool inp outcome c
     \<and> call_id c = [] \<and> call_called_at c = zero_time"
proof (cases outcome)
  case (Inl msg)
  then show ?thesis
    by (simp add: history_row_def faithful_row_def marshal_for_history_def storable_marshal Let_def)
next
  case (Inr out)
  have pos: "0 \<le> preview_limit rec" using preview_limit_pos [of rec] by simp
  obtain t dropped where t: "truncate_utf8 (marshal out) (preview_limit rec) = Some (t, dropped)"
    using truncate_total [OF pos] by blast
  from storable_truncated [OF storable_marshal pos t] Inr t show ?thesis
    by (auto simp: history_row_def faithful_row_def marshal_for_history_def storable_marshal Let_def
        split: if_splits)
qed

lemma record_call_total: "\<exists>d1. record_call rec actor tool inp outcome elapsed uuid now d = Some d1"
proof (cases "rec_db rec = None \<or> actor = None")
  case True
  then show ?thesis by (auto simp: record_call_def split: option.splits)
next
  case False
  then obtain db a where "rec_db rec = Some db" "actor = Some a" by auto
  moreover obtain c where "history_row rec a tool inp outcome elapsed = Some c"
    using history_row_faithful by metis
  ultimately show ?thesis by (simp add: record_call_def split: prod.splits)
qed

text \<open>The INSERT of a row was issued: the row is there, unless the database refused it.\<close>

definition row_written :: "'d database \<Rightarrow> ('d \<Rightarrow> tables) \<Rightarrow> tool_call \<Rightarrow> 'd \<Rightarrow> 'd \<Rightarrow> bool" where
  "row_written db content c d d' \<longleftrightarrow> d' = snd (sql_create (db_calls db) c d)
     \<and> (if fst (sql_create (db_calls db) c d) = None
        then content d' = tb_calls_update (\<lambda>rs. rs @ [c]) (content d) \<and> uniq_calls (tb_calls (content d'))
        else content d' = content d)"

lemma row_written_there:
  assumes "row_written db content c d d'" "fst (sql_create (db_calls db) c d) = None"
  shows "content d' = tb_calls_update (\<lambda>rs. rs @ [c]) (content d)"
  using assms unfolding row_written_def by metis

lemma row_written_cases:
  assumes "row_written db content c d d'"
  obtains (there) "content d' = tb_calls_update (\<lambda>rs. rs @ [c]) (content d)" "uniq_calls (tb_calls (content d'))"
  | (refused) "content d' = content d"
  using assms unfolding row_written_def by metis

lemma record_call_effect:
  assumes "sql_database content db" "rec_db rec = Some db" "actor = Some a"
    "record_call rec actor tool inp outcome elapsed uuid now d = Some d'"
  shows "\<exists>c. faithful_row (preview_limit rec) a tool inp outcome c \<and> call_id c = uuid \<and> call_called_at c = now
    \<and> row_written db content c d d'"
proof -
  obtain c where c: "history_row rec a tool inp outcome elapsed = Some c" "faithful_row (preview_limit rec) a tool inp outcome c"
    "call_id c = []" "call_called_at c = zero_time"
    using history_row_faithful by metis
  obtain r d1 where r: "record_tool_call db uuid now c d = (r, d1)" by fastforce
  have d': "d' = d1" using assms(2-4) c(1) r by (simp add: record_call_def)
  have "faithful_row (preview_limit rec) a tool inp outcome (completed_call uuid now c)"
    using c(2) by (simp add: completed_call_def faithful_row_def Let_def storable_marshal split: sum.splits)
  moreover have "call_id (completed_call uuid now c) = uuid" "call_called_at (completed_call uuid now c) = now"
    using c(3,4) by (simp_all add: completed_call_def Let_def)
  moreover have "row_written db content (completed_call uuid now c) d d'"
    using sql_database.record_tool_call_effect [OF assms(1) r] r d'
    by (auto simp: row_written_def record_tool_call_def split: if_splits)
  ultimately show ?thesis by blast
qed

lemma recording_is_transparent_total:
  "\<exists>d'. recorded rec tool enc_in enc_err enc_out h stamp actor inp s d
      = Some (fst (h actor inp s), snd (h actor inp s), d')"
proof -
  obtain res s1 where h: "h actor inp s = (res, s1)" by fastforce
  obtain d1 where "record_call rec actor tool (enc_in inp)
      (case res of Inl e \<Rightarrow> Inl (enc_err e) | Inr out \<Rightarrow> Inr (enc_out out))
      (st_elapsed stamp) (st_uuid stamp) (st_now stamp) d = Some d1" by (metis record_call_total)
  with h show ?thesis by (simp add: recorded_def)
qed

lemma recorded_row:
  assumes "sql_database content db" "rec_db rec = Some db"
    "recorded rec tool enc_in enc_err enc_out h stamp (Some a) inp s d = Some (res, s', d')"
  shows "\<exists>c. faithful_row (preview_limit rec) a tool (enc_in inp)
        (case res of Inl e \<Rightarrow> Inl (enc_err e) | Inr out \<Rightarrow> Inr (enc_out out)) c
    \<and> call_id c = st_uuid stamp \<and> call_called_at c = st_now stamp \<and> row_written db content c d d'"
proof -
  have "record_call rec (Some a) tool (enc_in inp)
      (case res of Inl e \<Rightarrow> Inl (enc_err e) | Inr out \<Rightarrow> Inr (enc_out out))
      (st_elapsed stamp) (st_uuid stamp) (st_now stamp) d = Some d'"
    using assms(3) by (auto simp: recorded_def split: prod.splits option.splits)
  with record_call_effect [OF assms(1,2)] show ?thesis by blast
qed

subsection \<open>Properties\<close>

text \<open>Recording never changes or fails a call: whatever the database does and whatever the
  handler returns, the wrapper returns the handler's own outcome and state, and it does
  not panic (truncating the preview never slices out of range).\<close>

theorem recording_is_transparent:
  "\<exists>d'. recorded rec tool enc_in enc_err enc_out h stamp actor inp s d
      = Some (fst (h actor inp s), snd (h actor inp s), d')"
  by (rule recording_is_transparent_total)

text \<open>C34: a call of an authenticated agent writes exactly one new row, which is there afterwards
  unless the INSERT failed: the row names the agent and the tool, it is marked as an error
  exactly when the handler failed, its input and output are valid UTF-8 without control
  characters, so that Postgres accepts them, and a stored output is a prefix of the encoded
  one that fits the preview, with its true size and a flag that says whether it was cut.\<close>

theorem recorded_row_is_faithful:
  assumes "sql_database content db" "rec_db rec = Some db"
    "recorded rec tool enc_in enc_err enc_out h stamp (Some a) inp s d = Some (res, s', d')"
  shows "\<exists>c. faithful_row (preview_limit rec) a tool (enc_in inp)
        (case res of Inl e \<Rightarrow> Inl (enc_err e) | Inr out \<Rightarrow> Inr (enc_out out)) c
    \<and> call_id c = st_uuid stamp \<and> call_called_at c = st_now stamp \<and> row_written db content c d d'"
  using assms by (rule recorded_row)

theorem recorded_row_is_faithful_witness:
  "\<exists>d' c. recorded \<lparr>rec_db = Some mem_database, rec_preview_bytes = 4\<rparr> ''fetch'' JStr id JStr
       (\<lambda>_ i s. (Inr i :: string + string, s)) \<lparr>st_elapsed = 5000000, st_uuid = ''u1'', st_now = 9\<rparr>
       (Some example_actor) ''abcdef'' () mem_empty = Some (Inr ''abcdef'', (), d')
     \<and> tb_calls (md_tables d') = [c] \<and> call_truncated c \<and> storable (call_output c) \<and> call_output_size c = 8"
proof -
  let ?rec = "\<lparr>rec_db = Some mem_database, rec_preview_bytes = 4\<rparr>"
  let ?st = "\<lparr>st_elapsed = 5000000, st_uuid = ''u1'', st_now = 9\<rparr>"
  let ?h = "\<lambda>_ i s. (Inr i :: string + string, s)"
  obtain d' where run: "recorded ?rec ''fetch'' JStr id JStr ?h ?st (Some example_actor) ''abcdef'' () mem_empty
      = Some (Inr ''abcdef'', (), d')"
    using recording_is_transparent_total [of ?rec "''fetch''" JStr id JStr ?h ?st "Some example_actor" "''abcdef''" "()" mem_empty]
    by auto
  have m: "marshal (JStr ''abcdef'') = CHR 0x22 # ''abcdef'' @ [CHR 0x22]"
    by (simp add: quote_def escape_string.simps escape_ascii_def backslash_def)
  from recorded_row_is_faithful [OF mem.sql_database_axioms _ run] obtain c where
    c: "faithful_row (preview_limit ?rec) example_actor ''fetch'' (JStr ''abcdef'') (Inr (JStr ''abcdef'')) c"
    "row_written mem_database md_tables c mem_empty d'" by auto
  have "fst (sql_create (db_calls mem_database) c mem_empty) = None" by (simp add: mem_eval mem_empty_def)
  from row_written_there [OF c(2) this] have "tb_calls (md_tables d') = [c]" by (simp add: mem_empty_def)
  with run m c(1) show ?thesis
    by (intro exI [of _ d'] exI [of _ c]) (simp add: faithful_row_def preview_limit_def)
qed

end
