(* ===== verification/Paging.thy ===== *)
theory Paging
  imports Utf8
begin

section \<open>Reading and paging a response body (internal/tools/fetch/fetch.go)\<close>

text \<open>
  The part of the fetch tool below the HTTP exchange: \<open>readChunk\<close>, \<open>bodyEnded\<close>,
  \<open>captureRest\<close>, \<open>pageFrom\<close>, \<open>pageResult\<close> and \<open>pageFromStream\<close>.

  A response body is an io.Reader: the bytes still to come and the error that ends them
  (io.EOF for a complete body). The error is delivered by a read of its own and stays
  there, as net/http bodies behave. The helpers of package io that the source calls are
  defined on it. Sizes are 64-bit integers, so the additions of the source wrap, and a
  slice expression out of bounds is a panic (\<^const>\<open>None\<close>, or the error \<open>SliceBounds\<close>).
\<close>

subsection \<open>Readers\<close>

datatype io_error = IoEOF | IoUnexpectedEOF | IoOther string

record reader =
  pending :: bytes
  ending :: io_error

text \<open>io.ReadAll(io.LimitReader(r, n))\<close>

definition read_all_limit :: "int \<Rightarrow> reader \<Rightarrow> bytes \<times> io_error option \<times> reader" where
  "read_all_limit n r =
     (if n \<le> 0 then ([], None, r)
      else if n \<le> blen (pending r) then
        (take (nat n) (pending r), None, r\<lparr>pending := drop (nat n) (pending r)\<rparr>)
      else
        (pending r, if ending r = IoEOF then None else Some (ending r), r\<lparr>pending := []\<rparr>))"

text \<open>io.CopyN(io.Discard, r, n), for a positive n\<close>

definition discard_n :: "int \<Rightarrow> reader \<Rightarrow> int \<times> io_error option \<times> reader" where
  "discard_n n r =
     (if n \<le> blen (pending r) then (n, None, r\<lparr>pending := drop (nat n) (pending r)\<rparr>)
      else (blen (pending r), Some (ending r), r\<lparr>pending := []\<rparr>))"

text \<open>io.ReadFull(r, buf) for a buffer of n bytes: how many were read, the error, the rest\<close>

definition read_full :: "nat \<Rightarrow> reader \<Rightarrow> nat \<times> io_error option \<times> reader" where
  "read_full n r =
     (if n \<le> length (pending r) then (n, None, r\<lparr>pending := drop n (pending r)\<rparr>)
      else (length (pending r),
            Some (if pending r \<noteq> [] \<and> ending r = IoEOF then IoUnexpectedEOF else ending r),
            r\<lparr>pending := []\<rparr>))"

subsection \<open>Results and errors\<close>

datatype read_error =
  SkipToOffset int io_error
| ReadErr io_error

datatype fetch_error =
  ErrEmptyURL
| ErrNegativeOffset
| ParseURL string
| UnsupportedScheme string
| BuildRequest string
| FetchFailed string
| UnexpectedStatus string string
| ReadBody read_error
| SliceBounds

record fetch_result =
  res_url :: string
  res_status :: int
  res_content_type :: string
  res_offset :: int
  res_content :: string
  res_bytes :: int
  res_truncated :: bool
  res_next :: int

subsection \<open>The reading routines\<close>

definition read_chunk :: "reader \<Rightarrow> int \<Rightarrow> int \<Rightarrow> (read_error + bytes \<times> bool) \<times> reader" where
  "read_chunk body maxb offset =
     (let skip = (if 0 < offset then discard_n offset body else (offset, None, body))
      in case skip of (n, err, body1) \<Rightarrow>
        if err \<noteq> None \<and> err \<noteq> Some IoEOF then (Inl (SkipToOffset offset (the err)), body1)
        else if n < offset then (Inr ([], False), body1)
        else case read_all_limit (wrap64 (maxb + 1)) body1 of
          (buf, Some e, body2) \<Rightarrow> (Inl (ReadErr e), body2)
        | (buf, None, body2) \<Rightarrow> (Inr (buf, maxb < blen buf), body2))"

definition body_ended :: "reader \<Rightarrow> bool" where
  "body_ended body =
     (case read_full 2 body of
        (n, None, body1) \<Rightarrow> False
      | (n, Some e, body1) \<Rightarrow>
          if n = 0 then e = IoEOF
          else case read_full 1 body1 of
            (_, None, _) \<Rightarrow> False
          | (_, Some e', _) \<Rightarrow> e' = IoEOF)"

text \<open>
  The capture goroutine races with a timer. \<open>timely\<close> says whether the goroutine delivered
  its result first.
\<close>

definition capture_rest :: "bool \<Rightarrow> reader \<Rightarrow> int \<Rightarrow> bytes \<times> bool" where
  "capture_rest timely body limit =
     (if timely then
        case read_all_limit limit body of (rest, _, body1) \<Rightarrow> (rest, body_ended body1)
      else ([], False))"

subsection \<open>The paging routines\<close>

definition page_from :: "bytes \<Rightarrow> int \<Rightarrow> int \<Rightarrow> (bytes \<times> bool \<times> int) option" where
  "page_from body offset maxb =
     (if blen body \<le> offset then Some ([], False, 0)
      else
        let e = wrap64 (offset + maxb);
            e' = (if blen body < e then blen body else e)
        in case slice body offset e' of
          None \<Rightarrow> None
        | Some chunk \<Rightarrow>
            if wrap64 (offset + maxb) < blen body then
              let cut = cut_to_utf8_boundary chunk
              in Some (cut, True, wrap64 (offset + blen cut))
            else Some (chunk, False, 0))"

definition make_result :: "string \<Rightarrow> int \<Rightarrow> string \<Rightarrow> int \<Rightarrow> bytes \<Rightarrow> bool \<Rightarrow> int \<Rightarrow> fetch_result" where
  "make_result u status ctype offset content truncated nxt =
     \<lparr>res_url = u, res_status = status, res_content_type = ctype, res_offset = offset,
      res_content = content, res_bytes = blen content, res_truncated = truncated,
      res_next = nxt\<rparr>"

definition page_result :: "int \<Rightarrow> string \<Rightarrow> int \<Rightarrow> string \<Rightarrow> bytes \<Rightarrow> int \<Rightarrow> fetch_error + fetch_result" where
  "page_result maxb u status ctype body offset =
     (case page_from body offset maxb of
        None \<Rightarrow> Inl SliceBounds
      | Some (content, truncated, nxt) \<Rightarrow>
          Inr (make_result u status ctype offset content truncated nxt))"

definition page_from_stream :: "int \<Rightarrow> string \<Rightarrow> int \<Rightarrow> string \<Rightarrow> reader \<Rightarrow> int
    \<Rightarrow> fetch_error + fetch_result" where
  "page_from_stream maxb u status ctype body offset =
     (case read_chunk body maxb offset of
        (Inl e, _) \<Rightarrow> Inl (ReadBody e)
      | (Inr (page, truncated), _) \<Rightarrow>
          case (if maxb < blen page then slice page 0 maxb else Some page) of
            None \<Rightarrow> Inl SliceBounds
          | Some page' \<Rightarrow>
              let content = cut_to_utf8_boundary page';
                  nxt = (if truncated then wrap64 (offset + blen content) else 0)
              in Inr (make_result u status ctype offset content truncated nxt))"

subsection \<open>Facts\<close>

lemma body_ended_iff:
  "body_ended r \<longleftrightarrow> ending r = IoEOF \<and> length (pending r) \<le> 1"
  by (auto simp: body_ended_def read_full_def split: if_splits)

lemma capture_rest_done:
  assumes "capture_rest timely r limit = (rest, True)"
  shows "timely \<and> ending r = IoEOF \<and> rest = take (nat limit) (pending r)
    \<and> blen (pending r) \<le> max 0 limit + 1"
proof -
  have timely: timely
    using assms by (cases timely) (auto simp: capture_rest_def)
  show ?thesis
    using assms timely
    by (auto simp: capture_rest_def read_all_limit_def body_ended_iff split: if_splits)
qed

lemma cut_page_length:
  assumes "0 \<le> maxb"
  shows "blen (cut_to_utf8_boundary (take (nat maxb) x)) \<le> maxb"
proof -
  have "length (cut_to_utf8_boundary (take (nat maxb) x)) \<le> nat maxb"
    using cut_length [of "take (nat maxb) x"] by simp
  with assms show ?thesis by (simp add: le_nat_iff)
qed

text \<open>In range, a page is a piece of the body, and an interior page has a successor.\<close>

lemma page_from_in_range:
  assumes "0 \<le> off" "0 \<le> maxb" "blen body + maxb \<le> max_int64"
  shows "page_from body off maxb =
    Some (if blen body \<le> off then ([], False, 0)
          else if off + maxb < blen body then
            let cut = cut_to_utf8_boundary (take (nat maxb) (drop (nat off) body))
            in (cut, True, off + blen cut)
          else (drop (nat off) body, False, 0))"
proof (cases "blen body \<le> off")
  case False
  have w: "wrap64 (off + maxb) = off + maxb"
    using assms False by (simp add: go_int)
  show ?thesis
  proof (cases "off + maxb < blen body")
    case True
    let ?cut = "cut_to_utf8_boundary (take (nat maxb) (drop (nat off) body))"
    have "blen ?cut \<le> maxb"
      using assms(2) by (rule cut_page_length)
    then have "wrap64 (off + blen ?cut) = off + blen ?cut"
      using assms False by (intro wrap64_nonneg) auto
    with True False assms w show ?thesis
      by (simp add: page_from_def slice_def Let_def)
  next
    case False': False
    with False assms w show ?thesis
      by (auto simp: page_from_def slice_def Let_def)
  qed
qed (simp add: page_from_def)

text \<open>A client that follows next_offset until truncated is false.\<close>

fun read_pages :: "nat \<Rightarrow> bytes \<Rightarrow> int \<Rightarrow> int \<Rightarrow> bytes list option" where
  "read_pages 0 body maxb off = None"
| "read_pages (Suc fuel) body maxb off =
     (case page_from body off maxb of
        None \<Rightarrow> None
      | Some (content, truncated, nxt) \<Rightarrow>
          if truncated then map_option (Cons content) (read_pages fuel body maxb nxt)
          else Some [content])"

text \<open>Whatever the bytes are, the pages a client collects are the body, nothing lost or shifted.\<close>

lemma read_pages_concat:
  assumes "read_pages fuel body maxb off = Some pages" "0 \<le> off" "0 \<le> maxb"
    "blen body + maxb \<le> max_int64"
  shows "concat pages = drop (nat off) body \<and> (\<forall>p \<in> set pages. blen p \<le> maxb)"
  using assms
proof (induction fuel arbitrary: off pages)
  case (Suc fuel)
  show ?case
  proof (cases "off + maxb < blen body")
    case True
    let ?chunk = "take (nat maxb) (drop (nat off) body)"
    let ?cut = "cut_to_utf8_boundary ?chunk"
    have page: "page_from body off maxb = Some (?cut, True, off + blen ?cut)"
      using True Suc.prems by (simp add: page_from_in_range Let_def)
    with Suc.prems obtain rest where rest:
      "read_pages fuel body maxb (off + blen ?cut) = Some rest" "pages = ?cut # rest"
      by auto
    from Suc.IH [OF rest(1)] Suc.prems
    have "concat rest = drop (nat off + length ?cut) body" "\<forall>p \<in> set rest. blen p \<le> maxb"
      by (simp_all add: nat_add_distrib)
    moreover have "blen ?cut \<le> maxb"
      using Suc.prems(3) by (rule cut_page_length)
    moreover have "?cut = take (length ?cut) (drop (nat off) body)"
      using cut_is_prefix [of ?chunk] cut_length [of ?chunk]
      by (metis length_take min.bounded_iff take_take min.absorb1)
    then have "?cut @ drop (nat off + length ?cut) body = drop (nat off) body"
      by (metis append_take_drop_id drop_drop add.commute)
    ultimately show ?thesis using rest(2) by simp
  next
    case False
    show ?thesis
    proof (cases "blen body \<le> off")
      case True
      then have "pages = [[]]" using Suc.prems by (simp add: page_from_def)
      with True Suc.prems show ?thesis by simp
    next
      case inner: False
      then have "page_from body off maxb = Some (drop (nat off) body, False, 0)"
        using False Suc.prems by (simp add: page_from_in_range)
      with Suc.prems False inner show ?thesis by auto
    qed
  qed
qed simp

lemma read_pages_terminates:
  assumes "valid_utf8 (drop (nat off) body)" "0 \<le> off" "off \<le> blen body" "4 \<le> maxb"
    "blen body + maxb \<le> max_int64" "blen body - off < int fuel"
  shows "\<exists>pages. read_pages fuel body maxb off = Some pages \<and> (\<forall>p \<in> set pages. valid_utf8 p)"
  using assms
proof (induction fuel arbitrary: off)
  case (Suc fuel)
  show ?case
  proof (cases "off + maxb < blen body")
    case True
    let ?rest = "drop (nat off) body"
    let ?cut = "cut_to_utf8_boundary (take (nat maxb) ?rest)"
    have page: "page_from body off maxb = Some (?cut, True, off + blen ?cut)"
      using True Suc.prems by (simp add: page_from_in_range Let_def)
    have "nat maxb \<le> length ?rest" using True Suc.prems by simp
    from cut_valid_prefix [OF Suc.prems(1) this] obtain k where k: "k \<le> nat maxb" "nat maxb < k + 4"
      "?cut = take k ?rest" "valid_utf8 (take k ?rest)" "valid_utf8 (drop k ?rest)" by blast
    have len: "length ?cut = k" using k True Suc.prems by simp
    have "valid_utf8 (drop (nat (off + blen ?cut)) body)"
      using k(5) Suc.prems len by (simp add: nat_add_distrib add.commute)
    moreover have "1 \<le> k" "int k \<le> maxb" using k(1,2) Suc.prems by (simp_all add: le_nat_iff)
    ultimately obtain pages where "read_pages fuel body maxb (off + blen ?cut) = Some pages"
      "\<forall>p \<in> set pages. valid_utf8 p"
      using Suc.IH [of "off + blen ?cut"] Suc.prems True k len by auto
    with page k show ?thesis by simp
  next
    case False
    then have "page_from body off maxb = Some (drop (nat off) body, False, 0)"
      using Suc.prems by (simp add: page_from_in_range)
    with Suc.prems show ?thesis by simp
  qed
qed simp

lemma read_chunk_whole:
  assumes "0 \<le> off" "0 \<le> maxb" "maxb < max_int64"
  shows "fst (read_chunk \<lparr>pending = body, ending = IoEOF\<rparr> maxb off)
    = Inr (take (nat maxb + 1) (drop (nat off) body), off + maxb < blen body)"
proof -
  have w: "wrap64 (maxb + 1) = maxb + 1" "nat (maxb + 1) = nat maxb + 1"
    using assms by (simp_all add: go_int nat_add_distrib)
  show ?thesis
  proof (cases "blen body < off")
    case True
    then show ?thesis using assms by (simp add: read_chunk_def discard_n_def)
  next
    case False
    define rest where "rest = drop (nat off) body"
    have "blen rest = blen body - off" using False assms by (simp add: rest_def)
    moreover have "fst (read_chunk \<lparr>pending = body, ending = IoEOF\<rparr> maxb off)
        = (if maxb + 1 \<le> blen rest then Inr (take (nat maxb + 1) rest, True) else Inr (rest, False))"
      using assms False w
      by (auto simp: read_chunk_def discard_n_def read_all_limit_def rest_def Let_def)
    ultimately show ?thesis unfolding rest_def [symmetric] by auto
  qed
qed

text \<open>Reading a page from the stream and cutting it from a snapshot agree up to the last page.\<close>

lemma page_from_stream_whole:
  assumes "0 \<le> off" "0 \<le> maxb" "blen body + maxb < max_int64"
  shows "page_from_stream maxb u st ct \<lparr>pending = body, ending = IoEOF\<rparr> off
    = (case page_from body off maxb of
         None \<Rightarrow> Inl SliceBounds
       | Some (c, t, nxt) \<Rightarrow> Inr (make_result u st ct off (if t then c else cut_to_utf8_boundary c) t nxt))"
proof -
  have mx: "maxb < max_int64" using assms by simp
  define rest where "rest = drop (nat off) body"
  obtain r' where chunk: "read_chunk \<lparr>pending = body, ending = IoEOF\<rparr> maxb off
      = (Inr (take (nat maxb + 1) rest, off + maxb < blen body), r')"
    using read_chunk_whole [OF assms(1,2) mx, of body] unfolding rest_def by (metis prod.collapse)
  have rest: "blen rest = max 0 (blen body - off)" using assms by (auto simp: rest_def)
  consider (past) "blen body \<le> off" | (last) "off < blen body" "blen body \<le> off + maxb"
    | (inner) "off + maxb < blen body" by linarith
  then show ?thesis
  proof cases
    case past
    then have "rest = []" using assms by (simp add: rest_def)
    with past assms show ?thesis
      by (simp add: page_from_stream_def chunk page_from_in_range)
  next
    case last
    then have "take (nat maxb + 1) rest = rest" "blen rest \<le> maxb" using rest assms by auto
    with last assms show ?thesis
      by (simp add: page_from_stream_def chunk page_from_in_range rest_def [symmetric])
  next
    case inner
    let ?cut = "cut_to_utf8_boundary (take (nat maxb) rest)"
    have "blen ?cut \<le> maxb" using assms(2) by (rule cut_page_length)
    then have "wrap64 (off + blen ?cut) = off + blen ?cut"
      using assms inner by (intro wrap64_nonneg) auto
    moreover have "maxb < blen (take (nat maxb + 1) rest)" using inner rest assms by simp
    moreover have "slice (take (nat maxb + 1) rest) 0 maxb = Some (take (nat maxb) rest)"
      using inner rest assms by (simp add: slice_def min_def)
    ultimately show ?thesis
      using inner assms
      by (simp add: page_from_stream_def chunk page_from_in_range rest_def [symmetric] Let_def)
  qed
qed

lemma page_from_length:
  assumes "page_from body off maxb = Some (c, t, nxt)" "0 \<le> off" "off \<le> max_int64"
    "0 \<le> maxb" "maxb \<le> max_int64"
  shows "blen c \<le> maxb"
proof (cases "blen body \<le> off")
  case True
  with assms show ?thesis by (simp add: page_from_def)
next
  case False
  define e where "e = wrap64 (off + maxb)"
  have e: "e = off + maxb \<or> e < 0"
  proof (cases "off + maxb \<le> max_int64")
    case True
    then show ?thesis using assms(2,4) by (simp add: e_def go_int)
  next
    case False
    then have "e = off + maxb - 2 ^ 64"
      using assms(3,5) by (simp add: e_def wrap64_overflow)
    then show ?thesis using assms(3,5) by (simp add: max_int64_def)
  qed
  from assms(1) False obtain chunk where chunk:
    "slice body off (if blen body < e then blen body else e) = Some chunk"
    and c: "c = cut_to_utf8_boundary chunk \<or> c = chunk"
    by (auto simp: page_from_def Let_def e_def [symmetric] split: option.splits if_splits)
  from slice_length [OF chunk] e False assms(2) have "blen chunk \<le> maxb"
    by (auto split: if_splits)
  with c cut_length [of chunk] show ?thesis by auto
qed

lemma page_result_bytes:
  assumes "page_result maxb u st ct body off = Inr r" "0 \<le> off" "off \<le> max_int64"
    "0 \<le> maxb" "maxb \<le> max_int64"
  shows "blen (res_content r) \<le> maxb"
  using assms page_from_length by (auto simp: page_result_def make_result_def split: option.splits)

lemma page_from_stream_Inr:
  assumes "page_from_stream maxb u st ct body off = Inr r"
  obtains page t body' page' where "read_chunk body maxb off = (Inr (page, t), body')"
    "page' = page \<and> blen page \<le> maxb \<or> slice page 0 maxb = Some page'"
    "res_content r = cut_to_utf8_boundary page'"
proof -
  from assms obtain page t body' where chunk: "read_chunk body maxb off = (Inr (page, t), body')"
    by (auto simp: page_from_stream_def split: prod.splits sum.splits)
  with assms obtain page' where "(if maxb < blen page then slice page 0 maxb else Some page) = Some page'"
    "res_content r = cut_to_utf8_boundary page'"
    by (auto simp: page_from_stream_def make_result_def Let_def split: option.splits)
  then show ?thesis using that [OF chunk, of page'] by (auto split: if_splits)
qed

lemma page_from_stream_bytes:
  assumes "page_from_stream maxb u st ct body off = Inr r" "0 \<le> maxb"
  shows "blen (res_content r) \<le> maxb"
proof -
  from assms(1) obtain page t body' page' where p: "read_chunk body maxb off = (Inr (page, t), body')"
    "page' = page \<and> blen page \<le> maxb \<or> slice page 0 maxb = Some page'"
    "res_content r = cut_to_utf8_boundary page'"
    by (rule page_from_stream_Inr)
  then have "blen page' \<le> maxb" using slice_length by fastforce
  with p(3) cut_length [of page'] show ?thesis by simp
qed

text \<open>Every page is a piece of the body, taken at the offset asked for.\<close>

definition piece_at :: "int \<Rightarrow> bytes \<Rightarrow> bytes \<Rightarrow> bool" where
  "piece_at off body c \<longleftrightarrow> c = take (length c) (drop (nat off) body)"

lemma piece_at_Nil [simp]: "piece_at off body []"
  by (simp add: piece_at_def)

lemma piece_at_cut: "piece_at off body c \<Longrightarrow> piece_at off body (cut_to_utf8_boundary c)"
proof -
  assume c: "piece_at off body c"
  have "cut_to_utf8_boundary c = take (length (cut_to_utf8_boundary c)) c"
    by (rule cut_is_prefix)
  also have "\<dots> = take (length (cut_to_utf8_boundary c)) (take (length c) (drop (nat off) body))"
    using c by (simp add: piece_at_def)
  also have "\<dots> = take (length (cut_to_utf8_boundary c)) (drop (nat off) body)"
    using cut_length [of c] by (simp add: min_def)
  finally show ?thesis by (simp add: piece_at_def)
qed

lemma piece_at_take: "piece_at off body (take n (drop (nat off) body))"
  by (auto simp: piece_at_def min_def)

lemma piece_at_shorter: "piece_at off body c \<Longrightarrow> piece_at off body (take n c)"
  unfolding piece_at_def by (metis length_take take_take min.commute)

lemma piece_at_rest [simp]: "piece_at off body (drop (nat off) body)"
  by (simp add: piece_at_def)

lemma page_from_piece:
  assumes "page_from body off maxb = Some (c, t, nxt)"
  shows "piece_at off body c"
  using assms piece_at_cut piece_at_take
  by (auto simp: page_from_def slice_def Let_def split: if_splits option.splits)

lemma read_chunk_piece:
  assumes "read_chunk r maxb off = (Inr (page, t), r')"
  shows "piece_at off (pending r) page"
proof (cases "0 < off")
  case True
  with assms show ?thesis
    by (auto simp: read_chunk_def discard_n_def read_all_limit_def Let_def piece_at_def
        split: if_splits)
next
  case False
  with assms show ?thesis
    by (auto simp: read_chunk_def read_all_limit_def Let_def piece_at_def split: if_splits)
qed

lemma page_from_stream_piece:
  assumes "page_from_stream maxb u st ct r off = Inr res"
  shows "piece_at off (pending r) (res_content res)"
proof -
  from assms obtain page t r' page' where page: "read_chunk r maxb off = (Inr (page, t), r')"
    and page': "page' = page \<and> blen page \<le> maxb \<or> slice page 0 maxb = Some page'"
    and "res_content res = cut_to_utf8_boundary page'"
    by (rule page_from_stream_Inr)
  moreover from page' have "\<exists>n. page' = take n page"
  proof
    assume "slice page 0 maxb = Some page'"
    then show ?thesis by (auto simp: slice_def split: if_splits)
  qed (auto intro: exI [of _ "length page"])
  ultimately show ?thesis
    using read_chunk_piece [OF page] piece_at_cut piece_at_shorter by auto
qed

lemma page_from_stream_interior:
  assumes "0 \<le> off" "0 \<le> maxb" "off + maxb < blen body" "blen body + maxb < max_int64"
  shows "page_from_stream maxb url status ctype \<lparr>pending = body, ending = e\<rparr> off
    = (let content = cut_to_utf8_boundary (take (nat maxb) (drop (nat off) body))
       in Inr (make_result url status ctype off content True (off + blen content)))"
proof -
  let ?content = "cut_to_utf8_boundary (take (nat maxb) (drop (nat off) body))"
  have "blen ?content \<le> maxb" using assms(2) by (rule cut_page_length)
  then have "wrap64 (off + blen ?content) = off + blen ?content" using assms by (intro wrap64_nonneg) auto
  moreover have "wrap64 (maxb + 1) = maxb + 1" using assms by (intro wrap64_nonneg) auto
  ultimately show ?thesis
    using assms by (auto simp: page_from_stream_def read_chunk_def read_all_limit_def discard_n_def slice_def Let_def
        nat_add_distrib min_def)
qed

subsection \<open>Properties\<close>

text \<open>C28: a page cut from a snapshot and the same page read from a live stream are the same result,
  for a complete body and an offset from which the body is valid UTF-8, so it does not
  matter to a client which of the two served it.\<close>

theorem stream_page_eq_snapshot_page:
  assumes "0 \<le> off" "0 < maxb" "blen body + maxb < max_int64" "valid_utf8 (drop (nat off) body)"
  shows "page_from_stream maxb u st ct \<lparr>pending = body, ending = IoEOF\<rparr> off
    = page_result maxb u st ct body off"
  using assms page_from_stream_whole [of off maxb body u st ct] cut_valid [of "drop (nat off) body"]
  by (auto simp: page_result_def page_from_in_range Let_def)

theorem stream_page_eq_snapshot_page_witness:
  "page_from_stream 4 ''u'' 200 ''t'' \<lparr>pending = ''abcdefg'', ending = IoEOF\<rparr> 4
     = page_result 4 ''u'' 200 ''t'' ''abcdefg'' 4
   \<and> page_result 4 ''u'' 200 ''t'' ''abcdefg'' 4 = Inr (make_result ''u'' 200 ''t'' 4 ''efg'' False 0)"
  using stream_page_eq_snapshot_page [of 4 4 "''abcdefg''" "''u''" 200 "''t''"]
  by (simp add: max_int64_def) (simp add: page_result_def page_from_def wrap64_def slice_def)

text \<open>A page that ends the body is treated differently by the two paths when the body is not
  valid UTF-8 there: the snapshot path returns the bytes, the stream path drops the
  trailing bytes that do not form a rune and still reports the document as complete.\<close>

theorem stream_drops_invalid_tail:
  assumes "0 \<le> off" "off < blen body" "blen body - off \<le> maxb" "blen body + maxb < max_int64"
    "\<forall>c \<in> set (drop (nat off) body). cont c"
  shows "page_result maxb u st ct body off
      = Inr (make_result u st ct off (drop (nat off) body) False 0)
    \<and> page_from_stream maxb u st ct \<lparr>pending = body, ending = IoEOF\<rparr> off
      = Inr (make_result u st ct off [] False 0)"
  using assms page_from_stream_whole [of off maxb body u st ct] cut_conts [of "drop (nat off) body"]
  by (simp add: page_result_def page_from_in_range)

theorem stream_drops_invalid_tail_witness:
  "page_from_stream 4 ''u'' 200 ''t'' \<lparr>pending = [CHR 0x80, CHR 0x80], ending = IoEOF\<rparr> 0
     = Inr (make_result ''u'' 200 ''t'' 0 [] False 0)"
  using stream_drops_invalid_tail [of 0 "[CHR 0x80, CHR 0x80]" 4 "''u''" 200 "''t''"]
  by (simp add: cont_def max_int64_def)

text \<open>C30: paging stands still on a page without a rune, and only there. For sizes that fit an int64: the
  page at an offset, of a body held as a snapshot, is empty, marked as truncated and has the
  next_offset it was asked for exactly when the body goes on beyond the page and no part of
  the page's bytes is a complete rune (bytes that begin none, or only pieces of runes). Then
  the page is the same when it is read from the stream, and a client that follows next_offset
  until truncated is false does not end with any number of requests.\<close>

theorem binary_page_never_advances:
  assumes "0 \<le> off" "0 \<le> maxb" "blen body + maxb < max_int64"
  shows "(page_from body off maxb = Some ([], True, off) \<longleftrightarrow> off + maxb < blen body
      \<and> (\<forall>before u rest. take (nat maxb) (drop (nat off) body) = before @ u @ rest \<longrightarrow> \<not> is_rune u))
    \<and> (page_from body off maxb = Some ([], True, off) \<longrightarrow>
        page_from_stream maxb url status ctype \<lparr>pending = body, ending = e\<rparr> off
          = Inr (make_result url status ctype off [] True off)
        \<and> (\<forall>fuel. read_pages fuel body maxb off = None))"
proof (intro conjI impI allI)
  have page: "page_from body off maxb = Some ([], True, off) \<longleftrightarrow> off + maxb < blen body
      \<and> cut_to_utf8_boundary (take (nat maxb) (drop (nat off) body)) = []"
    using assms by (auto simp: page_from_in_range Let_def)
  then show "page_from body off maxb = Some ([], True, off) \<longleftrightarrow> off + maxb < blen body
      \<and> (\<forall>before u rest. take (nat maxb) (drop (nat off) body) = before @ u @ rest \<longrightarrow> \<not> is_rune u)"
    by (simp only: cut_Nil_iff)
  assume stuck: "page_from body off maxb = Some ([], True, off)"
  then show "read_pages fuel body maxb off = None" for fuel
    by (induction fuel) simp_all
  show "page_from_stream maxb url status ctype \<lparr>pending = body, ending = e\<rparr> off
      = Inr (make_result url status ctype off [] True off)"
    using page_from_stream_interior [OF assms(1,2)] page stuck assms(3) by simp
qed

theorem binary_page_never_advances_witness:
  "let body = concat (replicate 5 [CHR 0xFF, CHR 0xBF])
   in page_from body 1 4 = Some ([], True, 1) \<and> read_pages 100 body 4 1 = None
      \<and> page_from_stream 4 ''u'' 200 ''image/png'' \<lparr>pending = body, ending = IoEOF\<rparr> 1
          = Inr (make_result ''u'' 200 ''image/png'' 1 [] True 1)"
proof -
  let ?body = "concat (replicate 5 [CHR 0xFF, CHR 0xBF])"
  have no_rune: "\<not> is_rune u" if "take 4 (drop 1 ?body) = before @ u @ rest" for before u rest
  proof
    assume "is_rune u"
    then obtain c cs where u: "u = c # cs" by (cases u) auto
    have "c \<in> set (take 4 (drop 1 ?body))" unfolding that u by simp
    then have "c = CHR 0xFF \<or> c = CHR 0xBF" by (auto simp: numeral_eq_Suc)
    with \<open>is_rune u\<close> u show False by (auto simp: is_rune_def decode_rune_def lead_info_def bad_rune_def rune_error_def)
  qed
  have size: "blen ?body + 4 < max_int64" "1 + 4 < blen ?body" by (simp_all add: max_int64_def numeral_eq_Suc)
  with no_rune binary_page_never_advances [of 1 4 ?body "''u''" 200 "''image/png''" IoEOF]
  show ?thesis unfolding Let_def by auto
qed

text \<open>With the largest page size the probe byte overflows the limit: nothing is read from a
  stream of any length, and the empty page is reported as the whole document.\<close>

theorem largest_page_size_reads_nothing:
  "page_from_stream max_int64 u st ct body 0 = Inr (make_result u st ct 0 [] False 0)"
  by (simp add: page_from_stream_def read_chunk_def read_all_limit_def wrap64_def max_int64_def)

text \<open>What bodyEnded answers: the stream has ended cleanly and at most one byte is left. With one
  byte left it answers true as well, and the probe has consumed that byte.\<close>

lemma body_ended_tolerates_one_byte:
  "body_ended r \<longleftrightarrow> ending r = IoEOF \<and> (pending r = [] \<or> (\<exists>b. pending r = [b]))"
  by (cases "pending r"; cases "tl (pending r)") (auto simp: body_ended_iff)

end
