(* ===== verification/Cache.thy ===== *)
theory Cache
  imports Prelude
begin

section \<open>The byte-budgeted LRU cache (internal/cache/cache.go)\<close>

text \<open>
  The interface \<open>Cache[V]\<close> as two locales: \<open>cache_reader\<close> is what every implementation promises
  about Get, \<open>byte_cache\<close> extends it by Put and the byte budget, with the client lemmas proved
  from the laws alone. Then \<open>memoryCache\<close>, field by
  field and operation by operation, with its invariant (the byte count is the sum of the
  entry sizes and stays within the budget), its refinement of a recency-ordered list
  (\<open>lru_get\<close>, \<open>lru_put\<close>), and the interpretation of the interface.

  The mutex serialises the operations, so each is one function of the cache state. The
  pointer \<open>elem\<close> into the recency list is the position of the key in \<open>order\<close>, which holds
  every key once. The clock reading of each operation is an argument.
\<close>

subsection \<open>The interface and what its clients get from it\<close>

datatype 'v cache_op =
  OpGet time string
| OpPut time string 'v int

definition all_stored :: "('c \<Rightarrow> string \<Rightarrow> ('v \<times> 't) option) \<Rightarrow> (string \<Rightarrow> 'v \<Rightarrow> bool) \<Rightarrow> 'c \<Rightarrow> bool" where
  "all_stored stored P c \<longleftrightarrow> (\<forall>k v t. stored c k = Some (v, t) \<longrightarrow> P k v)"

fun run_ops :: "(time \<Rightarrow> string \<Rightarrow> 'c \<Rightarrow> 'v option \<times> 'c) \<Rightarrow> (time \<Rightarrow> string \<Rightarrow> 'v \<Rightarrow> int \<Rightarrow> 'c \<Rightarrow> 'c)
    \<Rightarrow> 'v cache_op list \<Rightarrow> 'c \<Rightarrow> 'c" where
  "run_ops g p [] c = c"
| "run_ops g p (OpGet now k # os) c = run_ops g p os (snd (g now k c))"
| "run_ops g p (OpPut now k v n # os) c = run_ops g p os (p now k v n c)"

text \<open>What both implementations promise about Get: a hit was stored under that key and is still
  live, and reading stores nothing. \<open>'n\<close> is what Get reads of the clock, \<open>'t\<close> what an entry
  keeps of it.\<close>

locale cache_reader =
  fixes get :: "'n \<Rightarrow> string \<Rightarrow> 'c \<Rightarrow> 'v option \<times> 'c"
    and stored :: "'c \<Rightarrow> string \<Rightarrow> ('v \<times> 't) option"
    and live :: "'c \<Rightarrow> 'n \<Rightarrow> 't \<Rightarrow> bool"
    and invar :: "'c \<Rightarrow> bool"
  assumes invar_get: "invar c \<Longrightarrow> invar (snd (get now k c))"
    and get_hit: "invar c \<Longrightarrow> fst (get now k c) = Some v
      \<Longrightarrow> \<exists>t. stored c k = Some (v, t) \<and> live c now t"
    and get_keeps: "invar c \<Longrightarrow> stored (snd (get now k c)) k' = Some x \<Longrightarrow> stored c k' = Some x"
begin

lemma hit_satisfies:
  "invar c \<Longrightarrow> all_stored stored P c \<Longrightarrow> fst (get now k c) = Some v \<Longrightarrow> P k v"
  using get_hit by (fastforce simp: all_stored_def)

lemma get_all_stored:
  "invar c \<Longrightarrow> all_stored stored P c \<Longrightarrow> all_stored stored P (snd (get now k c))"
  using get_keeps by (fastforce simp: all_stored_def)

end

locale byte_cache = cache_reader get stored live invar
  for get :: "time \<Rightarrow> string \<Rightarrow> 'c \<Rightarrow> 'v option \<times> 'c"
    and stored :: "'c \<Rightarrow> string \<Rightarrow> ('v \<times> time) option"
    and live :: "'c \<Rightarrow> time \<Rightarrow> time \<Rightarrow> bool"
    and invar :: "'c \<Rightarrow> bool" +
  fixes put :: "time \<Rightarrow> string \<Rightarrow> 'v \<Rightarrow> int \<Rightarrow> 'c \<Rightarrow> 'c"
    and used :: "'c \<Rightarrow> int"
    and budget :: "'c \<Rightarrow> int"
  assumes invar_put: "invar c \<Longrightarrow> 0 \<le> n \<Longrightarrow> budget c + n \<le> max_int64 \<Longrightarrow> invar (put now k v n c)"
    and used_bounds: "invar c \<Longrightarrow> 0 \<le> used c \<and> used c \<le> budget c"
    and budget_get: "budget (snd (get now k c)) = budget c"
    and budget_put: "budget (put now k v n c) = budget c"
    and live_get: "live (snd (get now k c)) = live c"
    and live_put: "live (put now k v n c) = live c"
    and get_live: "invar c \<Longrightarrow> stored c k = Some (v, t) \<Longrightarrow> live c now t
      \<Longrightarrow> fst (get now k c) = Some v"
    and put_keeps: "invar c \<Longrightarrow> 0 \<le> n \<Longrightarrow> budget c + n \<le> max_int64
      \<Longrightarrow> stored (put now k v n c) k' = Some x
      \<Longrightarrow> (if k' = k then x = (v, now) else stored c k' = Some x)"
    and put_stores: "invar c \<Longrightarrow> 0 \<le> n \<Longrightarrow> budget c + n \<le> max_int64 \<Longrightarrow> n \<le> budget c
      \<Longrightarrow> stored (put now k v n c) k = Some (v, now)"
begin

lemma put_all_stored:
  assumes "invar c" "all_stored stored P c" "P k v" "0 \<le> n" "budget c + n \<le> max_int64"
  shows "all_stored stored P (put now k v n c)"
  unfolding all_stored_def
proof (intro allI impI)
  fix k' v' t' assume "stored (put now k v n c) k' = Some (v', t')"
  from put_keeps [OF assms(1,4,5) this] assms(2,3) show "P k' v'"
    by (auto simp: all_stored_def split: if_splits)
qed

lemma put_then_get:
  assumes "invar c" "0 \<le> n" "n \<le> budget c" "budget c + n \<le> max_int64" "live c now' now"
  shows "fst (get now' k (put now k v n c)) = Some v"
  using assms by (intro get_live [where t = now]) (auto simp: invar_put put_stores live_put)

text \<open>Any sequence of operations keeps the invariant and never exceeds the budget.\<close>

lemma run_invar:
  "invar c \<Longrightarrow> \<forall>now k v n. OpPut now k v n \<in> set os \<longrightarrow> 0 \<le> n \<and> budget c + n \<le> max_int64
   \<Longrightarrow> invar (run_ops get put os c) \<and> budget (run_ops get put os c) = budget c"
proof (induction os arbitrary: c)
  case (Cons op os)
  show ?case
  proof (cases op)
    case (OpGet now k)
    with Cons.IH [of "snd (get now k c)"] Cons.prems show ?thesis
      by (simp add: invar_get budget_get)
  next
    case (OpPut now k v n)
    with Cons.prems have n: "0 \<le> n \<and> budget c + n \<le> max_int64"
      by simp
    with OpPut Cons.IH [of "put now k v n c"] Cons.prems show ?thesis
      by (simp add: invar_put budget_put)
  qed
qed simp

lemma run_within_budget:
  "invar c \<Longrightarrow> \<forall>now k v n. OpPut now k v n \<in> set os \<longrightarrow> 0 \<le> n \<and> budget c + n \<le> max_int64
   \<Longrightarrow> 0 \<le> used (run_ops get put os c) \<and> used (run_ops get put os c) \<le> budget c"
  using run_invar [of c os] used_bounds [of "run_ops get put os c"] by auto

end

subsection \<open>The in-memory cache\<close>

record 'v entry =
  entry_value :: 'v
  entry_size :: int
  stored_at :: time

record 'v memory_cache =
  max_bytes :: int
  ttl :: duration
  used :: int
  order :: "string list"                     \<comment> \<open>keys, front = most recently used\<close>
  items :: "(string \<times> 'v entry) list"

definition default_ttl :: duration where
  "default_ttl = 5 * minute"

definition new_cache :: "int \<Rightarrow> duration \<Rightarrow> 'v memory_cache" where
  "new_cache n d = \<lparr>max_bytes = n, ttl = d, used = 0, order = [], items = []\<rparr>"

definition delete_locked :: "string \<Rightarrow> 'v memory_cache \<Rightarrow> 'v memory_cache" where
  "delete_locked key c =
     (case map_of (items c) key of
        None \<Rightarrow> c
      | Some e \<Rightarrow>
          c\<lparr>items := AList.delete key (items c),
            order := remove1 key (order c),
            used := wrap64 (used c - entry_size e)\<rparr>)"

definition expired :: "'v memory_cache \<Rightarrow> time \<Rightarrow> time \<Rightarrow> bool" where
  "expired c now t \<longleftrightarrow> 0 < ttl c \<and> ttl c < time_sub now t"

definition cache_get :: "time \<Rightarrow> string \<Rightarrow> 'v memory_cache \<Rightarrow> 'v option \<times> 'v memory_cache" where
  "cache_get now key c =
     (case map_of (items c) key of
        None \<Rightarrow> (None, c)
      | Some e \<Rightarrow>
          if expired c now (stored_at e) then (None, delete_locked key c)
          else (Some (entry_value e), c\<lparr>order := key # remove1 key (order c)\<rparr>))"

text \<open>
  The eviction loop of Put. Every round but the last removes the back of \<open>order\<close>, so the
  number of rounds is at most the number of keys; the fuel is one more than that, and
  \<open>evict_refines\<close> shows that it never runs out.
\<close>

fun evict_loop :: "nat \<Rightarrow> string \<Rightarrow> 'v memory_cache \<Rightarrow> 'v memory_cache" where
  "evict_loop 0 key c = c"
| "evict_loop (Suc fuel) key c =
     (if max_bytes c < used c then
        if order c = [] then c
        else let k = last (order c)
             in if k = key then delete_locked key c
                else evict_loop fuel key (delete_locked k c)
      else c)"

definition cache_put :: "time \<Rightarrow> string \<Rightarrow> 'v \<Rightarrow> int \<Rightarrow> 'v memory_cache \<Rightarrow> 'v memory_cache" where
  "cache_put now key v n c =
     (let c1 = (if map_of (items c) key \<noteq> None then delete_locked key c else c);
          e = \<lparr>entry_value = v, entry_size = n, stored_at = now\<rparr>;
          c2 = c1\<lparr>order := key # order c1,
                  items := AList.update key e (items c1),
                  used := wrap64 (used c1 + n)\<rparr>
      in evict_loop (Suc (length (order c2))) key c2)"

definition cache_used :: "'v memory_cache \<Rightarrow> int" where
  "cache_used c = used c"

definition cache_len :: "'v memory_cache \<Rightarrow> int" where
  "cache_len c = blen (items c)"

definition cache_max_bytes :: "'v memory_cache \<Rightarrow> int" where
  "cache_max_bytes c = max_bytes c"

definition expire_all :: "time \<Rightarrow> 'v memory_cache \<Rightarrow> 'v memory_cache" where
  "expire_all now c =
     c\<lparr>items := map (\<lambda>(k, e). (k, e\<lparr>stored_at := now + wrap64 (wrap64 (- ttl c) - second)\<rparr>)) (items c)\<rparr>"

subsection \<open>The abstract cache: entries in order of recency\<close>

type_synonym 'v lru = "(string \<times> 'v entry) list"

definition total :: "'v lru \<Rightarrow> int" where
  "total xs = sum_list (map (entry_size \<circ> snd) xs)"

definition without :: "string \<Rightarrow> 'v lru \<Rightarrow> 'v lru" where
  "without k xs = filter (\<lambda>x. fst x \<noteq> k) xs"

text \<open>Eviction keeps the longest prefix, most recent first, that fits the budget.\<close>

fun fit :: "int \<Rightarrow> 'v lru \<Rightarrow> 'v lru" where
  "fit b xs = (if xs = [] \<or> total xs \<le> b then xs else fit b (butlast xs))"

declare fit.simps [simp del]

definition lru_put :: "int \<Rightarrow> time \<Rightarrow> string \<Rightarrow> 'v \<Rightarrow> int \<Rightarrow> 'v lru \<Rightarrow> 'v lru" where
  "lru_put b now k v n xs =
     fit b ((k, \<lparr>entry_value = v, entry_size = n, stored_at = now\<rparr>) # without k xs)"

definition lru_get :: "(time \<Rightarrow> bool) \<Rightarrow> string \<Rightarrow> 'v lru \<Rightarrow> 'v option \<times> 'v lru" where
  "lru_get dead k xs =
     (case map_of xs k of
        None \<Rightarrow> (None, xs)
      | Some e \<Rightarrow> if dead (stored_at e) then (None, without k xs)
                  else (Some (entry_value e), (k, e) # without k xs))"

definition recency :: "'v memory_cache \<Rightarrow> 'v lru" where
  "recency c = map (\<lambda>k. (k, the (map_of (items c) k))) (order c)"

lemma total_Nil [simp]: "total [] = 0"
  by (simp add: total_def)

lemma total_Cons [simp]: "total (x # xs) = entry_size (snd x) + total xs"
  by (simp add: total_def)

lemma total_append [simp]: "total (xs @ ys) = total xs + total ys"
  by (simp add: total_def)

definition sizes_ok :: "'v lru \<Rightarrow> bool" where
  "sizes_ok xs \<longleftrightarrow> (\<forall>x \<in> set xs. 0 \<le> entry_size (snd x))"

lemma sizes_ok_simps [simp]:
  "sizes_ok []"
  "sizes_ok (x # xs) \<longleftrightarrow> 0 \<le> entry_size (snd x) \<and> sizes_ok xs"
  "sizes_ok (xs @ ys) \<longleftrightarrow> sizes_ok xs \<and> sizes_ok ys"
  by (auto simp: sizes_ok_def)

lemma total_nonneg: "sizes_ok xs \<Longrightarrow> 0 \<le> total xs"
  by (induction xs) auto

lemma without_simps [simp]:
  "without k [] = []"
  "without k (x # xs) = (if fst x = k then without k xs else x # without k xs)"
  by (auto simp: without_def)

lemma sizes_ok_without: "sizes_ok xs \<Longrightarrow> sizes_ok (without k xs)"
  by (auto simp: sizes_ok_def without_def)

lemma total_without_le: "sizes_ok xs \<Longrightarrow> total (without k xs) \<le> total xs"
  by (induction xs) auto

lemma without_absent: "k \<notin> fst ` set xs \<Longrightarrow> without k xs = xs"
  by (induction xs) auto

lemma set_without: "set (without k xs) = {x \<in> set xs. fst x \<noteq> k}"
  by (simp add: without_def)

lemma distinct_without: "distinct (map fst xs) \<Longrightarrow> distinct (map fst (without k xs))"
  by (induction xs) (auto simp: without_def)

lemma map_of_without: "map_of (without k xs) k' = (if k' = k then None else map_of xs k')"
  by (induction xs) auto

lemma fit_take: "\<exists>m \<le> length xs. fit b xs = take m xs"
proof (induction b xs rule: fit.induct)
  case (1 b xs)
  show ?case
  proof (cases "xs = [] \<or> total xs \<le> b")
    case True
    then show ?thesis by (intro exI [of _ "length xs"]) (simp add: fit.simps)
  next
    case False
    with 1 obtain m where "m \<le> length (butlast xs)" "fit b (butlast xs) = take m (butlast xs)"
      by blast
    moreover from False this(1) have "m < length xs" by (cases xs rule: rev_cases) auto
    ultimately show ?thesis
      using False by (intro exI [of _ m]) (auto simp: fit.simps [of b xs] take_butlast)
  qed
qed

lemma fit_within: "0 \<le> b \<Longrightarrow> total (fit b xs) \<le> b"
  by (induction b xs rule: fit.induct) (subst fit.simps, auto)

lemma fit_longest:
  assumes "sizes_ok xs" "m \<le> length xs" "total (take m xs) \<le> b"
  shows "m \<le> length (fit b xs)"
  using assms
proof (induction b xs rule: fit.induct)
  case (1 b xs)
  show ?case
  proof (cases "xs = [] \<or> total xs \<le> b")
    case False
    with 1 have "m < length xs"
      by (cases "m = length xs") auto
    moreover have "sizes_ok (butlast xs)"
      using 1(2) by (auto simp: sizes_ok_def dest: in_set_butlastD)
    ultimately show ?thesis
      using False 1 by (simp add: fit.simps [of b xs] take_butlast)
  qed (use 1 in \<open>simp add: fit.simps\<close>)
qed

lemma total_without:
  "distinct (map fst xs) \<Longrightarrow> map_of xs k = Some e \<Longrightarrow> total (without k xs) = total xs - entry_size e"
proof (induction xs)
  case (Cons x xs)
  show ?case
  proof (cases "fst x = k")
    case True
    with Cons.prems have "without k xs = xs" by (intro without_absent) auto
    with True Cons.prems show ?thesis by (cases x) auto
  next
    case False
    with Cons show ?thesis by (cases x) auto
  qed
qed simp

lemma without_last:
  assumes "distinct (map fst xs)" "xs \<noteq> []"
  shows "without (fst (last xs)) xs = butlast xs"
proof (cases xs rule: rev_cases)
  case (snoc ys y)
  have "without (fst y) (ys @ [y]) = without (fst y) ys"
    by (simp add: without_def)
  with snoc assms show ?thesis
    by (auto intro!: without_absent)
qed (use assms in simp)

lemma fit_sizes_ok: "sizes_ok xs \<Longrightarrow> sizes_ok (fit b xs)"
  using fit_take [of xs b] by (metis sizes_ok_simps(3) append_take_drop_id)

lemma fit_set: "set (fit b xs) \<subseteq> set xs"
  using fit_take [of xs b] by (auto dest: in_set_takeD)

lemma fit_distinct: "distinct (map fst xs) \<Longrightarrow> distinct (map fst (fit b xs))"
  using fit_take [of xs b] by (metis distinct_take take_map)

lemma fit_head:
  "entry_size (snd x) \<le> b \<Longrightarrow> sizes_ok (x # xs) \<Longrightarrow> \<exists>ys. fit b (x # xs) = x # ys"
proof -
  assume "entry_size (snd x) \<le> b" "sizes_ok (x # xs)"
  then have "1 \<le> length (fit b (x # xs))" by (intro fit_longest) auto
  moreover obtain m where "m \<le> length (x # xs)" "fit b (x # xs) = take m (x # xs)"
    using fit_take by blast
  ultimately show ?thesis by (cases m) auto
qed

subsection \<open>Invariant and refinement\<close>

definition wf_cache :: "'v memory_cache \<Rightarrow> bool" where
  "wf_cache c \<longleftrightarrow> distinct (order c) \<and> distinct (map fst (items c))
     \<and> set (order c) = fst ` set (items c)"

text \<open>What holds inside Put, while the budget may be exceeded.\<close>

definition loose_inv :: "'v memory_cache \<Rightarrow> bool" where
  "loose_inv c \<longleftrightarrow> wf_cache c \<and> sizes_ok (recency c) \<and> used c = total (recency c)
     \<and> used c \<le> max_int64"

definition cache_inv :: "'v memory_cache \<Rightarrow> bool" where
  "cache_inv c \<longleftrightarrow> loose_inv c \<and> 0 \<le> max_bytes c \<and> used c \<le> max_bytes c"

lemma recency_keys [simp]: "map fst (recency c) = order c"
  by (simp add: recency_def comp_def)

lemma recency_Nil [simp]: "recency c = [] \<longleftrightarrow> order c = []"
  by (simp add: recency_def)

lemma map_of_recency: "wf_cache c \<Longrightarrow> map_of (recency c) k = map_of (items c) k"
proof -
  assume wf: "wf_cache c"
  have "map_of (recency c) k = (if k \<in> set (order c) then Some (the (map_of (items c) k)) else None)"
    by (simp add: recency_def map_of_map_restrict restrict_map_def)
  moreover have "k \<in> set (order c) \<longleftrightarrow> map_of (items c) k \<noteq> None"
    using wf by (simp add: wf_cache_def map_of_eq_None_iff)
  ultimately show ?thesis by (cases "map_of (items c) k") auto
qed

lemma order_iff_stored: "wf_cache c \<Longrightarrow> k \<in> set (order c) \<longleftrightarrow> map_of (items c) k \<noteq> None"
  by (simp add: wf_cache_def map_of_eq_None_iff)

lemma recency_distinct: "wf_cache c \<Longrightarrow> distinct (map fst (recency c))"
  by (simp add: wf_cache_def)

lemma recency_cong:
  "(\<And>k. k \<in> set (order c) \<Longrightarrow> map_of (items c') k = map_of (items c) k)
   \<Longrightarrow> order c' = order c \<Longrightarrow> recency c' = recency c"
  by (simp add: recency_def)

lemma delete_locked_config [simp]:
  "max_bytes (delete_locked k c) = max_bytes c" "ttl (delete_locked k c) = ttl c"
  by (simp_all add: delete_locked_def split: option.splits)

lemma delete_locked_refines:
  assumes "loose_inv c" "map_of (items c) k = Some e"
  shows "loose_inv (delete_locked k c)"
    and "recency (delete_locked k c) = without k (recency c)"
    and "order (delete_locked k c) = remove1 k (order c)"
proof -
  let ?c = "delete_locked k c"
  have wf: "wf_cache c" using assms by (simp add: loose_inv_def)
  have ord: "order ?c = remove1 k (order c)"
    and itm: "items ?c = AList.delete k (items c)"
    and usd: "used ?c = wrap64 (used c - entry_size e)"
    using assms by (simp_all add: delete_locked_def)
  have ord': "order ?c = filter (\<lambda>j. j \<noteq> k) (order c)"
    using wf ord by (simp add: wf_cache_def distinct_remove1_removeAll removeAll_filter_not_eq
        eq_commute)
  have rec: "recency ?c = without k (recency c)"
    by (simp add: recency_def ord' itm without_def filter_map comp_def map_of_delete_ne)
  have "wf_cache ?c"
    using wf by (auto simp: wf_cache_def ord' itm delete_keys distinct_removeAll simp flip: set_map)
  moreover have "total (recency ?c) = used c - entry_size e"
    using assms recency_distinct [OF wf] map_of_recency [OF wf, of k]
    by (simp add: rec total_without loose_inv_def)
  moreover have "sizes_ok (recency ?c)"
    using assms by (simp add: rec sizes_ok_without loose_inv_def)
  moreover have "total (recency ?c) \<le> used c"
    using assms by (simp add: rec total_without_le loose_inv_def)
  ultimately show "loose_inv ?c"
    using assms total_nonneg [of "recency ?c"] usd by (simp add: loose_inv_def go_int)
  show "recency ?c = without k (recency c)" by (rule rec)
  show "order ?c = remove1 k (order c)" by (rule ord)
qed

lemma evict_refines:
  assumes "loose_inv c" "order c = [] \<or> hd (order c) = key" "length (order c) < fuel"
  shows "loose_inv (evict_loop fuel key c)
    \<and> recency (evict_loop fuel key c) = fit (max_bytes c) (recency c)
    \<and> max_bytes (evict_loop fuel key c) = max_bytes c \<and> ttl (evict_loop fuel key c) = ttl c"
  using assms
proof (induction fuel key c rule: evict_loop.induct)
  case (2 fuel key c)
  have wf: "wf_cache c" and used: "used c = total (recency c)"
    using "2.prems" by (simp_all add: loose_inv_def)
  show ?case
  proof (cases "max_bytes c < used c \<and> order c \<noteq> []")
    case False
    then show ?thesis using "2.prems" used by (auto simp: fit.simps [of _ "recency c"])
  next
    case True
    define k where "k = last (order c)"
    have "k = last (map fst (recency c))"
      by (simp add: k_def)
    then have last: "k = fst (last (recency c))"
      using True by (simp add: last_map del: recency_keys)
    have "k \<in> set (order c)" using True by (simp add: k_def)
    with order_iff_stored [OF wf] obtain e where e: "map_of (items c) k = Some e" by auto
    note del = delete_locked_refines [OF "2.prems"(1) e]
    have but: "recency (delete_locked k c) = butlast (recency c)"
      using del(2) True recency_distinct [OF wf] by (simp add: last without_last)
    have fit: "fit (max_bytes c) (recency c) = fit (max_bytes c) (butlast (recency c))"
      using True used by (subst fit.simps) simp
    show ?thesis
    proof (cases "k = key")
      case True': True
      then have "order c = [key]"
        using True "2.prems"(2) wf k_def
        by (cases "order c") (auto simp: wf_cache_def split: if_splits)
      then have "butlast (recency c) = []" by (simp add: recency_def)
      with True True' del(1) but fit show ?thesis
        by (simp add: Let_def k_def [symmetric] fit.simps [of _ "[]"])
    next
      case False
      have ord: "order (delete_locked k c) = butlast (order c)"
        using del(3) True wf remove1_last by (auto simp: k_def wf_cache_def)
      have "hd (butlast (order c)) = key" if "butlast (order c) \<noteq> []"
        using that True "2.prems"(2) by (cases "order c") auto
      then have "order (delete_locked k c) = [] \<or> hd (order (delete_locked k c)) = key"
        using ord by auto
      moreover have "length (order (delete_locked k c)) < fuel"
        using ord True "2.prems"(3) by (cases "order c") auto
      ultimately show ?thesis
        using "2.IH" [OF _ _ k_def False] True del(1) but fit False
        by (simp add: Let_def k_def [symmetric])
    qed
  qed
qed simp

text \<open>The state Put hands to the eviction loop.\<close>

lemma insert_refines:
  fixes c :: "'v memory_cache" and key :: string and v :: 'v and n :: int and now :: time
  assumes "cache_inv c" "0 \<le> n" "max_bytes c + n \<le> max_int64"
  defines "c1 \<equiv> (if map_of (items c) key \<noteq> None then delete_locked key c else c)"
    and "e \<equiv> \<lparr>entry_value = v, entry_size = n, stored_at = now\<rparr>"
  defines "c2 \<equiv> c1\<lparr>order := key # order c1, items := AList.update key e (items c1),
                    used := wrap64 (used c1 + n)\<rparr>"
  shows "loose_inv c2 \<and> recency c2 = (key, e) # without key (recency c) \<and> hd (order c2) = key
    \<and> max_bytes c2 = max_bytes c \<and> ttl c2 = ttl c"
proof -
  have inv: "loose_inv c" and wf: "wf_cache c" using assms(1) by (simp_all add: cache_inv_def loose_inv_def)
  have c1: "loose_inv c1 \<and> recency c1 = without key (recency c) \<and> map_of (items c1) key = None"
  proof (cases "map_of (items c) key")
    case None
    then have "key \<notin> fst ` set (recency c)"
      using order_iff_stored [OF wf, of key] by (simp flip: set_map)
    with None inv show ?thesis by (simp add: c1_def without_absent)
  next
    case (Some e')
    note del = delete_locked_refines [OF inv Some]
    moreover have "map_of (items (delete_locked key c)) key = None"
      using Some by (simp add: delete_locked_def)
    ultimately show ?thesis using Some by (simp add: c1_def)
  qed
  have cfg: "max_bytes c1 = max_bytes c \<and> ttl c1 = ttl c" by (simp add: c1_def)
  have wf1: "wf_cache c1" using c1 by (simp add: loose_inv_def)
  have fresh: "key \<notin> set (order c1)" using order_iff_stored [OF wf1] c1 by simp
  have rec: "recency c2 = (key, e) # recency c1"
  proof -
    have "map_of (items c2) j = map_of (items c1) j" if "j \<in> set (order c1)" for j
      using that fresh by (auto simp: c2_def update_conv)
    then show ?thesis by (simp add: recency_def c2_def update_conv)
  qed
  have "0 \<le> used c1 \<and> used c1 \<le> max_bytes c"
    using c1 total_nonneg [of "recency c1"] total_without_le [of "recency c" key] assms(1) inv
    by (simp add: loose_inv_def cache_inv_def sizes_ok_without)
  then have "used c2 = used c1 + n" "used c1 + n \<le> max_int64"
    using assms(2,3) by (simp_all add: c2_def go_int)
  moreover have "wf_cache c2"
    using wf1 fresh by (auto simp: wf_cache_def c2_def distinct_update update_keys simp flip: set_map)
  moreover have "sizes_ok (recency c2)"
    using c1 assms(2) inv by (simp add: rec e_def loose_inv_def sizes_ok_without)
  ultimately have "loose_inv c2"
    using c1 by (simp add: loose_inv_def rec e_def)
  moreover have "hd (order c2) = key" "max_bytes c2 = max_bytes c" "ttl c2 = ttl c"
    using cfg by (simp_all add: c2_def)
  ultimately show ?thesis using rec c1 by simp
qed

lemma put_refines:
  assumes "cache_inv c" "0 \<le> n" "max_bytes c + n \<le> max_int64"
  shows "cache_inv (cache_put now key v n c)"
    and "recency (cache_put now key v n c) = lru_put (max_bytes c) now key v n (recency c)"
    and "max_bytes (cache_put now key v n c) = max_bytes c"
    and "ttl (cache_put now key v n c) = ttl c"
proof -
  define c2 where "c2 = (let c1 = (if map_of (items c) key \<noteq> None then delete_locked key c else c)
    in c1\<lparr>order := key # order c1,
          items := AList.update key \<lparr>entry_value = v, entry_size = n, stored_at = now\<rparr> (items c1),
          used := wrap64 (used c1 + n)\<rparr>)"
  have put: "cache_put now key v n c = evict_loop (Suc (length (order c2))) key c2"
    by (simp only: cache_put_def c2_def Let_def)
  have c2: "loose_inv c2" "hd (order c2) = key" "max_bytes c2 = max_bytes c" "ttl c2 = ttl c"
    "recency c2 = (key, \<lparr>entry_value = v, entry_size = n, stored_at = now\<rparr>) # without key (recency c)"
    using insert_refines [OF assms, of key v now] by (simp_all add: c2_def Let_def)
  note ev = evict_refines [OF c2(1), of key "Suc (length (order c2))"]
  show rec: "recency (cache_put now key v n c) = lru_put (max_bytes c) now key v n (recency c)"
    and cfg: "max_bytes (cache_put now key v n c) = max_bytes c"
      "ttl (cache_put now key v n c) = ttl c"
    using ev c2 by (simp_all add: put lru_put_def)
  have "loose_inv (cache_put now key v n c)"
    using ev c2 by (simp add: put)
  with rec cfg assms(1) show "cache_inv (cache_put now key v n c)"
    by (simp add: cache_inv_def loose_inv_def lru_put_def fit_within)
qed

lemma cache_get_config [simp]:
  "max_bytes (snd (cache_get now k c)) = max_bytes c" "ttl (snd (cache_get now k c)) = ttl c"
  by (simp_all add: cache_get_def split: option.splits)

lemma evict_loop_config [simp]:
  "max_bytes (evict_loop fuel key c) = max_bytes c" "ttl (evict_loop fuel key c) = ttl c"
  by (induction fuel key c rule: evict_loop.induct) (simp_all add: Let_def)

lemma cache_put_config [simp]:
  "max_bytes (cache_put now k v n c) = max_bytes c" "ttl (cache_put now k v n c) = ttl c"
  by (simp_all add: cache_put_def Let_def)

lemma get_refines:
  assumes "cache_inv c"
  shows "cache_inv (snd (cache_get now key c))"
    and "fst (cache_get now key c) = fst (lru_get (expired c now) key (recency c))"
    and "recency (snd (cache_get now key c)) = snd (lru_get (expired c now) key (recency c))"
proof -
  have inv: "loose_inv c" and wf: "wf_cache c"
    using assms by (simp_all add: cache_inv_def loose_inv_def)
  have "cache_inv (snd (cache_get now key c))
    \<and> fst (cache_get now key c) = fst (lru_get (expired c now) key (recency c))
    \<and> recency (snd (cache_get now key c)) = snd (lru_get (expired c now) key (recency c))"
  proof (cases "map_of (items c) key")
    case None
    with assms show ?thesis
      by (simp add: cache_get_def lru_get_def map_of_recency [OF wf])
  next
    case (Some e)
    note del = delete_locked_refines [OF inv Some]
    show ?thesis
    proof (cases "expired c now (stored_at e)")
      case True
      have "used (delete_locked key c) \<le> used c"
        using del inv total_without_le [of "recency c" key] by (simp add: loose_inv_def)
      with True Some del assms show ?thesis
        by (simp add: cache_get_def lru_get_def map_of_recency [OF wf] cache_inv_def)
    next
      case False
      define c' where "c' = c\<lparr>order := key # remove1 key (order c)\<rparr>"
      have "key \<in> set (order c)" using Some order_iff_stored [OF wf] by simp
      then have "wf_cache c'"
        using wf by (auto simp: wf_cache_def c'_def)
      have "remove1 key (order c) = filter (\<lambda>j. j \<noteq> key) (order c)"
        using wf by (simp add: wf_cache_def distinct_remove1_removeAll removeAll_filter_not_eq
            eq_commute)
      then have rec: "recency c' = (key, e) # without key (recency c)"
        using Some by (simp add: recency_def c'_def without_def filter_map comp_def)
      have "total (recency c') = total (recency c)"
        using recency_distinct [OF wf] Some map_of_recency [OF wf, of key]
        by (simp add: rec total_without)
      moreover have "sizes_ok (recency c')"
      proof -
        have "(key, e) \<in> set (recency c)"
          using Some map_of_recency [OF wf, of key] by (metis map_of_SomeD)
        then show ?thesis
          using inv by (auto simp: rec loose_inv_def sizes_ok_without sizes_ok_def [of "recency c"])
      qed
      ultimately have "cache_inv c'"
        using assms \<open>wf_cache c'\<close> by (simp add: cache_inv_def loose_inv_def) (simp add: c'_def)
      then show ?thesis
        using Some False rec
        by (simp add: cache_get_def lru_get_def map_of_recency [OF wf] c'_def)
    qed
  qed
  then show "cache_inv (snd (cache_get now key c))"
    "fst (cache_get now key c) = fst (lru_get (expired c now) key (recency c))"
    "recency (snd (cache_get now key c)) = snd (lru_get (expired c now) key (recency c))"
    by simp_all
qed

lemma new_cache_inv: "0 \<le> b \<Longrightarrow> b \<le> max_int64 \<Longrightarrow> cache_inv (new_cache b d)"
  by (simp add: new_cache_def cache_inv_def loose_inv_def wf_cache_def recency_def max_int64_def)

lemma new_cache_config [simp]: "max_bytes (new_cache b d) = b" "ttl (new_cache b d) = d"
  by (simp_all add: new_cache_def)

subsection \<open>The interface holds of the in-memory cache\<close>

definition cache_stored :: "'v memory_cache \<Rightarrow> string \<Rightarrow> ('v \<times> time) option" where
  "cache_stored c k = map_option (\<lambda>e. (entry_value e, stored_at e)) (map_of (items c) k)"

definition cache_live :: "'v memory_cache \<Rightarrow> time \<Rightarrow> time \<Rightarrow> bool" where
  "cache_live c now t \<longleftrightarrow> \<not> expired c now t"

lemma cache_stored_recency:
  "cache_inv c \<Longrightarrow> cache_stored c k = map_option (\<lambda>e. (entry_value e, stored_at e)) (map_of (recency c) k)"
  by (simp add: cache_stored_def map_of_recency cache_inv_def loose_inv_def)

lemma map_of_fit: "distinct (map fst xs) \<Longrightarrow> map_of (fit b xs) k = Some e \<Longrightarrow> map_of xs k = Some e"
  using fit_set [of b xs] by (auto dest!: map_of_SomeD)

interpretation mem: byte_cache cache_get cache_stored cache_live cache_inv cache_put cache_used cache_max_bytes
proof unfold_locales
  fix c :: "'v memory_cache" and now n :: int and k k' :: string and v :: 'v and t x
  show "cache_max_bytes (snd (cache_get now k c)) = cache_max_bytes c"
    and "cache_max_bytes (cache_put now k v n c) = cache_max_bytes c"
    and "cache_live (snd (cache_get now k c)) = cache_live c"
    and "cache_live (cache_put now k v n c) = cache_live c"
    by (simp_all add: cache_max_bytes_def cache_live_def expired_def fun_eq_iff)
  assume inv: "cache_inv c"
  then have wf: "wf_cache c" by (simp add: cache_inv_def loose_inv_def)
  show "cache_inv (snd (cache_get now k c))"
    using inv by (rule get_refines)
  show "0 \<le> cache_used c \<and> cache_used c \<le> cache_max_bytes c"
    using inv total_nonneg [of "recency c"]
    by (simp add: cache_used_def cache_max_bytes_def cache_inv_def loose_inv_def)
  show "\<exists>t. cache_stored c k = Some (v, t) \<and> cache_live c now t" if "fst (cache_get now k c) = Some v"
    using that by (auto simp: cache_get_def cache_stored_def cache_live_def split: option.splits if_splits)
  show "fst (cache_get now k c) = Some v" if "cache_stored c k = Some (v, t)" "cache_live c now t"
    using that by (auto simp: cache_get_def cache_stored_def cache_live_def)
  show "cache_stored c k' = Some x" if "cache_stored (snd (cache_get now k c)) k' = Some x"
    using that by (auto simp: cache_get_def cache_stored_def delete_locked_def delete_conv
        split: option.splits if_splits)
  assume n: "0 \<le> n" "cache_max_bytes c + n \<le> max_int64"
  then have n': "max_bytes c + n \<le> max_int64" by (simp add: cache_max_bytes_def)
  note put = put_refines [OF inv n(1) n', of now k v]
  show "cache_inv (cache_put now k v n c)" by (rule put(1))
  let ?e = "\<lparr>entry_value = v, entry_size = n, stored_at = now\<rparr>"
  have dist: "distinct (map fst ((k, ?e) # without k (recency c)))"
    using recency_distinct [OF wf] distinct_without by (force simp: set_without)
  show "if k' = k then x = (v, now) else cache_stored c k' = Some x"
    if "cache_stored (cache_put now k v n c) k' = Some x"
  proof -
    from that obtain e where "map_of (recency (cache_put now k v n c)) k' = Some e"
      "x = (entry_value e, stored_at e)"
      by (auto simp: cache_stored_recency [OF put(1)])
    with put(2) map_of_fit [OF dist] show ?thesis
      by (force simp: lru_put_def map_of_without cache_stored_recency [OF inv] split: if_splits)
  qed
  assume "n \<le> cache_max_bytes c"
  then obtain ys where "recency (cache_put now k v n c) = (k, ?e) # ys"
    using fit_head [of "(k, ?e)" "max_bytes c" "without k (recency c)"] n inv put(2)
    by (auto simp: lru_put_def cache_max_bytes_def sizes_ok_without cache_inv_def loose_inv_def)
  then show "cache_stored (cache_put now k v n c) k = Some (v, now)"
    by (simp add: cache_stored_recency [OF put(1)])
qed

lemmas mem_cache_laws = mem.invar_get mem.invar_put mem.get_hit mem.get_live

subsection \<open>The sizes are those of the values\<close>

text \<open>What a cache really holds, by a size of its values, and the invariant of a cache whose clients
  give every value with its size.\<close>

definition stored_bytes :: "('v \<Rightarrow> int) \<Rightarrow> 'v memory_cache \<Rightarrow> int" where
  "stored_bytes size_of c = sum_list (map (\<lambda>x. size_of (entry_value (snd x))) (items c))"

definition sized :: "('v \<Rightarrow> int) \<Rightarrow> 'v memory_cache \<Rightarrow> bool" where
  "sized size_of c \<longleftrightarrow> (\<forall>x \<in> set (items c). entry_size (snd x) = size_of (entry_value (snd x)))"

lemma sized_new [simp]: "sized size_of (new_cache b d)"
  by (simp add: sized_def new_cache_def)

lemma sized_delete: "sized size_of c \<Longrightarrow> sized size_of (delete_locked k c)"
  by (auto simp: sized_def delete_locked_def AList.delete_eq split: option.splits)

lemma sized_evict: "sized size_of c \<Longrightarrow> sized size_of (evict_loop fuel k c)"
  by (induction fuel k c rule: evict_loop.induct) (simp_all add: Let_def sized_delete)

lemma sized_get: "sized size_of c \<Longrightarrow> sized size_of (snd (cache_get now k c))"
  using sized_delete [of size_of c k] by (auto simp: cache_get_def sized_def split: option.splits)

lemma sized_put:
  assumes "sized size_of c" shows "sized size_of (cache_put now k v (size_of v) c)"
proof -
  define c1 where "c1 = (if map_of (items c) k \<noteq> None then delete_locked k c else c)"
  let ?e = "\<lparr>entry_value = v, entry_size = size_of v, stored_at = now\<rparr>"
  have update: "set (AList.update k e xs) \<subseteq> insert (k, e) (set xs)" for e :: "'a entry" and xs
    by (induction xs) auto
  have "sized size_of c1" using assms by (simp add: c1_def sized_delete)
  then have "sized size_of (c1\<lparr>order := key, items := AList.update k ?e (items c1), used := n\<rparr>)" for key n
    using update [of ?e "items c1"] by (force simp: sized_def)
  then show ?thesis unfolding cache_put_def Let_def c1_def [symmetric] by (rule sized_evict)
qed

lemma stored_bytes_used:
  assumes "cache_inv c" "sized size_of c" shows "stored_bytes size_of c = used c"
proof -
  have wf: "wf_cache c" "used c = total (recency c)" using assms(1) by (simp_all add: cache_inv_def loose_inv_def)
  then have keys: "distinct (map fst (items c))" "distinct (map fst (recency c))" by (simp_all add: wf_cache_def)
  have "set (recency c) = set (items c)"
    using map_of_eq_Some_iff [OF keys(1)] map_of_eq_Some_iff [OF keys(2)] map_of_recency [OF wf(1)] by (auto simp flip: set_map)
  moreover have "distinct (recency c)" "distinct (items c)" using keys by (simp_all add: distinct_map del: recency_keys)
  ultimately have "total (recency c) = total (items c)"
    by (simp add: total_def sum_list_distinct_conv_sum_set)
  also have "\<dots> = stored_bytes size_of c"
    using assms(2) unfolding total_def stored_bytes_def sized_def by (intro arg_cong [of _ _ sum_list]) simp
  finally show ?thesis using wf(2) by simp
qed

subsection \<open>Properties\<close>

text \<open>C20: Put refines the recency list. It keeps exactly the longest most-recent-first prefix of
  the new entry followed by the other entries that fits the byte budget (so it evicts the
  least recently used entries, and no more of them than it must), and the byte count is
  the sum of the sizes it keeps.\<close>

theorem put_evicts_least_recent:
  assumes "cache_inv c" "0 \<le> n" "max_bytes c + n \<le> max_int64"
  shows "let full = (k, \<lparr>entry_value = v, entry_size = n, stored_at = now\<rparr>) # without k (recency c);
             kept = recency (cache_put now k v n c)
         in kept = take (length kept) full \<and> total kept \<le> max_bytes c
            \<and> used (cache_put now k v n c) = total kept
            \<and> (\<forall>m \<le> length full. total (take m full) \<le> max_bytes c \<longrightarrow> m \<le> length kept)"
proof -
  let ?full = "(k, \<lparr>entry_value = v, entry_size = n, stored_at = now\<rparr>) # without k (recency c)"
  note put = put_refines [OF assms, of now k v]
  have ok: "sizes_ok ?full"
    using assms by (simp add: sizes_ok_without cache_inv_def loose_inv_def)
  from fit_take [of ?full "max_bytes c"] put(2)
  have "recency (cache_put now k v n c) = take (length (recency (cache_put now k v n c))) ?full"
    by (auto simp: lru_put_def min_def)
  moreover have "used (cache_put now k v n c) = total (recency (cache_put now k v n c))"
    using put(1) by (simp add: cache_inv_def loose_inv_def)
  moreover have "total (recency (cache_put now k v n c)) \<le> max_bytes c"
    using put assms(1) by (simp add: lru_put_def fit_within cache_inv_def)
  ultimately show ?thesis
    using fit_longest [OF ok, of _ "max_bytes c"] put(2) by (simp add: Let_def lru_put_def)
qed

lemmas cache_eval = cache_put_def cache_get_def new_cache_def delete_locked_def recency_def
  expired_def Let_def wrap64_def time_sub_def max_int64_def min_int64_def

theorem put_evicts_least_recent_witness:
  "let c = cache_put 2 ''b'' 8 3 (cache_put 1 ''a'' (7 :: nat) 4 (new_cache 10 5))
   in map fst (recency c) = [''b'', ''a'']
      \<and> map fst (recency (cache_put 3 ''c'' 9 6 c)) = [''c'', ''b'']
      \<and> total (recency (cache_put 3 ''c'' 9 6 c)) \<le> 10"
proof -
  define c :: "nat memory_cache" where
    "c = cache_put 2 ''b'' 8 3 (cache_put 1 ''a'' 7 4 (new_cache 10 5))"
  have "cache_inv c" "max_bytes c = 10"
    by (simp_all add: c_def put_refines new_cache_inv max_int64_def)
  with put_evicts_least_recent [of c 6 "''c''" 9 3]
  have "total (recency (cache_put 3 ''c'' 9 6 c)) \<le> 10"
    by (simp add: max_int64_def Let_def)
  moreover have "map fst (recency c) = [''b'', ''a'']"
    "map fst (recency (cache_put 3 ''c'' 9 6 c)) = [''c'', ''b'']"
    by (simp_all add: c_def cache_eval)
  ultimately show ?thesis by (simp add: Let_def c_def)
qed

text \<open>C26: a new cache stays within its byte budget, and its bookkeeping stays consistent, over any
  sequence of Get and Put calls with any sizes and clock readings.\<close>

theorem cache_run_within_budget:
  fixes os :: "'v cache_op list"
  assumes "0 \<le> b" "b \<le> max_int64"
    "\<forall>now k v n. OpPut now k v n \<in> set os \<longrightarrow> 0 \<le> n \<and> b + n \<le> max_int64"
  shows "let c = run_ops cache_get cache_put os (new_cache b d)
         in cache_inv c \<and> 0 \<le> cache_used c \<and> cache_used c \<le> b"
proof -
  have "cache_inv (new_cache b d :: 'v memory_cache)"
    using assms(1,2) by (rule new_cache_inv)
  with mem.run_invar [of "new_cache b d" os] mem.run_within_budget [of "new_cache b d" os] assms(3)
  show ?thesis by (simp add: cache_max_bytes_def Let_def)
qed

theorem cache_run_within_budget_witness:
  "let os = [OpPut 1 ''a'' True 4, OpGet 2 ''a'', OpPut 3 ''b'' False 9, OpGet 9 ''a'']
   in cache_used (run_ops cache_get cache_put os (new_cache 10 5)) \<le> 10"
  using cache_run_within_budget
    [of 10 "[OpPut 1 ''a'' True 4, OpGet 2 ''a'', OpPut 3 ''b'' False 9, OpGet 9 ''a'']" 5]
  by (simp add: Let_def max_int64_def)

text \<open>What Put stores, Get returns: an entry no larger than the budget is found until its TTL
  has passed.\<close>

theorem cache_hit_within_ttl:
  assumes "cache_inv c" "0 \<le> n" "n \<le> max_bytes c" "max_bytes c + n \<le> max_int64"
    "0 < ttl c" "now' - now \<le> ttl c" "ttl c \<le> max_int64"
  shows "fst (cache_get now' k (cache_put now k v n c)) = Some v"
  using assms by (intro mem.put_then_get)
    (auto simp: cache_max_bytes_def cache_live_def expired_def time_sub_def min_int64_def)

theorem cache_hit_within_ttl_witness:
  "fst (cache_get 105 ''a'' (cache_put 100 ''a'' True 4 (new_cache 10 5))) = Some True
   \<and> fst (cache_get 106 ''a'' (cache_put 100 ''a'' True 4 (new_cache 10 5))) = None"
  using cache_hit_within_ttl [of "new_cache 10 5" 4 105 100 "''a''" True]
  by (simp add: new_cache_inv max_int64_def) (simp add: cache_eval)

text \<open>
  An entry larger than the whole budget is not stored, and making room for it evicts
  every other entry first.\<close>

theorem oversize_put_empties_cache:
  assumes "cache_inv c" "max_bytes c < n" "max_bytes c + n \<le> max_int64"
  shows "recency (cache_put now k v n c) = [] \<and> cache_used (cache_put now k v n c) = 0"
proof -
  have b: "0 \<le> max_bytes c" "0 \<le> n" using assms by (simp_all add: cache_inv_def)
  note put = put_refines [OF assms(1) b(2) assms(3), of now k v]
  have ok: "sizes_ok (without k (recency c))"
    using assms(1) by (simp add: sizes_ok_without cache_inv_def loose_inv_def)
  obtain m where m: "recency (cache_put now k v n c)
      = take m ((k, \<lparr>entry_value = v, entry_size = n, stored_at = now\<rparr>) # without k (recency c))"
    using fit_take put(2) by (metis lru_put_def)
  have "total (recency (cache_put now k v n c)) \<le> max_bytes c"
    using put b by (simp add: lru_put_def fit_within)
  moreover have "0 \<le> total (take (m - 1) (without k (recency c)))"
    using ok by (intro total_nonneg) (auto simp: sizes_ok_def dest: in_set_takeD)
  ultimately have "m = 0" using m assms(2) by (cases m) auto
  with m have "recency (cache_put now k v n c) = []" by simp
  then show ?thesis
    using put(1) by (simp add: cache_used_def cache_inv_def loose_inv_def del: recency_Nil)
qed

theorem oversize_put_empties_cache_witness:
  "recency (cache_put 2 ''b'' False 11 (cache_put 1 ''a'' True 4 (new_cache 10 5))) = []
   \<and> map fst (recency (cache_put 1 ''a'' True 4 (new_cache 10 5))) = [''a'']"
proof -
  let ?c = "cache_put 1 ''a'' True 4 (new_cache 10 5)"
  have "cache_inv ?c" "max_bytes ?c = 10"
    by (simp_all add: put_refines new_cache_inv max_int64_def)
  with oversize_put_empties_cache [of ?c 11 2 "''b''" False]
  have "recency (cache_put 2 ''b'' False 11 ?c) = []"
    by (simp add: max_int64_def del: recency_Nil)
  moreover have "map fst (recency ?c) = [''a'']"
    by (simp add: cache_eval)
  ultimately show ?thesis by simp
qed

text \<open>Every entry is dead after ExpireAllForTesting, unless expiry is switched off.\<close>

lemma expire_all_expires:
  assumes "0 < ttl c" "ttl c + second \<le> max_int64" "now \<le> now'"
  shows "fst (cache_get now' k (expire_all now c)) = None"
proof -
  have "wrap64 (wrap64 (- ttl c) - second) = - ttl c - second"
    using assms by (simp add: wrap64_def max_int64_def second_def)
  moreover have "map_of (items (expire_all now c)) k
      = map_option (\<lambda>e. e\<lparr>stored_at := now + wrap64 (wrap64 (- ttl c) - second)\<rparr>) (map_of (items c) k)"
    by (simp add: expire_all_def map_of_map)
  ultimately show ?thesis
    using assms
    by (auto simp: cache_get_def expired_def expire_all_def time_sub_def max_int64_def second_def
        split: option.splits)
qed

end
