(* ===== verification/Http_Client.thy ===== *)
theory Http_Client
  imports Prelude
begin

section \<open>The outbound HTTP client (internal/httpclient/httpclient.go)\<close>

text \<open>
  How httpclient.New configures the retrying client that both tools send their requests
  with. The client itself is a library: the exchange with an origin or with SearXNG,
  retries included, is an argument of the tools. A timeout of zero means no timeout in
  net/http, so that what matters is that no tool is built with one.
\<close>

datatype proxy = NoProxy | ProxyFromEnvironment

record http_client =
  hc_timeout :: duration            \<comment> \<open>one budget for the exchange, retries included\<close>
  hc_retry_max :: int
  hc_retry_wait_min :: duration
  hc_retry_wait_max :: duration
  hc_logs :: bool
  hc_proxy :: proxy

definition new_client :: "duration \<Rightarrow> int \<Rightarrow> http_client" where
  "new_client timeout retry_max =
     \<lparr>hc_timeout = timeout, hc_retry_max = (if retry_max < 0 then 2 else retry_max),
      hc_retry_wait_min = 500 * millisecond, hc_retry_wait_max = 5 * second, hc_logs = False,
      hc_proxy = ProxyFromEnvironment\<rparr>"

text \<open>When the exchange of a client that was started at an instant is cut off, if it is.\<close>

definition client_deadline :: "http_client \<Rightarrow> time \<Rightarrow> time option" where
  "client_deadline hc start = (if hc_timeout hc = 0 then None else Some (start + hc_timeout hc))"

lemma new_client_simps [simp]:
  "hc_timeout (new_client t n) = t" "hc_retry_max (new_client t n) = (if n < 0 then 2 else n)"
  "hc_proxy (new_client t n) = ProxyFromEnvironment"
  by (simp_all add: new_client_def)

lemma client_bounded: "0 < t \<Longrightarrow> client_deadline (new_client t n) start = Some (start + t)"
  by (simp add: client_deadline_def)

end
