(* ===== verification/Fetch.thy ===== *)
theory Fetch
  imports Paging Cache Http_Client
begin

section \<open>The fetch tool (internal/tools/fetch/fetch.go and handler.go)\<close>

text \<open>
  A \<open>fetcher\<close> is the Fetcher struct: the page size, the byte budget and its two caches
  (\<open>snapshots\<close> of whole documents, \<open>results\<close> of completed pages). \<open>fetch\<close> is the whole of
  Fetcher.Fetch: it returns the outcome, the new state of the caches and the list of the
  requests sent to the origin (empty when the answer came from memory).

  Outside the model, and arguments of it: net/url's parser (a function from the raw URL
  to its scheme, its redacted and its printed form), the origin (a function from the
  printed URL to a response or a failure), the clock, and the race of the capture
  goroutine with its timer of \<open>f_capture\<close> (\<open>env_timely\<close> says that it won).
\<close>

subsection \<open>State and environment\<close>

record parsed_url =
  url_scheme :: string
  url_redacted :: string
  url_string :: string

record http_response =
  resp_status :: int
  resp_status_text :: string
  resp_content_type :: string
  resp_length :: int                 \<comment> \<open>Content-Length, -1 when unknown\<close>
  resp_body :: reader

datatype get_error =
  BadRequest string                  \<comment> \<open>http.NewRequestWithContext failed\<close>
| NoResponse string                  \<comment> \<open>client.Do failed\<close>

record fetch_env =
  env_parse :: "string \<Rightarrow> string + parsed_url"
  env_origin :: "string \<Rightarrow> get_error + http_response"
  env_clock :: "nat \<Rightarrow> time"         \<comment> \<open>successive readings of the clock\<close>
  env_timely :: bool

record doc_entry =
  doc_body :: bytes
  doc_status :: int
  doc_content_type :: string

record fetcher =
  f_client :: http_client
  f_max_bytes :: int
  f_cache_budget :: int
  f_snapshots :: "doc_entry memory_cache"
  f_results :: "fetch_result memory_cache"
  f_capture :: duration              \<comment> \<open>how long a first fetch waits for the rest\<close>

definition default_fetch_timeout :: duration where
  "default_fetch_timeout = 15 * second"

definition default_max_bytes :: int where
  "default_max_bytes = 64 * 1024"

definition default_cache_max_bytes :: int where
  "default_cache_max_bytes = 32 * 1024 * 1024"

definition default_capture_budget :: duration where
  "default_capture_budget = 3 * second"

definition new_fetcher :: "duration \<Rightarrow> int \<Rightarrow> int \<Rightarrow> duration \<Rightarrow> fetcher" where
  "new_fetcher timeout maxb budget d =
     (let timeout1 = (if timeout \<le> 0 then default_fetch_timeout else timeout);
          maxb1 = (if maxb \<le> 0 then default_max_bytes else maxb);
          budget1 = (if budget \<le> 0 then default_cache_max_bytes else budget);
          budget2 = (if budget1 < maxb1 then maxb1 else budget1);
          d1 = (if d \<le> 0 then default_ttl else d)
      in \<lparr>f_client = new_client timeout1 2, f_max_bytes = maxb1, f_cache_budget = budget2,
          f_snapshots = new_cache budget2 d1, f_results = new_cache budget2 d1,
          f_capture = default_capture_budget\<rparr>)"

subsection \<open>Cache keys\<close>

definition snap_key :: "string \<Rightarrow> string \<Rightarrow> string" where
  "snap_key caller raw_url = (if caller \<noteq> [] then caller @ nul # raw_url else [])"

definition result_key :: "string \<Rightarrow> string \<Rightarrow> int \<Rightarrow> string" where
  "result_key caller raw_url offset =
     (if caller \<noteq> [] then snap_key caller raw_url @ nul # show_int offset else [])"

subsection \<open>The operations\<close>

text \<open>One request of the list is one call of client.Do; what the client retries and the redirects it
  follows are inside \<open>env_origin\<close>.\<close>

definition do_get :: "fetch_env \<Rightarrow> parsed_url \<Rightarrow> (fetch_error + http_response) \<times> string list" where
  "do_get env u =
     (case env_origin env (url_string u) of
        Inl (BadRequest e) \<Rightarrow> (Inl (BuildRequest e), [])
      | Inl (NoResponse e) \<Rightarrow> (Inl (FetchFailed e), [url_string u])
      | Inr resp \<Rightarrow> (Inr resp, [url_string u]))"

definition store_result :: "time \<Rightarrow> string \<Rightarrow> fetch_result option \<Rightarrow> fetcher \<Rightarrow> fetcher" where
  "store_result now key result f =
     (case result of
        None \<Rightarrow> f
      | Some r \<Rightarrow>
          if key = [] then f
          else f\<lparr>f_results := cache_put now key r (blen (res_content r)) (f_results f)\<rparr>)"

definition capture_and_page :: "fetch_env \<Rightarrow> fetcher \<Rightarrow> parsed_url \<Rightarrow> http_response \<Rightarrow> string
    \<Rightarrow> (fetch_error + fetch_result) \<times> bool \<times> fetcher" where
  "capture_and_page env f u resp key =
     (case read_chunk (resp_body resp) (f_max_bytes f) 0 of
        (Inl e, _) \<Rightarrow> (Inl (ReadBody e), False, f)
      | (Inr (page, _), body1) \<Rightarrow>
          case capture_rest (env_timely env) body1 (wrap64 (f_cache_budget f - blen page)) of
            (rest, ended) \<Rightarrow>
              if \<not> ended then
                (page_result (f_max_bytes f) (url_redacted u) (resp_status resp)
                   (resp_content_type resp) page 0, False, f)
              else
                let body = page @ rest;
                    entry = \<lparr>doc_body = body, doc_status = resp_status resp,
                             doc_content_type = resp_content_type resp\<rparr>;
                    captured = (blen body \<le> f_cache_budget f);
                    f' = (if captured
                          then f\<lparr>f_snapshots := cache_put (env_clock env 2) key entry (blen body)
                                   (f_snapshots f)\<rparr>
                          else f)
                in (page_result (f_max_bytes f) (url_redacted u) (resp_status resp)
                      (resp_content_type resp) body 0, captured, f'))"

text \<open>What a pair (result, error) holds for storeResult: the result when there is no error.\<close>

definition ok_result :: "fetch_error + fetch_result \<Rightarrow> fetch_result option" where
  "ok_result res = (case res of Inl _ \<Rightarrow> None | Inr r \<Rightarrow> Some r)"

definition lookup_result :: "fetch_env \<Rightarrow> fetcher \<Rightarrow> string \<Rightarrow> fetch_result option \<times> fetcher" where
  "lookup_result env f key =
     (if key \<noteq> [] then
        case cache_get (env_clock env 0) key (f_results f) of
          (r, c) \<Rightarrow> (r, f\<lparr>f_results := c\<rparr>)
      else (None, f))"

definition lookup_snapshot :: "fetch_env \<Rightarrow> fetcher \<Rightarrow> string \<Rightarrow> doc_entry option \<times> fetcher" where
  "lookup_snapshot env f key =
     (if key \<noteq> [] then
        case cache_get (env_clock env 1) key (f_snapshots f) of
          (e, c) \<Rightarrow> (e, f\<lparr>f_snapshots := c\<rparr>)
      else (None, f))"

definition fetch_response :: "fetch_env \<Rightarrow> fetcher \<Rightarrow> parsed_url \<Rightarrow> http_response \<Rightarrow> int \<Rightarrow> string \<Rightarrow> string
    \<Rightarrow> (fetch_error + fetch_result) \<times> fetcher" where
  "fetch_response env f u resp offset skey rkey =
     (if resp_status resp < 200 \<or> 299 < resp_status resp then
        (Inl (UnexpectedStatus (url_redacted u) (resp_status_text resp)), f)
      else if skey \<noteq> [] \<and> offset = 0 \<and> (resp_length resp \<le> 0 \<or> resp_length resp \<le> f_cache_budget f) then
        case capture_and_page env f u resp skey of
          (res, captured, f1) \<Rightarrow>
            (res, if \<not> captured then store_result (env_clock env 3) rkey (ok_result res) f1 else f1)
      else
        let res = page_from_stream (f_max_bytes f) (url_redacted u) (resp_status resp)
                    (resp_content_type resp) (resp_body resp) offset
        in (res, store_result (env_clock env 3) rkey (ok_result res) f))"

definition fetch_doc :: "fetch_env \<Rightarrow> fetcher \<Rightarrow> string \<Rightarrow> int \<Rightarrow> string
    \<Rightarrow> (fetch_error + fetch_result) \<times> fetcher \<times> string list" where
  "fetch_doc env f raw_url offset caller =
     (if trim_space raw_url = [] then (Inl ErrEmptyURL, f, [])
      else if offset < 0 then (Inl ErrNegativeOffset, f, [])
      else case env_parse env raw_url of
        Inl e \<Rightarrow> (Inl (ParseURL e), f, [])
      | Inr u \<Rightarrow>
          if url_scheme u \<noteq> ''http'' \<and> url_scheme u \<noteq> ''https'' then
            (Inl (UnsupportedScheme (url_scheme u)), f, [])
          else
            let skey = snap_key caller raw_url; rkey = result_key caller raw_url offset
            in case lookup_result env f rkey of
              (Some r, f1) \<Rightarrow> (Inr r, f1, [])
            | (None, f1) \<Rightarrow>
                case lookup_snapshot env f1 skey of
                  (Some entry, f2) \<Rightarrow>
                    (page_result (f_max_bytes f2) (url_redacted u) (doc_status entry)
                       (doc_content_type entry) (doc_body entry) offset, f2, [])
                | (None, f2) \<Rightarrow>
                    case do_get env u of
                      (Inl e, reqs) \<Rightarrow> (Inl e, f2, reqs)
                    | (Inr resp, reqs) \<Rightarrow>
                        case fetch_response env f2 u resp offset skey rkey of
                          (res, f3) \<Rightarrow> (res, f3, reqs))"

text \<open>The MCP handler: the cache is scoped to the authenticated actor, if there is one.\<close>

record fetch_input =
  in_url :: string
  in_offset :: int

definition fetch_handler :: "fetch_env \<Rightarrow> fetcher \<Rightarrow> string option \<Rightarrow> fetch_input
    \<Rightarrow> (fetch_error + fetch_result) \<times> fetcher \<times> string list" where
  "fetch_handler env f actor inp =
     (let caller = (case actor of None \<Rightarrow> [] | Some i \<Rightarrow> i)
      in fetch_doc env f (in_url inp) (in_offset inp) caller)"

subsection \<open>Keys are injective: one agent's entries are never another's\<close>

lemma snap_key_inj:
  assumes "snap_key c u = snap_key c' u'" "nul \<notin> set c" "nul \<notin> set c'" "c \<noteq> []" "c' \<noteq> []"
  shows "c = c' \<and> u = u'"
  using assms split_at_first [of c nul u c' u'] by (simp add: snap_key_def)

lemma result_key_inj:
  assumes "result_key c u i = result_key c' u' i'" "nul \<notin> set c" "nul \<notin> set c'" "c \<noteq> []" "c' \<noteq> []"
  shows "c = c' \<and> u = u' \<and> i = i'"
proof -
  have "snap_key c u @ nul # show_int i = snap_key c' u' @ nul # show_int i'"
    using assms(1,4,5) by (simp only: result_key_def simp_thms if_True)
  from split_at_last [OF this nul_not_in_show_int nul_not_in_show_int]
  have "snap_key c u = snap_key c' u'" "i = i'" by simp_all
  with snap_key_inj assms(2-5) show ?thesis by blast
qed

subsection \<open>The state invariant\<close>

definition fetcher_inv :: "fetcher \<Rightarrow> bool" where
  "fetcher_inv f \<longleftrightarrow> cache_inv (f_snapshots f) \<and> cache_inv (f_results f)
     \<and> max_bytes (f_snapshots f) = f_cache_budget f \<and> max_bytes (f_results f) = f_cache_budget f
     \<and> 0 < f_max_bytes f \<and> f_max_bytes f \<le> f_cache_budget f \<and> 2 * f_cache_budget f \<le> max_int64"

lemmas fetch_default_defs = default_fetch_timeout_def default_max_bytes_def
  default_cache_max_bytes_def default_ttl_def duration_defs

lemma new_fetcher_sel:
  "f_client (new_fetcher t maxb budget d) = new_client (if t \<le> 0 then default_fetch_timeout else t) 2"
  "f_max_bytes (new_fetcher t maxb budget d) = (if maxb \<le> 0 then default_max_bytes else maxb)"
  "f_cache_budget (new_fetcher t maxb budget d) =
     max (if maxb \<le> 0 then default_max_bytes else maxb)
         (if budget \<le> 0 then default_cache_max_bytes else budget)"
  "f_snapshots (new_fetcher t maxb budget d) =
     new_cache (f_cache_budget (new_fetcher t maxb budget d)) (if d \<le> 0 then default_ttl else d)"
  "f_results (new_fetcher t maxb budget d) =
     new_cache (f_cache_budget (new_fetcher t maxb budget d)) (if d \<le> 0 then default_ttl else d)"
  by (simp_all add: new_fetcher_def Let_def max_def)

lemma new_fetcher_inv:
  assumes "2 * maxb \<le> max_int64" "2 * budget \<le> max_int64"
  shows "fetcher_inv (new_fetcher t maxb budget d)"
proof -
  let ?f = "new_fetcher t maxb budget d"
  have b: "0 < f_max_bytes ?f" "f_max_bytes ?f \<le> f_cache_budget ?f" "2 * f_cache_budget ?f \<le> max_int64"
    using assms by (simp_all add: new_fetcher_sel fetch_default_defs max_int64_def max_def)
  then have "cache_inv (f_snapshots ?f)" "cache_inv (f_results ?f)"
    unfolding new_fetcher_sel(4,5) by (auto intro!: new_cache_inv)
  with b show ?thesis by (simp add: fetcher_inv_def new_fetcher_sel(4,5))
qed

lemma fetcher_inv_room:
  "fetcher_inv f \<Longrightarrow> n \<le> f_cache_budget f \<Longrightarrow>
     max_bytes (f_snapshots f) + n \<le> max_int64 \<and> max_bytes (f_results f) + n \<le> max_int64"
  by (simp add: fetcher_inv_def)

subsection \<open>What the caches hold, kept by every step\<close>

text \<open>
  Both caches are used through the interface of theory Cache: whatever predicates the
  stored documents and pages satisfy, they keep satisfying, as long as what is stored
  does.
\<close>

definition fetcher_sat :: "(string \<Rightarrow> doc_entry \<Rightarrow> bool) \<Rightarrow> (string \<Rightarrow> fetch_result \<Rightarrow> bool) \<Rightarrow> fetcher \<Rightarrow> bool" where
  "fetcher_sat S R f \<longleftrightarrow> fetcher_inv f \<and> all_stored cache_stored S (f_snapshots f)
     \<and> all_stored cache_stored R (f_results f)"

definition same_config :: "fetcher \<Rightarrow> fetcher \<Rightarrow> bool" where
  "same_config f f' \<longleftrightarrow> f_max_bytes f' = f_max_bytes f \<and> f_cache_budget f' = f_cache_budget f
     \<and> f_client f' = f_client f"

lemma same_config_refl [simp]: "same_config f f"
  by (simp add: same_config_def)

lemma same_config_trans: "same_config f g \<Longrightarrow> same_config g h \<Longrightarrow> same_config f h"
  by (simp add: same_config_def)

lemma all_stored_new [simp]: "all_stored cache_stored P (new_cache b d)"
  by (simp add: all_stored_def cache_stored_def new_cache_def)

lemma new_fetcher_sat:
  "2 * maxb \<le> max_int64 \<Longrightarrow> 2 * budget \<le> max_int64 \<Longrightarrow> fetcher_sat S R (new_fetcher t maxb budget d)"
  unfolding fetcher_sat_def new_fetcher_sel(4,5) by (simp add: new_fetcher_inv)

lemma lookup_result_sat:
  assumes "fetcher_sat S R f" "lookup_result env f key = (r, f1)"
  shows "fetcher_sat S R f1 \<and> same_config f f1 \<and> (\<forall>x. r = Some x \<longrightarrow> key \<noteq> [] \<and> R key x)"
proof -
  have inv: "cache_inv (f_results f)" and all: "all_stored cache_stored R (f_results f)"
    using assms(1) by (simp_all add: fetcher_sat_def fetcher_inv_def)
  show ?thesis
  proof (cases "key = []")
    case False
    then have f1: "f1 = f\<lparr>f_results := snd (cache_get (env_clock env 0) key (f_results f))\<rparr>"
      and r: "r = fst (cache_get (env_clock env 0) key (f_results f))"
      using assms(2) by (auto simp: lookup_result_def split: prod.splits)
    show ?thesis
      using assms(1) False mem.invar_get [OF inv] mem.get_all_stored [OF inv all]
        mem.hit_satisfies [OF inv all]
      by (auto simp: f1 r fetcher_sat_def fetcher_inv_def same_config_def)
  qed (use assms in \<open>simp add: lookup_result_def\<close>)
qed

lemma lookup_snapshot_sat:
  assumes "fetcher_sat S R f" "lookup_snapshot env f key = (r, f1)"
  shows "fetcher_sat S R f1 \<and> same_config f f1 \<and> (\<forall>x. r = Some x \<longrightarrow> key \<noteq> [] \<and> S key x)"
proof -
  have inv: "cache_inv (f_snapshots f)" and all: "all_stored cache_stored S (f_snapshots f)"
    using assms(1) by (simp_all add: fetcher_sat_def fetcher_inv_def)
  show ?thesis
  proof (cases "key = []")
    case False
    then have f1: "f1 = f\<lparr>f_snapshots := snd (cache_get (env_clock env 1) key (f_snapshots f))\<rparr>"
      and r: "r = fst (cache_get (env_clock env 1) key (f_snapshots f))"
      using assms(2) by (auto simp: lookup_snapshot_def split: prod.splits)
    show ?thesis
      using assms(1) False mem.invar_get [OF inv] mem.get_all_stored [OF inv all]
        mem.hit_satisfies [OF inv all]
      by (auto simp: f1 r fetcher_sat_def fetcher_inv_def same_config_def)
  qed (use assms in \<open>simp add: lookup_snapshot_def\<close>)
qed

lemma store_result_sat:
  assumes "fetcher_sat S R f"
    "\<And>r. res = Some r \<Longrightarrow> key \<noteq> [] \<Longrightarrow> R key r \<and> blen (res_content r) \<le> f_max_bytes f"
  shows "fetcher_sat S R (store_result now key res f) \<and> same_config f (store_result now key res f)"
proof (cases "res = None \<or> key = []")
  case False
  then obtain r where r: "res = Some r" "key \<noteq> []" by auto
  have inv: "cache_inv (f_results f)" and all: "all_stored cache_stored R (f_results f)"
    and room: "max_bytes (f_results f) + blen (res_content r) \<le> max_int64"
    using assms(1) assms(2) [OF r] by (auto simp: fetcher_sat_def fetcher_inv_def)
  have "all_stored cache_stored R (cache_put now key r (blen (res_content r)) (f_results f))"
    using assms(2) [OF r] room
    by (intro mem.put_all_stored [OF inv all]) (auto simp: cache_max_bytes_def)
  with r assms(1) inv room show ?thesis
    by (simp add: store_result_def fetcher_sat_def fetcher_inv_def put_refines same_config_def)
qed (use assms in \<open>auto simp: store_result_def split: option.splits\<close>)

lemma store_snapshot_sat:
  assumes "fetcher_sat S R f" "S key e" "blen body \<le> f_cache_budget f"
  shows "fetcher_sat S R (f\<lparr>f_snapshots := cache_put now key e (blen body) (f_snapshots f)\<rparr>)"
proof -
  have inv: "cache_inv (f_snapshots f)" and all: "all_stored cache_stored S (f_snapshots f)"
    and room: "max_bytes (f_snapshots f) + blen body \<le> max_int64"
    using assms by (auto simp: fetcher_sat_def fetcher_inv_def)
  have "all_stored cache_stored S (cache_put now key e (blen body) (f_snapshots f))"
    using assms(2) room by (intro mem.put_all_stored [OF inv all]) (auto simp: cache_max_bytes_def)
  with assms(1) inv room show ?thesis
    by (simp add: fetcher_sat_def fetcher_inv_def put_refines)
qed

text \<open>
  The common shape of the proofs about Fetch: to show that every result satisfies \<open>G\<close>
  (and that the caches keep satisfying \<open>S\<close> and \<open>R\<close>), look at the three ways a response
  becomes a page and the two ways a cached value becomes one.
\<close>

definition ways_from_response :: "(string \<Rightarrow> doc_entry \<Rightarrow> bool) \<Rightarrow> (string \<Rightarrow> fetch_result \<Rightarrow> bool)
    \<Rightarrow> (fetch_result \<Rightarrow> bool) \<Rightarrow> fetch_env \<Rightarrow> fetcher \<Rightarrow> parsed_url \<Rightarrow> http_response \<Rightarrow> int \<Rightarrow> string
    \<Rightarrow> string \<Rightarrow> bool" where
  "ways_from_response S R G env f u resp off skey rkey \<longleftrightarrow>
     (\<forall>r. page_from_stream (f_max_bytes f) (url_redacted u) (resp_status resp)
            (resp_content_type resp) (resp_body resp) off = Inr r
          \<longrightarrow> G r \<and> (rkey \<noteq> [] \<longrightarrow> R rkey r))
     \<and> (skey \<noteq> [] \<and> off = 0 \<and> (resp_length resp \<le> 0 \<or> resp_length resp \<le> f_cache_budget f) \<longrightarrow>
          (\<forall>page t b1. read_chunk (resp_body resp) (f_max_bytes f) 0 = (Inr (page, t), b1) \<longrightarrow>
             (\<forall>r. page_result (f_max_bytes f) (url_redacted u) (resp_status resp)
                    (resp_content_type resp) page 0 = Inr r
                  \<longrightarrow> G r \<and> (rkey \<noteq> [] \<longrightarrow> R rkey r))
             \<and> (\<forall>rest. capture_rest (env_timely env) b1 (wrap64 (f_cache_budget f - blen page)) = (rest, True) \<longrightarrow>
                  (blen (page @ rest) \<le> f_cache_budget f \<longrightarrow>
                     S skey \<lparr>doc_body = page @ rest, doc_status = resp_status resp,
                              doc_content_type = resp_content_type resp\<rparr>)
                  \<and> (\<forall>r. page_result (f_max_bytes f) (url_redacted u) (resp_status resp)
                           (resp_content_type resp) (page @ rest) 0 = Inr r
                         \<longrightarrow> G r \<and> (rkey \<noteq> [] \<longrightarrow> R rkey r)))))"

lemma fetch_response_sat:
  assumes sat: "fetcher_sat S R f"
    and ok_ways: "200 \<le> resp_status resp \<Longrightarrow> resp_status resp \<le> 299
      \<Longrightarrow> ways_from_response S R G env f u resp off skey rkey"
    and run: "fetch_response env f u resp off skey rkey = (res, f')"
  shows "fetcher_sat S R f' \<and> same_config f f' \<and> (\<forall>r. res = Inr r \<longrightarrow> G r)"
proof -
  have mb: "0 \<le> f_max_bytes f" "f_max_bytes f \<le> max_int64"
    using sat by (simp_all add: fetcher_sat_def fetcher_inv_def)
  let ?direct = "page_from_stream (f_max_bytes f) (url_redacted u) (resp_status resp)
    (resp_content_type resp) (resp_body resp) off"
  consider (status) "resp_status resp < 200 \<or> 299 < resp_status resp"
    | (capture) "\<not> (resp_status resp < 200 \<or> 299 < resp_status resp)"
        "skey \<noteq> [] \<and> off = 0 \<and> (resp_length resp \<le> 0 \<or> resp_length resp \<le> f_cache_budget f)"
    | (stream) "\<not> (resp_status resp < 200 \<or> 299 < resp_status resp)" "res = ?direct" "f' = store_result (env_clock env 3) rkey (ok_result ?direct) f"
    using run by (auto simp: fetch_response_def Let_def split: if_splits prod.splits)
  then show ?thesis
  proof cases
    case status
    with run sat show ?thesis by (auto simp: fetch_response_def)
  next
    case stream
    then have ways: "ways_from_response S R G env f u resp off skey rkey" using ok_ways by simp
    have "fetcher_sat S R f' \<and> same_config f f'"
      unfolding stream(3)
    proof (rule store_result_sat [OF sat])
      fix r assume "ok_result ?direct = Some r" "rkey \<noteq> []"
      then have "?direct = Inr r" by (auto simp: ok_result_def split: sum.splits)
      with ways \<open>rkey \<noteq> []\<close> page_from_stream_bytes [OF this mb(1)]
      show "R rkey r \<and> blen (res_content r) \<le> f_max_bytes f"
        by (simp add: ways_from_response_def)
    qed
    moreover have "\<forall>r. res = Inr r \<longrightarrow> G r"
      using ways stream(2) unfolding ways_from_response_def by auto
    ultimately show ?thesis by blast
  next
    case capture
    then have ways: "ways_from_response S R G env f u resp off skey rkey" using ok_ways by simp
    obtain cap f1 where cap: "capture_and_page env f u resp skey = (res, cap, f1)"
      and f': "f' = (if \<not> cap then store_result (env_clock env 3) rkey (ok_result res) f1 else f1)"
      using run capture by (auto simp: fetch_response_def split: prod.splits)
    have out: "fetcher_sat S R f1 \<and> same_config f f1
      \<and> (\<forall>r. res = Inr r \<longrightarrow> G r \<and> (rkey \<noteq> [] \<longrightarrow> R rkey r) \<and> blen (res_content r) \<le> f_max_bytes f)"
    proof (cases "fst (read_chunk (resp_body resp) (f_max_bytes f) 0)")
      case (Inl e)
      with cap sat show ?thesis by (auto simp: capture_and_page_def split: prod.splits)
    next
      case (Inr pt)
      then obtain page t b1 where chunk: "read_chunk (resp_body resp) (f_max_bytes f) 0 = (Inr (page, t), b1)"
        by (metis prod.collapse)
      obtain rest ended where rest:
        "capture_rest (env_timely env) b1 (wrap64 (f_cache_budget f - blen page)) = (rest, ended)"
        by fastforce
      show ?thesis
      proof (cases ended)
        case False
        with cap chunk rest
        have "res = page_result (f_max_bytes f) (url_redacted u) (resp_status resp)
            (resp_content_type resp) page 0" "f1 = f"
          by (auto simp: capture_and_page_def)
        with ways chunk capture(2) sat mb show ?thesis
          by (auto simp: ways_from_response_def max_int64_def dest: page_result_bytes)
      next
        case True
        then have rest': "capture_rest (env_timely env) b1 (wrap64 (f_cache_budget f - blen page)) = (rest, True)"
          using rest by simp
        with cap chunk
        have res: "res = page_result (f_max_bytes f) (url_redacted u) (resp_status resp)
            (resp_content_type resp) (page @ rest) 0"
          and f1: "f1 = (if blen (page @ rest) \<le> f_cache_budget f
            then f\<lparr>f_snapshots := cache_put (env_clock env 2) skey
                \<lparr>doc_body = page @ rest, doc_status = resp_status resp,
                 doc_content_type = resp_content_type resp\<rparr> (blen (page @ rest)) (f_snapshots f)\<rparr>
            else f)"
          by (auto simp: capture_and_page_def Let_def)
        have w: "(blen (page @ rest) \<le> f_cache_budget f \<longrightarrow>
              S skey \<lparr>doc_body = page @ rest, doc_status = resp_status resp,
                      doc_content_type = resp_content_type resp\<rparr>)
            \<and> (\<forall>r. res = Inr r \<longrightarrow> G r \<and> (rkey \<noteq> [] \<longrightarrow> R rkey r))"
          using ways chunk capture(2) rest' unfolding ways_from_response_def res by blast
        have "fetcher_sat S R f1 \<and> same_config f f1"
        proof (cases "blen (page @ rest) \<le> f_cache_budget f")
          case True
          with w store_snapshot_sat [OF sat _ True] show ?thesis
            unfolding f1 by (simp add: same_config_def)
        qed (use sat f1 in simp)
        with w mb show ?thesis
          unfolding res by (auto simp: max_int64_def dest: page_result_bytes)
      qed
    qed
    moreover have "fetcher_sat S R f' \<and> same_config f1 f'"
    proof (cases cap)
      case False
      have "f_max_bytes f1 = f_max_bytes f" using out by (simp add: same_config_def)
      with False out f' show ?thesis
        by (auto intro!: store_result_sat simp: ok_result_def split: sum.splits)
    qed (use out f' in simp)
    ultimately show ?thesis using same_config_trans by blast
  qed
qed

lemma ways_config:
  "same_config f g \<Longrightarrow> ways_from_response S R G env g u resp off skey rkey
     = ways_from_response S R G env f u resp off skey rkey"
  by (simp add: ways_from_response_def same_config_def)

lemma fetch_doc_sat:
  assumes sat: "fetcher_sat S R f"
    and run: "fetch_doc env f raw off caller = (res, f', reqs)"
    and hit_result: "\<And>r. R (result_key caller raw off) r \<Longrightarrow> caller \<noteq> [] \<Longrightarrow> 0 \<le> off \<Longrightarrow> G r"
    and hit_snapshot: "\<And>u e r. env_parse env raw = Inr u \<Longrightarrow> S (snap_key caller raw) e \<Longrightarrow> caller \<noteq> []
      \<Longrightarrow> 0 \<le> off
      \<Longrightarrow> page_result (f_max_bytes f) (url_redacted u) (doc_status e) (doc_content_type e) (doc_body e) off = Inr r
      \<Longrightarrow> G r"
    and ways: "\<And>u resp. env_parse env raw = Inr u \<Longrightarrow> env_origin env (url_string u) = Inr resp
      \<Longrightarrow> 200 \<le> resp_status resp \<Longrightarrow> resp_status resp \<le> 299 \<Longrightarrow> 0 \<le> off
      \<Longrightarrow> ways_from_response S R G env f u resp off (snap_key caller raw) (result_key caller raw off)"
  shows "fetcher_sat S R f' \<and> same_config f f' \<and> (\<forall>r. res = Inr r \<longrightarrow> G r)"
proof (cases "trim_space raw = [] \<or> off < 0 \<or> (\<exists>e. env_parse env raw = Inl e)
    \<or> (\<exists>u. env_parse env raw = Inr u \<and> url_scheme u \<noteq> ''http'' \<and> url_scheme u \<noteq> ''https'')")
  case True
  with run sat show ?thesis by (auto simp: fetch_doc_def split: if_splits)
next
  case False
  then obtain u where u: "env_parse env raw = Inr u" by (cases "env_parse env raw") auto
  let ?sk = "snap_key caller raw" and ?rk = "result_key caller raw off"
  have keys: "?sk \<noteq> [] \<longleftrightarrow> caller \<noteq> []" "?rk \<noteq> [] \<longleftrightarrow> caller \<noteq> []"
    by (simp_all add: snap_key_def result_key_def)
  obtain r1 f1 where l1: "lookup_result env f ?rk = (r1, f1)" by fastforce
  note s1 = lookup_result_sat [OF sat l1]
  show ?thesis
  proof (cases r1)
    case (Some r)
    with run False u l1 have "res = Inr r" "f' = f1"
      by (auto simp: fetch_doc_def Let_def)
    with s1 Some hit_result keys False show ?thesis by auto
  next
    case None
    obtain r2 f2 where l2: "lookup_snapshot env f1 ?sk = (r2, f2)" by fastforce
    note s2 = lookup_snapshot_sat [OF conjunct1 [OF s1] l2]
    have cfg: "same_config f f2" using s1 s2 same_config_trans by blast
    show ?thesis
    proof (cases r2)
      case (Some e)
      with run False u l1 l2 None
      have "res = page_result (f_max_bytes f) (url_redacted u) (doc_status e) (doc_content_type e)
          (doc_body e) off" "f' = f2"
        using cfg by (auto simp: fetch_doc_def Let_def same_config_def)
      with s2 cfg Some hit_snapshot [OF u, of e] keys False show ?thesis by auto
    next
      case None': None
      show ?thesis
      proof (cases "fst (do_get env u)")
        case (Inl e)
        with run False u l1 l2 None None' s2 cfg show ?thesis
          by (auto simp: fetch_doc_def Let_def split: prod.splits)
      next
        case (Inr resp)
        then have orig: "env_origin env (url_string u) = Inr resp"
          by (auto simp: do_get_def split: sum.splits get_error.splits)
        with run False u l1 l2 None None' Inr
        have resp: "fetch_response env f2 u resp off ?sk ?rk = (res, f')"
          by (auto simp: fetch_doc_def Let_def split: prod.splits)
        have "fetcher_sat S R f' \<and> same_config f2 f' \<and> (\<forall>r. res = Inr r \<longrightarrow> G r)"
          using s2 ways [OF u orig] False ways_config [OF cfg]
          by (intro fetch_response_sat [OF _ _ resp]) auto
        with cfg same_config_trans show ?thesis by blast
      qed
    qed
  qed
qed

subsection \<open>Provenance: what a caller gets was sent to that caller for that URL\<close>

text \<open>
  \<open>obtained c u resp\<close> stands for: the origin answered \<open>resp\<close> to a request this fetcher made
  for caller \<open>c\<close> and raw URL \<open>u\<close>.
\<close>

definition from_response :: "http_response \<Rightarrow> int \<Rightarrow> fetch_result \<Rightarrow> bool" where
  "from_response resp off r \<longleftrightarrow>
     piece_at off (pending (resp_body resp)) (res_content r) \<and> res_offset r = off
     \<and> res_bytes r = blen (res_content r) \<and> res_status r = resp_status resp
     \<and> res_content_type r = resp_content_type resp"

definition snap_origin :: "(string \<Rightarrow> string \<Rightarrow> http_response \<Rightarrow> bool) \<Rightarrow> string \<Rightarrow> doc_entry \<Rightarrow> bool" where
  "snap_origin obtained k e \<longleftrightarrow>
     (\<exists>c u resp n. k = snap_key c u \<and> c \<noteq> [] \<and> nul \<notin> set c \<and> obtained c u resp
        \<and> doc_body e = take n (pending (resp_body resp)) \<and> doc_status e = resp_status resp
        \<and> doc_content_type e = resp_content_type resp)"

definition result_origin :: "(string \<Rightarrow> string \<Rightarrow> http_response \<Rightarrow> bool) \<Rightarrow> string \<Rightarrow> fetch_result \<Rightarrow> bool" where
  "result_origin obtained k r \<longleftrightarrow>
     (\<exists>c u off resp. k = result_key c u off \<and> c \<noteq> [] \<and> nul \<notin> set c \<and> obtained c u resp
        \<and> from_response resp off r)"

lemma page_result_from:
  assumes "page_result mb u (resp_status resp) (resp_content_type resp)
      (take n (pending (resp_body resp))) off = Inr r"
  shows "from_response resp off r"
proof -
  from assms obtain t nxt where "page_from (take n (pending (resp_body resp))) off mb = Some (res_content r, t, nxt)"
    and r: "res_offset r = off" "res_bytes r = blen (res_content r)" "res_status r = resp_status resp"
      "res_content_type r = resp_content_type resp"
    by (auto simp: page_result_def make_result_def split: option.splits)
  then have "piece_at off (take n (pending (resp_body resp))) (res_content r)"
    using page_from_piece by blast
  then have "piece_at off (pending (resp_body resp)) (res_content r)"
    unfolding piece_at_def drop_take by (metis length_take min.bounded_iff take_take min_absorb1 order_refl)
  with r show ?thesis by (simp add: from_response_def)
qed

lemma page_from_stream_from:
  assumes "page_from_stream mb u (resp_status resp) (resp_content_type resp) (resp_body resp) off = Inr r"
  shows "from_response resp off r"
  using assms page_from_stream_piece [OF assms]
  by (auto simp: from_response_def page_from_stream_def make_result_def Let_def
      split: prod.splits sum.splits option.splits if_splits)

lemma read_chunk_first:
  assumes "read_chunk b mb 0 = (Inr (page, t), b1)"
  shows "page @ pending b1 = pending b \<or> page = pending b \<and> pending b1 = []"
  using assms by (auto simp: read_chunk_def read_all_limit_def Let_def split: if_splits)

lemma captured_prefix:
  assumes "read_chunk b mb 0 = (Inr (page, t), b1)" "capture_rest timely b1 limit = (rest, True)"
  shows "\<exists>n. page @ rest = take n (pending b)"
proof -
  have rest: "rest = take (nat limit) (pending b1)"
    using capture_rest_done [OF assms(2)] by simp
  from read_chunk_first [OF assms(1)] show ?thesis
  proof
    assume *: "page @ pending b1 = pending b"
    then have "take (length page + nat limit) (pending b) = page @ rest"
      by (simp add: rest flip: *)
    then show ?thesis by metis
  next
    assume "page = pending b \<and> pending b1 = []"
    with rest show ?thesis by (intro exI [of _ "length (pending b)"]) simp
  qed
qed

lemma first_chunk_prefix:
  "read_chunk b mb 0 = (Inr (page, t), b1) \<Longrightarrow> \<exists>n. page = take n (pending b)"
  using read_chunk_first by (metis append_eq_conv_conj order_refl take_all_iff)

text \<open>What a hit in one of the caches gives, and what a response gives to the caches and the caller.\<close>

lemma result_hit_from:
  assumes "result_origin ob (result_key caller raw off) r" "caller \<noteq> []" "nul \<notin> set caller"
  shows "\<exists>resp. ob caller raw resp \<and> from_response resp off r"
  using assms result_key_inj unfolding result_origin_def by blast

lemma snapshot_hit_from:
  assumes "snap_origin ob (snap_key caller raw) e" "caller \<noteq> []" "nul \<notin> set caller"
    "page_result mb u (doc_status e) (doc_content_type e) (doc_body e) off = Inr r"
  shows "\<exists>resp. ob caller raw resp \<and> from_response resp off r"
proof -
  obtain resp n where "ob caller raw resp" "doc_body e = take n (pending (resp_body resp))"
    "doc_status e = resp_status resp" "doc_content_type e = resp_content_type resp"
    using assms(1-3) snap_key_inj unfolding snap_origin_def by blast
  with assms(4) page_result_from show ?thesis by metis
qed

lemma origin_ways:
  assumes ob: "ob caller raw resp" and clean: "nul \<notin> set caller"
  shows "ways_from_response (snap_origin ob) (result_origin ob)
      (\<lambda>r. \<exists>resp. ob caller raw resp \<and> from_response resp off r) env f u resp off
      (snap_key caller raw) (result_key caller raw off)"
proof -
  have keep: "(\<exists>resp. ob caller raw resp \<and> from_response resp off r)
      \<and> (result_key caller raw off \<noteq> [] \<longrightarrow> result_origin ob (result_key caller raw off) r)"
    if "from_response resp off r" for r
    using that ob clean by (auto simp: result_origin_def result_key_def)
  have snap: "snap_key caller raw \<noteq> [] \<longrightarrow> snap_origin ob (snap_key caller raw) \<lparr>doc_body = take n (pending (resp_body resp)),
      doc_status = resp_status resp, doc_content_type = resp_content_type resp\<rparr>" for n
  proof (intro impI)
    assume "snap_key caller raw \<noteq> []"
    then have "caller \<noteq> []" by (auto simp: snap_key_def)
    then show "snap_origin ob (snap_key caller raw) \<lparr>doc_body = take n (pending (resp_body resp)),
      doc_status = resp_status resp, doc_content_type = resp_content_type resp\<rparr>"
      unfolding snap_origin_def using ob clean
      by (intro exI [of _ caller] exI [of _ raw] exI [of _ resp] exI [of _ n]) simp
  qed
  show ?thesis
    unfolding ways_from_response_def
  proof (intro conjI allI impI; (elim conjE)?)
    fix r assume "page_from_stream (f_max_bytes f) (url_redacted u) (resp_status resp)
        (resp_content_type resp) (resp_body resp) off = Inr r"
    from keep [OF page_from_stream_from [OF this]]
    show "\<exists>resp. ob caller raw resp \<and> from_response resp off r"
      "result_key caller raw off \<noteq> [] \<Longrightarrow> result_origin ob (result_key caller raw off) r" by blast+
  next
    fix page t b1 r
    assume "off = 0" "read_chunk (resp_body resp) (f_max_bytes f) 0 = (Inr (page, t), b1)"
      "page_result (f_max_bytes f) (url_redacted u) (resp_status resp) (resp_content_type resp) page 0 = Inr r"
    then have "from_response resp off r" using first_chunk_prefix page_result_from by metis
    from keep [OF this] show "\<exists>resp. ob caller raw resp \<and> from_response resp off r"
      "result_key caller raw off \<noteq> [] \<Longrightarrow> result_origin ob (result_key caller raw off) r" by blast+
  next
    fix page t b1 rest
    assume off: "off = 0" and sk: "snap_key caller raw \<noteq> []"
      and cap: "read_chunk (resp_body resp) (f_max_bytes f) 0 = (Inr (page, t), b1)"
      "capture_rest (env_timely env) b1 (wrap64 (f_cache_budget f - blen page)) = (rest, True)"
    obtain n where n: "page @ rest = take n (pending (resp_body resp))" using captured_prefix [OF cap] by blast
    with snap sk show "snap_origin ob (snap_key caller raw) \<lparr>doc_body = page @ rest, doc_status = resp_status resp,
        doc_content_type = resp_content_type resp\<rparr>" by simp
    fix r assume "page_result (f_max_bytes f) (url_redacted u) (resp_status resp)
        (resp_content_type resp) (page @ rest) 0 = Inr r"
    then have "from_response resp off r" using off n page_result_from by metis
    from keep [OF this] show "\<exists>resp. ob caller raw resp \<and> from_response resp off r"
      "result_key caller raw off \<noteq> [] \<Longrightarrow> result_origin ob (result_key caller raw off) r" by blast+
  qed
qed

lemma fetch_provenance:
  assumes "fetcher_sat (snap_origin ob) (result_origin ob) f" "nul \<notin> set caller"
    "fetch_doc env f raw off caller = (res, f', reqs)"
    "\<And>u resp. env_parse env raw = Inr u \<Longrightarrow> env_origin env (url_string u) = Inr resp \<Longrightarrow> ob caller raw resp"
  shows "fetcher_sat (snap_origin ob) (result_origin ob) f' \<and> same_config f f'
    \<and> (\<forall>r. res = Inr r \<longrightarrow> (\<exists>resp. ob caller raw resp \<and> from_response resp off r))"
proof (rule fetch_doc_sat [OF assms(1,3)])
  fix r assume "result_origin ob (result_key caller raw off) r" "caller \<noteq> []"
  then show "\<exists>resp. ob caller raw resp \<and> from_response resp off r" using assms(2) by (rule result_hit_from)
next
  fix u e r
  assume "snap_origin ob (snap_key caller raw) e" "caller \<noteq> []"
    "page_result (f_max_bytes f) (url_redacted u) (doc_status e) (doc_content_type e) (doc_body e) off = Inr r"
  then show "\<exists>resp. ob caller raw resp \<and> from_response resp off r" using assms(2) by (intro snapshot_hit_from)
next
  fix u resp
  assume "env_parse env raw = Inr u" "env_origin env (url_string u) = Inr resp"
  then have "ob caller raw resp" by (rule assms(4))
  then show "ways_from_response (snap_origin ob) (result_origin ob)
      (\<lambda>r. \<exists>resp. ob caller raw resp \<and> from_response resp off r) env f u resp off
      (snap_key caller raw) (result_key caller raw off)"
    using assms(2) by (rule origin_ways)
qed

subsection \<open>Totality: when nothing fails, Fetch returns a page\<close>

lemma page_result_total:
  "0 \<le> off \<Longrightarrow> 0 \<le> mb \<Longrightarrow> blen body + mb \<le> max_int64 \<Longrightarrow> \<exists>r. page_result mb u st ct body off = Inr r"
  by (simp add: page_result_def page_from_in_range Let_def)

lemma fetch_response_total:
  assumes run: "fetch_response env f u resp off skey rkey = (res, f')"
    and status: "200 \<le> resp_status resp" "resp_status resp \<le> 299"
    and eof: "ending (resp_body resp) = IoEOF"
    and range: "0 \<le> off" "0 \<le> f_max_bytes f" "blen (pending (resp_body resp)) + f_max_bytes f < max_int64"
  shows "\<exists>r. res = Inr r"
proof -
  let ?B = "pending (resp_body resp)" and ?mb = "f_max_bytes f"
  have body: "resp_body resp = \<lparr>pending = ?B, ending = IoEOF\<rparr>" using eof by simp
  have direct: "\<exists>r. page_from_stream ?mb w st ct (resp_body resp) off = Inr r" for w st ct
    using range
    by (subst body, subst page_from_stream_whole) (auto simp: page_from_in_range Let_def)
  show ?thesis
  proof (cases "skey \<noteq> [] \<and> off = 0 \<and> (resp_length resp \<le> 0 \<or> resp_length resp \<le> f_cache_budget f)")
    case True
    then obtain cap f1 where cap: "capture_and_page env f u resp skey = (res, cap, f1)"
      using run status by (auto simp: fetch_response_def split: prod.splits)
    have "?mb < max_int64" using range by simp
    with read_chunk_whole [of 0 ?mb ?B] range body obtain page t b1
      where chunk: "read_chunk (resp_body resp) ?mb 0 = (Inr (page, t), b1)"
      by (metis order_refl prod.collapse)
    obtain rest ended where rest:
      "capture_rest (env_timely env) b1 (wrap64 (f_cache_budget f - blen page)) = (rest, ended)"
      by fastforce
    define body' where "body' = (if ended then page @ rest else page)"
    have "\<exists>n. body' = take n ?B"
      using captured_prefix [OF chunk] first_chunk_prefix [OF chunk] rest by (auto simp: body'_def)
    then have "blen body' \<le> blen ?B" by auto
    with range page_result_total [of 0 ?mb body']
    have "\<exists>r. page_result ?mb (url_redacted u) (resp_status resp) (resp_content_type resp) body' 0 = Inr r"
      by simp
    then show ?thesis
      using cap chunk rest by (auto simp: capture_and_page_def body'_def Let_def split: if_splits)
  next
    case False
    with run status direct show ?thesis by (auto simp: fetch_response_def Let_def split: if_splits)
  qed
qed

lemma fetch_doc_total:
  assumes sat: "fetcher_sat S R f" and run: "fetch_doc env f raw off caller = (res, f', reqs)"
    and req: "trim_space raw \<noteq> []" "0 \<le> off" "env_parse env raw = Inr u" "url_scheme u \<in> {''http'', ''https''}"
      "env_origin env (url_string u) = Inr resp"
    and resp: "200 \<le> resp_status resp" "resp_status resp \<le> 299" "ending (resp_body resp) = IoEOF"
      "blen (pending (resp_body resp)) + f_max_bytes f < max_int64"
    and snap: "\<And>e. S (snap_key caller raw) e \<Longrightarrow> caller \<noteq> [] \<Longrightarrow> blen (doc_body e) + f_max_bytes f \<le> max_int64"
  shows "\<exists>r. res = Inr r"
proof -
  let ?sk = "snap_key caller raw" and ?rk = "result_key caller raw off"
  obtain r1 f1 where l1: "lookup_result env f ?rk = (r1, f1)" by fastforce
  obtain r2 f2 where l2: "lookup_snapshot env f1 ?sk = (r2, f2)" by fastforce
  note s1 = lookup_result_sat [OF sat l1]
  note s2 = lookup_snapshot_sat [OF conjunct1 [OF s1] l2]
  have cfg: "f_max_bytes f2 = f_max_bytes f" "0 \<le> f_max_bytes f"
    using s1 s2 sat by (auto simp: same_config_def fetcher_sat_def fetcher_inv_def)
  have get: "do_get env u = (Inr resp, [url_string u])" using req by (simp add: do_get_def)
  consider r where "r1 = Some r" | e where "r1 = None" "r2 = Some e" | "r1 = None" "r2 = None" by blast
  then show ?thesis
  proof cases
    case (2 e)
    with run req l1 l2 have "res = page_result (f_max_bytes f) (url_redacted u) (doc_status e)
        (doc_content_type e) (doc_body e) off"
      by (auto simp: fetch_doc_def Let_def cfg)
    moreover have "blen (doc_body e) + f_max_bytes f \<le> max_int64"
      using s2 2 by (auto intro!: snap simp: snap_key_def)
    ultimately show ?thesis using page_result_total req cfg by simp
  next
    case 3
    with run req l1 l2 get have "fetch_response env f2 u resp off ?sk ?rk = (res, f')"
      by (auto simp: fetch_doc_def Let_def split: prod.splits)
    from fetch_response_total [OF this] show ?thesis using resp req cfg by simp
  qed (use run req l1 in \<open>auto simp: fetch_doc_def Let_def\<close>)
qed

subsection \<open>Paging through the caches\<close>

text \<open>
  A world in which every raw URL names one document. The caches are consistent with it
  when the snapshots are those documents and every stored page is the page of the
  document at its offset, where that offset lies on a rune boundary.
\<close>

definition doc_of :: "http_response \<Rightarrow> doc_entry" where
  "doc_of resp = \<lparr>doc_body = pending (resp_body resp), doc_status = resp_status resp,
                  doc_content_type = resp_content_type resp\<rparr>"

definition page_ok :: "int \<Rightarrow> http_response \<Rightarrow> int \<Rightarrow> fetch_result \<Rightarrow> bool" where
  "page_ok mb resp off r \<longleftrightarrow>
     (valid_utf8 (drop (nat off) (pending (resp_body resp))) \<longrightarrow>
        page_from (pending (resp_body resp)) off mb = Some (res_content r, res_truncated r, res_next r))"

definition snap_of_world :: "(string \<Rightarrow> http_response) \<Rightarrow> string \<Rightarrow> doc_entry \<Rightarrow> bool" where
  "snap_of_world world k e \<longleftrightarrow>
     (\<exists>c u. k = snap_key c u \<and> c \<noteq> [] \<and> nul \<notin> set c \<and> e = doc_of (world u))"

definition result_of_world :: "int \<Rightarrow> (string \<Rightarrow> http_response) \<Rightarrow> string \<Rightarrow> fetch_result \<Rightarrow> bool" where
  "result_of_world mb world k r \<longleftrightarrow>
     (\<exists>c u off. k = result_key c u off \<and> c \<noteq> [] \<and> nul \<notin> set c \<and> page_ok mb (world u) off r)"

text \<open>
  A complete response of a size the budget can tell apart from a longer one: a body one
  byte longer than the snapshot budget has to announce its length (see
  \<open>captured_snapshot_may_lose_last_byte\<close> for why).
\<close>

definition complete_response :: "int \<Rightarrow> int \<Rightarrow> http_response \<Rightarrow> bool" where
  "complete_response mb budget resp \<longleftrightarrow>
     200 \<le> resp_status resp \<and> resp_status resp \<le> 299 \<and> ending (resp_body resp) = IoEOF
     \<and> blen (pending (resp_body resp)) + mb < max_int64
     \<and> (blen (pending (resp_body resp)) = budget + 1 \<longrightarrow> budget < resp_length resp)"

lemma page_result_page:
  "page_result mb u st ct body off = Inr r
   \<Longrightarrow> page_from body off mb = Some (res_content r, res_truncated r, res_next r)"
  by (auto simp: page_result_def make_result_def split: option.splits)

lemma page_from_first:
  assumes "blen body + mb \<le> max_int64" "0 \<le> mb" "nat mb < m \<or> length body \<le> m"
  shows "page_from (take m body) 0 mb = page_from body 0 mb"
proof (cases "length body \<le> m")
  case False
  with assms have "nat mb < m" "mb < blen body" "mb < blen (take m body)" "nat mb < length body" by auto
  moreover from this have "body \<noteq> []" by auto
  ultimately show ?thesis
    using assms by (simp add: page_from_in_range Let_def min_def)
qed simp

lemma captured_body:
  assumes chunk: "read_chunk \<lparr>pending = B, ending = IoEOF\<rparr> mb 0 = (Inr (page, t), b1)"
    and cap: "capture_rest timely b1 (wrap64 (budget - blen page)) = (rest, True)"
    and range: "0 < mb" "mb \<le> budget" "2 * budget \<le> max_int64" "blen B + mb < max_int64"
  shows "\<exists>m. page @ rest = take m B \<and> (nat mb < m \<or> length B \<le> m)
    \<and> (blen (page @ rest) \<le> budget \<longrightarrow> blen B \<noteq> budget + 1 \<longrightarrow> page @ rest = B)"
proof -
  have page: "page = take (nat mb + 1) B"
    using read_chunk_whole [of 0 mb B] range chunk by simp
  from read_chunk_first [OF chunk] page have pend: "pending b1 = drop (nat mb + 1) B"
    by (metis append_eq_conv_conj append_take_drop_id drop_all drop_eq_Nil2 length_take
        min.cobounded2 reader.select_convs(1) same_append_eq take_all_iff append_Nil2)
  have lenp: "blen page \<le> mb + 1" using page range by simp
  then have w: "wrap64 (budget - blen page) = budget - blen page"
    using range by (intro wrap64_id) (auto simp: fits64_def min_int64_def max_int64_def)
  note fin = capture_rest_done [OF cap, unfolded w]
  have all: "page @ rest = take (nat mb + 1 + nat (budget - blen page)) B"
  proof -
    have "rest = take (nat (budget - blen page)) (drop (nat mb + 1) B)" using fin pend by simp
    then show ?thesis
      by (simp only: take_add [of "nat mb + 1" "nat (budget - blen page)"] flip: page)
  qed
  show ?thesis
  proof (intro exI [of _ "nat mb + 1 + nat (budget - blen page)"] conjI impI)
    assume fits: "blen (page @ rest) \<le> budget" and len: "blen B \<noteq> budget + 1"
    show "page @ rest = B"
    proof (cases "length B \<le> nat mb + 1")
      case True
      with all show ?thesis by simp
    next
      case False
      then have lp: "blen page = mb + 1" using page range by simp
      have "blen B - (mb + 1) \<le> max 0 (budget - (mb + 1)) + 1"
        using fin pend False lp range by simp
      moreover have "mb + 1 \<le> budget" using fits lp by simp
      ultimately have "blen B \<le> budget" using len by simp
      with all lp \<open>mb + 1 \<le> budget\<close> show ?thesis by simp
    qed
  qed (use all in auto)
qed

lemma fetch_static:
  assumes sat: "fetcher_sat (snap_of_world world) (result_of_world (f_max_bytes f) world) f"
    and run: "fetch_doc env f raw off caller = (res, f', reqs)"
    and caller: "nul \<notin> set caller"
    and req: "trim_space raw \<noteq> []" "0 \<le> off" "env_parse env raw = Inr u" "url_scheme u \<in> {''http'', ''https''}"
      "env_origin env (url_string u) = Inr (world raw)"
    and resp: "complete_response (f_max_bytes f) (f_cache_budget f) (world raw)"
  shows "fetcher_sat (snap_of_world world) (result_of_world (f_max_bytes f) world) f'
    \<and> same_config f f' \<and> (\<exists>r. res = Inr r \<and> page_ok (f_max_bytes f) (world raw) off r)"
proof -
  let ?mb = "f_max_bytes f" and ?B = "pending (resp_body (world raw))"
  have range: "0 < ?mb" "?mb \<le> f_cache_budget f" "2 * f_cache_budget f \<le> max_int64" "blen ?B + ?mb < max_int64"
    using sat resp by (simp_all add: fetcher_sat_def fetcher_inv_def complete_response_def)
  have body: "resp_body (world raw) = \<lparr>pending = ?B, ending = IoEOF\<rparr>"
    using resp by (simp add: complete_response_def)
  have snap: "e = doc_of (world raw)" if "snap_of_world world (snap_key caller raw) e" "caller \<noteq> []" for e
    using that snap_key_inj caller unfolding snap_of_world_def by blast
  have keep: "result_key caller raw off \<noteq> [] \<longrightarrow> result_of_world ?mb world (result_key caller raw off) r"
    if "page_ok ?mb (world raw) off r" for r
    using that caller by (auto simp: result_of_world_def result_key_def)
  have "fetcher_sat (snap_of_world world) (result_of_world ?mb world) f' \<and> same_config f f'
    \<and> (\<forall>r. res = Inr r \<longrightarrow> page_ok ?mb (world raw) off r)"
  proof (rule fetch_doc_sat [OF sat run])
    fix r assume "result_of_world ?mb world (result_key caller raw off) r" "caller \<noteq> []"
    then show "page_ok ?mb (world raw) off r"
      using result_key_inj caller unfolding result_of_world_def by blast
  next
    fix v e r assume "snap_of_world world (snap_key caller raw) e" "caller \<noteq> []"
      "page_result ?mb (url_redacted v) (doc_status e) (doc_content_type e) (doc_body e) off = Inr r"
    then show "page_ok ?mb (world raw) off r"
      using snap page_result_page by (fastforce simp: page_ok_def doc_of_def)
  next
    fix v resp assume "env_parse env raw = Inr v" "env_origin env (url_string v) = Inr resp"
    then have resp': "resp = world raw" using req by simp
    show "ways_from_response (snap_of_world world) (result_of_world ?mb world)
        (page_ok ?mb (world raw) off) env f v resp off (snap_key caller raw) (result_key caller raw off)"
      unfolding ways_from_response_def resp'
    proof (intro conjI allI impI; (elim conjE)?)
      fix r assume s: "page_from_stream ?mb (url_redacted v) (resp_status (world raw))
          (resp_content_type (world raw)) (resp_body (world raw)) off = Inr r"
      have "page_ok ?mb (world raw) off r"
        using s range req cut_valid [of "drop (nat off) ?B"]
        by (subst (asm) body, subst (asm) page_from_stream_whole)
          (auto simp: page_ok_def page_from_in_range make_result_def Let_def split: if_splits)
      then show "page_ok ?mb (world raw) off r"
        "result_key caller raw off \<noteq> [] \<Longrightarrow> result_of_world ?mb world (result_key caller raw off) r"
        using keep by blast+
    next
      fix page t b1 r
      assume "off = 0" "read_chunk (resp_body (world raw)) ?mb 0 = (Inr (page, t), b1)"
        "page_result ?mb (url_redacted v) (resp_status (world raw)) (resp_content_type (world raw)) page 0 = Inr r"
      moreover from this(2) have "page = take (nat ?mb + 1) ?B"
        using read_chunk_whole [of 0 ?mb ?B] range body by simp
      ultimately have "page_ok ?mb (world raw) off r"
        using page_from_first [of ?B ?mb "nat ?mb + 1"] range page_result_page
        by (fastforce simp: page_ok_def)
      then show "page_ok ?mb (world raw) off r"
        "result_key caller raw off \<noteq> [] \<Longrightarrow> result_of_world ?mb world (result_key caller raw off) r"
        using keep by blast+
    next
      fix page t b1 rest
      assume off: "off = 0" and sk: "snap_key caller raw \<noteq> []"
        and len: "resp_length (world raw) \<le> 0 \<or> resp_length (world raw) \<le> f_cache_budget f"
        and chunk: "read_chunk (resp_body (world raw)) ?mb 0 = (Inr (page, t), b1)"
        and cap: "capture_rest (env_timely env) b1 (wrap64 (f_cache_budget f - blen page)) = (rest, True)"
      have chunk': "read_chunk \<lparr>pending = ?B, ending = IoEOF\<rparr> ?mb 0 = (Inr (page, t), b1)"
        using chunk by (subst (asm) body)
      obtain m where m: "page @ rest = take m ?B" "nat ?mb < m \<or> length ?B \<le> m"
        "blen (page @ rest) \<le> f_cache_budget f \<Longrightarrow> blen ?B \<noteq> f_cache_budget f + 1 \<Longrightarrow> page @ rest = ?B"
        using captured_body [OF chunk' cap range] by blast
      have "blen ?B \<noteq> f_cache_budget f + 1"
        using resp len range by (auto simp: complete_response_def)
      with m(3) sk caller
      show "blen (page @ rest) \<le> f_cache_budget f \<Longrightarrow> snap_of_world world (snap_key caller raw)
          \<lparr>doc_body = page @ rest, doc_status = resp_status (world raw),
           doc_content_type = resp_content_type (world raw)\<rparr>"
        by (auto simp: snap_of_world_def doc_of_def snap_key_def)
      fix r assume "page_result ?mb (url_redacted v) (resp_status (world raw))
          (resp_content_type (world raw)) (page @ rest) 0 = Inr r"
      then have "page_ok ?mb (world raw) off r"
        using page_from_first [OF _ _ m(2)] range off page_result_page m(1)
        by (fastforce simp: page_ok_def)
      then show "page_ok ?mb (world raw) off r"
        "result_key caller raw off \<noteq> [] \<Longrightarrow> result_of_world ?mb world (result_key caller raw off) r"
        using keep by blast+
    qed
  qed
  moreover have "\<exists>r. res = Inr r"
  proof (rule fetch_doc_total [OF sat run req])
    show "200 \<le> resp_status (world raw)" "resp_status (world raw) \<le> 299"
      "ending (resp_body (world raw)) = IoEOF" "blen ?B + ?mb < max_int64"
      using resp by (simp_all add: complete_response_def)
    show "blen (doc_body e) + ?mb \<le> max_int64"
      if "snap_of_world world (snap_key caller raw) e" "caller \<noteq> []" for e
      using snap [OF that] range by (simp add: doc_of_def)
  qed
  ultimately show ?thesis by blast
qed

subsection \<open>The client protocol: follow next_offset until truncated is false\<close>

fun fetch_all :: "nat \<Rightarrow> (nat \<Rightarrow> fetch_env) \<Rightarrow> fetcher \<Rightarrow> string \<Rightarrow> string \<Rightarrow> int \<Rightarrow> bytes list option" where
  "fetch_all 0 envs f raw caller off = None"
| "fetch_all (Suc fuel) envs f raw caller off =
     (case fetch_doc (envs fuel) f raw off caller of
        (Inl e, f', reqs) \<Rightarrow> None
      | (Inr r, f', reqs) \<Rightarrow>
          if res_truncated r
          then map_option (Cons (res_content r)) (fetch_all fuel envs f' raw caller (res_next r))
          else Some [res_content r])"

lemma page_from_next:
  assumes "page_from body off mb = Some (c, True, nxt)" "0 \<le> off" "0 \<le> mb"
    "blen body + mb \<le> max_int64" "valid_utf8 (drop (nat off) body)"
  shows "0 \<le> nxt \<and> valid_utf8 (drop (nat nxt) body)"
proof -
  let ?rest = "drop (nat off) body"
  let ?cut = "cut_to_utf8_boundary (take (nat mb) ?rest)"
  have eq: "off + mb < blen body" "c = ?cut" "nxt = off + blen ?cut"
    using assms by (auto simp: page_from_in_range Let_def split: if_splits)
  then have "nat mb \<le> length ?rest" using assms by simp
  from cut_valid_prefix [OF assms(5) this] obtain k where k: "k \<le> nat mb" "?cut = take k ?rest"
    "valid_utf8 (drop k ?rest)" by blast
  then have "length ?cut = k" using \<open>nat mb \<le> length ?rest\<close> by simp
  with k eq assms(2) show ?thesis by (simp add: nat_add_distrib add.commute)
qed

lemma fetch_all_eq_read_pages:
  assumes "fetcher_sat (snap_of_world world) (result_of_world (f_max_bytes f) world) f"
    "nul \<notin> set caller" "trim_space raw \<noteq> []" "0 \<le> off" "url_scheme u \<in> {''http'', ''https''}"
    "\<And>i. env_parse (envs i) raw = Inr u" "\<And>i. env_origin (envs i) (url_string u) = Inr (world raw)"
    "complete_response (f_max_bytes f) (f_cache_budget f) (world raw)"
    "valid_utf8 (drop (nat off) (pending (resp_body (world raw))))"
  shows "fetch_all fuel envs f raw caller off
    = read_pages fuel (pending (resp_body (world raw))) (f_max_bytes f) off"
  using assms
proof (induction fuel arbitrary: f off)
  case (Suc fuel)
  let ?B = "pending (resp_body (world raw))"
  obtain res f' reqs where run: "fetch_doc (envs fuel) f raw off caller = (res, f', reqs)"
    by (metis prod.collapse)
  note st = fetch_static [OF Suc.prems(1) run Suc.prems(2-4) Suc.prems(6) [of fuel] Suc.prems(5)
      Suc.prems(7) [of fuel] Suc.prems(8)]
  then obtain r where res: "res = Inr r" "page_ok (f_max_bytes f) (world raw) off r" by blast
  then have page: "page_from ?B off (f_max_bytes f) = Some (res_content r, res_truncated r, res_next r)"
    using Suc.prems(9) by (simp add: page_ok_def)
  show ?case
  proof (cases "res_truncated r")
    case True
    have range: "0 \<le> f_max_bytes f" "blen ?B + f_max_bytes f \<le> max_int64"
      using Suc.prems(1,8) by (simp_all add: fetcher_sat_def fetcher_inv_def complete_response_def)
    from page True have "page_from ?B off (f_max_bytes f) = Some (res_content r, True, res_next r)" by simp
    from page_from_next [OF this Suc.prems(4) range Suc.prems(9)]
    have nxt: "0 \<le> res_next r" "valid_utf8 (drop (nat (res_next r)) ?B)" by simp_all
    from st have cfg: "f_max_bytes f' = f_max_bytes f" "f_cache_budget f' = f_cache_budget f"
      by (simp_all add: same_config_def)
    have "fetch_all fuel envs f' raw caller (res_next r) = read_pages fuel ?B (f_max_bytes f) (res_next r)"
      using Suc.IH [of f' "res_next r"] st nxt Suc.prems cfg by simp
    with run res page True show ?thesis by simp
  qed (use run res page in simp)
qed simp

subsection \<open>Failures, repeats and captures\<close>

lemma lookup_result_keeps:
  assumes "fetcher_inv f" "lookup_result env f key = (r, f1)"
  shows "f_snapshots f1 = f_snapshots f"
    "cache_stored (f_results f1) k = Some x \<Longrightarrow> cache_stored (f_results f) k = Some x"
    "r = None \<Longrightarrow> key \<noteq> [] \<Longrightarrow> cache_stored (f_results f1) key = None"
    "ttl (f_results f1) = ttl (f_results f)"
  using assms
  by (auto simp: lookup_result_def fetcher_inv_def cache_get_def cache_stored_def delete_locked_def
      delete_conv split: if_splits option.splits)

lemma lookup_snapshot_keeps:
  assumes "fetcher_inv f" "lookup_snapshot env f key = (r, f1)"
  shows "f_results f1 = f_results f"
    "cache_stored (f_snapshots f1) k = Some x \<Longrightarrow> cache_stored (f_snapshots f) k = Some x"
    "ttl (f_snapshots f1) = ttl (f_snapshots f)"
  using assms
  by (auto simp: lookup_snapshot_def fetcher_inv_def cache_get_def cache_stored_def delete_locked_def
      delete_conv split: if_splits option.splits)

lemma fetch_response_error:
  assumes "fetch_response env f u resp off skey rkey = (Inl e, f')" "e \<noteq> SliceBounds"
  shows "f' = f"
proof -
  have "f1 = f" if "capture_and_page env f u resp skey = (Inl e, cap, f1)" for cap f1
    using that assms(2)
    by (auto simp: capture_and_page_def page_result_def Let_def split: prod.splits sum.splits
        option.splits if_splits)
  with assms show ?thesis
    by (auto simp: fetch_response_def store_result_def ok_result_def Let_def
        split: if_splits prod.splits sum.splits)
qed

lemma sat_trivial: "fetcher_sat (\<lambda>_ _. True) (\<lambda>_ _. True) f \<longleftrightarrow> fetcher_inv f"
  by (simp add: fetcher_sat_def all_stored_def)

text \<open>A run that reaches the origin missed in both caches.\<close>

lemma fetch_doc_contacts:
  assumes inv: "fetcher_inv f" and run: "fetch_doc env f raw off caller = (res, f', reqs)" and "reqs \<noteq> []"
  obtains u f1 f2 where "trim_space raw \<noteq> []" "0 \<le> off" "env_parse env raw = Inr u"
    "url_scheme u = ''http'' \<or> url_scheme u = ''https''" "reqs = [url_string u]"
    "lookup_result env f (result_key caller raw off) = (None, f1)"
    "lookup_snapshot env f1 (snap_key caller raw) = (None, f2)"
    "fetcher_inv f1" "fetcher_inv f2" "same_config f f2"
    "(\<exists>e. res = Inl e \<and> f' = f2) \<or> (\<exists>resp. env_origin env (url_string u) = Inr resp
       \<and> fetch_response env f2 u resp off (snap_key caller raw) (result_key caller raw off) = (res, f'))"
proof -
  let ?sk = "snap_key caller raw" and ?rk = "result_key caller raw off"
  obtain r1 f1 where l1: "lookup_result env f ?rk = (r1, f1)" by fastforce
  obtain r2 f2 where l2: "lookup_snapshot env f1 ?sk = (r2, f2)" by fastforce
  note s1 = lookup_result_sat [OF inv [folded sat_trivial] l1]
  note s2 = lookup_snapshot_sat [OF conjunct1 [OF s1] l2]
  have ok: "trim_space raw \<noteq> []" "0 \<le> off" using run assms(3) by (auto simp: fetch_doc_def split: if_splits)
  with run assms(3) obtain u where u: "env_parse env raw = Inr u"
    "url_scheme u = ''http'' \<or> url_scheme u = ''https''"
    by (auto simp: fetch_doc_def split: sum.splits if_splits)
  have miss: "r1 = None" "r2 = None"
    using run assms(3) ok u l1 l2 by (auto simp: fetch_doc_def Let_def split: option.splits)
  have rest: "reqs = [url_string u] \<and> ((\<exists>e. res = Inl e \<and> f' = f2) \<or> (\<exists>resp. env_origin env (url_string u) = Inr resp
       \<and> fetch_response env f2 u resp off ?sk ?rk = (res, f')))"
    using run assms(3) ok u l1 l2 miss
    by (auto simp: fetch_doc_def Let_def do_get_def split: sum.splits get_error.splits prod.splits)
  show ?thesis
    using that [OF ok u conjunct1 [OF rest]] l1 l2 miss s1 s2 rest same_config_trans sat_trivial by blast
qed

lemma fetch_doc_error_keeps:
  assumes inv: "fetcher_inv f" and run: "fetch_doc env f raw off caller = (Inl e, f', reqs)" "e \<noteq> SliceBounds"
  shows "(cache_stored (f_results f') k = Some x \<longrightarrow> cache_stored (f_results f) k = Some x)
    \<and> (cache_stored (f_snapshots f') k = Some y \<longrightarrow> cache_stored (f_snapshots f) k = Some y)"
proof -
  let ?sk = "snap_key caller raw" and ?rk = "result_key caller raw off"
  obtain r1 f1 where l1: "lookup_result env f ?rk = (r1, f1)" by fastforce
  obtain r2 f2 where l2: "lookup_snapshot env f1 ?sk = (r2, f2)" by fastforce
  have inv1: "fetcher_inv f1"
    using lookup_result_sat [OF inv [folded sat_trivial] l1] sat_trivial by blast
  note k1 = lookup_result_keeps(1,2) [OF inv l1] and k2 = lookup_snapshot_keeps(1,2) [OF inv1 l2]
  have "f' = f \<or> f' = f2"
    using run l1 l2
    by (auto simp: fetch_doc_def Let_def page_result_def do_get_def dest: fetch_response_error
        split: if_splits sum.splits option.splits prod.splits get_error.splits)
  moreover have "cache_stored (f_results f2) k = Some x \<Longrightarrow> cache_stored (f_results f) k = Some x"
    using k1(2) [of k x] k2(1) by simp
  moreover have "cache_stored (f_snapshots f2) k = Some y \<Longrightarrow> cache_stored (f_snapshots f) k = Some y"
    using k2(2) [of k y] k1(1) by simp
  ultimately show ?thesis by blast
qed

lemma lookup_result_after_put:
  assumes "fetcher_inv g" "key \<noteq> []" "blen (res_content r) \<le> f_cache_budget g"
    "f_results f = cache_put t key r (blen (res_content r)) (f_results g)"
    "0 < ttl (f_results g)" "ttl (f_results g) \<le> max_int64" "env_clock env 0 - t \<le> ttl (f_results g)"
  shows "\<exists>f1. lookup_result env f key = (Some r, f1)"
proof -
  have "fst (cache_get (env_clock env 0) key (f_results f)) = Some r"
    unfolding assms(4) using assms(1,3,5-7)
    by (intro mem.put_then_get)
      (auto simp: fetcher_inv_def cache_max_bytes_def cache_live_def expired_def time_sub_def min_int64_def)
  then show ?thesis
    using assms(2) by (auto simp: lookup_result_def split: prod.splits)
qed

lemma lookup_snapshot_after_put:
  assumes "fetcher_inv g" "key \<noteq> []" "n \<le> f_cache_budget g" "0 \<le> n"
    "f_snapshots f = cache_put t key e n (f_snapshots g)"
    "0 < ttl (f_snapshots g)" "ttl (f_snapshots g) \<le> max_int64" "env_clock env 1 - t \<le> ttl (f_snapshots g)"
  shows "\<exists>f1. lookup_snapshot env f key = (Some e, f1) \<and> f_max_bytes f1 = f_max_bytes f"
proof -
  have "fst (cache_get (env_clock env 1) key (f_snapshots f)) = Some e"
    unfolding assms(5) using assms(1,3,4,6-8)
    by (intro mem.put_then_get)
      (auto simp: fetcher_inv_def cache_max_bytes_def cache_live_def expired_def time_sub_def min_int64_def)
  then show ?thesis
    using assms(2) by (auto simp: lookup_snapshot_def split: prod.splits)
qed

text \<open>After a successful exchange for a caller, the page is stored in one of the two caches.\<close>

lemma fetch_response_stores:
  assumes "fetch_response env f u resp off skey rkey = (Inr r, f')" "skey \<noteq> []" "rkey \<noteq> []"
  shows "(f_results f' = cache_put (env_clock env 3) rkey r (blen (res_content r)) (f_results f)
          \<and> f_max_bytes f' = f_max_bytes f)
    \<or> (\<exists>body. blen body \<le> f_cache_budget f \<and> f_results f' = f_results f \<and> f_max_bytes f' = f_max_bytes f
        \<and> off = 0
        \<and> f_snapshots f' = cache_put (env_clock env 2) skey
            \<lparr>doc_body = body, doc_status = resp_status resp, doc_content_type = resp_content_type resp\<rparr>
            (blen body) (f_snapshots f)
        \<and> page_result (f_max_bytes f) (url_redacted u) (resp_status resp) (resp_content_type resp) body 0 = Inr r)"
  using assms
  by (auto simp: fetch_response_def capture_and_page_def store_result_def ok_result_def Let_def
      split: if_splits prod.splits sum.splits)

lemma fetch_response_bytes:
  assumes "fetch_response env f u resp off skey rkey = (Inr r, f')" "fetcher_inv f"
  shows "blen (res_content r) \<le> f_max_bytes f"
proof -
  have mb: "0 \<le> f_max_bytes f" "f_max_bytes f \<le> max_int64" using assms(2) by (simp_all add: fetcher_inv_def)
  from assms(1) consider
    "page_from_stream (f_max_bytes f) (url_redacted u) (resp_status resp) (resp_content_type resp)
       (resp_body resp) off = Inr r"
    | body where "page_result (f_max_bytes f) (url_redacted u) (resp_status resp)
        (resp_content_type resp) body 0 = Inr r"
    by (auto simp: fetch_response_def capture_and_page_def Let_def split: if_splits prod.splits sum.splits)
  then show ?thesis
    using page_from_stream_bytes page_result_bytes mb by cases (auto simp: max_int64_def)
qed

declare fetch_all.simps [simp del]

subsection \<open>An environment for the examples\<close>

definition example_response :: "bytes \<Rightarrow> http_response" where
  "example_response body = \<lparr>resp_status = 200, resp_status_text = ''200 OK'',
     resp_content_type = ''text/plain'', resp_length = -1,
     resp_body = \<lparr>pending = body, ending = IoEOF\<rparr>\<rparr>"

definition example_env :: "bytes \<Rightarrow> time \<Rightarrow> fetch_env" where
  "example_env body now = \<lparr>env_parse = (\<lambda>s. Inr \<lparr>url_scheme = ''http'', url_redacted = s, url_string = s\<rparr>),
     env_origin = (\<lambda>_. Inr (example_response body)), env_clock = (\<lambda>_. now), env_timely = True\<rparr>"

lemmas example_defs = example_response_def example_env_def

lemma new_fetcher_misses:
  "lookup_result env (new_fetcher t m b d) k = (None, new_fetcher t m b d)"
  "lookup_snapshot env (new_fetcher t m b d) k = (None, new_fetcher t m b d)"
proof -
  have get: "cache_get now k (new_cache n d) = (None, new_cache n d)" for now n d and k :: string
    by (simp add: cache_get_def new_cache_def)
  show "lookup_result env (new_fetcher t m b d) k = (None, new_fetcher t m b d)"
    by (simp add: lookup_result_def new_fetcher_def get Let_def)
  show "lookup_snapshot env (new_fetcher t m b d) k = (None, new_fetcher t m b d)"
    by (simp add: lookup_snapshot_def new_fetcher_def get Let_def)
qed

lemma fetch_doc_new:
  assumes "trim_space raw \<noteq> []" "0 \<le> off" "env_parse env raw = Inr u"
    "url_scheme u = ''http'' \<or> url_scheme u = ''https''"
  shows "fetch_doc env (new_fetcher t m b d) raw off caller =
    (case do_get env u of
       (Inl e, reqs) \<Rightarrow> (Inl e, new_fetcher t m b d, reqs)
     | (Inr resp, reqs) \<Rightarrow>
         case fetch_response env (new_fetcher t m b d) u resp off (snap_key caller raw)
                (result_key caller raw off) of (res, f3) \<Rightarrow> (res, f3, reqs))"
  using assms by (auto simp: fetch_doc_def Let_def new_fetcher_misses split: prod.splits sum.splits)

lemma example_url: "trim_space ''http://x'' = ''http://x''"
  by (rule trim_space_visible) simp_all

subsection \<open>Properties\<close>

text \<open>C7: the pages of a text document put together are the document. Take a parsed http or https URL whose
  origin answers every exchange with the same response: status 2xx, a body that ends, is
  valid UTF-8 and fits the sizes of int64, and is not exactly one byte longer than the cache
  budget with no length declared above it. Take a page size of at least 4 bytes, and caches
  whose entries, if any, come from the responses of these origins (an empty cache will do).
  Then, whatever the caches evict or let expire in between, however the capture race ends and
  whatever the clock reads, a client that follows next_offset until truncated is
  false terminates, and the pages it collects are that document: valid UTF-8 each, at most a
  page long, and nothing lost, doubled or shifted between them. What happens to
  binary bodies is shown in Paging, and to those one byte over the budget by
  \<open>captured_snapshot_may_lose_last_byte\<close>.\<close>

theorem fetch_pages_reassemble:
  assumes "fetcher_sat (snap_of_world world) (result_of_world (f_max_bytes f) world) f"
    "4 \<le> f_max_bytes f" "nul \<notin> set caller" "trim_space raw \<noteq> []" "url_scheme u \<in> {''http'', ''https''}"
    "\<And>i. env_parse (envs i) raw = Inr u" "\<And>i. env_origin (envs i) (url_string u) = Inr (world raw)"
    "complete_response (f_max_bytes f) (f_cache_budget f) (world raw)"
    "valid_utf8 (pending (resp_body (world raw)))"
  shows "\<exists>pages. fetch_all (Suc (length (pending (resp_body (world raw))))) envs f raw caller 0 = Some pages
    \<and> concat pages = pending (resp_body (world raw))
    \<and> (\<forall>p \<in> set pages. valid_utf8 p \<and> blen p \<le> f_max_bytes f)"
proof -
  let ?B = "pending (resp_body (world raw))"
  have range: "blen ?B + f_max_bytes f \<le> max_int64"
    using assms(8) by (simp add: complete_response_def)
  obtain pages where pages: "read_pages (Suc (length ?B)) ?B (f_max_bytes f) 0 = Some pages"
    "\<forall>p \<in> set pages. valid_utf8 p"
    using read_pages_terminates [of 0 ?B "f_max_bytes f" "Suc (length ?B)"] assms(2,9) range by auto
  have "fetch_all (Suc (length ?B)) envs f raw caller 0 = Some pages"
    using fetch_all_eq_read_pages [OF assms(1,3,4) _ assms(5-8), of 0 "Suc (length ?B)"] assms(9) pages
    by simp
  with read_pages_concat [OF pages(1)] assms(2) range pages show ?thesis by auto
qed

theorem fetch_pages_reassemble_witness:
  "\<exists>pages. fetch_all (Suc (length ''abcdefghijk'')) (\<lambda>i. example_env ''abcdefghijk'' (int i))
      (new_fetcher 0 4 8 0) ''http://x'' ''agent'' 0 = Some pages \<and> concat pages = ''abcdefghijk''"
proof -
  let ?B = "''abcdefghijk''" and ?f = "new_fetcher 0 4 8 0"
  let ?w = "\<lambda>_. example_response ?B" and ?envs = "\<lambda>i. example_env ?B (int i)"
  let ?u = "\<lparr>url_scheme = ''http'', url_redacted = ''http://x'', url_string = ''http://x''\<rparr>"
  have cfg: "f_max_bytes ?f = 4" "f_cache_budget ?f = 8" by (simp_all add: new_fetcher_sel(2,3))
  have sat: "fetcher_sat (snap_of_world ?w) (result_of_world (f_max_bytes ?f) ?w) ?f"
    by (rule new_fetcher_sat) (simp_all add: max_int64_def)
  have body: "pending (resp_body (example_response ?B)) = ?B" by (simp add: example_response_def)
  have "complete_response (f_max_bytes ?f) (f_cache_budget ?f) (example_response ?B)"
    unfolding cfg by (simp add: complete_response_def example_defs max_int64_def)
  moreover have "nul \<notin> set ''agent''" "4 \<le> f_max_bytes ?f" "trim_space ''http://x'' \<noteq> []"
    "url_scheme ?u \<in> {''http'', ''https''}" "valid_utf8 ?B"
    by (simp_all add: nul_def cfg example_url)
  moreover have "env_parse (?envs i) ''http://x'' = Inr ?u"
    "env_origin (?envs i) (url_string ?u) = Inr (example_response ?B)" for i
    by (simp_all add: example_env_def)
  ultimately show ?thesis
    using fetch_pages_reassemble [OF sat, of "''agent''" "''http://x''" ?u ?envs] unfolding body by blast
qed

text \<open>Agents are isolated. Over any run, if every cached document and page came from a response
  obtained for the agent and URL of its key, then what Fetch answers to an agent is a piece,
  at the requested offset, of a response that was obtained for the same agent and the same
  URL, and the caches stay that way. Another agent's document is never served.\<close>

theorem fetch_serves_own_documents:
  assumes "fetcher_sat (snap_origin obtained) (result_origin obtained) f" "nul \<notin> set caller"
    "fetch_doc env f raw off caller = (res, f', reqs)"
    "\<And>u resp. env_parse env raw = Inr u \<Longrightarrow> env_origin env (url_string u) = Inr resp
       \<Longrightarrow> obtained caller raw resp"
  shows "fetcher_sat (snap_origin obtained) (result_origin obtained) f'
    \<and> (\<forall>r. res = Inr r \<longrightarrow> (\<exists>resp. obtained caller raw resp \<and> from_response resp off r))"
  using fetch_provenance [OF assms(1-3)] assms(4) by blast

theorem fetch_serves_own_documents_witness:
  "let ob = (\<lambda>c u r. c = ''a1'' \<and> u = ''http://x'' \<and> r = example_response ''hello'')
   in fetcher_sat (snap_origin ob) (result_origin ob)
        (fst (snd (fetch_doc (example_env ''hello'' 7) (new_fetcher 0 4 8 0) ''http://x'' 0 ''a1'')))"
proof -
  define ob where "ob = (\<lambda>c u r. c = ''a1'' \<and> u = ''http://x'' \<and> r = example_response ''hello'')"
  obtain res f' reqs where run:
    "fetch_doc (example_env ''hello'' 7) (new_fetcher 0 4 8 0) ''http://x'' 0 ''a1'' = (res, f', reqs)"
    by (metis prod.collapse)
  have "fetcher_sat (snap_origin ob) (result_origin ob) (new_fetcher 0 4 8 0)"
    by (rule new_fetcher_sat) (simp_all add: max_int64_def)
  from fetch_serves_own_documents [OF this _ run]
  have "fetcher_sat (snap_origin ob) (result_origin ob) f'"
    by (simp add: nul_def example_env_def ob_def)
  with run show ?thesis unfolding ob_def Let_def by simp
qed

text \<open>A failed fetch leaves nothing behind: neither cache holds anything after it that it did
  not hold before, so the failure stays retryable.\<close>

theorem failed_fetch_not_cached:
  assumes "fetcher_inv f" "fetch_doc env f raw off caller = (Inl e, f', reqs)" "e \<noteq> SliceBounds"
  shows "(cache_stored (f_results f') k = Some x \<longrightarrow> cache_stored (f_results f) k = Some x)
    \<and> (cache_stored (f_snapshots f') k = Some y \<longrightarrow> cache_stored (f_snapshots f) k = Some y)"
  using assms by (rule fetch_doc_error_keeps)

theorem failed_fetch_not_cached_witness:
  "let env = (example_env ''x'' 1)\<lparr>env_origin := \<lambda>_. Inl (NoResponse ''refused'')\<rparr>
   in case fetch_doc env (new_fetcher 0 4 8 0) ''http://x'' 0 ''a'' of (res, f', reqs) \<Rightarrow>
        res = Inl (FetchFailed ''refused'') \<and> reqs = [''http://x'']
        \<and> cache_stored (f_results f') ''k'' = None"
proof -
  let ?env = "(example_env ''x'' 1)\<lparr>env_origin := \<lambda>_. Inl (NoResponse ''refused'')\<rparr>"
  let ?f' = "new_fetcher 0 4 8 0"
  have run: "fetch_doc ?env (new_fetcher 0 4 8 0) ''http://x'' 0 ''a''
      = (Inl (FetchFailed ''refused''), ?f', [''http://x''])"
    by (subst fetch_doc_new [where u = "\<lparr>url_scheme = ''http'', url_redacted = ''http://x'', url_string = ''http://x''\<rparr>"]) (simp_all add: example_url example_env_def do_get_def)
  have "fetcher_inv (new_fetcher 0 4 8 0)" by (rule new_fetcher_inv) (simp_all add: max_int64_def)
  from failed_fetch_not_cached [OF this run] have "cache_stored (f_results ?f') ''k'' = None"
    by (cases "cache_stored (f_results ?f') ''k''")
      (auto simp: new_fetcher_sel(5) cache_stored_def new_cache_def)
  with run show ?thesis by simp
qed

text \<open>C27: an exact repeat of a request that was just answered by the origin, by the same agent and
  within the TTL, gets the same answer from memory: no request is sent.\<close>

theorem repeat_is_served_from_memory:
  assumes "fetcher_inv f" "fetch_doc env f raw off caller = (Inr r, f', reqs)" "reqs \<noteq> []" "caller \<noteq> []"
    "ttl (f_snapshots f) = d" "ttl (f_results f) = d" "0 < d" "d \<le> max_int64"
    "env_parse env' raw = env_parse env raw" "\<And>i j. env_clock env' i - env_clock env j \<le> d"
  shows "\<exists>f''. fetch_doc env' f' raw off caller = (Inr r, f'', [])"
proof -
  let ?sk = "snap_key caller raw" and ?rk = "result_key caller raw off"
  have keys: "?sk \<noteq> []" "?rk \<noteq> []" using assms(4) by (simp_all add: snap_key_def result_key_def)
  obtain u f1 f2 where a: "trim_space raw \<noteq> []" "0 \<le> off" "env_parse env raw = Inr u"
    "url_scheme u = ''http'' \<or> url_scheme u = ''https''" "reqs = [url_string u]"
    and c: "lookup_result env f ?rk = (None, f1)" "lookup_snapshot env f1 ?sk = (None, f2)"
    "fetcher_inv f1" "fetcher_inv f2" "same_config f f2"
    and resp: "(\<exists>e :: fetch_error. Inr r = Inl e \<and> f' = f2) \<or> (\<exists>resp. env_origin env (url_string u) = Inr resp
       \<and> fetch_response env f2 u resp off ?sk ?rk = (Inr r, f'))"
    by (rule fetch_doc_contacts [OF assms(1-3)])
  note k1 = lookup_result_keeps [OF assms(1) c(1)] and k2 = lookup_snapshot_keeps [OF c(3) c(2)]
  have ttls: "ttl (f_results f2) = d" "ttl (f_snapshots f2) = d" using k1 k2 assms(5,6) by simp_all
  have inv2: "f_max_bytes f2 \<le> f_cache_budget f2" using c(4) by (simp add: fetcher_inv_def)
  from resp obtain resp where resp: "fetch_response env f2 u resp off ?sk ?rk = (Inr r, f')" by auto
  from fetch_response_stores [OF resp keys] show ?thesis
  proof (elim disjE exE conjE)
    assume res: "f_results f' = cache_put (env_clock env 3) ?rk r (blen (res_content r)) (f_results f2)"
    have "\<exists>g. lookup_result env' f' ?rk = (Some r, g)"
      using fetch_response_bytes [OF resp c(4)] inv2 ttls assms(7,8,10)
      by (intro lookup_result_after_put [OF c(4) keys(2) _ res]) auto
    then show ?thesis
      using a c assms(9) by (auto simp: fetch_doc_def Let_def)
  next
    fix body
    let ?e = "\<lparr>doc_body = body, doc_status = resp_status resp, doc_content_type = resp_content_type resp\<rparr>"
    assume snap: "f_snapshots f' = cache_put (env_clock env 2) ?sk ?e (blen body) (f_snapshots f2)"
      and b: "blen body \<le> f_cache_budget f2" "f_results f' = f_results f2" "f_max_bytes f' = f_max_bytes f2"
      and page: "page_result (f_max_bytes f2) (url_redacted u) (resp_status resp) (resp_content_type resp) body 0 = Inr r"
      and off: "off = 0"
    have "cache_stored (f_results f') ?rk = None" using k1(3) k2(1) b keys by simp
    then have miss: "lookup_result env' f' ?rk = (None, f')"
      using keys by (auto simp: lookup_result_def cache_get_def cache_stored_def)
    obtain g where hit: "lookup_snapshot env' f' ?sk = (Some ?e, g)" "f_max_bytes g = f_max_bytes f'"
      using lookup_snapshot_after_put [OF c(4) keys(1) b(1) _ snap, of env'] ttls assms(7,8,10) by auto
    then show ?thesis
      using a c assms(9) miss b page off by (auto simp: fetch_doc_def Let_def)
  qed
qed

theorem repeat_is_served_from_memory_witness:
  "\<exists>r f' f''. fetch_doc (example_env ''hello'' 7) (new_fetcher 0 4 8 0) ''http://x'' 0 ''a'' = (Inr r, f', [''http://x''])
     \<and> fetch_doc (example_env ''changed'' 9) f' ''http://x'' 0 ''a'' = (Inr r, f'', [])"
proof -
  let ?f = "new_fetcher 0 4 8 0" and ?env = "example_env ''hello'' 7"
  have inv: "fetcher_inv ?f" by (rule new_fetcher_inv) (simp_all add: max_int64_def)
  have sat: "fetcher_sat (\<lambda>_ _. False) (\<lambda>_ _. False) ?f"
    by (rule new_fetcher_sat) (simp_all add: max_int64_def)
  obtain res f' reqs where run: "fetch_doc ?env ?f ''http://x'' 0 ''a'' = (res, f', reqs)"
    by (metis prod.collapse)
  then have reqs: "reqs = [''http://x'']"
    by (subst (asm) fetch_doc_new [where u = "\<lparr>url_scheme = ''http'', url_redacted = ''http://x'', url_string = ''http://x''\<rparr>"]) (auto simp: example_url example_env_def do_get_def split: prod.splits)
  have "\<exists>r. res = Inr r"
    by (rule fetch_doc_total [OF sat run, where u = "\<lparr>url_scheme = ''http'', url_redacted = ''http://x'',
          url_string = ''http://x''\<rparr>" and resp = "example_response ''hello''"])
      (simp_all add: example_url example_defs new_fetcher_sel(2) max_int64_def)
  then obtain r where r: "res = Inr r" by blast
  have "\<exists>f''. fetch_doc (example_env ''changed'' 9) f' ''http://x'' 0 ''a'' = (Inr r, f'', [])"
    by (rule repeat_is_served_from_memory [OF inv run [unfolded r], of default_ttl])
      (simp_all add: reqs new_fetcher_sel(4,5) example_env_def default_ttl_def duration_defs max_int64_def)
  with run r reqs show ?thesis by blast
qed

text \<open>A document of one byte more than the cache budget, of unknown length, is stored without
  its last byte: bodyEnded takes the one byte it finds after the budget for the end of the
  stream, so the snapshot, which every later page is served from, is a proper prefix.\<close>

theorem captured_snapshot_may_lose_last_byte:
  assumes "fetcher_inv f" "env_timely env" "f_max_bytes f < f_cache_budget f"
    "resp_body resp = \<lparr>pending = xs @ [b], ending = IoEOF\<rparr>" "blen xs = f_cache_budget f"
  shows "capture_and_page env f u resp key =
    (page_result (f_max_bytes f) (url_redacted u) (resp_status resp) (resp_content_type resp) xs 0, True,
     f\<lparr>f_snapshots := cache_put (env_clock env 2) key
          \<lparr>doc_body = xs, doc_status = resp_status resp, doc_content_type = resp_content_type resp\<rparr>
          (blen xs) (f_snapshots f)\<rparr>)"
proof -
  let ?m = "nat (f_max_bytes f + 1)"
  have r: "0 \<le> f_max_bytes f" "f_cache_budget f \<le> max_int64" "?m \<le> length xs"
    using assms(1,3,5) by (auto simp: fetcher_inv_def)
  have chunk: "read_chunk (resp_body resp) (f_max_bytes f) 0
      = (Inr (take ?m xs, True), \<lparr>pending = drop ?m xs @ [b], ending = IoEOF\<rparr>)"
    using r assms(3-5) by (simp add: read_chunk_def read_all_limit_def go_int min_def)
  have rest: "capture_rest True \<lparr>pending = drop ?m xs @ [b], ending = IoEOF\<rparr>
      (wrap64 (f_cache_budget f - blen (take ?m xs))) = (drop ?m xs, True)"
    using r assms(3,5)
    by (auto simp: capture_rest_def read_all_limit_def go_int body_ended_tolerates_one_byte min_def)
  show ?thesis
    using assms(2,5) by (simp add: capture_and_page_def chunk rest Let_def del: length_take)
qed

theorem captured_snapshot_may_lose_last_byte_witness:
  "let resp = (example_response ''123456789'')\<lparr>resp_length := -1\<rparr>;
       f' = snd (snd (capture_and_page (example_env ''123456789'' 1) (new_fetcher 0 4 8 0)
         \<lparr>url_scheme = ''http'', url_redacted = ''r'', url_string = ''s''\<rparr> resp ''k''))
   in map_option (\<lambda>x. doc_body (fst x)) (cache_stored (f_snapshots f') ''k'') = Some ''12345678''"
proof -
  let ?f = "new_fetcher 0 4 8 0" and ?env = "example_env ''123456789'' 1"
  let ?resp = "(example_response ''123456789'')\<lparr>resp_length := -1\<rparr>"
  have inv: "fetcher_inv ?f" by (rule new_fetcher_inv) (simp_all add: max_int64_def)
  have snaps: "cache_inv (f_snapshots ?f)" "max_bytes (f_snapshots ?f) = 8"
    using inv by (simp_all add: fetcher_inv_def new_fetcher_sel)
  show ?thesis
    using captured_snapshot_may_lose_last_byte [OF inv, of ?env ?resp "''12345678''" "CHR ''9''" "\<lparr>url_scheme = ''http'', url_redacted = ''r'', url_string = ''s''\<rparr>" "''k''"]
      mem.put_stores [OF snaps(1), where n = 8 and k = "''k''"] snaps(2)
    by (simp add: example_defs new_fetcher_sel(2,3) cache_max_bytes_def max_int64_def Let_def)
qed

end
