(* ===== verification/Search.thy ===== *)
theory Search
  imports Utf8 Cache Http_Client
begin

section \<open>The search tool (internal/tools/search/search.go and handler.go)\<close>

text \<open>
  \<open>search_web\<close> is Searcher.Search. Outside the model, and arguments of it: url.Parse of the
  endpoint (giving the printed URL for a raw query), the SearXNG instance (a function from
  the printed URL to a response) and encoding/json's decoding of the payload. The raw query
  is url.Values.Encode of the two parameters, written out. As for fetch, the outcome comes
  with the new cache and the list of the requests that were sent.
\<close>

subsection \<open>State and environment\<close>

record search_result =
  sr_title :: string
  sr_url :: string
  sr_content :: string

record search_response =
  srch_status :: int
  srch_status_text :: string
  srch_body :: bytes

datatype search_error =
  ErrEmptyQuery
| ParseSearxngURL string
| BuildSearchRequest string
| SearchFailed string
| JsonFormatDisabled
| SearchStatus string
| DecodeSearch string

datatype search_failure = BadSearchRequest string | NoSearchResponse string

record search_env =
  se_endpoint :: "string \<Rightarrow> string + (string \<Rightarrow> string)"
  se_origin :: "string \<Rightarrow> search_failure + search_response"
  se_decode :: "bytes \<Rightarrow> string + search_result list option"  \<comment> \<open>None: no results field\<close>
  se_clock :: "nat \<Rightarrow> time"

record searcher =
  s_base_url :: string
  s_client :: http_client
  s_results :: "search_result list memory_cache"

definition default_search_timeout :: duration where
  "default_search_timeout = 10 * second"

definition default_max_results :: int where
  "default_max_results = 10"

definition max_results_limit :: int where
  "max_results_limit = 50"

definition default_results_cache_bytes :: int where
  "default_results_cache_bytes = 1024 * 1024"

definition trim_suffix :: "string \<Rightarrow> string \<Rightarrow> string" where
  "trim_suffix s suf =
     (if length suf \<le> length s \<and> drop (length s - length suf) s = suf
      then take (length s - length suf) s else s)"

definition new_searcher :: "string \<Rightarrow> duration \<Rightarrow> duration \<Rightarrow> searcher" where
  "new_searcher base_url timeout d =
     (let timeout1 = (if timeout \<le> 0 then default_search_timeout else timeout);
          d1 = (if d \<le> 0 then default_ttl else d)
      in \<lparr>s_base_url = trim_suffix base_url ''/'', s_client = new_client timeout1 2,
          s_results = new_cache default_results_cache_bytes d1\<rparr>)"

subsection \<open>The request (url.QueryEscape and url.Values.Encode)\<close>

definition upper_hex :: "nat \<Rightarrow> char" where
  "upper_hex n = (if n < 10 then char_of (48 + n) else char_of (55 + n))"

definition unreserved :: "char \<Rightarrow> bool" where
  "unreserved c \<longleftrightarrow> (let n = bv c in 97 \<le> n \<and> n \<le> 122 \<or> 65 \<le> n \<and> n \<le> 90 \<or> 48 \<le> n \<and> n \<le> 57)
     \<or> c \<in> {CHR ''-'', CHR ''_'', CHR ''.'', CHR ''~''}"

definition escape_char :: "char \<Rightarrow> string" where
  "escape_char c =
     (if unreserved c then [c]
      else if c = CHR '' '' then ''+''
      else [CHR ''%'', upper_hex (bv c div 16), upper_hex (bv c mod 16)])"

definition query_escape :: "string \<Rightarrow> string" where
  "query_escape s = concat (map escape_char s)"

definition raw_query :: "string \<Rightarrow> string" where
  "raw_query query = ''format=json&q='' @ query_escape query"

subsection \<open>The search\<close>

definition clamp_limit :: "int \<Rightarrow> int" where
  "clamp_limit limit =
     (let l1 = (if limit \<le> 0 then default_max_results else limit)
      in if max_results_limit < l1 then max_results_limit else l1)"

definition search_key :: "string \<Rightarrow> string \<Rightarrow> int \<Rightarrow> string" where
  "search_key caller query limit =
     (if caller \<noteq> [] then caller @ nul # query @ nul # show_int limit else [])"

definition results_size :: "search_result list \<Rightarrow> int" where
  "results_size rs = sum_list (map (\<lambda>r. blen (sr_title r) + blen (sr_url r) + blen (sr_content r)) rs)"

definition query_searxng :: "search_env \<Rightarrow> searcher \<Rightarrow> string \<Rightarrow> int
    \<Rightarrow> (search_error + search_result list) \<times> string list" where
  "query_searxng env s query limit =
     (case se_endpoint env (s_base_url s @ ''/search'') of
        Inl e \<Rightarrow> (Inl (ParseSearxngURL e), [])
      | Inr endpoint \<Rightarrow>
          let target = endpoint (raw_query query)
          in case se_origin env target of
            Inl (BadSearchRequest e) \<Rightarrow> (Inl (BuildSearchRequest e), [])
          | Inl (NoSearchResponse e) \<Rightarrow> (Inl (SearchFailed e), [target])
          | Inr resp \<Rightarrow>
              if srch_status resp \<noteq> 200 then
                (Inl (if srch_status resp = 403 then JsonFormatDisabled
                      else SearchStatus (srch_status_text resp)), [target])
              else case se_decode env (srch_body resp) of
                Inl e \<Rightarrow> (Inl (DecodeSearch e), [target])
              | Inr payload \<Rightarrow>
                  let rs = (case payload of None \<Rightarrow> [] | Some rs \<Rightarrow> rs)
                  in (Inr (if limit < blen rs then take (nat limit) rs else rs), [target]))"

definition search_web :: "search_env \<Rightarrow> searcher \<Rightarrow> string \<Rightarrow> int \<Rightarrow> string
    \<Rightarrow> (search_error + search_result list) \<times> searcher \<times> string list" where
  "search_web env s query limit0 caller =
     (if trim_space query = [] then (Inl ErrEmptyQuery, s, [])
      else
        let limit = clamp_limit limit0;
            key = search_key caller query limit
        in case (if key \<noteq> [] then cache_get (se_clock env 0) key (s_results s) else (None, s_results s)) of
          (Some rs, c) \<Rightarrow> (Inr rs, s\<lparr>s_results := c\<rparr>, [])
        | (None, c) \<Rightarrow>
            let s1 = s\<lparr>s_results := c\<rparr>
            in case query_searxng env s1 query limit of
              (Inl e, reqs) \<Rightarrow> (Inl e, s1, reqs)
            | (Inr rs, reqs) \<Rightarrow>
                (Inr rs,
                 if key \<noteq> [] then
                   s1\<lparr>s_results := cache_put (se_clock env 1) key rs (results_size rs) (s_results s1)\<rparr>
                 else s1, reqs))"

record search_input =
  in_query :: string
  in_limit :: int

definition search_handler :: "search_env \<Rightarrow> searcher \<Rightarrow> string option \<Rightarrow> search_input
    \<Rightarrow> (search_error + search_result list) \<times> searcher \<times> string list" where
  "search_handler env s actor inp =
     (let caller = (case actor of None \<Rightarrow> [] | Some i \<Rightarrow> i)
      in search_web env s (in_query inp) (in_limit inp) caller)"

subsection \<open>Keys, limits and escaping\<close>

lemma clamp_limit_range: "1 \<le> clamp_limit l" "clamp_limit l \<le> 50"
  by (auto simp: clamp_limit_def default_max_results_def max_results_limit_def Let_def)

lemma clamp_limit_idem [simp]: "clamp_limit (clamp_limit l) = clamp_limit l"
  by (auto simp: clamp_limit_def default_max_results_def max_results_limit_def Let_def)

lemma search_key_inj:
  assumes "search_key c q l = search_key c' q' l'" "nul \<notin> set c" "nul \<notin> set c'" "c \<noteq> []" "c' \<noteq> []"
  shows "c = c' \<and> q = q' \<and> l = l'"
proof -
  have "c @ nul # (q @ nul # show_int l) = c' @ nul # (q' @ nul # show_int l')"
    using assms(1,4,5) by (simp add: search_key_def)
  from split_at_first [OF this assms(2,3)]
  have "c = c'" "q @ nul # show_int l = q' @ nul # show_int l'" by simp_all
  with split_at_last [OF this(2) nul_not_in_show_int nul_not_in_show_int] show ?thesis by simp
qed

lemma search_key_empty [simp]: "search_key c q l = [] \<longleftrightarrow> c = []"
  by (simp add: search_key_def)

lemma results_size_nonneg: "0 \<le> results_size rs"
  unfolding results_size_def by (induction rs) auto

subsection \<open>The state invariant and what the cache holds\<close>

definition searcher_inv :: "searcher \<Rightarrow> bool" where
  "searcher_inv s \<longleftrightarrow> cache_inv (s_results s) \<and> max_bytes (s_results s) = default_results_cache_bytes"

lemma new_searcher_inv: "searcher_inv (new_searcher base t d)"
  by (simp add: searcher_inv_def new_searcher_def Let_def new_cache_inv default_results_cache_bytes_def
      max_int64_def)

text \<open>\<open>asked c q rs\<close>: SearXNG has answered query \<open>q\<close> of caller \<open>c\<close> with the hits \<open>rs\<close>.\<close>

definition search_origin :: "(string \<Rightarrow> string \<Rightarrow> search_result list \<Rightarrow> bool) \<Rightarrow> string \<Rightarrow> search_result list \<Rightarrow> bool" where
  "search_origin asked k v \<longleftrightarrow> (\<exists>c q l rs. k = search_key c q l \<and> c \<noteq> [] \<and> nul \<notin> set c
     \<and> asked c q rs \<and> v = take (nat l) rs)"

definition searcher_sat :: "(string \<Rightarrow> string \<Rightarrow> search_result list \<Rightarrow> bool) \<Rightarrow> searcher \<Rightarrow> bool" where
  "searcher_sat asked s \<longleftrightarrow> searcher_inv s \<and> all_stored cache_stored (search_origin asked) (s_results s)"

lemma new_searcher_sat: "searcher_sat asked (new_searcher base t d)"
proof -
  have "all_stored cache_stored P (s_results (new_searcher base t d))" for P
    by (simp add: new_searcher_def Let_def all_stored_def cache_stored_def new_cache_def)
  with new_searcher_inv show ?thesis by (simp add: searcher_sat_def)
qed

text \<open>The hits that SearXNG gives for a query: what the response decodes to.\<close>

definition hits_of :: "search_env \<Rightarrow> searcher \<Rightarrow> string \<Rightarrow> search_result list \<Rightarrow> bool" where
  "hits_of env s query rs \<longleftrightarrow> (\<exists>endpoint resp payload.
     se_endpoint env (s_base_url s @ ''/search'') = Inr endpoint
     \<and> se_origin env (endpoint (raw_query query)) = Inr resp \<and> srch_status resp = 200
     \<and> se_decode env (srch_body resp) = Inr payload \<and> rs = (case payload of None \<Rightarrow> [] | Some rs \<Rightarrow> rs))"

lemma query_searxng_hits:
  assumes "query_searxng env s query limit = (Inr v, reqs)"
  shows "\<exists>rs. hits_of env s query rs \<and> v = take (nat limit) rs"
  using assms
  by (fastforce simp: query_searxng_def hits_of_def Let_def split: sum.splits search_failure.splits if_splits)

lemma search_web_cases:
  assumes "search_web env s query l caller = (res, s', reqs)"
  obtains "trim_space query = []" "res = Inl ErrEmptyQuery" "s' = s" "reqs = []"
  | rs c where "trim_space query \<noteq> []" "caller \<noteq> []"
      "cache_get (se_clock env 0) (search_key caller query (clamp_limit l)) (s_results s) = (Some rs, c)"
      "res = Inr rs" "s' = s\<lparr>s_results := c\<rparr>" "reqs = []"
  | c where "trim_space query \<noteq> []"
      "(if caller \<noteq> [] then cache_get (se_clock env 0) (search_key caller query (clamp_limit l)) (s_results s)
        else (None, s_results s)) = (None, c)"
      "query_searxng env (s\<lparr>s_results := c\<rparr>) query (clamp_limit l) = (res, reqs)"
      "s' = (case res of Inr rs \<Rightarrow> if caller \<noteq> [] then s\<lparr>s_results := cache_put (se_clock env 1)
                 (search_key caller query (clamp_limit l)) rs (results_size rs) c\<rparr> else s\<lparr>s_results := c\<rparr>
             | Inl _ \<Rightarrow> s\<lparr>s_results := c\<rparr>)"
proof (cases "trim_space query = []")
  case True
  with assms that(1) show thesis by (simp add: search_web_def)
next
  case False
  let ?get = "if caller \<noteq> [] then cache_get (se_clock env 0) (search_key caller query (clamp_limit l)) (s_results s)
        else (None, s_results s)"
  obtain r c where g: "?get = (r, c)" by fastforce
  show thesis
  proof (cases r)
    case (Some rs)
    with g False assms that(2) show thesis
      by (auto simp: search_web_def Let_def split: if_splits)
  next
    case None
    obtain res' reqs' where q: "query_searxng env (s\<lparr>s_results := c\<rparr>) query (clamp_limit l) = (res', reqs')"
      by fastforce
    from None g False assms q have "res = res'" "reqs = reqs'"
      "s' = (case res' of Inr rs \<Rightarrow> if caller \<noteq> [] then s\<lparr>s_results := cache_put (se_clock env 1)
                 (search_key caller query (clamp_limit l)) rs (results_size rs) c\<rparr> else s\<lparr>s_results := c\<rparr>
             | Inl _ \<Rightarrow> s\<lparr>s_results := c\<rparr>)"
      by (auto simp: search_web_def Let_def split: sum.splits if_splits)
    with None g False q that(3) show thesis by simp
  qed
qed

lemma searcher_sat_get:
  assumes "searcher_sat asked s" "cache_get now k (s_results s) = (r, c)"
  shows "searcher_sat asked (s\<lparr>s_results := c\<rparr>) \<and> (\<forall>v. r = Some v \<longrightarrow> search_origin asked k v)"
proof -
  have inv: "cache_inv (s_results s)" and all: "all_stored cache_stored (search_origin asked) (s_results s)"
    using assms(1) by (simp_all add: searcher_sat_def searcher_inv_def)
  have c: "c = snd (cache_get now k (s_results s))" "r = fst (cache_get now k (s_results s))"
    using assms(2) by simp_all
  show ?thesis
    using assms(1) mem.invar_get [OF inv] mem.get_all_stored [OF inv all] mem.hit_satisfies [OF inv all]
      mem.budget_get [of now k "s_results s"]
    by (auto simp: c searcher_sat_def searcher_inv_def cache_max_bytes_def)
qed

lemma searcher_sat_put:
  assumes "searcher_sat asked s" "search_origin asked k rs"
    "default_results_cache_bytes + results_size rs \<le> max_int64"
  shows "searcher_sat asked (s\<lparr>s_results := cache_put now k rs (results_size rs) (s_results s)\<rparr>)"
proof -
  have inv: "cache_inv (s_results s)" and all: "all_stored cache_stored (search_origin asked) (s_results s)"
    and room: "cache_max_bytes (s_results s) + results_size rs \<le> max_int64"
    using assms(1,3) by (simp_all add: searcher_sat_def searcher_inv_def cache_max_bytes_def)
  note facts = mem.invar_put [OF inv results_size_nonneg room]
    mem.put_all_stored [OF inv all assms(2) results_size_nonneg room]
  show ?thesis
    using assms(1) facts mem.budget_put [of now k rs "results_size rs" "s_results s"]
    by (simp add: searcher_sat_def searcher_inv_def cache_max_bytes_def)
qed

lemma results_size_take_le: "results_size (take n rs) \<le> results_size rs"
proof -
  have "results_size rs = results_size (take n rs) + results_size (drop n rs)"
    using arg_cong [OF append_take_drop_id [of n rs], of results_size]
    by (simp add: results_size_def del: append_take_drop_id)
  with results_size_nonneg [of "drop n rs"] show ?thesis by simp
qed

lemma search_web_origin:
  assumes "searcher_sat asked s" "nul \<notin> set caller" "search_web env s query l caller = (res, s', reqs)"
    "\<And>rs. hits_of env s query rs \<Longrightarrow> asked caller query rs
       \<and> default_results_cache_bytes + results_size rs \<le> max_int64"
  shows "searcher_sat asked s' \<and> (\<forall>v. res = Inr v \<longrightarrow>
    (\<exists>rs. asked caller query rs \<and> v = take (nat (clamp_limit l)) rs))"
  using assms(3)
proof (cases rule: search_web_cases)
  case 1
  with assms(1) show ?thesis by simp
next
  case (2 rs c)
  from searcher_sat_get [OF assms(1) 2(3)]
  have "searcher_sat asked s'" "search_origin asked (search_key caller query (clamp_limit l)) rs"
    using 2(5) by simp_all
  with 2(2,4) assms(2) search_key_inj show ?thesis unfolding search_origin_def by blast
next
  case (3 c)
  have s1: "searcher_sat asked (s\<lparr>s_results := c\<rparr>)"
  proof (cases "caller = []")
    case True
    with 3(2) have "s\<lparr>s_results := c\<rparr> = s" by auto
    with assms(1) show ?thesis by simp
  next
    case False
    with 3(2) searcher_sat_get [OF assms(1)] show ?thesis by auto
  qed
  show ?thesis
  proof (cases res)
    case (Inl e)
    with s1 3(4) show ?thesis by simp
  next
    case (Inr v)
    from query_searxng_hits [OF 3(3) [unfolded Inr]] obtain rs where
      rs: "hits_of env s query rs" "v = take (nat (clamp_limit l)) rs" by (auto simp: hits_of_def)
    note hit = assms(4) [OF rs(1)]
    show ?thesis
    proof (cases "caller = []")
      case True
      with s1 3(4) Inr rs hit show ?thesis by auto
    next
      case False
      have "search_origin asked (search_key caller query (clamp_limit l)) v"
        using False assms(2) hit rs(2) unfolding search_origin_def by blast
      moreover have "default_results_cache_bytes + results_size v \<le> max_int64"
        using conjunct2 [OF hit] results_size_take_le [of "nat (clamp_limit l)" rs] unfolding rs(2) by linarith
      ultimately have "searcher_sat asked s'"
        using searcher_sat_put [OF s1] 3(4) Inr False by simp
      with Inr rs hit show ?thesis by auto
    qed
  qed
qed

subsection \<open>Escaping\<close>

lemma byte_nibbles: "bv c div 16 < 16" "bv c mod 16 < 16"
proof -
  have "bv c < 256" by (simp add: of_char_def)
  then show "bv c div 16 < 16" "bv c mod 16 < 16" by (simp_all add: less_mult_imp_div_less)
qed

lemma query_escape_chars: "c \<in> {CHR ''&'', CHR ''='', CHR ''#''} \<Longrightarrow> c \<notin> set (query_escape q)"
proof -
  assume c: "c \<in> {CHR ''&'', CHR ''='', CHR ''#''}"
  have "c \<notin> set (escape_char d)" for d
    using byte_nibbles [of d] c
    by (auto simp: escape_char_def unreserved_def upper_hex_def split: if_splits
        dest: arg_cong [where f = "of_char :: char \<Rightarrow> nat"])
  then show "c \<notin> set (query_escape q)" by (auto simp: query_escape_def)
qed

subsection \<open>What a server reads in a raw query\<close>

text \<open>A specification, the decoding of a form: the pairs between the ampersands, each split at its first
  equals sign, with plus signs and percent escapes undone. None is a broken escape.\<close>

definition hex_value :: "char \<Rightarrow> nat option" where
  "hex_value c = (let n = bv c in
     if 48 \<le> n \<and> n \<le> 57 then Some (n - 48) else if 65 \<le> n \<and> n \<le> 70 then Some (n - 55)
     else if 97 \<le> n \<and> n \<le> 102 then Some (n - 87) else None)"

fun query_unescape :: "string \<Rightarrow> string option" where
  "query_unescape [] = Some []"
| "query_unescape (c # s) =
     (if c = CHR ''%'' then
        case s of
          a # b # s' \<Rightarrow>
            (case (hex_value a, hex_value b) of
               (Some m, Some n) \<Rightarrow> map_option (Cons (char_of (16 * m + n))) (query_unescape s')
             | _ \<Rightarrow> None)
        | _ \<Rightarrow> None
      else map_option (Cons (if c = CHR ''+'' then CHR '' '' else c)) (query_unescape s))"

fun split_on :: "char \<Rightarrow> string \<Rightarrow> string list" where
  "split_on c [] = [[]]"
| "split_on c (x # xs) =
     (if x = c then [] # split_on c xs else (x # hd (split_on c xs)) # tl (split_on c xs))"

definition parse_pair :: "string \<Rightarrow> (string \<times> string) option" where
  "parse_pair s = (case query_unescape (takeWhile (\<lambda>c. c \<noteq> CHR ''='') s) of
      None \<Rightarrow> None
    | Some k \<Rightarrow> map_option (Pair k) (query_unescape (tl (dropWhile (\<lambda>c. c \<noteq> CHR ''='') s))))"

definition parse_query :: "string \<Rightarrow> (string \<times> string) list option" where
  "parse_query rq = those (map parse_pair (split_on (CHR ''&'') rq))"

lemma hex_value_upper: "n < 16 \<Longrightarrow> hex_value (upper_hex n) = Some n"
  by (auto simp: hex_value_def upper_hex_def Let_def take_bit_eq_mod)

lemma unescape_char: "query_unescape (escape_char c @ s) = map_option (Cons c) (query_unescape s)"
proof -
  have plain: "\<not> unreserved (CHR ''+'')" "\<not> unreserved (CHR ''%'')" "\<not> unreserved (CHR '' '')" by (simp_all add: unreserved_def)
  consider "unreserved c" | "c = CHR '' ''" | (hex) "\<not> unreserved c" "c \<noteq> CHR '' ''" by blast
  then show ?thesis
  proof cases
    case hex
    have "char_of (16 * (bv c div 16) + bv c mod 16) = c" by simp
    with hex show ?thesis by (simp add: escape_char_def hex_value_upper byte_nibbles)
  qed (use plain in \<open>auto simp: escape_char_def\<close>)
qed

lemma query_unescape_escape: "query_unescape (query_escape s) = Some s"
  by (induction s) (simp_all add: query_escape_def unescape_char)

lemma split_on_append: "c \<notin> set xs \<Longrightarrow> split_on c (xs @ c # ys) = xs # split_on c ys"
  by (induction xs) auto

lemma split_on_none: "c \<notin> set xs \<Longrightarrow> split_on c xs = [xs]"
  by (induction xs) auto

lemma parse_raw_query: "parse_query (raw_query q) = Some [(''format'', ''json''), (''q'', q)]" "CHR ''#'' \<notin> set (raw_query q)"
proof -
  have "raw_query q = ''format=json'' @ CHR ''&'' # (''q='' @ query_escape q)" by (simp add: raw_query_def)
  moreover have "CHR ''&'' \<notin> set ''format=json''" "CHR ''&'' \<notin> set (''q='' @ query_escape q)"
    using query_escape_chars [of "CHR ''&''" q] by simp_all
  ultimately have "split_on (CHR ''&'') (raw_query q) = [''format=json'', ''q='' @ query_escape q]"
    by (simp only: split_on_append split_on_none not_False_eq_True)
  moreover have "parse_pair (''q='' @ query_escape q) = Some (''q'', q)"
    by (simp add: parse_pair_def query_unescape_escape)
  ultimately show "parse_query (raw_query q) = Some [(''format'', ''json''), (''q'', q)]"
    by (simp add: parse_query_def parse_pair_def)
  show "CHR ''#'' \<notin> set (raw_query q)" using query_escape_chars [of "CHR ''#''" q] by (simp add: raw_query_def)
qed

subsection \<open>Properties\<close>

text \<open>C31: agents are isolated and results are never mixed up. If every cached list came from an answer
  of SearXNG to the caller and query of its key, then what Search returns to a caller is the
  start of an answer that SearXNG gave to the same caller and the same query, cut at the
  normalised limit, so it never holds more than 50 hits, and the cache stays that way.\<close>

theorem search_answers_own_query:
  assumes "searcher_sat asked s" "nul \<notin> set caller" "search_web env s query l caller = (res, s', reqs)"
    "\<And>rs. hits_of env s query rs \<Longrightarrow> asked caller query rs
       \<and> default_results_cache_bytes + results_size rs \<le> max_int64"
  shows "searcher_sat asked s' \<and> (\<forall>v. res = Inr v \<longrightarrow> length v \<le> 50
    \<and> (\<exists>rs. asked caller query rs \<and> v = take (nat (clamp_limit l)) rs))"
  using search_web_origin [OF assms] clamp_limit_range [of l] by fastforce

definition example_search :: "search_result list option \<Rightarrow> search_env" where
  "example_search payload =
     \<lparr>se_endpoint = (\<lambda>b. Inr (\<lambda>q. b @ CHR ''?'' # q)),
      se_origin = (\<lambda>_. Inr \<lparr>srch_status = 200, srch_status_text = ''200 OK'', srch_body = ''json''\<rparr>),
      se_decode = (\<lambda>_. Inr payload), se_clock = (\<lambda>_. 5)\<rparr>"

definition example_hit :: search_result where
  "example_hit = \<lparr>sr_title = ''t'', sr_url = ''u'', sr_content = ''c''\<rparr>"

lemma example_query: "trim_space ''a b'' = ''a b''"
  by (rule trim_space_visible) simp_all

theorem search_answers_own_query_witness:
  "let asked = (\<lambda>c q rs. c = ''a1'' \<and> q = ''a b'' \<and> rs = [example_hit, example_hit]);
       run = search_web (example_search (Some [example_hit, example_hit])) (new_searcher ''http://s/'' 0 0) ''a b'' 1 ''a1''
   in fst run = Inr [example_hit] \<and> snd (snd run) = [''http://s/search?format=json&q=a+b'']
      \<and> searcher_sat asked (fst (snd run))"
proof -
  let ?env = "example_search (Some [example_hit, example_hit])" and ?s = "new_searcher ''http://s/'' 0 0"
  define asked where "asked = (\<lambda>c q rs. c = ''a1'' \<and> q = ''a b'' \<and> rs = [example_hit, example_hit])"
  obtain res s' reqs where run: "search_web ?env ?s ''a b'' 1 ''a1'' = (res, s', reqs)"
    by (metis prod.collapse)
  have "searcher_sat asked ?s"
    by (rule new_searcher_sat)
  from search_answers_own_query [OF this _ run]
  have "searcher_sat asked s'"
    by (auto simp: asked_def hits_of_def example_search_def nul_def results_size_def example_hit_def
        default_results_cache_bytes_def max_int64_def)
  moreover have "res = Inr [example_hit]" "reqs = [''http://s/search?format=json&q=a+b'']"
    using run by (simp_all add: search_web_def example_query clamp_limit_def max_results_limit_def Let_def
        query_searxng_def example_search_def new_searcher_def trim_suffix_def new_cache_def cache_get_def
        search_key_def raw_query_def query_escape_def escape_char_def unreserved_def)
  ultimately show ?thesis using run by (simp add: asked_def Let_def)
qed

text \<open>C32: a search that fails stores nothing, so it stays retryable; and one that succeeds for a
  caller with an identifier, with hits that fit the cache (1 MiB together), is answered from
  memory, with the same hits and without a request, when the same caller repeats it within
  the TTL, also with another limit that asks for the same number.\<close>

theorem search_repeat_from_memory:
  assumes "searcher_inv s" "search_web env s query l caller = (res, s', reqs)" "caller \<noteq> []"
    "ttl (s_results s) = d" "0 < d" "d \<le> max_int64" "reqs \<noteq> []" "clamp_limit l' = clamp_limit l"
    "se_clock env' 0 - se_clock env 1 \<le> d"
  shows "case res of
      Inl e \<Rightarrow> (\<forall>k x. cache_stored (s_results s') k = Some x \<longrightarrow> cache_stored (s_results s) k = Some x)
    | Inr rs \<Rightarrow> results_size rs \<le> default_results_cache_bytes \<longrightarrow>
        (\<exists>s''. search_web env' s' query l' caller = (Inr rs, s'', []))"
  using assms(2)
proof (cases rule: search_web_cases)
  case (3 c)
  let ?k = "search_key caller query (clamp_limit l)"
  have inv: "cache_inv (s_results s)" using assms(1) by (simp add: searcher_inv_def)
  have c: "c = snd (cache_get (se_clock env 0) ?k (s_results s))" using 3(2) assms(3) by simp
  have c_inv: "cache_inv c" unfolding c by (rule mem.invar_get [OF inv])
  have c_ttl: "ttl c = d" "max_bytes c = default_results_cache_bytes"
    using assms(1,4) mem.budget_get [of "se_clock env 0" ?k "s_results s"] cache_get_config
    by (simp_all add: c searcher_inv_def cache_max_bytes_def)
  show ?thesis
  proof (cases res)
    case (Inl e)
    with 3(4) mem.get_keeps [OF inv] show ?thesis by (auto simp: c)
  next
    case (Inr rs)
    have "\<exists>s''. search_web env' s' query l' caller = (Inr rs, s'', [])"
      if "results_size rs \<le> default_results_cache_bytes"
    proof -
      have "cache_live c (se_clock env' 0) (se_clock env 1)"
        using assms(5,6,9) c_ttl by (simp add: cache_live_def expired_def time_sub_def min_int64_def)
      with mem.put_then_get [OF c_inv results_size_nonneg, of rs "se_clock env' 0" "se_clock env 1" ?k rs] that c_ttl
      have "fst (cache_get (se_clock env' 0) ?k (cache_put (se_clock env 1) ?k rs (results_size rs) c)) = Some rs"
        by (simp add: cache_max_bytes_def default_results_cache_bytes_def max_int64_def)
      then show ?thesis
        using 3(1,4) Inr assms(3,8)
        by (cases "cache_get (se_clock env' 0) ?k (cache_put (se_clock env 1) ?k rs (results_size rs) c)")
          (simp add: search_web_def Let_def)
    qed
    with Inr show ?thesis by simp
  qed
qed (use assms(7) in simp_all)

theorem search_repeat_from_memory_witness:
  "\<exists>s' s''. search_web (example_search (Some [example_hit])) (new_searcher ''http://s/'' 0 0) ''a b'' 0 ''a1''
        = (Inr [example_hit], s', [''http://s/search?format=json&q=a+b''])
     \<and> search_web (example_search None) s' ''a b'' 10 ''a1'' = (Inr [example_hit], s'', [])"
proof -
  let ?env = "example_search (Some [example_hit])" and ?s = "new_searcher ''http://s/'' 0 0"
  obtain res s' reqs where run: "search_web ?env ?s ''a b'' 0 ''a1'' = (res, s', reqs)"
    by (metis prod.collapse)
  have r: "res = Inr [example_hit]" "reqs = [''http://s/search?format=json&q=a+b'']"
    using run by (simp_all add: search_web_def example_query clamp_limit_def max_results_limit_def Let_def
        default_max_results_def query_searxng_def example_search_def new_searcher_def trim_suffix_def
        new_cache_def cache_get_def search_key_def raw_query_def query_escape_def escape_char_def unreserved_def)
  have t: "ttl (s_results ?s) = default_ttl" "0 < default_ttl" "default_ttl \<le> max_int64"
    by (simp_all add: new_searcher_def new_cache_def default_ttl_def duration_defs max_int64_def)
  have "\<exists>s''. search_web (example_search None) s' ''a b'' 10 ''a1'' = (Inr [example_hit], s'', [])"
    using search_repeat_from_memory [OF new_searcher_inv run _ t, of 10 "example_search None"] r t(2)
    by (simp add: clamp_limit_def default_max_results_def max_results_limit_def example_search_def
        results_size_def example_hit_def default_results_cache_bytes_def)
  with run r show ?thesis by simp
qed

text \<open>Asking for no size is asking for the default, and asking for too much is asking for the
  maximum: the outcome, the cache and the requests are the same.\<close>

theorem search_limit_normalised:
  "search_web env s query 0 caller = search_web env s query 10 caller
   \<and> search_web env s query (50 + int n) caller = search_web env s query 50 caller
   \<and> search_web env s query (- int n) caller = search_web env s query 10 caller"
proof -
  have "clamp_limit 0 = clamp_limit 10" "clamp_limit (50 + int n) = clamp_limit 50"
    "clamp_limit (- int n) = clamp_limit 10"
    by (simp_all add: clamp_limit_def default_max_results_def max_results_limit_def)
  then show ?thesis by (simp only: search_web_def)
qed

text \<open>C33: SearXNG is asked exactly what the caller asked. Whenever Search sends a request, it sends one, to
  the URL of the endpoint with a raw query that a server reads as the parameters format=json
  and q with the query of the caller, byte for byte, and no others: whatever the query holds,
  it adds no parameter, overrides none, and starts no fragment.\<close>

theorem search_sends_the_query:
  assumes "search_web env s query limit caller = (res, s', reqs)" "reqs \<noteq> []"
  shows "\<exists>endpoint rq. se_endpoint env (s_base_url s @ ''/search'') = Inr endpoint \<and> reqs = [endpoint rq]
    \<and> parse_query rq = Some [(''format'', ''json''), (''q'', query)] \<and> CHR ''#'' \<notin> set rq"
  using assms(1)
proof (cases rule: search_web_cases)
  case (3 c)
  then obtain endpoint where "se_endpoint env (s_base_url s @ ''/search'') = Inr endpoint" "reqs = [endpoint (raw_query query)]"
    using assms(2) by (auto simp: query_searxng_def Let_def split: sum.splits search_failure.splits if_splits)
  then show ?thesis using parse_raw_query by blast
qed (use assms(2) in simp_all)

theorem search_sends_the_query_witness:
  "\<exists>rq. snd (snd (search_web (example_search None) (new_searcher ''http://s/'' 0 0) ''a&q=b #%'' 1 ''a1''))
        = [''http://s/search?'' @ rq]
      \<and> parse_query rq = Some [(''format'', ''json''), (''q'', ''a&q=b #%'')]"
proof -
  let ?env = "example_search None" and ?s = "new_searcher ''http://s/'' 0 0"
  obtain res s' reqs where run: "search_web ?env ?s ''a&q=b #%'' 1 ''a1'' = (res, s', reqs)"
    by (metis prod.collapse)
  have "trim_space ''a&q=b #%'' = ''a&q=b #%''" by (rule trim_space_visible) simp_all
  then have "reqs \<noteq> []"
    using run by (auto simp: search_web_def clamp_limit_def max_results_limit_def Let_def query_searxng_def
        example_search_def new_searcher_def new_cache_def cache_get_def search_key_def split: if_splits)
  from search_sends_the_query [OF run this] run show ?thesis
    by (auto simp: example_search_def new_searcher_def trim_suffix_def)
qed

end
