(* ===== verification/Mcp.thy ===== *)
theory Mcp
  imports Auth Recorder Fetch Search
begin

section \<open>The MCP endpoint (internal/mcpserver, and the registrars of the two tools)\<close>

text \<open>
  mcpserver.Handler puts together what the other theories model: the bearer check in front,
  and behind it the fetch and the search tool, each wrapped by Recorded with the recorder
  of its registrar (\<open>Recorder{DB: db}\<close>, so the preview limit is the default). The MCP SDK
  decodes the request and calls the tool it names; a decoded call is a \<open>tool_request\<close>.
  \<open>mcp_handle\<close> is one request to /mcp on the state of the whole server.
\<close>

subsection \<open>Error texts and JSON of the tools\<close>

fun io_error_text :: "io_error \<Rightarrow> string" where
  "io_error_text IoEOF = ''EOF''"
| "io_error_text IoUnexpectedEOF = ''unexpected EOF''"
| "io_error_text (IoOther msg) = msg"

text \<open>A scheme that url.Parse accepts is plain ASCII, so %q only adds the quotation marks.\<close>

fun fetch_error_text :: "fetch_error \<Rightarrow> string" where
  "fetch_error_text ErrEmptyURL = ''url must not be empty''"
| "fetch_error_text ErrNegativeOffset = ''offset must not be negative''"
| "fetch_error_text (ParseURL e) = ''parse url: '' @ e"
| "fetch_error_text (UnsupportedScheme s) =
     ''unsupported url scheme '' @ CHR 0x22 # s @ CHR 0x22 # '': only http and https are allowed''"
| "fetch_error_text (BuildRequest e) = ''build request: '' @ e"
| "fetch_error_text (FetchFailed e) = ''fetch: '' @ e"
| "fetch_error_text (UnexpectedStatus u st) = ''fetch '' @ u @ '': unexpected status '' @ st"
| "fetch_error_text (ReadBody (SkipToOffset n e)) =
     ''read body: skip to offset '' @ show_int n @ '': '' @ io_error_text e"
| "fetch_error_text (ReadBody (ReadErr e)) = ''read body: '' @ io_error_text e"
| "fetch_error_text SliceBounds = ''slice bounds out of range''"

fun search_error_text :: "search_error \<Rightarrow> string" where
  "search_error_text ErrEmptyQuery = ''query must not be empty''"
| "search_error_text (ParseSearxngURL e) = ''parse searxng url: '' @ e"
| "search_error_text (BuildSearchRequest e) = ''build request: '' @ e"
| "search_error_text (SearchFailed e) = ''search: '' @ e"
| "search_error_text JsonFormatDisabled =
     ''searxng returned 403: the instance likely has the json format disabled (add json to search.formats in settings.yml)''"
| "search_error_text (SearchStatus st) = ''searxng returned unexpected status '' @ st"
| "search_error_text (DecodeSearch e) = ''decode searxng response: '' @ e"

definition fetch_input_json :: "fetch_input \<Rightarrow> json" where
  "fetch_input_json i = JObj ((''url'', JStr (in_url i))
     # omit_empty (in_offset i = 0) (''offset'', JInt (in_offset i)))"

definition fetch_output_json :: "fetch_result \<Rightarrow> json" where
  "fetch_output_json r = JObj ([(''url'', JStr (res_url r)), (''status_code'', JInt (res_status r))]
     @ omit_empty (res_content_type r = []) (''content_type'', JStr (res_content_type r))
     @ [(''offset'', JInt (res_offset r)), (''content'', JStr (res_content r)), (''bytes'', JInt (res_bytes r)),
        (''truncated'', JBool (res_truncated r)), (''next_offset'', JInt (res_next r))])"

definition search_input_json :: "search_input \<Rightarrow> json" where
  "search_input_json i = JObj ((''query'', JStr (in_query i))
     # omit_empty (in_limit i = 0) (''limit'', JInt (in_limit i)))"

definition search_output_json :: "search_result list \<Rightarrow> json" where
  "search_output_json rs = JObj [(''results'', JArr (map (\<lambda>r.
     JObj ([(''title'', JStr (sr_title r)), (''url'', JStr (sr_url r))]
       @ omit_empty (sr_content r = []) (''content'', JStr (sr_content r)))) rs))]"

subsection \<open>The server\<close>

record 'd mcp_state =
  ms_fetcher :: fetcher
  ms_searcher :: searcher
  ms_db :: 'd

record mcp_env =
  me_fetch :: fetch_env
  me_search :: search_env
  me_sha :: "bytes \<Rightarrow> bytes"
  me_auth_now :: time
  me_stamp :: call_stamp

datatype tool_request = CallFetch fetch_input | CallSearch search_input

datatype tool_reply =
  FetchReply "fetch_error + fetch_result"
| SearchReply "search_error + search_result list"

text \<open>The state of a handler is its tool and the list of the requests that it sends.\<close>

definition fetch_tool :: "fetch_env \<Rightarrow> actor option \<Rightarrow> fetch_input \<Rightarrow> fetcher \<times> string list
    \<Rightarrow> (fetch_error + fetch_result) \<times> fetcher \<times> string list" where
  "fetch_tool env actor inp s =
     (case fetch_handler env (fst s) (map_option actor_id actor) inp of
        (res, f, reqs) \<Rightarrow> (res, f, snd s @ reqs))"

definition search_tool :: "search_env \<Rightarrow> actor option \<Rightarrow> search_input \<Rightarrow> searcher \<times> string list
    \<Rightarrow> (search_error + search_result list) \<times> searcher \<times> string list" where
  "search_tool env actor inp s =
     (case search_handler env (fst s) (map_option actor_id actor) inp of
        (res, sr, reqs) \<Rightarrow> (res, sr, snd s @ reqs))"

definition tool_recorder :: "'d database \<Rightarrow> 'd recorder" where
  "tool_recorder db = \<lparr>rec_db = Some db, rec_preview_bytes = 0\<rparr>"

definition dispatch_tool :: "'d database \<Rightarrow> mcp_env \<Rightarrow> actor option \<Rightarrow> tool_request \<Rightarrow> 'd mcp_state
    \<Rightarrow> (tool_reply \<times> string list \<times> 'd mcp_state) option" where
  "dispatch_tool db env actor req st =
     (case req of
        CallFetch inp \<Rightarrow>
          (case recorded (tool_recorder db) ''fetch'' fetch_input_json fetch_error_text fetch_output_json
                  (fetch_tool (me_fetch env)) (me_stamp env) actor inp (ms_fetcher st, []) (ms_db st) of
             None \<Rightarrow> None
           | Some (res, (f, reqs), d) \<Rightarrow> Some (FetchReply res, reqs, st\<lparr>ms_fetcher := f, ms_db := d\<rparr>))
      | CallSearch inp \<Rightarrow>
          (case recorded (tool_recorder db) ''search'' search_input_json search_error_text search_output_json
                  (search_tool (me_search env)) (me_stamp env) actor inp (ms_searcher st, []) (ms_db st) of
             None \<Rightarrow> None
           | Some (res, (s, reqs), d) \<Rightarrow> Some (SearchReply res, reqs, st\<lparr>ms_searcher := s, ms_db := d\<rparr>)))"

definition mcp_handle :: "'d database \<Rightarrow> mcp_env \<Rightarrow> string \<Rightarrow> tool_request \<Rightarrow> 'd mcp_state
    \<Rightarrow> (tool_reply \<times> string list) option guarded \<times> 'd mcp_state" where
  "mcp_handle db env header req st =
     (case require_bearer db (me_sha env) (me_auth_now env) header
             (\<lambda>a d. case dispatch_tool db env (Some a) req (st\<lparr>ms_db := d\<rparr>) of
                      None \<Rightarrow> (None, d)
                    | Some (reply, reqs, st1) \<Rightarrow> (Some (reply, reqs, st1), ms_db st1))
             (ms_db st) of
        (Refused reply, d) \<Rightarrow> (Refused reply, st\<lparr>ms_db := d\<rparr>)
      | (Served None, d) \<Rightarrow> (Served None, st\<lparr>ms_db := d\<rparr>)
      | (Served (Some (reply, reqs, st1)), d) \<Rightarrow> (Served (Some (reply, reqs)), st1\<lparr>ms_db := d\<rparr>))"

subsection \<open>What a tool call does\<close>

lemma call_fetch:
  assumes "fetch_doc (me_fetch env) (ms_fetcher st) (in_url inp) (in_offset inp) (actor_id a) = (res, f, reqs)"
  shows "\<exists>d. dispatch_tool db env (Some a) (CallFetch inp) st = Some (FetchReply res, reqs, st\<lparr>ms_fetcher := f, ms_db := d\<rparr>)
    \<and> recorded (tool_recorder db) ''fetch'' fetch_input_json fetch_error_text fetch_output_json
        (fetch_tool (me_fetch env)) (me_stamp env) (Some a) inp (ms_fetcher st, []) (ms_db st) = Some (res, (f, reqs), d)"
proof -
  have h: "fetch_tool (me_fetch env) (Some a) inp (ms_fetcher st, []) = (res, f, reqs)"
    using assms by (simp add: fetch_tool_def fetch_handler_def)
  from recording_is_transparent_total [of "tool_recorder db" "''fetch''" fetch_input_json fetch_error_text
      fetch_output_json "fetch_tool (me_fetch env)" "me_stamp env" "Some a" inp "(ms_fetcher st, [])" "ms_db st"] h
  show ?thesis by (auto simp: dispatch_tool_def)
qed

lemma call_search:
  assumes "search_web (me_search env) (ms_searcher st) (in_query inp) (in_limit inp) (actor_id a) = (res, s, reqs)"
  shows "\<exists>d. dispatch_tool db env (Some a) (CallSearch inp) st = Some (SearchReply res, reqs, st\<lparr>ms_searcher := s, ms_db := d\<rparr>)
    \<and> recorded (tool_recorder db) ''search'' search_input_json search_error_text search_output_json
        (search_tool (me_search env)) (me_stamp env) (Some a) inp (ms_searcher st, []) (ms_db st) = Some (res, (s, reqs), d)"
proof -
  have h: "search_tool (me_search env) (Some a) inp (ms_searcher st, []) = (res, s, reqs)"
    using assms by (simp add: search_tool_def search_handler_def)
  from recording_is_transparent_total [of "tool_recorder db" "''search''" search_input_json search_error_text
      search_output_json "search_tool (me_search env)" "me_stamp env" "Some a" inp "(ms_searcher st, [])" "ms_db st"] h
  show ?thesis by (auto simp: dispatch_tool_def)
qed

lemma mcp_handle_cases:
  assumes "sql_database content db" "mcp_handle db env header req st = (res, st')"
  obtains reply where "res = Refused reply" "hr_status reply = 401"
      "st' = st\<lparr>ms_db := ms_db st'\<rparr>" "content (ms_db st') = (content (ms_db st))\<lparr>tb_credentials := tb_credentials (content (ms_db st'))\<rparr>"
  | token a cred d1 reply reqs where "header = ''Bearer '' @ token"
      "live (hash_token (me_sha env) token) (content (ms_db st)) cred"
      "authenticate_agent_token db (me_sha env) (me_auth_now env) token (ms_db st) = (Inr a, d1)"
      "actor_id a = cred_actor cred"
      "content d1 = (content (ms_db st))\<lparr>tb_credentials := tb_credentials (content d1)\<rparr>"
      "dispatch_tool db env (Some a) req (st\<lparr>ms_db := d1\<rparr>) = Some (reply, reqs, st')"
      "res = Served (Some (reply, reqs))"
proof -
  let ?h = "\<lambda>a d. case dispatch_tool db env (Some a) req (st\<lparr>ms_db := d\<rparr>) of
                      None \<Rightarrow> (None, d)
                    | Some (reply, reqs, st1) \<Rightarrow> (Some (reply, reqs, st1), ms_db st1)"
  obtain g d' where r: "require_bearer db (me_sha env) (me_auth_now env) header ?h (ms_db st) = (g, d')" by fastforce
  show thesis
    using assms(1) r
  proof (cases rule: require_bearer_cases)
    case (1 reply)
    with assms(2) r have "res = Refused reply" "st' = st\<lparr>ms_db := d'\<rparr>" by (auto simp: mcp_handle_def)
    with 1 that(1) show thesis by simp
  next
    case (2 token a cred d1 x)
    obtain reply reqs st1 where c: "dispatch_tool db env (Some a) req (st\<lparr>ms_db := d1\<rparr>) = Some (reply, reqs, st1)"
    proof (cases req)
      case (CallFetch inp)
      obtain r0 f0 q0 where "fetch_doc (me_fetch env) (ms_fetcher (st\<lparr>ms_db := d1\<rparr>)) (in_url inp) (in_offset inp) (actor_id a) = (r0, f0, q0)"
        by (metis prod.collapse)
      from call_fetch [OF this] CallFetch that show thesis by blast
    next
      case (CallSearch inp)
      obtain r0 s0 q0 where "search_web (me_search env) (ms_searcher (st\<lparr>ms_db := d1\<rparr>)) (in_query inp) (in_limit inp) (actor_id a) = (r0, s0, q0)"
        by (metis prod.collapse)
      from call_search [OF this] CallSearch that show thesis by blast
    qed
    with 2(8,9) have "g = Served (Some (reply, reqs, st1))" "d' = ms_db st1" by auto
    with assms(2) r have "res = Served (Some (reply, reqs))" "st' = st1" by (auto simp: mcp_handle_def)
    with that(2) 2 c show thesis by blast
  qed
qed

text \<open>What the authentication and the tool keep of the database, the request keeps.\<close>

lemma mcp_handle_keeps:
  assumes "I (ms_db st)"
    "\<And>token r d1. authenticate_agent_token db (me_sha env) (me_auth_now env) token (ms_db st) = (r, d1) \<Longrightarrow> I d1"
    "\<And>token a d1 reply reqs st1. authenticate_agent_token db (me_sha env) (me_auth_now env) token (ms_db st) = (Inr a, d1)
       \<Longrightarrow> dispatch_tool db env (Some a) req (st\<lparr>ms_db := d1\<rparr>) = Some (reply, reqs, st1) \<Longrightarrow> I (ms_db st1)"
    "mcp_handle db env header req st = (res, st')"
  shows "I (ms_db st')"
proof (cases "cut_prefix header ''Bearer ''")
  case None
  with assms(1,4) show ?thesis by (auto simp: mcp_handle_def require_bearer_def)
next
  case (Some token)
  obtain r d1 where a: "authenticate_agent_token db (me_sha env) (me_auth_now env) token (ms_db st) = (r, d1)" by fastforce
  show ?thesis
  proof (cases "token = [] \<or> (\<exists>e. r = Inl e)")
    case True
    with Some a assms(1,4) assms(2) [OF a] show ?thesis
      by (auto simp: mcp_handle_def require_bearer_def auth_authenticate_def split: if_splits)
  next
    case False
    then obtain ac where "token \<noteq> []" "r = Inr ac" by (cases r) auto
    with Some a assms(2) [OF a] assms(3) [of token ac d1] assms(4) show ?thesis
      by (auto simp: mcp_handle_def require_bearer_def auth_authenticate_def split: option.splits)
  qed
qed

text \<open>A request and the documents in the caches: \<open>obtained\<close> says which responses were obtained for which
  agent and URL; it has to hold for what this request obtains for the owner of its token.\<close>

lemma mcp_fetch_step:
  assumes "sql_database content db" "mcp_handle db env header req st = (res, st')"
    "fetcher_sat (snap_origin obtained) (result_origin obtained) (ms_fetcher st)"
    "\<forall>a \<in> set (tb_actors (content (ms_db st))). nul \<notin> set (actor_id a)"
    "\<And>inp token cred u resp. req = CallFetch inp \<Longrightarrow> header = ''Bearer '' @ token
       \<Longrightarrow> live (hash_token (me_sha env) token) (content (ms_db st)) cred \<Longrightarrow> env_parse (me_fetch env) (in_url inp) = Inr u
       \<Longrightarrow> env_origin (me_fetch env) (url_string u) = Inr resp \<Longrightarrow> obtained (cred_actor cred) (in_url inp) resp"
  shows "fetcher_sat (snap_origin obtained) (result_origin obtained) (ms_fetcher st')
    \<and> (\<forall>inp out. req = CallFetch inp \<and> res = Served out \<longrightarrow> (\<exists>token cred r reqs. header = ''Bearer '' @ token
        \<and> live (hash_token (me_sha env) token) (content (ms_db st)) cred \<and> out = Some (FetchReply r, reqs)
        \<and> (\<forall>x. r = Inr x \<longrightarrow>
             (\<exists>resp. obtained (cred_actor cred) (in_url inp) resp \<and> from_response resp (in_offset inp) x))))"
  using assms(1,2)
proof (cases rule: mcp_handle_cases)
  case (1 reply)
  have "ms_fetcher st' = ms_fetcher st" by (subst 1(3)) simp
  with assms(3) 1(1) show ?thesis by simp
next
  case (2 token a cred d1 reply reqs)
  have a: "a \<in> set (tb_actors (content (ms_db st)))"
    using sql_database.authenticate_effect [OF assms(1) 2(3)] by cases auto
  show ?thesis
  proof (cases req)
    case (CallSearch inp)
    obtain r s rs where run: "search_web (me_search env) (ms_searcher (st\<lparr>ms_db := d1\<rparr>)) (in_query inp) (in_limit inp)
        (actor_id a) = (r, s, rs)" by (metis prod.collapse)
    from call_search [OF run, of db] 2(6) CallSearch have "ms_fetcher st' = ms_fetcher st" by auto
    with assms(3) CallSearch show ?thesis by simp
  next
    case (CallFetch inp)
    obtain r f rs where run: "fetch_doc (me_fetch env) (ms_fetcher (st\<lparr>ms_db := d1\<rparr>)) (in_url inp) (in_offset inp)
        (actor_id a) = (r, f, rs)" by (metis prod.collapse)
    from call_fetch [OF run, of db] 2(6) CallFetch have st': "ms_fetcher st' = f" "reply = FetchReply r" by auto
    have ob: "obtained (actor_id a) (in_url inp) resp"
      if "env_parse (me_fetch env) (in_url inp) = Inr u" "env_origin (me_fetch env) (url_string u) = Inr resp" for u resp
      using assms(5) [OF CallFetch 2(1,2) that] 2(4) by simp
    have "fetcher_sat (snap_origin obtained) (result_origin obtained) f"
      "\<forall>x. r = Inr x \<longrightarrow> (\<exists>resp. obtained (actor_id a) (in_url inp) resp \<and> from_response resp (in_offset inp) x)"
      using fetch_provenance [where ob = obtained, OF _ _ run ob] assms(3,4) a by simp_all
    with 2(1,2,4,7) st' CallFetch show ?thesis by auto
  qed
qed

subsection \<open>Properties\<close>

definition example_mcp_env :: mcp_env where
  "example_mcp_env = \<lparr>me_fetch = example_env ''hello'' 7, me_search = example_search None, me_sha = id,
     me_auth_now = 8, me_stamp = \<lparr>st_elapsed = 5000000, st_uuid = ''u1'', st_now = 9\<rparr>\<rparr>"

definition example_mcp_state :: "mem_db \<Rightarrow> mem_db mcp_state" where
  "example_mcp_state d = \<lparr>ms_fetcher = new_fetcher 0 4 8 0, ms_searcher = new_searcher ''http://s/'' 0 0, ms_db = d\<rparr>"

definition example_fetch :: tool_request where
  "example_fetch = CallFetch \<lparr>in_url = ''http://x'', in_offset = 0\<rparr>"

lemma example_mcp_served:
  "\<exists>out st'. mcp_handle mem_database example_mcp_env ''Bearer T'' req (example_mcp_state (example_agents [''T'']))
     = (Served out, st')"
proof -
  obtain res st' where run: "mcp_handle mem_database example_mcp_env ''Bearer T'' req
      (example_mcp_state (example_agents [''T''])) = (res, st')" by fastforce
  obtain d1 where auth: "authenticate_agent_token mem_database id 8 ''T'' (example_agents [''T'']) = (Inr example_actor, d1)"
    by (auto simp: authenticate_agent_token_def mem_eval example_agents_defs)
  have "\<forall>reply. res \<noteq> Refused reply"
    using run auth by (auto simp: mcp_handle_def require_bearer_def cut_prefix_def auth_authenticate_def
        example_mcp_env_def example_mcp_state_def split: prod.splits guarded.splits option.splits)
  with run show ?thesis by (cases res) auto
qed

text \<open>Isolation end to end. A fetch through /mcp is answered only to the owner of a live token, and
  the page it gets is a piece, at the offset asked for, of a response that was obtained for
  that owner and that URL; the caches of the server keep this property, so no sequence of
  requests serves one agent the document of another.\<close>

theorem mcp_fetch_isolation:
  assumes "sql_database content db" "mcp_handle db env header (CallFetch inp) st = (Served out, st')"
    "fetcher_sat (snap_origin obtained) (result_origin obtained) (ms_fetcher st)"
    "\<forall>a \<in> set (tb_actors (content (ms_db st))). nul \<notin> set (actor_id a)"
    "\<And>token cred u resp. header = ''Bearer '' @ token
       \<Longrightarrow> live (hash_token (me_sha env) token) (content (ms_db st)) cred \<Longrightarrow> env_parse (me_fetch env) (in_url inp) = Inr u
       \<Longrightarrow> env_origin (me_fetch env) (url_string u) = Inr resp \<Longrightarrow> obtained (cred_actor cred) (in_url inp) resp"
  shows "fetcher_sat (snap_origin obtained) (result_origin obtained) (ms_fetcher st')
    \<and> (\<exists>token cred r reqs. header = ''Bearer '' @ token
        \<and> live (hash_token (me_sha env) token) (content (ms_db st)) cred \<and> out = Some (FetchReply r, reqs)
        \<and> (\<forall>x. r = Inr x \<longrightarrow>
             (\<exists>resp. obtained (cred_actor cred) (in_url inp) resp \<and> from_response resp (in_offset inp) x)))"
  using mcp_fetch_step [OF assms(1-4)] assms(5) by blast

theorem mcp_fetch_isolation_witness:
  "let ob = (\<lambda>c u r. c = ''a1'' \<and> u = ''http://x'' \<and> r = example_response ''hello'')
   in \<exists>out st'. mcp_handle mem_database example_mcp_env ''Bearer T'' example_fetch
          (example_mcp_state (example_agents [''T''])) = (Served out, st')
        \<and> fetcher_sat (snap_origin ob) (result_origin ob) (ms_fetcher st')"
proof -
  define ob where "ob = (\<lambda>c u r. c = ''a1'' \<and> u = ''http://x'' \<and> r = example_response ''hello'')"
  obtain out st' where run: "mcp_handle mem_database example_mcp_env ''Bearer T'' example_fetch
          (example_mcp_state (example_agents [''T''])) = (Served out, st')" using example_mcp_served by blast
  have sat: "fetcher_sat (snap_origin ob) (result_origin ob) (ms_fetcher (example_mcp_state (example_agents [''T''])))"
    unfolding example_mcp_state_def mcp_state.select_convs by (rule new_fetcher_sat) (simp_all add: max_int64_def)
  have "fetcher_sat (snap_origin ob) (result_origin ob) (ms_fetcher st')"
    by (rule conjunct1 [OF mcp_fetch_isolation [OF mem.sql_database_axioms run [unfolded example_fetch_def] sat]])
      (auto simp: example_mcp_state_def example_agents_defs nul_def example_mcp_env_def example_env_def ob_def live_def)
  with run show ?thesis unfolding ob_def Let_def by blast
qed

text \<open>A revoked token is worth nothing at the endpoint: after any further repository calls, every
  request with it is refused with 401, no tool runs, no cache changes and nothing is
  recorded.\<close>

theorem mcp_refuses_revoked_token:
  assumes "sql_database content db" "uniq_credentials (tb_credentials (content d))"
    "cred \<in> set (tb_credentials (content d))" "cred_hash cred = hash_token (me_sha env) raw"
    "revoke_agent_token db now (cred_id cred) d = (None, d1)"
    "ms_db st = run_actor_ops db (me_sha env) ops d1"
    "mcp_handle db env (''Bearer '' @ raw) req st = (res, st')"
  shows "(\<exists>reply. res = Refused reply \<and> hr_status reply = 401)
    \<and> ms_fetcher st' = ms_fetcher st \<and> ms_searcher st' = ms_searcher st
    \<and> tb_calls (content (ms_db st')) = tb_calls (content (ms_db st))"
  using assms(1,7)
proof (cases rule: mcp_handle_cases)
  case (1 reply)
  have "tb_calls (content (ms_db st')) = tb_calls (content (ms_db st))" by (subst 1(4)) simp
  moreover have "ms_fetcher st' = ms_fetcher st" "ms_searcher st' = ms_searcher st" by (subst 1(3), simp)+
  ultimately show ?thesis using 1(1,2) by blast
next
  case (2 token a cred' d2 reply reqs)
  have "dead_hash (hash_token (me_sha env) raw) (content d1)"
    using sql_database.revoked_is_dead [OF assms(1-5)] .
  from sql_database.dead_hash_run [OF assms(1) this]
  have "dead_hash (hash_token (me_sha env) raw) (content (ms_db st))" by (simp add: assms(6))
  with dead_hash_not_live 2(1,2) show ?thesis by auto
qed

theorem mcp_refuses_revoked_token_witness:
  "let d1 = snd (revoke_agent_token mem_database 9 ''idT'' (example_agents [''T'', ''U'']));
       d2 = run_actor_ops mem_database id [AuthenticateOp 10 ''U'', ListAgentsOp] d1
   in \<exists>reply. fst (mcp_handle mem_database example_mcp_env ''Bearer T'' example_fetch (example_mcp_state d2)) = Refused reply"
proof -
  let ?d = "example_agents [''T'', ''U'']" and ?ops = "[AuthenticateOp 10 ''U'', ListAgentsOp]"
  let ?cred = "\<lparr>cred_id = ''idT'', cred_actor = ''a1'', cred_label = [],
        cred_hash = hash_token id ''T'', cred_created = 6, cred_revoked = None, cred_last_used = None\<rparr>"
  have ne: "hash_token id ''T'' \<noteq> hash_token id ''U''"
    using hash_token_def hex_encode_inj by fastforce
  have uniq: "uniq_credentials (tb_credentials (md_tables ?d))"
    using ne by (simp add: example_agents_defs uniq_credentials_def)
  obtain d1 where rev: "revoke_agent_token mem_database 9 (cred_id ?cred) ?d = (None, d1)"
    using ne by (auto simp: revoke_agent_token_def mem_eval example_agents_defs)
  obtain res st' where run: "mcp_handle mem_database example_mcp_env (''Bearer '' @ ''T'') example_fetch
      (example_mcp_state (run_actor_ops mem_database id ?ops d1)) = (res, st')" by fastforce
  have "\<exists>reply. res = Refused reply \<and> hr_status reply = 401"
    by (rule conjunct1 [OF mcp_refuses_revoked_token [OF mem.sql_database_axioms uniq _ _ rev _ run]])
      (simp_all add: example_agents_defs example_mcp_env_def example_mcp_state_def)
  with run rev show ?thesis by (auto simp: Let_def)
qed

text \<open>The row that a reply leaves.\<close>

definition reply_row :: "actor \<Rightarrow> tool_request \<Rightarrow> tool_reply \<Rightarrow> tool_call \<Rightarrow> bool" where
  "reply_row a req reply c \<longleftrightarrow> (case (req, reply) of
      (CallFetch inp, FetchReply res) \<Rightarrow>
        faithful_row default_preview_bytes a ''fetch'' (fetch_input_json inp)
          (case res of Inl e \<Rightarrow> Inl (fetch_error_text e) | Inr r \<Rightarrow> Inr (fetch_output_json r)) c
    | (CallSearch inp, SearchReply res) \<Rightarrow>
        faithful_row default_preview_bytes a ''search'' (search_input_json inp)
          (case res of Inl e \<Rightarrow> Inl (search_error_text e) | Inr r \<Rightarrow> Inr (search_output_json r)) c
    | _ \<Rightarrow> False)"

lemma dispatch_recorded:
  assumes "sql_database content db" "dispatch_tool db env (Some a) req st = Some (reply, reqs, st')"
  shows "\<exists>c. reply_row a req reply c \<and> call_id c = st_uuid (me_stamp env) \<and> call_called_at c = st_now (me_stamp env)
    \<and> row_written db content c (ms_db st) (ms_db st')"
proof -
  have db: "rec_db (tool_recorder db) = Some db" "preview_limit (tool_recorder db) = default_preview_bytes"
    by (simp_all add: tool_recorder_def preview_limit_def)
  show ?thesis
  proof (cases req)
    case (CallFetch inp)
    obtain res f rs where run: "fetch_doc (me_fetch env) (ms_fetcher st) (in_url inp) (in_offset inp) (actor_id a) = (res, f, rs)"
      by (metis prod.collapse)
    from call_fetch [OF run, of db] obtain d where d: "dispatch_tool db env (Some a) (CallFetch inp) st
        = Some (FetchReply res, rs, st\<lparr>ms_fetcher := f, ms_db := d\<rparr>)"
      "recorded (tool_recorder db) ''fetch'' fetch_input_json fetch_error_text fetch_output_json
        (fetch_tool (me_fetch env)) (me_stamp env) (Some a) inp (ms_fetcher st, []) (ms_db st) = Some (res, (f, rs), d)"
      by blast
    from recorded_row [OF assms(1) db(1) d(2)] d(1) assms(2) CallFetch
    show ?thesis by (auto simp: reply_row_def db(2))
  next
    case (CallSearch inp)
    obtain res s rs where run: "search_web (me_search env) (ms_searcher st) (in_query inp) (in_limit inp) (actor_id a) = (res, s, rs)"
      by (metis prod.collapse)
    from call_search [OF run, of db] obtain d where d: "dispatch_tool db env (Some a) (CallSearch inp) st
        = Some (SearchReply res, rs, st\<lparr>ms_searcher := s, ms_db := d\<rparr>)"
      "recorded (tool_recorder db) ''search'' search_input_json search_error_text search_output_json
        (search_tool (me_search env)) (me_stamp env) (Some a) inp (ms_searcher st, []) (ms_db st) = Some (res, (s, rs), d)"
      by blast
    from recorded_row [OF assms(1) db(1) d(2)] d(1) assms(2) CallSearch
    show ?thesis by (auto simp: reply_row_def db(2))
  qed
qed

text \<open>On a calm database a live token is served, and the call is in the history.\<close>

lemma mcp_served_when_calm:
  assumes "calm_database content db calm" "calm (ms_db st)" "tables_ok (content (ms_db st))"
    "live (hash_token (me_sha env) token) (content (ms_db st)) cred" "token \<noteq> []"
    "a \<in> set (tb_actors (content (ms_db st)))" "actor_id a = cred_actor cred"
    "st_uuid (me_stamp env) \<notin> call_id ` set (tb_calls (content (ms_db st)))"
    "mcp_handle db env (''Bearer '' @ token) req st = (res, st')"
  shows "\<exists>reply reqs c. res = Served (Some (reply, reqs)) \<and> reply_row a req reply c
    \<and> tb_calls (content (ms_db st')) = tb_calls (content (ms_db st)) @ [c] \<and> calm (ms_db st')"
proof -
  have sql: "sql_database content db" using assms(1) by (rule calm_database.axioms(1))
  obtain r d1 where auth: "authenticate_agent_token db (me_sha env) (me_auth_now env) token (ms_db st) = (r, d1)"
    by fastforce
  have ok: "r = Inr a" "calm d1"
    using calm_database.authenticate_calm [OF assms(1,2,4) _ assms(6,7) _ auth] assms(3)
    by (simp_all add: tables_ok_def)
  have "\<exists>x. res = Served x"
    using assms(5,9) auth ok(1) by (auto simp: mcp_handle_def require_bearer_def cut_prefix_def auth_authenticate_def
        split: prod.splits guarded.splits option.splits)
  with sql assms(9) show ?thesis
  proof (cases rule: mcp_handle_cases)
    case (2 token' a' cred' d1' reply reqs)
    with auth ok(1) have same: "a' = a" "d1' = d1" by simp_all
    have calls: "tb_calls (content d1) = tb_calls (content (ms_db st))" by (subst 2(5) [unfolded same]) simp
    obtain c where c: "reply_row a req reply c" "call_id c = st_uuid (me_stamp env)"
      "row_written db content c d1 (ms_db st')"
      using dispatch_recorded [OF sql 2(6)] same by auto
    have "uniq_calls (tb_calls (content d1) @ [c])"
      using assms(3,8) c(2) by (auto simp: calls tables_ok_def uniq_calls_def)
    then have "fst (sql_create (db_calls db) c d1) = None" "calm (snd (sql_create (db_calls db) c d1))"
      using calm_table.create_calm [OF calm_database.axioms(4) [OF assms(1)] prod.collapse [symmetric] ok(2), of c] by simp_all
    with c(3) row_written_there [OF c(3)] 2(7) c(1) calls show ?thesis by (auto simp: row_written_def)
  qed simp
qed

text \<open>C6: the history is complete and attributed: a request that is served for an agent writes one row,
  under that agent's name and the name of the tool, holding its input and its outcome, and
  the row is in the history afterwards unless that INSERT failed; a refused request adds
  none.\<close>

theorem mcp_history_is_complete:
  assumes "sql_database content db" "mcp_handle db env header req st = (res, st')"
  shows "case res of
      Served (Some (reply, reqs)) \<Rightarrow>
        (\<exists>a cred token d c. header = ''Bearer '' @ token
             \<and> live (hash_token (me_sha env) token) (content (ms_db st)) cred \<and> actor_id a = cred_actor cred
             \<and> reply_row a req reply c \<and> ms_db st' = snd (sql_create (db_calls db) c d)
             \<and> tb_calls (content (ms_db st')) = tb_calls (content (ms_db st))
                  @ (if fst (sql_create (db_calls db) c d) = None then [c] else []))
    | Served None \<Rightarrow> False
    | Refused reply \<Rightarrow> tb_calls (content (ms_db st')) = tb_calls (content (ms_db st))"
  using assms
proof (cases rule: mcp_handle_cases)
  case (1 reply)
  have "tb_calls (content (ms_db st')) = tb_calls (content (ms_db st))"
    by (subst 1(4)) simp
  with 1 show ?thesis by simp
next
  case (2 token a cred d1 reply reqs)
  have calls: "tb_calls (content d1) = tb_calls (content (ms_db st))" by (subst 2(5)) simp
  obtain c where c: "reply_row a req reply c" "row_written db content c d1 (ms_db st')"
    using dispatch_recorded [OF assms(1) 2(6)] by auto
  then have "tb_calls (content (ms_db st')) = tb_calls (content (ms_db st))
      @ (if fst (sql_create (db_calls db) c d1) = None then [c] else [])"
    "ms_db st' = snd (sql_create (db_calls db) c d1)"
    using calls by (auto simp: row_written_def split: if_splits)
  with c(1) 2(1,2,4) have "\<exists>a cred token d c. header = ''Bearer '' @ token
      \<and> live (hash_token (me_sha env) token) (content (ms_db st)) cred \<and> actor_id a = cred_actor cred
      \<and> reply_row a req reply c \<and> ms_db st' = snd (sql_create (db_calls db) c d)
      \<and> tb_calls (content (ms_db st')) = tb_calls (content (ms_db st))
           @ (if fst (sql_create (db_calls db) c d) = None then [c] else [])" by blast
  with 2(7) show ?thesis by simp
qed

theorem mcp_history_is_complete_witness:
  "\<exists>reply reqs st' c. mcp_handle mem_database example_mcp_env ''Bearer T'' example_fetch
       (example_mcp_state (example_agents [''T''])) = (Served (Some (reply, reqs)), st')
     \<and> (\<exists>a. actor_id a = ''a1'' \<and> reply_row a example_fetch reply c) \<and> tb_calls (md_tables (ms_db st')) = [c]"
proof -
  let ?st = "example_mcp_state (example_agents [''T''])"
  obtain res st' where run: "mcp_handle mem_database example_mcp_env (''Bearer '' @ ''T'') example_fetch ?st = (res, st')"
    by fastforce
  let ?cred = "\<lparr>cred_id = ''idT'', cred_actor = ''a1'', cred_label = [],
        cred_hash = hash_token id ''T'', cred_created = 6, cred_revoked = None, cred_last_used = None\<rparr>"
  obtain reply reqs c where out: "res = Served (Some (reply, reqs))" "tb_calls (md_tables (ms_db st')) = [c]"
    using mcp_served_when_calm [OF calm.calm_database_axioms _ _ _ _ _ _ _ run, of ?cred example_actor]
    by (auto simp: example_mcp_state_def example_agents_defs example_mcp_env_def mem_calm_def tables_ok_def uniq_defs live_def)
  have calls: "tb_calls (md_tables (ms_db ?st)) = []" by (simp add: example_mcp_state_def example_agents_defs)
  from mcp_history_is_complete [OF mem.sql_database_axioms run] obtain a cred token d x where
    "live (hash_token (me_sha example_mcp_env) token) (md_tables (ms_db ?st)) cred" "actor_id a = cred_actor cred"
    "reply_row a example_fetch reply x" "[c] = [] @ (if fst (sql_create (db_calls mem_database) x d) = None then [x] else [])"
    unfolding out calls by auto
  then have "actor_id a = ''a1''" "x = c"
    by (auto simp: live_def example_mcp_state_def example_agents_defs split: if_splits)
  with out run \<open>reply_row a example_fetch reply x\<close> show ?thesis by auto
qed

end
