(* ===== verification/Human_Repo.thy ===== *)
theory Human_Repo
  imports Actor_Repo
begin

section \<open>Human actors (internal/storage/human_repo.go)\<close>

text \<open>
  GetOrCreateHumanActor twice: as a function of the database for one caller, and as a step
  relation in which any number of callers interleave statement by statement
  (\<open>human_step\<close>, whose transaction is one step). The invariant of both is \<open>linked\<close>: an
  identity always has its human actor.
\<close>

subsection \<open>The function\<close>

definition load_actor :: "'d database \<Rightarrow> string \<Rightarrow> 'd \<Rightarrow> (repo_error + actor) \<times> 'd" where
  "load_actor db i d =
     (case sql_first (db_actors db) (\<lambda>a. actor_id a = i) d of
        (Inl e, d1) \<Rightarrow> (Inl (DbErr e), d1)
      | (Inr a, d1) \<Rightarrow> (Inr a, d1))"

definition new_identity :: "string \<Rightarrow> string \<Rightarrow> string \<Rightarrow> user_identity" where
  "new_identity uuid subject role = \<lparr>ident_actor = uuid, ident_subject = subject, ident_role = role\<rparr>"

definition new_human :: "string \<Rightarrow> string \<Rightarrow> time \<Rightarrow> actor" where
  "new_human uuid name now =
     \<lparr>actor_id = uuid, actor_name = name, actor_kind = HumanKind, actor_created = now\<rparr>"

text \<open>The closure of the transaction; the flag is the variable \<open>won\<close>.\<close>

definition create_human_tx :: "'d database \<Rightarrow> string \<Rightarrow> time \<Rightarrow> string \<Rightarrow> string \<Rightarrow> string \<Rightarrow> 'd
    \<Rightarrow> (bool \<times> db_error option) \<times> 'd" where
  "create_human_tx db uuid now subject name role d =
     (case sql_create_new (db_identities db) ident_subject (new_identity uuid subject role) d of
        (Inl e, d1) \<Rightarrow> ((False, Some e), d1)
      | (Inr n, d1) \<Rightarrow>
          if \<not> 0 < n then ((False, None), d1)
          else case sql_create (db_actors db) (new_human uuid name now) d1 of
            (err, d2) \<Rightarrow> ((True, err), d2))"

definition get_or_create_human_actor :: "'d database \<Rightarrow> string \<Rightarrow> time \<Rightarrow> string \<Rightarrow> string \<Rightarrow> string \<Rightarrow> 'd
    \<Rightarrow> (repo_error + actor) \<times> 'd" where
  "get_or_create_human_actor db uuid now subject name role d =
     (case sql_first (db_identities db) (\<lambda>i. ident_subject i = subject) d of
        (Inr identity, d1) \<Rightarrow>
          (case (if ident_role identity \<noteq> role
                 then sql_update (db_identities db) (\<lambda>i. ident_actor i = ident_actor identity)
                        (\<lambda>i. i\<lparr>ident_role := role\<rparr>) d1
                 else (None, d1)) of
             (Some e, d2) \<Rightarrow> (Inl (DbErr e), d2)
           | (None, d2) \<Rightarrow> load_actor db (ident_actor identity) d2)
      | (Inl e, d1) \<Rightarrow>
          if e \<noteq> RecordNotFound then (Inl (DbErr e), d1)
          else case db_transaction db (create_human_tx db uuid now subject name role) d1 of
            ((won, Some e'), d2) \<Rightarrow> (Inl (DbErr e'), d2)
          | ((won, None), d2) \<Rightarrow>
              if won then load_actor db uuid d2
              else case sql_first (db_identities db) (\<lambda>i. ident_subject i = subject) d2 of
                (Inl e', d3) \<Rightarrow> (Inl (DbErr e'), d3)
              | (Inr winner, d3) \<Rightarrow> load_actor db (ident_actor winner) d3)"

definition linked :: "tables \<Rightarrow> bool" where
  "linked c \<longleftrightarrow> uniq_actors (tb_actors c) \<and> uniq_identities (tb_identities c)
     \<and> (\<forall>i \<in> set (tb_identities c). \<exists>a \<in> set (tb_actors c). actor_id a = ident_actor i \<and> actor_kind a = HumanKind)"

definition human_of :: "string \<Rightarrow> string \<Rightarrow> tables \<Rightarrow> actor \<Rightarrow> bool" where
  "human_of subject role c a \<longleftrightarrow> a \<in> set (tb_actors c) \<and> actor_kind a = HumanKind
     \<and> (\<exists>i \<in> set (tb_identities c). ident_subject i = subject \<and> ident_actor i = actor_id a \<and> ident_role i = role)"

definition set_role :: "string \<Rightarrow> string \<Rightarrow> tables \<Rightarrow> tables" where
  "set_role i role c = tb_identities_update
     (map (\<lambda>x. if ident_actor x = i then x\<lparr>ident_role := role\<rparr> else x)) c"

definition add_human :: "user_identity \<Rightarrow> actor \<Rightarrow> tables \<Rightarrow> tables" where
  "add_human i a c = tb_actors_update (\<lambda>rs. rs @ [a]) (tb_identities_update (\<lambda>rs. rs @ [i]) c)"

lemma uniq_identities_map:
  assumes "uniq_identities rs" "\<And>x. ident_actor (u x) = ident_actor x" "\<And>x. ident_subject (u x) = ident_subject x"
  shows "uniq_identities (map u rs)"
  using assms by (simp add: uniq_identities_def comp_def)

lemma linked_set_role:
  assumes "linked c" shows "linked (set_role i role c)"
proof -
  have "uniq_identities (tb_identities (set_role i role c))"
    using assms unfolding set_role_def by (simp, intro uniq_identities_map) (auto simp: linked_def)
  then show ?thesis using assms by (auto simp: linked_def set_role_def)
qed

lemma linked_add_human:
  assumes "linked c" "uniq_actors (tb_actors c @ [a])" "uniq_identities (tb_identities c @ [i])"
    "ident_actor i = actor_id a" "actor_kind a = HumanKind"
  shows "linked (add_human i a c)"
  using assms by (auto simp: linked_def add_human_def)

lemma linked_same_actor:
  assumes "linked c" "i \<in> set (tb_identities c)" "j \<in> set (tb_identities c)" "ident_subject i = ident_subject j"
    "a \<in> set (tb_actors c)" "b \<in> set (tb_actors c)" "actor_id a = ident_actor i" "actor_id b = ident_actor j"
  shows "a = b"
proof -
  have "i = j"
    using assms(1-4) distinct_map_eq [of ident_subject] by (auto simp: linked_def uniq_identities_def)
  with assms distinct_map_eq [of actor_id "tb_actors c" a b] show ?thesis
    by (auto simp: linked_def uniq_actors_def)
qed

definition owns :: "string \<Rightarrow> tables \<Rightarrow> string \<Rightarrow> bool" where
  "owns subject c aid \<longleftrightarrow> (\<exists>i \<in> set (tb_identities c). ident_subject i = subject \<and> ident_actor i = aid)"

lemma owns_set_role: "owns s (set_role i role c) aid \<longleftrightarrow> owns s c aid"
proof -
  let ?u = "\<lambda>x. if ident_actor x = i then x\<lparr>ident_role := role\<rparr> else x"
  have "tb_identities (set_role i role c) = map ?u (tb_identities c)" by (simp add: set_role_def)
  then have "owns s (set_role i role c) aid
      \<longleftrightarrow> (\<exists>x \<in> set (tb_identities c). ident_subject (?u x) = s \<and> ident_actor (?u x) = aid)"
    by (simp only: owns_def set_map bex_simps)
  also have "\<dots> \<longleftrightarrow> owns s c aid" unfolding owns_def by (intro bex_cong) simp_all
  finally show ?thesis .
qed

lemma tb_actors_changes [simp]:
  "tb_actors (set_role i role c) = tb_actors c" "tb_actors (add_human j a c) = tb_actors c @ [a]"
  by (simp_all add: set_role_def add_human_def)

lemma owns_add_human: "owns s c aid \<Longrightarrow> owns s (add_human i a c) aid"
  by (auto simp: owns_def add_human_def)

context sql_database begin

lemma load_actor_effect:
  assumes "load_actor db i d = (res, d')"
  shows "content d' = content d \<and> (case res of
      Inr a \<Rightarrow> a \<in> set (tb_actors (content d)) \<and> actor_id a = i
    | Inl e \<Rightarrow> (\<exists>s. e = DbErr (DbError s)) \<or> (\<forall>a \<in> set (tb_actors (content d)). actor_id a \<noteq> i))"
proof -
  obtain r d1 where f: "sql_first (db_actors db) (\<lambda>a. actor_id a = i) d = (r, d1)" by fastforce
  show ?thesis
  proof (cases r)
    case (Inl e)
    with actors.first_missing [OF f [unfolded Inl]] f assms show ?thesis
      by (cases e) (auto simp: load_actor_def)
  next
    case (Inr a)
    with actors.first_found [OF f [unfolded Inr]] f assms show ?thesis
      by (auto simp: load_actor_def)
  qed
qed

text \<open>The transaction, run where no identity has the subject: both rows, or neither.\<close>

lemma create_human_tx_effect:
  assumes "db_transaction db (create_human_tx db uuid now subject name role) d = ((won, err), d')"
    "\<forall>i \<in> set (tb_identities (content d)). ident_subject i \<noteq> subject"
  shows "if err = None then won
      \<and> content d' = add_human (new_identity uuid subject role) (new_human uuid name now) (content d)
      \<and> uniq_identities (tb_identities (content d) @ [new_identity uuid subject role])
      \<and> uniq_actors (tb_actors (content d) @ [new_human uuid name now])
    else content d' = content d"
proof (cases err)
  case (Some e)
  with rollback [OF assms(1) [unfolded Some]] show ?thesis by simp
next
  case None
  obtain d0 d1 where tx: "content d0 = content d"
    "create_human_tx db uuid now subject name role d0 = ((won, None), d1)" "content d' = content d1"
    using commit [OF assms(1) [unfolded None]] by blast
  obtain r d2 where i: "sql_create_new (db_identities db) ident_subject (new_identity uuid subject role) d0 = (r, d2)"
    by fastforce
  with tx(2) obtain n where n: "r = Inr n" by (cases r) (auto simp: create_human_tx_def)
  have ident: "n = 1" "content d2 = tb_identities_update (\<lambda>rs. rs @ [new_identity uuid subject role]) (content d)"
    "uniq_identities (tb_identities (content d) @ [new_identity uuid subject role])"
    using identities.create_new_ok [OF i [unfolded n]] assms(2) tx(1)
    by (auto simp: new_identity_def split: if_splits)
  obtain r' d3 where a: "sql_create (db_actors db) (new_human uuid name now) d2 = (r', d3)" by fastforce
  with tx(2) i n ident(1) have "r' = None" "won" "d3 = d1" by (auto simp: create_human_tx_def)
  with actors.create_ok [of "new_human uuid name now" d2 d1] a tx(3) ident None show ?thesis
    by (simp add: add_human_def)
qed

lemma get_or_create_effect:
  assumes "get_or_create_human_actor db uuid now subject name role d = (res, d')" "linked (content d)"
  shows "linked (content d')
    \<and> (\<forall>a. res = Inr a \<longrightarrow> human_of subject role (content d') a)
    \<and> set (tb_actors (content d)) \<subseteq> set (tb_actors (content d'))
    \<and> (\<forall>i \<in> set (tb_identities (content d)). ident_subject i \<noteq> subject \<longrightarrow> i \<in> set (tb_identities (content d')))
    \<and> (\<forall>s aid. owns s (content d) aid \<longrightarrow> owns s (content d') aid)"
proof -
  let ?P = "\<lambda>i. ident_subject i = subject"
  obtain r d1 where f: "sql_first (db_identities db) ?P d = (r, d1)" by fastforce
  show ?thesis
  proof (cases r)
    case (Inr i)
    note i = identities.first_found [OF f [unfolded Inr]]
    define upd where "upd = (if ident_role i \<noteq> role
        then sql_update (db_identities db) (\<lambda>x. ident_actor x = ident_actor i) (\<lambda>x. x\<lparr>ident_role := role\<rparr>) d1
        else (None, d1))"
    obtain err d2 where u: "upd = (err, d2)" by fastforce
    have same: "x = i" if "x \<in> set (tb_identities (content d))" "ident_actor x = ident_actor i" for x
      using assms(2) that i distinct_map_eq [of ident_actor "tb_identities (content d)" x i]
      by (auto simp: linked_def uniq_identities_def)
    have d2: "content d2 = content d \<or> content d2 = set_role (ident_actor i) role (content d)"
      "err = None \<Longrightarrow> i\<lparr>ident_role := role\<rparr> \<in> set (tb_identities (content d2))"
      using u i identities.update_ok identities.update_failed
      by (cases err; auto simp: upd_def set_role_def image_iff split: if_splits)+
    have "x \<in> set (tb_identities (content d2))"
      if "x \<in> set (tb_identities (content d))" "ident_subject x \<noteq> subject" for x
    proof -
      have "ident_actor x \<noteq> ident_actor i" using same [OF that(1)] that(2) i by blast
      then show ?thesis using d2(1) that(1) by (force simp: set_role_def image_iff)
    qed
    moreover have "linked (content d2)" "set (tb_actors (content d)) = set (tb_actors (content d2))"
      using d2(1) assms(2) linked_set_role by (auto simp: set_role_def)
    moreover have "\<forall>s aid. owns s (content d) aid \<longrightarrow> owns s (content d2) aid"
      using d2(1) owns_set_role by auto
    ultimately have keep: "linked (content d2)" "set (tb_actors (content d)) = set (tb_actors (content d2))"
      "\<forall>x \<in> set (tb_identities (content d)). ident_subject x \<noteq> subject \<longrightarrow> x \<in> set (tb_identities (content d2))"
      "\<forall>s aid. owns s (content d) aid \<longrightarrow> owns s (content d2) aid"
      by blast+
    show ?thesis
    proof (cases err)
      case (Some e)
      with assms(1) f Inr u have "d' = d2" "res = Inl (DbErr e)"
        by (auto simp: get_or_create_human_actor_def upd_def)
      with keep show ?thesis by simp
    next
      case None
      with assms(1) f Inr u have l: "load_actor db (ident_actor i) d2 = (res, d')"
        by (simp add: get_or_create_human_actor_def upd_def)
      have "human_of subject role (content d2) a" if "res = Inr a" for a
      proof -
        have a: "a \<in> set (tb_actors (content d2))" "actor_id a = ident_actor i"
          using load_actor_effect [OF l] that by simp_all
        obtain b where "b \<in> set (tb_actors (content d2))" "actor_id b = ident_actor i" "actor_kind b = HumanKind"
          using keep(1) d2(2) [OF None] by (fastforce simp: linked_def)
        with a keep(1) distinct_map_eq [of actor_id "tb_actors (content d2)" a b] have "actor_kind a = HumanKind"
          by (auto simp: linked_def uniq_actors_def)
        with a d2(2) [OF None] i show ?thesis
          unfolding human_of_def by (intro conjI bexI [of _ "i\<lparr>ident_role := role\<rparr>"]) auto
      qed
      with load_actor_effect [OF l] keep show ?thesis by simp
    qed
  next
    case (Inl e)
    note miss = identities.first_missing [OF f [unfolded Inl]]
    show ?thesis
    proof (cases e)
      case (DbError s)
      with assms f Inl miss show ?thesis by (auto simp: get_or_create_human_actor_def)
    next
      case RecordNotFound
      obtain won err d2 where tx: "db_transaction db (create_human_tx db uuid now subject name role) d1 = ((won, err), d2)"
        by (metis prod.collapse)
      have none: "\<forall>i \<in> set (tb_identities (content d1)). ident_subject i \<noteq> subject"
        using miss RecordNotFound by simp
      note eff = create_human_tx_effect [OF tx none]
      show ?thesis
      proof (cases err)
        case (Some e')
        with eff assms f Inl RecordNotFound tx miss show ?thesis
          by (auto simp: get_or_create_human_actor_def)
      next
        case None
        let ?i = "new_identity uuid subject role" and ?a = "new_human uuid name now"
        have eff: "won" "content d2 = add_human ?i ?a (content d)" "uniq_identities (tb_identities (content d) @ [?i])"
          "uniq_actors (tb_actors (content d) @ [?a])" using eff None miss by simp_all
        have l: "load_actor db uuid d2 = (res, d')"
          using assms(1) f Inl RecordNotFound tx None eff(1) by (simp add: get_or_create_human_actor_def)
        have lk: "linked (content d2)"
          unfolding eff(2) using assms(2) eff(3,4)
          by (intro linked_add_human) (simp_all add: new_identity_def new_human_def)
        have "human_of subject role (content d2) a" if "res = Inr a" for a
        proof -
          have a: "a \<in> set (tb_actors (content d2))" "actor_id a = uuid"
            using load_actor_effect [OF l] that by simp_all
          with lk distinct_map_eq [of actor_id "tb_actors (content d2)" a ?a] have "a = ?a"
            by (auto simp: linked_def uniq_actors_def eff(2) add_human_def new_human_def)
          with a show ?thesis
            by (auto simp: human_of_def eff(2) add_human_def new_identity_def new_human_def)
        qed
        moreover have "\<forall>s aid. owns s (content d) aid \<longrightarrow> owns s (content d2) aid"
          unfolding eff(2) using owns_add_human by blast
        ultimately show ?thesis using load_actor_effect [OF l] lk by (auto simp: eff(2) add_human_def)
      qed
    qed
  qed
qed

end

text \<open>The function writes identities and human actors only.\<close>

definition same_but_humans :: "tables \<Rightarrow> tables \<Rightarrow> bool" where
  "same_but_humans c c' \<longleftrightarrow> tb_credentials c' = tb_credentials c \<and> tb_sessions c' = tb_sessions c
     \<and> tb_calls c' = tb_calls c
     \<and> filter (\<lambda>a. actor_kind a = AgentKind) (tb_actors c') = filter (\<lambda>a. actor_kind a = AgentKind) (tb_actors c)"

lemma same_but_humans_updates [simp]:
  "same_but_humans c c" "same_but_humans c (tb_identities_update g c)"
  "actor_kind a = HumanKind \<Longrightarrow> same_but_humans c (tb_actors_update (\<lambda>rs. rs @ [a]) c)"
  by (simp_all add: same_but_humans_def)

lemma same_but_humans_trans: "same_but_humans c c' \<Longrightarrow> same_but_humans c' c'' \<Longrightarrow> same_but_humans c c''"
  by (simp add: same_but_humans_def)

text \<open>Whatever relates the tables before and after a write of identities and after the new actor
  relates them before and after the function.\<close>

locale human_writes = sql_database content db
  for content :: "'d \<Rightarrow> tables" and db :: "'d database" +
  fixes R :: "tables \<Rightarrow> tables \<Rightarrow> bool" and new_actor :: actor
  assumes R_refl: "R c c"
    and R_trans: "R c1 c2 \<Longrightarrow> R c2 c3 \<Longrightarrow> R c1 c3"
    and R_identities: "R c (tb_identities_update g c)"
    and R_actor: "R c (tb_actors_update (\<lambda>rs. rs @ [new_actor]) c)"
begin

lemma identity_create_new_related:
  assumes "sql_create_new (db_identities db) col r d = (res, d')" shows "R (content d) (content d')"
  using assms identities.create_new_ok [of col r d _ d'] identities.create_new_failed [of col r d _ d'] R_refl R_identities
  by (cases res) (fastforce split: if_splits)+

lemma actor_create_related:
  assumes "sql_create (db_actors db) new_actor d = (err, d')" shows "R (content d) (content d')"
  using assms actors.create_ok [of new_actor d d'] actors.create_failed [of new_actor d _ d'] R_refl R_actor
  by (cases err) auto

lemma create_human_tx_related:
  assumes "create_human_tx db uuid now subject name role d = (res, d')" "new_actor = new_human uuid name now"
  shows "R (content d) (content d')"
  using assms(1)
  by (auto simp: create_human_tx_def split: prod.splits sum.splits if_splits
      dest: identity_create_new_related actor_create_related [unfolded assms(2)] intro: R_trans)

lemma human_transaction_related:
  assumes "db_transaction db (create_human_tx db uuid now subject name role) d = (res, d')"
    "new_actor = new_human uuid name now"
  shows "R (content d) (content d')"
proof -
  obtain w err where r: "res = (w, err)" by fastforce
  show ?thesis
  proof (cases err)
    case None
    with commit assms(1) r obtain d0 d1 where "content d0 = content d"
      "create_human_tx db uuid now subject name role d0 = ((w, None), d1)" "content d' = content d1" by blast
    with create_human_tx_related [OF _ assms(2)] show ?thesis by metis
  next
    case (Some e)
    with rollback assms(1) r R_refl show ?thesis by metis
  qed
qed

lemma get_or_create_related:
  assumes "get_or_create_human_actor db uuid now subject name role d = (res, d')"
    "new_actor = new_human uuid name now"
  shows "R (content d) (content d')"
proof -
  have load: "R (content x) (content y)" if "load_actor db i x = (r, y)" for i x r y
    using load_actor_effect [OF that] R_refl by simp
  have first: "R (content x) (content y)" if "sql_first (db_identities db) P x = (r, y)" for P x r y
    using that identities.first_found [of P x _ y] identities.first_missing [of P x _ y] R_refl by (cases r) auto
  have upd: "R (content x) (content y)" if "sql_update (db_identities db) P g x = (r, y)" for P g x r y
    using that identities.update_ok [of P g x y] identities.update_failed [of P g x _ y] R_refl R_identities
    by (cases r) auto
  show ?thesis
    using assms(1)
    by (auto simp: get_or_create_human_actor_def split: prod.splits sum.splits if_splits option.splits
        dest!: load first upd human_transaction_related [OF _ assms(2)] intro: R_trans R_refl)
qed

end

context sql_database begin

lemma get_or_create_keeps:
  assumes "get_or_create_human_actor db uuid now subject name role d = (res, d')"
  shows "same_but_humans (content d) (content d')"
proof (rule human_writes.get_or_create_related [OF _ assms refl])
  show "human_writes content db same_but_humans (new_human uuid name now)"
    by unfold_locales (auto simp: new_human_def intro: same_but_humans_trans)
qed

lemma get_or_create_actors:
  assumes "get_or_create_human_actor db uuid now subject name role d = (res, d')"
  shows "set (tb_actors (content d')) \<subseteq> insert (new_human uuid name now) (set (tb_actors (content d)))"
proof -
  let ?R = "\<lambda>c c'. set (tb_actors c') \<subseteq> insert (new_human uuid name now) (set (tb_actors c))"
  have "human_writes content db ?R (new_human uuid name now)" by unfold_locales auto
  from human_writes.get_or_create_related [OF this assms refl] show ?thesis .
qed

end

interpretation mem_humans: human_writes md_tables mem_database same_but_humans "new_human uuid name now" for uuid name now
  by unfold_locales (auto simp: new_human_def intro: same_but_humans_trans)

subsection \<open>Concurrent callers\<close>

record human_call =
  hc_subject :: string
  hc_name :: string
  hc_role :: string
  hc_uuid :: string
  hc_now :: time

datatype human_pc =
  Lookup
| SetRole user_identity      \<comment> \<open>the identity found has another role\<close>
| Load string                \<comment> \<open>about to load the actor with this identifier\<close>
| InTx                       \<comment> \<open>no identity found: about to run the transaction\<close>
| Lost                       \<comment> \<open>another caller's identity was there first\<close>
| Returned actor
| Failed

type_synonym human_state = "tables \<times> (nat \<Rightarrow> human_pc)"

inductive human_step :: "(nat \<Rightarrow> human_call) \<Rightarrow> human_state \<Rightarrow> human_state \<Rightarrow> bool" for call where
  found: "pc p = Lookup \<Longrightarrow> i \<in> set (tb_identities c) \<Longrightarrow> ident_subject i = hc_subject (call p) \<Longrightarrow>
    human_step call (c, pc)
      (c, pc(p := if ident_role i \<noteq> hc_role (call p) then SetRole i else Load (ident_actor i)))"
| missing: "pc p = Lookup \<Longrightarrow> \<forall>i \<in> set (tb_identities c). ident_subject i \<noteq> hc_subject (call p) \<Longrightarrow>
    human_step call (c, pc) (c, pc(p := InTx))"
| role: "pc p = SetRole i \<Longrightarrow>
    human_step call (c, pc) (set_role (ident_actor i) (hc_role (call p)) c, pc(p := Load (ident_actor i)))"
| won: "pc p = InTx \<Longrightarrow> i = new_identity (hc_uuid (call p)) (hc_subject (call p)) (hc_role (call p)) \<Longrightarrow>
    a = new_human (hc_uuid (call p)) (hc_name (call p)) (hc_now (call p)) \<Longrightarrow>
    uniq_identities (tb_identities c @ [i]) \<Longrightarrow> uniq_actors (tb_actors c @ [a]) \<Longrightarrow>
    human_step call (c, pc) (add_human i a c, pc(p := Load (hc_uuid (call p))))"
| lost: "pc p = InTx \<Longrightarrow> \<exists>i \<in> set (tb_identities c). ident_subject i = hc_subject (call p) \<Longrightarrow>
    human_step call (c, pc) (c, pc(p := Lost))"
| winner: "pc p = Lost \<Longrightarrow> i \<in> set (tb_identities c) \<Longrightarrow> ident_subject i = hc_subject (call p) \<Longrightarrow>
    human_step call (c, pc) (c, pc(p := Load (ident_actor i)))"
| loaded: "pc p = Load i \<Longrightarrow> a \<in> set (tb_actors c) \<Longrightarrow> actor_id a = i \<Longrightarrow>
    human_step call (c, pc) (c, pc(p := Returned a))"
| failed: "\<forall>a. pc p \<noteq> Returned a \<Longrightarrow> human_step call (c, pc) (c, pc(p := Failed))"

definition pc_ok :: "string \<Rightarrow> tables \<Rightarrow> human_pc \<Rightarrow> bool" where
  "pc_ok subject c q = (case q of
      SetRole i \<Rightarrow> owns subject c (ident_actor i)
    | Load aid \<Rightarrow> owns subject c aid
    | Lost \<Rightarrow> \<exists>aid. owns subject c aid
    | Returned a \<Rightarrow> a \<in> set (tb_actors c) \<and> owns subject c (actor_id a)
    | _ \<Rightarrow> True)"

definition human_inv :: "(nat \<Rightarrow> human_call) \<Rightarrow> human_state \<Rightarrow> bool" where
  "human_inv call s \<longleftrightarrow> linked (fst s) \<and> (\<forall>p. pc_ok (hc_subject (call p)) (fst s) (snd s p))"

lemma pc_ok_grow:
  assumes "pc_ok s c q" "\<And>aid. owns s c aid \<Longrightarrow> owns s c' aid" "set (tb_actors c) \<subseteq> set (tb_actors c')"
  shows "pc_ok s c' q"
  using assms by (auto simp: pc_ok_def split: human_pc.splits)

text \<open>One lemma per kind of step: those that change one program counter, and those that write.\<close>

lemma human_inv_move:
  assumes "human_inv call (c, pc)" "pc_ok (hc_subject (call p)) c q"
  shows "human_inv call (c, pc(p := q))"
  using assms by (simp add: human_inv_def)

lemma human_inv_write:
  assumes "human_inv call (c, pc)" "linked c'" "set (tb_actors c) \<subseteq> set (tb_actors c')"
    "\<And>s aid. owns s c aid \<Longrightarrow> owns s c' aid"
  shows "human_inv call (c', pc)"
  using assms pc_ok_grow unfolding human_inv_def by (metis fst_conv snd_conv)

lemma human_step_inv:
  assumes "human_step call s s'" "human_inv call s" shows "human_inv call s'"
  using assms
proof (induction rule: human_step.induct)
  case (found pc p i c)
  then show ?case by (intro human_inv_move) (auto simp: pc_ok_def owns_def)
next
  case (missing pc p c)
  then show ?case by (intro human_inv_move) (auto simp: pc_ok_def)
next
  case (role pc p i c)
  then have lk: "linked c" and "pc_ok (hc_subject (call p)) c (SetRole i)"
    unfolding human_inv_def by (simp, metis fst_conv snd_conv)
  then have "owns (hc_subject (call p)) c (ident_actor i)" by (simp add: pc_ok_def)
  moreover have "human_inv call (set_role (ident_actor i) (hc_role (call p)) c, pc)"
    by (rule human_inv_write [OF role.prems linked_set_role [OF lk]]) (simp_all add: owns_set_role)
  ultimately show ?case by (intro human_inv_move) (simp_all add: pc_ok_def owns_set_role)
next
  case (won pc p i a c)
  then have lk: "linked c" by (simp add: human_inv_def)
  have "linked (add_human i a c)"
    by (rule linked_add_human [OF lk won(5,4)]) (simp_all add: won(2,3) new_identity_def new_human_def)
  then have "human_inv call (add_human i a c, pc)"
    by (rule human_inv_write [OF won.prems]) (simp_all add: owns_add_human, auto)
  moreover have "owns (hc_subject (call p)) (add_human i a c) (hc_uuid (call p))"
    using won(2) by (auto simp: owns_def add_human_def new_identity_def)
  ultimately show ?case by (intro human_inv_move) (simp_all add: pc_ok_def)
next
  case (lost pc p c)
  then have "\<exists>aid. owns (hc_subject (call p)) c aid" unfolding owns_def by blast
  with lost show ?case by (intro human_inv_move) (auto simp: pc_ok_def)
next
  case (winner pc p i c)
  then show ?case by (intro human_inv_move) (auto simp: pc_ok_def owns_def)
next
  case (loaded pc p i a c)
  then have "pc_ok (hc_subject (call p)) c (Load i)" unfolding human_inv_def by (metis fst_conv snd_conv)
  with loaded show ?case by (intro human_inv_move) (auto simp: pc_ok_def)
next
  case (failed pc p c)
  then show ?case by (intro human_inv_move) (auto simp: pc_ok_def)
qed

lemma human_run_inv:
  assumes "(human_step call)\<^sup>*\<^sup>* s s'" "human_inv call s" shows "human_inv call s'"
  using assms by (induction rule: rtranclp_induct) (auto intro: human_step_inv)

subsection \<open>Properties\<close>

text \<open>GetOrCreateHumanActor answers with a human actor that is linked to the subject and carries the
  role it was called with; every identity has its actor before and after, also when it
  fails half-way; no actor is removed and no other subject's identity is touched; and a later
  call for the same subject answers with the same actor, whatever name and role it passes.\<close>

theorem human_actor_is_stable:
  assumes "sql_database content db" "linked (content d)"
    "get_or_create_human_actor db uuid now subject name role d = (res, d1)"
    "get_or_create_human_actor db uuid' now' subject name' role' d1 = (Inr b, d2)"
  shows "linked (content d1) \<and> set (tb_actors (content d)) \<subseteq> set (tb_actors (content d1))
    \<and> (\<forall>i \<in> set (tb_identities (content d)). ident_subject i \<noteq> subject \<longrightarrow> i \<in> set (tb_identities (content d1)))
    \<and> (\<forall>a. res = Inr a \<longrightarrow> human_of subject role (content d1) a \<and> a = b)"
proof -
  note e1 = sql_database.get_or_create_effect [OF assms(1,3,2)]
  note e2 = sql_database.get_or_create_effect [OF assms(1,4) conjunct1 [OF e1]]
  have "a = b" if "res = Inr a" for a
  proof -
    have a: "human_of subject role (content d1) a" using e1 that by blast
    then have "owns subject (content d1) (actor_id a)" by (auto simp: human_of_def owns_def)
    then have "owns subject (content d2) (actor_id a)" using e2 by blast
    moreover have "a \<in> set (tb_actors (content d2))" using a e2 by (auto simp: human_of_def)
    moreover have "human_of subject role' (content d2) b" "linked (content d2)" using e2 by blast+
    ultimately show ?thesis
      using linked_same_actor [of "content d2" _ _ a b] by (auto simp: human_of_def owns_def)
  qed
  with e1 show ?thesis by blast
qed

theorem human_actor_is_stable_witness:
  "\<exists>a d1 d2. get_or_create_human_actor mem_database ''u1'' 5 ''sub'' ''Ann'' ''viewer'' mem_empty = (Inr a, d1)
     \<and> get_or_create_human_actor mem_database ''u2'' 6 ''sub'' ''Ann B'' ''admin'' d1 = (Inr a, d2)
     \<and> human_of ''sub'' ''viewer'' (md_tables d1) a"
proof -
  have l: "linked (md_tables mem_empty)" by (simp add: linked_def mem_empty_def uniq_defs)
  obtain a d1 where g1:
    "get_or_create_human_actor mem_database ''u1'' 5 ''sub'' ''Ann'' ''viewer'' mem_empty = (Inr a, d1)"
    "d1 = \<lparr>md_tables = add_human (new_identity ''u1'' ''sub'' ''viewer'') (new_human ''u1'' ''Ann'' 5)
             (md_tables mem_empty), md_faults = []\<rparr>"
    by (auto simp: get_or_create_human_actor_def mem_eval mem_empty_def create_human_tx_def load_actor_def
        new_identity_def new_human_def add_human_def)
  obtain b d2 where g2: "get_or_create_human_actor mem_database ''u2'' 6 ''sub'' ''Ann B'' ''admin'' d1 = (Inr b, d2)"
    by (auto simp: get_or_create_human_actor_def mem_eval mem_empty_def load_actor_def g1(2)
        new_identity_def new_human_def add_human_def)
  from human_actor_is_stable [OF mem.sql_database_axioms l g1(1) g2] g1(1) g2 show ?thesis by auto
qed

text \<open>However any number of concurrent calls interleave, and whichever of them fail, two calls for the
  same subject that return, return the same actor; no identity is left without its actor; and
  the row that a call is about to load is there.\<close>

theorem concurrent_calls_agree:
  assumes "linked c0" "(human_step call)\<^sup>*\<^sup>* (c0, \<lambda>_. Lookup) (c, pc)"
  shows "linked c
    \<and> (\<forall>p q a b. pc p = Returned a \<and> pc q = Returned b \<and> hc_subject (call p) = hc_subject (call q) \<longrightarrow> a = b)
    \<and> (\<forall>p i. pc p = Load i \<longrightarrow> (\<exists>a \<in> set (tb_actors c). actor_id a = i))"
proof -
  have "human_inv call (c0, \<lambda>_. Lookup)" using assms(1) by (simp add: human_inv_def pc_ok_def)
  with human_run_inv [OF assms(2)] have inv: "linked c" "\<And>p. pc_ok (hc_subject (call p)) c (pc p)"
    by (simp_all add: human_inv_def)
  have "a = b" if "pc p = Returned a" "pc q = Returned b" "hc_subject (call p) = hc_subject (call q)" for p q a b
    using inv(2) [of p] inv(2) [of q] that linked_same_actor [OF inv(1), of _ _ a b]
    by (auto simp: pc_ok_def owns_def)
  moreover have "\<exists>a \<in> set (tb_actors c). actor_id a = i" if "pc p = Load i" for p i
    using inv(2) [of p] inv(1) that by (auto simp: pc_ok_def owns_def linked_def)
  ultimately show ?thesis using inv(1) by blast
qed

theorem concurrent_calls_agree_witness:
  "let call = (\<lambda>p :: nat. \<lparr>hc_subject = ''s'', hc_name = ''Ann'', hc_role = ''viewer'',
                 hc_uuid = (if p = 0 then ''u0'' else ''u1''), hc_now = 5\<rparr>)
   in \<exists>c pc a. (human_step call)\<^sup>*\<^sup>* (md_tables mem_empty, \<lambda>_. Lookup) (c, pc)
        \<and> pc 0 = Returned a \<and> pc 1 = Returned a \<and> linked c"
proof -
  define call where "call = (\<lambda>p :: nat. \<lparr>hc_subject = ''s'', hc_name = ''Ann'', hc_role = ''viewer'',
                 hc_uuid = (if p = 0 then ''u0'' else ''u1''), hc_now = 5\<rparr>)"
  let ?start = "md_tables mem_empty" and ?i = "new_identity ''u0'' ''s'' ''viewer''" and ?a = "new_human ''u0'' ''Ann'' 5"
  let ?c = "add_human ?i ?a ?start" and ?init = "(\<lambda>_. Lookup) :: nat \<Rightarrow> human_pc"
  let ?both = "?init(0 := InTx, 1 := InTx)"
  have c0: "linked ?start" by (simp add: linked_def mem_empty_def uniq_defs)
  note evals = call_def mem_empty_def add_human_def new_identity_def new_human_def uniq_defs
  have "human_step call (?start, ?init) (?start, ?init(0 := InTx))" by (rule missing) (simp_all add: evals)
  moreover have "human_step call (?start, ?init(0 := InTx)) (?start, ?both)" by (rule missing) (simp_all add: evals)
  moreover have "human_step call (?start, ?both) (?c, ?both(0 := Load (hc_uuid (call 0))))"
    by (rule won) (simp_all add: evals)
  moreover have "human_step call (?c, ?both(0 := Load (hc_uuid (call 0)))) (?c, ?both(0 := Load (hc_uuid (call 0)), 1 := Lost))"
    by (rule lost) (simp_all add: evals)
  moreover have "human_step call (?c, ?both(0 := Load (hc_uuid (call 0)), 1 := Lost))
      (?c, ?both(0 := Load (hc_uuid (call 0)), 1 := Lost, 1 := Load (ident_actor ?i)))"
    by (rule winner) (simp_all add: evals)
  moreover have "human_step call (?c, ?both(0 := Load (hc_uuid (call 0)), 1 := Lost, 1 := Load (ident_actor ?i)))
      (?c, ?both(0 := Load (hc_uuid (call 0)), 1 := Lost, 1 := Load (ident_actor ?i), 0 := Returned ?a))"
    by (rule loaded) (simp_all add: evals)
  moreover have "human_step call (?c, ?both(0 := Load (hc_uuid (call 0)), 1 := Lost, 1 := Load (ident_actor ?i), 0 := Returned ?a))
      (?c, ?both(0 := Load (hc_uuid (call 0)), 1 := Lost, 1 := Load (ident_actor ?i), 0 := Returned ?a, 1 := Returned ?a))"
    by (rule loaded) (simp_all add: evals)
  ultimately have run: "(human_step call)\<^sup>*\<^sup>* (?start, ?init)
      (?c, ?both(0 := Load (hc_uuid (call 0)), 1 := Lost, 1 := Load (ident_actor ?i), 0 := Returned ?a, 1 := Returned ?a))"
    by (meson converse_rtranclp_into_rtranclp rtranclp.rtrancl_refl)
  from concurrent_calls_agree [OF c0 run] have "linked ?c" by blast
  with run show ?thesis unfolding call_def Let_def
    by (intro exI [of _ ?c] exI [of _ ?a] exI conjI) (assumption, simp_all)
qed

end
