(* ===== verification/Human_Auth.thy ===== *)
theory Human_Auth
  imports Human_Repo Http
begin

section \<open>Authentication of humans (internal/humanauth/provider.go, middleware.go)\<close>

text \<open>
  The Provider interface is the locale \<open>human_provider\<close>: a provider answers with an identity
  whose role is one of the two roles, and changes nothing in the database but the login
  sessions. The middleware RequireHumanAuth and RequireAdmin are functions of the handler
  behind them; the request context is the argument that the handler gets. Their lemmas are
  proved in the locale. StubProvider is an interpretation here, OIDCProvider in the
  theory of the sessions.
\<close>

subsection \<open>Providers\<close>

record identity =
  id_subject :: string
  id_name :: string
  id_role :: string

definition stub_authenticate :: "http_request \<Rightarrow> 'd \<Rightarrow> ('e + identity) \<times> 'd" where
  "stub_authenticate req d = (Inr \<lparr>id_subject = ''stub-user'', id_name = ''Local Tester'', id_role = ''admin''\<rparr>, d)"

definition known_role :: "string \<Rightarrow> bool" where
  "known_role r \<longleftrightarrow> r = ''admin'' \<or> r = ''viewer''"

text \<open>The tables apart from the sessions.\<close>

definition same_but_sessions :: "tables \<Rightarrow> tables \<Rightarrow> bool" where
  "same_but_sessions c c' \<longleftrightarrow> tb_actors c' = tb_actors c \<and> tb_credentials c' = tb_credentials c
     \<and> tb_identities c' = tb_identities c \<and> tb_calls c' = tb_calls c"

lemma same_but_sessions_refl [simp]: "same_but_sessions c c"
  by (simp add: same_but_sessions_def)

lemma same_but_sessions_update [simp]: "same_but_sessions c (tb_sessions_update f c)"
  by (simp add: same_but_sessions_def)

lemma same_but_sessions_trans: "same_but_sessions c c' \<Longrightarrow> same_but_sessions c' c'' \<Longrightarrow> same_but_sessions c c''"
  by (simp add: same_but_sessions_def)

lemma linked_same: "same_but_sessions c c' \<Longrightarrow> linked c' \<longleftrightarrow> linked c"
  by (simp add: same_but_sessions_def linked_def)

definition agents :: "tables \<Rightarrow> actor list" where
  "agents c = filter (\<lambda>a. actor_kind a = AgentKind) (tb_actors c)"

locale human_provider =
  fixes content :: "'d \<Rightarrow> tables"
    and authenticate :: "http_request \<Rightarrow> 'd \<Rightarrow> ('e + identity) \<times> 'd"
    and good :: "session list \<Rightarrow> bool"
  assumes only_sessions: "authenticate req d = (res, d') \<Longrightarrow> same_but_sessions (content d) (content d')"
    and keeps_good: "authenticate req d = (res, d') \<Longrightarrow> good (tb_sessions (content d)) \<Longrightarrow> good (tb_sessions (content d'))"
    and role_known: "authenticate req d = (Inr idn, d') \<Longrightarrow> good (tb_sessions (content d)) \<Longrightarrow> known_role (id_role idn)"

interpretation stub: human_provider content stub_authenticate "\<lambda>_. True" for content :: "'d \<Rightarrow> tables"
  by unfold_locales (auto simp: stub_authenticate_def known_role_def)

subsection \<open>The middleware\<close>

text \<open>The value in the request context: the actor and the role.\<close>

record human =
  hm_actor :: actor
  hm_role :: string

definition require_human_auth :: "'d database \<Rightarrow> (http_request \<Rightarrow> 'd \<Rightarrow> ('e + identity) \<times> 'd)
    \<Rightarrow> string \<Rightarrow> time \<Rightarrow> (human \<Rightarrow> http_request \<Rightarrow> 'd \<Rightarrow> 'r \<times> 'd) \<Rightarrow> http_request \<Rightarrow> 'd
    \<Rightarrow> 'r guarded \<times> 'd" where
  "require_human_auth db authenticate uuid now handler req d =
     (case authenticate req d of
        (Inl e, d1) \<Rightarrow>
          (Refused (if contains_text (rq_accept req) ''text/html'' then http_found [] req ''/auth/login''
                    else http_error [] ''unauthorized'' 401), d1)
      | (Inr idn, d1) \<Rightarrow>
          (case get_or_create_human_actor db uuid now (id_subject idn) (id_name idn) (id_role idn) d1 of
             (Inl e, d2) \<Rightarrow> (Refused (http_error [] ''internal error'' 500), d2)
           | (Inr a, d2) \<Rightarrow>
               (case handler \<lparr>hm_actor = a, hm_role = id_role idn\<rparr> req d2 of (r, d3) \<Rightarrow> (Served r, d3))))"

text \<open>RoleFromContext and ActorFromContext find nothing outside RequireHumanAuth.\<close>

definition require_admin :: "human option \<Rightarrow> ('d \<Rightarrow> 'r \<times> 'd) \<Rightarrow> 'd \<Rightarrow> 'r guarded \<times> 'd" where
  "require_admin ctx next_handler d =
     (case map_option hm_role ctx of
        None \<Rightarrow> (Refused (http_error [] ''forbidden'' 403), d)
      | Some role \<Rightarrow>
          if role \<noteq> ''admin'' then (Refused (http_error [] ''forbidden'' 403), d)
          else case next_handler d of (r, d1) \<Rightarrow> (Served r, d1))"

lemma require_admin_cases:
  assumes "require_admin ctx h d = (res, d')"
  obtains "res = Refused (http_error [] ''forbidden'' 403)" "d' = d" "\<forall>hm. ctx = Some hm \<longrightarrow> hm_role hm \<noteq> ''admin''"
  | hm r where "ctx = Some hm" "hm_role hm = ''admin''" "h d = (r, d')" "res = Served r"
  using assms by (auto simp: require_admin_def split: option.splits if_splits prod.splits)

context human_provider begin

lemma require_human_auth_cases:
  assumes "sql_database content db" "require_human_auth db authenticate uuid now handler req d = (res, d')"
    "linked (content d)" "good (tb_sessions (content d))"
  obtains (refused) reply where "res = Refused reply" "hr_status reply \<in> {302, 401, 500}" "hr_cookies reply = []"
      "tb_credentials (content d') = tb_credentials (content d)" "tb_calls (content d') = tb_calls (content d)"
      "agents (content d') = agents (content d)" "linked (content d')" "good (tb_sessions (content d'))"
  | (served) idn a d1 d2 r where "authenticate req d = (Inr idn, d1)" "known_role (id_role idn)"
      "get_or_create_human_actor db uuid now (id_subject idn) (id_name idn) (id_role idn) d1 = (Inr a, d2)"
      "human_of (id_subject idn) (id_role idn) (content d2) a" "linked (content d2)" "good (tb_sessions (content d2))"
      "tb_credentials (content d2) = tb_credentials (content d)" "tb_calls (content d2) = tb_calls (content d)"
      "agents (content d2) = agents (content d)"
      "handler \<lparr>hm_actor = a, hm_role = id_role idn\<rparr> req d2 = (r, d')" "res = Served r"
proof -
  obtain r1 d1 where auth: "authenticate req d = (r1, d1)" by fastforce
  note same = only_sessions [OF auth] and good1 = keeps_good [OF auth assms(4)]
  have lk1: "linked (content d1)" using linked_same [OF same] assms(3) by simp
  show thesis
  proof (cases r1)
    case (Inl e)
    with auth assms(2) have "d' = d1" "res = Refused (if contains_text (rq_accept req) ''text/html''
        then http_found [] req ''/auth/login'' else http_error [] ''unauthorized'' 401)"
      by (auto simp: require_human_auth_def)
    with lk1 good1 same show thesis by (intro refused) (auto simp: same_but_sessions_def same_but_humans_def agents_def)
  next
    case (Inr idn)
    obtain r2 d2 where g: "get_or_create_human_actor db uuid now (id_subject idn) (id_name idn) (id_role idn) d1 = (r2, d2)"
      by fastforce
    note eff = sql_database.get_or_create_effect [OF assms(1) g lk1]
      and keep = sql_database.get_or_create_keeps [OF assms(1) g]
    show thesis
    proof (cases r2)
      case (Inl e)
      with auth Inr g assms(2) have "d' = d2" "res = Refused (http_error [] ''internal error'' 500)"
        by (auto simp: require_human_auth_def)
      with eff keep good1 same show thesis by (intro refused) (auto simp: same_but_sessions_def same_but_humans_def agents_def)
    next
      case (Inr a)
      obtain r3 d3 where h: "handler \<lparr>hm_actor = a, hm_role = id_role idn\<rparr> req d2 = (r3, d3)" by fastforce
      with auth \<open>r1 = Inr idn\<close> g Inr assms(2) have "d' = d3" "res = Served r3" by (auto simp: require_human_auth_def)
      with role_known [OF auth [unfolded \<open>r1 = Inr idn\<close>] assms(4)] auth \<open>r1 = Inr idn\<close> g Inr h eff keep good1 same
      show thesis by (intro served) (auto simp: same_but_sessions_def same_but_humans_def agents_def)
    qed
  qed
qed

end

end
