(* ===== verification/Crypto.thy ===== *)
theory Crypto
  imports Encoding Prelude
begin

section \<open>Refresh tokens at rest (internal/humanauth/crypto.go)\<close>

text \<open>
  encryptRefreshToken and decryptRefreshToken. AES-256 in Galois counter mode is an argument,
  the pair of functions Seal and Open for a key and a nonce; \<open>aead_ok\<close> names what the code
  relies on: Open inverts Seal, and what Open accepts was sealed under the same key and
  nonce with the plaintext it returns. The nonce is the argument \<open>rnd\<close>, what rand.Read
  delivered. aes.NewCipher and cipher.NewGCM do not fail on a key of 32 bytes.
\<close>

record aead =
  gcm_seal :: "bytes \<Rightarrow> bytes \<Rightarrow> bytes \<Rightarrow> bytes"          \<comment> \<open>key, nonce, plaintext\<close>
  gcm_open :: "bytes \<Rightarrow> bytes \<Rightarrow> bytes \<Rightarrow> bytes option"

definition nonce_size :: nat where
  "nonce_size = 12"

definition aead_ok :: "aead \<Rightarrow> bool" where
  "aead_ok g \<longleftrightarrow> (\<forall>key nonce p. gcm_open g key nonce (gcm_seal g key nonce p) = Some p)
     \<and> (\<forall>key nonce c p. gcm_open g key nonce c = Some p \<longrightarrow> c = gcm_seal g key nonce p)"

datatype crypto_error = BadKeySize nat | NonceError string | BadBase64 | CiphertextTooShort | NotAuthentic

text \<open>newGCM, and the two ciphers behind it.\<close>

definition new_gcm :: "bytes \<Rightarrow> crypto_error option" where
  "new_gcm key = (if length key \<noteq> 32 then Some (BadKeySize (length key)) else None)"

definition encrypt_refresh_token :: "aead \<Rightarrow> string + bytes \<Rightarrow> bytes \<Rightarrow> string \<Rightarrow> crypto_error + string" where
  "encrypt_refresh_token g rnd key plaintext =
     (case new_gcm key of
        Some e \<Rightarrow> Inl e
      | None \<Rightarrow>
          case rnd of
            Inl e \<Rightarrow> Inl (NonceError e)
          | Inr nonce \<Rightarrow> Inr (b64_encode False (nonce @ gcm_seal g key nonce plaintext)))"

definition decrypt_refresh_token :: "aead \<Rightarrow> bytes \<Rightarrow> string \<Rightarrow> crypto_error + string" where
  "decrypt_refresh_token g key encoded =
     (case new_gcm key of
        Some e \<Rightarrow> Inl e
      | None \<Rightarrow>
          case b64_std_decode encoded of
            None \<Rightarrow> Inl BadBase64
          | Some raw \<Rightarrow>
              if length raw < nonce_size then Inl CiphertextTooShort
              else case gcm_open g key (take nonce_size raw) (drop nonce_size raw) of
                None \<Rightarrow> Inl NotAuthentic
              | Some plaintext \<Rightarrow> Inr plaintext)"

lemma encrypt_cases:
  "encrypt_refresh_token g rnd key p = Inr enc \<longleftrightarrow>
     length key = 32 \<and> (\<exists>nonce. rnd = Inr nonce \<and> enc = b64_encode False (nonce @ gcm_seal g key nonce p))"
  by (auto simp: encrypt_refresh_token_def new_gcm_def split: sum.splits)

lemma decrypt_encrypt:
  assumes "aead_ok g" "encrypt_refresh_token g (Inr nonce) key p = Inr enc" "length nonce = nonce_size"
  shows "decrypt_refresh_token g key enc = Inr p"
  using assms by (auto simp: encrypt_cases decrypt_refresh_token_def new_gcm_def b64_roundtrip aead_ok_def)

lemma decrypt_sealed:
  assumes "aead_ok g" "decrypt_refresh_token g key enc = Inr t"
  shows "\<exists>n. length n = nonce_size \<and> b64_std_decode enc = Some (n @ gcm_seal g key n t)"
proof -
  obtain raw where raw: "b64_std_decode enc = Some raw" "\<not> length raw < nonce_size"
    "gcm_open g key (take nonce_size raw) (drop nonce_size raw) = Some t"
    using assms(2) by (auto simp: decrypt_refresh_token_def split: option.splits if_splits)
  then have "drop nonce_size raw = gcm_seal g key (take nonce_size raw) t"
    using assms(1) by (simp add: aead_ok_def)
  with raw show ?thesis
    by (intro exI [of _ "take nonce_size raw"]) (metis append_take_drop_id length_take min.absorb2 not_less)
qed

text \<open>An instance of the cipher for the concrete examples: a fixed tag of 16 bytes behind the plaintext.\<close>

definition plain_tag :: bytes where
  "plain_tag = replicate 16 CHR ''#''"

definition tag_cipher :: aead where
  "tag_cipher = \<lparr>gcm_seal = (\<lambda>key nonce p. p @ key @ plain_tag),
     gcm_open = (\<lambda>key nonce c. let n = length c - (length key + 16) in
        if drop n c = key @ plain_tag then Some (take n c) else None)\<rparr>"

lemma tag_cipher_ok: "aead_ok tag_cipher"
proof -
  have "c = take (length c - (length key + 16)) c @ key @ plain_tag"
    if "drop (length c - (length key + 16)) c = key @ plain_tag" for c key :: bytes
    by (metis append_take_drop_id that)
  then show ?thesis
    by (auto simp: aead_ok_def tag_cipher_def plain_tag_def Let_def split: if_splits)
qed

subsection \<open>Properties\<close>

text \<open>C38: what encryptRefreshToken returns, decryptRefreshToken turns back into the token under the same
  key; both refuse every key that is not 32 bytes long; and what decryptRefreshToken
  accepts decodes to a nonce and a ciphertext that was sealed for exactly the token it
  returns, under the same key: a text with other bytes, or another key, is an error and
  never another token.\<close>

theorem refresh_token_roundtrip:
  assumes "aead_ok g" "length nonce = nonce_size"
  shows "(\<forall>enc. encrypt_refresh_token g (Inr nonce) key token = Inr enc \<longrightarrow> decrypt_refresh_token g key enc = Inr token)
    \<and> (length key \<noteq> 32 \<longrightarrow> encrypt_refresh_token g (Inr nonce) key token = Inl (BadKeySize (length key))
         \<and> (\<forall>enc. decrypt_refresh_token g key enc = Inl (BadKeySize (length key))))
    \<and> (\<forall>enc t. decrypt_refresh_token g key enc = Inr t \<longrightarrow>
         (\<exists>n. length n = nonce_size \<and> b64_std_decode enc = Some (n @ gcm_seal g key n t)))"
proof (intro conjI allI impI)
  fix enc assume "encrypt_refresh_token g (Inr nonce) key token = Inr enc"
  then show "decrypt_refresh_token g key enc = Inr token" by (rule decrypt_encrypt [OF assms(1) _ assms(2)])
next
  fix enc t assume "decrypt_refresh_token g key enc = Inr t"
  then show "\<exists>n. length n = nonce_size \<and> b64_std_decode enc = Some (n @ gcm_seal g key n t)"
    by (rule decrypt_sealed [OF assms(1)])
qed (simp_all add: encrypt_refresh_token_def decrypt_refresh_token_def new_gcm_def)

theorem refresh_token_roundtrip_witness:
  "let key = replicate 32 CHR ''k''; enc = b64_encode False (replicate 12 CHR ''n'' @ ''rt'' @ key @ plain_tag)
   in encrypt_refresh_token tag_cipher (Inr (replicate 12 CHR ''n'')) key ''rt'' = Inr enc
      \<and> decrypt_refresh_token tag_cipher key enc = Inr ''rt''"
proof -
  have "encrypt_refresh_token tag_cipher (Inr (replicate 12 CHR ''n'')) (replicate 32 CHR ''k'') ''rt''
      = Inr (b64_encode False (replicate 12 CHR ''n'' @ ''rt'' @ replicate 32 CHR ''k'' @ plain_tag))"
    by (simp only: encrypt_cases) (simp add: tag_cipher_def)
  with refresh_token_roundtrip [OF tag_cipher_ok, of "replicate 12 CHR ''n''" "replicate 32 CHR ''k''" "''rt''"]
  show ?thesis by (simp add: nonce_size_def Let_def)
qed

end
