(* ===== verification/Oidc.thy ===== *)
theory Oidc
  imports Human_Auth Crypto
begin

section \<open>Login sessions (internal/humanauth/oidc_provider.go, oidc_handlers.go)\<close>

text \<open>
  OIDCProvider.Authenticate, the login, callback and logout handlers, and the Keycloak
  refresher. The OAuth2 client and the ID token verifier are libraries: the exchange of a
  code or of a refresh token, the verification of an ID token, the decoding of its claims
  and the address of the login page are arguments. SHA-256, AES-GCM, the randomness, the
  identifiers and the readings of the clock are arguments as well.

  Authenticate reads the session and, when it is due, refreshes it over the network before it
  writes. \<open>session_lookup\<close> and \<open>session_refresh\<close> are these two halves, so that the theory can
  put other requests between them.
\<close>

subsection \<open>Claims and roles\<close>

record oauth_token =
  ot_refresh :: string
  ot_id_token :: "string option"      \<comment> \<open>token.Extra("id_token") when it is a string\<close>

record id_claims =
  cl_subject :: string
  cl_username :: string
  cl_name :: string
  cl_groups :: "string list"

fun role_for_groups :: "string list \<Rightarrow> string \<Rightarrow> string" where
  "role_for_groups [] admin_group = ''viewer''"
| "role_for_groups (g # gs) admin_group =
     (if g = CHR ''/'' # admin_group \<or> g = admin_group then ''admin''
      else role_for_groups gs admin_group)"

lemma role_for_groups_admin:
  "role_for_groups gs admin_group = ''admin'' \<longleftrightarrow> (\<exists>g \<in> set gs. g = CHR ''/'' # admin_group \<or> g = admin_group)"
  by (induction gs) auto

lemma role_for_groups_known: "known_role (role_for_groups gs admin_group)"
  by (induction gs) (simp_all add: known_role_def)

datatype claims_error = MissingIdToken | BadIdToken string | BadClaims string

definition verify_and_extract :: "(string \<Rightarrow> string + string) \<Rightarrow> (string \<Rightarrow> string + id_claims) \<Rightarrow> string
    \<Rightarrow> oauth_token \<Rightarrow> claims_error + identity" where
  "verify_and_extract verify claims_of admin_group token =
     (case ot_id_token token of
        None \<Rightarrow> Inl MissingIdToken
      | Some raw \<Rightarrow>
          case verify raw of
            Inl e \<Rightarrow> Inl (BadIdToken e)
          | Inr id_token \<Rightarrow>
              case claims_of id_token of
                Inl e \<Rightarrow> Inl (BadClaims e)
              | Inr claims \<Rightarrow>
                  Inr \<lparr>id_subject = cl_subject claims,
                       id_name = (if cl_name claims = [] then cl_username claims else cl_name claims),
                       id_role = role_for_groups (cl_groups claims) admin_group\<rparr>)"

datatype refresh_error = ExchangeFailed string | ClaimsFailed claims_error

definition keycloak_refresh :: "(string \<Rightarrow> string + oauth_token) \<Rightarrow> (oauth_token \<Rightarrow> claims_error + identity)
    \<Rightarrow> string \<Rightarrow> refresh_error + (identity \<times> string)" where
  "keycloak_refresh exchange extract refresh_token =
     (case exchange refresh_token of
        Inl e \<Rightarrow> Inl (ExchangeFailed e)
      | Inr token \<Rightarrow>
          case extract token of
            Inl e \<Rightarrow> Inl (ClaimsFailed e)
          | Inr idn \<Rightarrow> Inr (idn, if ot_refresh token = [] then refresh_token else ot_refresh token))"

text \<open>The tokenRefresher interface: whoever implements it answers with one of the two roles and never
  replaces a refresh token by the empty one.\<close>

locale token_refresher =
  fixes refresh :: "string \<Rightarrow> 'e + (identity \<times> string)"
  assumes refresh_role: "refresh rt = Inr (idn, rt') \<Longrightarrow> known_role (id_role idn)"
    and refresh_token: "refresh rt = Inr (idn, rt') \<Longrightarrow> rt \<noteq> [] \<Longrightarrow> rt' \<noteq> []"

lemma extract_role: "verify_and_extract verify claims_of grp token = Inr idn \<Longrightarrow> known_role (id_role idn)"
  by (auto simp: verify_and_extract_def role_for_groups_known split: option.splits sum.splits)

interpretation keycloak: token_refresher "keycloak_refresh exchange (verify_and_extract verify claims_of grp)"
  for exchange verify claims_of grp
  by unfold_locales (auto simp: keycloak_refresh_def dest: extract_role split: sum.splits if_splits)

subsection \<open>Authenticate\<close>

definition session_cookie_name :: string where
  "session_cookie_name = ''webtools_session''"

definition session_refresh_interval :: duration where
  "session_refresh_interval = 15 * minute"

definition hash_session_id :: "(bytes \<Rightarrow> bytes) \<Rightarrow> string \<Rightarrow> string" where
  "hash_session_id sha raw = hex_encode (sha raw)"

datatype 'e session_error =
  NoSessionCookie
| NoSuchSession
| UndecryptableToken crypto_error
| RefreshFailed 'e
| ReencryptFailed crypto_error
| SessionDbError db_error

text \<open>What one run of Authenticate draws from outside: two readings of the clock, a nonce and Keycloak.\<close>

record 'e auth_stamp =
  as_now :: time
  as_refresh :: "string \<Rightarrow> 'e + (identity \<times> string)"
  as_nonce :: "string + bytes"
  as_later :: time

definition session_identity :: "session \<Rightarrow> identity" where
  "session_identity s = \<lparr>id_subject = sess_subject s, id_name = sess_name s, id_role = sess_role s\<rparr>"

definition session_lookup :: "'d database \<Rightarrow> (bytes \<Rightarrow> bytes) \<Rightarrow> http_request \<Rightarrow> 'd
    \<Rightarrow> ('e session_error + session) \<times> 'd" where
  "session_lookup db sha req d =
     (case cookie_value session_cookie_name req of
        None \<Rightarrow> (Inl NoSessionCookie, d)
      | Some raw \<Rightarrow>
          case sql_first (db_sessions db) (\<lambda>s. sess_id s = hash_session_id sha raw) d of
            (Inl e, d1) \<Rightarrow> (Inl NoSuchSession, d1)
          | (Inr s, d1) \<Rightarrow> (Inr s, d1))"

definition drop_session :: "'d database \<Rightarrow> session \<Rightarrow> 'd \<Rightarrow> 'd" where
  "drop_session db s d = snd (sql_delete (db_sessions db) (\<lambda>x. sess_id x = sess_id s) d)"

definition renewed_session :: "session \<Rightarrow> identity \<Rightarrow> string \<Rightarrow> time \<Rightarrow> session" where
  "renewed_session s idn enc later =
     s\<lparr>sess_subject := id_subject idn, sess_name := id_name idn, sess_role := id_role idn,
       sess_refresh := enc, sess_expires := later + session_refresh_interval\<rparr>"

lemma renewed_session_id [simp]: "sess_id (renewed_session s idn enc t) = sess_id s"
  by (simp add: renewed_session_def)

definition session_refresh :: "'d database \<Rightarrow> aead \<Rightarrow> bytes \<Rightarrow> 'e auth_stamp \<Rightarrow> session \<Rightarrow> 'd
    \<Rightarrow> ('e session_error + identity) \<times> 'd" where
  "session_refresh db g key st s d =
     (if as_now st < sess_expires s then (Inr (session_identity s), d)
      else case decrypt_refresh_token g key (sess_refresh s) of
        Inl e \<Rightarrow> (Inl (UndecryptableToken e), drop_session db s d)
      | Inr token \<Rightarrow>
          case as_refresh st token of
            Inl e \<Rightarrow> (Inl (RefreshFailed e), drop_session db s d)
          | Inr (idn, new_token) \<Rightarrow>
              case encrypt_refresh_token g (as_nonce st) key new_token of
                Inl e \<Rightarrow> (Inl (ReencryptFailed e), d)
              | Inr enc \<Rightarrow>
                  case sql_save (db_sessions db) sess_id (renewed_session s idn enc (as_later st)) d of
                    (Some e, d1) \<Rightarrow> (Inl (SessionDbError e), d1)
                  | (None, d1) \<Rightarrow> (Inr idn, d1))"

definition oidc_authenticate :: "'d database \<Rightarrow> (bytes \<Rightarrow> bytes) \<Rightarrow> aead \<Rightarrow> bytes \<Rightarrow> 'e auth_stamp
    \<Rightarrow> http_request \<Rightarrow> 'd \<Rightarrow> ('e session_error + identity) \<times> 'd" where
  "oidc_authenticate db sha g key st req d =
     (case session_lookup db sha req d of
        (Inl e, d1) \<Rightarrow> (Inl e, d1)
      | (Inr s, d1) \<Rightarrow> session_refresh db g key st s d1)"

subsection \<open>The browser routes\<close>

definition oauth_state_cookie_name :: string where
  "oauth_state_cookie_name = ''webtools_oauth_state''"

definition plain_cookie :: "string \<Rightarrow> string \<Rightarrow> int \<Rightarrow> set_cookie" where
  "plain_cookie name value max_age = \<lparr>ck_name = name, ck_value = value, ck_path = ''/'', ck_max_age = max_age,
     ck_http_only = True, ck_secure = True, ck_same_site_lax = True\<rparr>"

definition random_oauth_state :: "bytes \<Rightarrow> string" where
  "random_oauth_state buf = b64_encode True buf"

definition login_handler :: "(string \<Rightarrow> string) \<Rightarrow> bytes \<Rightarrow> http_request \<Rightarrow> http_reply" where
  "login_handler auth_code_url buf req =
     (let state = random_oauth_state buf
      in http_found [plain_cookie oauth_state_cookie_name state 300] req (auth_code_url state))"

record login_stamp =
  ls_exchange :: "string \<Rightarrow> string + oauth_token"
  ls_extract :: "oauth_token \<Rightarrow> claims_error + identity"
  ls_nonce :: "string + bytes"
  ls_uuid :: string
  ls_now :: time

definition new_session :: "(bytes \<Rightarrow> bytes) \<Rightarrow> string \<Rightarrow> identity \<Rightarrow> string \<Rightarrow> time \<Rightarrow> session" where
  "new_session sha raw idn enc now =
     \<lparr>sess_id = hash_session_id sha raw, sess_subject = id_subject idn, sess_name = id_name idn,
      sess_role = id_role idn, sess_refresh = enc, sess_expires = now + session_refresh_interval, sess_created = now\<rparr>"

definition callback_handler :: "'d database \<Rightarrow> (bytes \<Rightarrow> bytes) \<Rightarrow> aead \<Rightarrow> bytes \<Rightarrow> login_stamp
    \<Rightarrow> http_request \<Rightarrow> 'd \<Rightarrow> http_reply \<times> 'd" where
  "callback_handler db sha g key st req d =
     (if cookie_value oauth_state_cookie_name req \<noteq> Some (query_get ''state'' req)
      then (http_error [] ''invalid OAuth state'' 400, d)
      else case ls_exchange st (query_get ''code'' req) of
        Inl e \<Rightarrow> (http_error [] ''token exchange failed'' 502, d)
      | Inr token \<Rightarrow>
          case ls_extract st token of
            Inl e \<Rightarrow> (http_error [] ''identity verification failed'' 502, d)
          | Inr idn \<Rightarrow>
              case encrypt_refresh_token g (ls_nonce st) key (ot_refresh token) of
                Inl e \<Rightarrow> (http_error [] ''internal error'' 500, d)
              | Inr enc \<Rightarrow>
                  case sql_create (db_sessions db) (new_session sha (ls_uuid st) idn enc (ls_now st)) d of
                    (Some e, d1) \<Rightarrow> (http_error [] ''internal error'' 500, d1)
                  | (None, d1) \<Rightarrow>
                      (http_found [plain_cookie session_cookie_name (ls_uuid st) 0] req ''/'', d1))"

definition logout_handler :: "'d database \<Rightarrow> (bytes \<Rightarrow> bytes) \<Rightarrow> http_request \<Rightarrow> 'd \<Rightarrow> http_reply \<times> 'd" where
  "logout_handler db sha req d =
     (http_found [plain_cookie session_cookie_name [] (-1)] req ''/'',
      case cookie_value session_cookie_name req of
        None \<Rightarrow> d
      | Some raw \<Rightarrow> snd (sql_delete (db_sessions db) (\<lambda>s. sess_id s = hash_session_id sha raw) d))"

subsection \<open>What the operations do to the sessions\<close>

definition session_ids :: "tables \<Rightarrow> string set" where
  "session_ids c = sess_id ` set (tb_sessions c)"

definition without_session :: "string \<Rightarrow> tables \<Rightarrow> tables" where
  "without_session i = tb_sessions_update (filter (\<lambda>s. sess_id s \<noteq> i))"

lemma without_session_same [simp]: "same_but_sessions c (without_session i c)"
  by (simp add: without_session_def)

lemma without_session_ids: "i \<notin> session_ids (without_session i c)"
  by (auto simp: session_ids_def without_session_def)

context sql_database begin

lemma session_lookup_effect:
  assumes "session_lookup db sha req d = (res, d')"
  shows "content d' = content d \<and> (\<forall>s. res = Inr s \<longrightarrow> s \<in> set (tb_sessions (content d))
    \<and> (\<exists>raw. cookie_value session_cookie_name req = Some raw \<and> sess_id s = hash_session_id sha raw))"
  using assms sessions.first_found sessions.first_missing
  by (auto simp: session_lookup_def split: option.splits prod.splits sum.splits)

lemma delete_session_effect:
  assumes "sql_delete (db_sessions db) (\<lambda>s. sess_id s = i) d = (res, d')"
  shows "content d' = (case res of Inl e \<Rightarrow> content d | Inr n \<Rightarrow> without_session i (content d))"
  using assms sessions.delete_ok [of _ d _ d'] sessions.delete_failed [of _ d _ d']
  by (cases res) (auto simp: without_session_def)

lemma drop_session_effect:
  "content (drop_session db s d) = content d \<or> content (drop_session db s d) = without_session (sess_id s) (content d)"
proof -
  obtain res d' where r: "sql_delete (db_sessions db) (\<lambda>x. sess_id x = sess_id s) d = (res, d')" by fastforce
  from delete_session_effect [OF r] r show ?thesis by (cases res) (simp_all add: drop_session_def)
qed

lemma session_refresh_cases:
  assumes "session_refresh db g key st s d = (res, d')"
  obtains (current) "as_now st < sess_expires s" "res = Inr (session_identity s)" "d' = d"
  | (failed) e where "\<not> as_now st < sess_expires s" "res = Inl e"
      "content d' = content d \<or> content d' = without_session (sess_id s) (content d)"
  | (renewed) token idn token' enc where "\<not> as_now st < sess_expires s" "res = Inr idn"
      "decrypt_refresh_token g key (sess_refresh s) = Inr token" "as_refresh st token = Inr (idn, token')"
      "encrypt_refresh_token g (as_nonce st) key token' = Inr enc"
      "content d' = tb_sessions_update (save_row sess_id (renewed_session s idn enc (as_later st))) (content d)"
proof (cases "as_now st < sess_expires s")
  case True
  with assms current show thesis by (simp add: session_refresh_def)
next
  case due: False
  show thesis
  proof (cases "\<exists>token idn token' enc. decrypt_refresh_token g key (sess_refresh s) = Inr token
      \<and> as_refresh st token = Inr (idn, token') \<and> encrypt_refresh_token g (as_nonce st) key token' = Inr enc")
    case False
    with due assms drop_session_effect [of s d]
    have "(\<exists>e. res = Inl e) \<and> (content d' = content d \<or> content d' = without_session (sess_id s) (content d))"
      by (auto simp: session_refresh_def split: sum.splits)
    with due failed show thesis by blast
  next
    case True
    then obtain token idn token' enc where t: "decrypt_refresh_token g key (sess_refresh s) = Inr token"
      "as_refresh st token = Inr (idn, token')" "encrypt_refresh_token g (as_nonce st) key token' = Inr enc" by blast
    obtain err d1 where w: "sql_save (db_sessions db) sess_id (renewed_session s idn enc (as_later st)) d = (err, d1)"
      by fastforce
    show thesis
    proof (cases err)
      case None
      with t w due assms have "res = Inr idn" "d1 = d'" by (simp_all add: session_refresh_def)
      with due t sessions.save_ok [OF w [unfolded None]] show thesis by (intro renewed) simp_all
    next
      case (Some e)
      with t w due assms have "res = Inl (SessionDbError e)" "d1 = d'" by (simp_all add: session_refresh_def)
      with due sessions.save_failed [OF w [unfolded Some]] show thesis by (intro failed) simp_all
    qed
  qed
qed

lemma logout_effect:
  assumes "logout_handler db sha req d = (reply, d')"
  shows "content d' = content d \<or> (\<exists>raw. cookie_value session_cookie_name req = Some raw
    \<and> content d' = without_session (hash_session_id sha raw) (content d))"
proof (cases "cookie_value session_cookie_name req")
  case (Some raw)
  obtain res d1 where r: "sql_delete (db_sessions db) (\<lambda>s. sess_id s = hash_session_id sha raw) d = (res, d1)" by fastforce
  with Some assms delete_session_effect [OF r] show ?thesis by (cases res) (auto simp: logout_handler_def)
qed (use assms in \<open>simp add: logout_handler_def\<close>)

lemma callback_cases:
  assumes "callback_handler db sha g key st req d = (reply, d')"
  obtains (refused) "hr_status reply \<in> {400, 500, 502}" "hr_cookies reply = []" "content d' = content d"
  | (logged_in) token idn enc where "cookie_value oauth_state_cookie_name req = Some (query_get ''state'' req)"
      "ls_exchange st (query_get ''code'' req) = Inr token" "ls_extract st token = Inr idn"
      "encrypt_refresh_token g (ls_nonce st) key (ot_refresh token) = Inr enc"
      "reply = http_found [plain_cookie session_cookie_name (ls_uuid st) 0] req ''/''"
      "content d' = tb_sessions_update (\<lambda>rs. rs @ [new_session sha (ls_uuid st) idn enc (ls_now st)]) (content d)"
      "uniq_sessions (tb_sessions (content d) @ [new_session sha (ls_uuid st) idn enc (ls_now st)])"
proof (cases "\<exists>token idn enc. cookie_value oauth_state_cookie_name req = Some (query_get ''state'' req)
    \<and> ls_exchange st (query_get ''code'' req) = Inr token \<and> ls_extract st token = Inr idn
    \<and> encrypt_refresh_token g (ls_nonce st) key (ot_refresh token) = Inr enc")
  case False
  with assms have "hr_status reply \<in> {400, 500, 502} \<and> hr_cookies reply = [] \<and> content d' = content d"
    by (auto simp: callback_handler_def split: if_splits sum.splits)
  with refused show thesis by blast
next
  case True
  then obtain token idn enc where t: "cookie_value oauth_state_cookie_name req = Some (query_get ''state'' req)"
    "ls_exchange st (query_get ''code'' req) = Inr token" "ls_extract st token = Inr idn"
    "encrypt_refresh_token g (ls_nonce st) key (ot_refresh token) = Inr enc" by blast
  obtain err d1 where w: "sql_create (db_sessions db) (new_session sha (ls_uuid st) idn enc (ls_now st)) d = (err, d1)"
    by fastforce
  show thesis
  proof (cases err)
    case None
    with t w assms have "reply = http_found [plain_cookie session_cookie_name (ls_uuid st) 0] req ''/''" "d1 = d'"
      by (simp_all add: callback_handler_def)
    with sessions.create_ok [OF w [unfolded None]]
    have "content d' = tb_sessions_update (\<lambda>rs. rs @ [new_session sha (ls_uuid st) idn enc (ls_now st)]) (content d)"
      "uniq_sessions (tb_sessions (content d) @ [new_session sha (ls_uuid st) idn enc (ls_now st)])" by blast+
    with t \<open>reply = _\<close> show thesis by (intro logged_in)
  next
    case (Some e)
    with t w assms have "reply = http_error [] ''internal error'' 500" "d1 = d'"
      by (simp_all add: callback_handler_def)
    with sessions.create_failed [OF w [unfolded Some]] show thesis by (intro refused) simp_all
  qed
qed

end

subsection \<open>OIDCProvider is a provider\<close>

definition roles_known :: "session list \<Rightarrow> bool" where
  "roles_known ss \<longleftrightarrow> (\<forall>s \<in> set ss. known_role (sess_role s))"

lemma roles_known_save:
  "roles_known ss \<Longrightarrow> known_role (id_role idn) \<Longrightarrow> roles_known (save_row sess_id (renewed_session s idn enc t) ss)"
  by (auto simp: roles_known_def save_row_set renewed_session_def)

context sql_database begin

lemma oidc_authenticate_cases:
  assumes "oidc_authenticate db sha g key (st :: 'e auth_stamp) req d = (res, d')"
  obtains (nobody) e where "res = Inl e" "content d' = content d"
  | (known) s d1 where "session_lookup db sha req d = ((Inr s :: 'e session_error + session), d1)" "content d1 = content d"
      "s \<in> set (tb_sessions (content d))" "session_refresh db g key st s d1 = (res, d')"
proof -
  obtain r d1 where l: "session_lookup db sha req d = ((r :: 'e session_error + session), d1)" by fastforce
  note eff = session_lookup_effect [OF l]
  show thesis
  proof (cases r)
    case (Inl e)
    with l assms have "res = Inl e" "d' = d1" by (simp_all add: oidc_authenticate_def)
    with eff nobody show thesis by simp
  next
    case (Inr s)
    with l assms have "session_refresh db g key st s d1 = (res, d')" by (simp add: oidc_authenticate_def)
    with eff l Inr known show thesis by simp
  qed
qed

lemma oidc_only_sessions:
  assumes "oidc_authenticate db sha g key st req d = (res, d')"
  shows "same_but_sessions (content d) (content d')"
  using assms
proof (cases rule: oidc_authenticate_cases)
  case (known s d1)
  from known(4) show ?thesis by (cases rule: session_refresh_cases) (auto simp: known(2))
qed simp

lemma oidc_roles:
  assumes "token_refresher (as_refresh st)" "oidc_authenticate db sha g key st req d = (res, d')"
    "roles_known (tb_sessions (content d))"
  shows "roles_known (tb_sessions (content d')) \<and> (\<forall>idn. res = Inr idn \<longrightarrow> known_role (id_role idn))"
  using assms(2)
proof (cases rule: oidc_authenticate_cases)
  case (known s d1)
  from known(4) show ?thesis
  proof (cases rule: session_refresh_cases)
    case current
    with known(2,3) assms(3) show ?thesis by (auto simp: roles_known_def session_identity_def)
  next
    case (failed e)
    with known(2) assms(3) show ?thesis by (auto simp: roles_known_def without_session_def)
  next
    case (renewed token idn token' enc)
    from token_refresher.refresh_role [OF assms(1) renewed(4)] assms(3) renewed(2,6) show ?thesis
      by (simp add: known(2) roles_known_save)
  qed
qed (use assms(3) in simp)

lemma oidc_provider:
  assumes "token_refresher (as_refresh st)"
  shows "human_provider content (oidc_authenticate db sha g key st) roles_known"
  by unfold_locales (auto dest: oidc_only_sessions oidc_roles [OF assms])

end

interpretation oidc: human_provider md_tables
    "oidc_authenticate mem_database sha g key
       (st\<lparr>as_refresh := keycloak_refresh exchange (verify_and_extract verify claims_of grp)\<rparr>)" roles_known
  for sha g key exchange verify claims_of grp and st :: "refresh_error auth_stamp"
  by (rule mem.oidc_provider) (simp add: keycloak.token_refresher_axioms)

subsection \<open>Sessions under concurrent requests\<close>

text \<open>The steps of any number of requests, interleaved: a request first looks its session up and
  later finishes; between the two, other requests log in, log out or refresh. The state is
  the database and, for each request in flight, the session it has read.\<close>

datatype 'e session_event =
  StartAuth nat http_request
| FinishAuth nat "'e auth_stamp"
| LoginCallback login_stamp http_request
| Logout http_request

type_synonym 'd session_state = "'d \<times> (nat \<Rightarrow> session option)"

fun session_op :: "'d database \<Rightarrow> (bytes \<Rightarrow> bytes) \<Rightarrow> aead \<Rightarrow> bytes \<Rightarrow> 'e session_event
    \<Rightarrow> 'd session_state \<Rightarrow> 'd session_state" where
  "session_op db sha g key (StartAuth p req) (d, pend) =
     (case (session_lookup db sha req d :: (unit session_error + session) \<times> 'd) of
        (Inl e, d1) \<Rightarrow> (d1, pend(p := None))
      | (Inr s, d1) \<Rightarrow> (d1, pend(p := Some s)))"
| "session_op db sha g key (FinishAuth p st) (d, pend) =
     (case pend p of
        None \<Rightarrow> (d, pend)
      | Some s \<Rightarrow> (snd (session_refresh db g key st s d), pend(p := None)))"
| "session_op db sha g key (LoginCallback st req) (d, pend) = (snd (callback_handler db sha g key st req d), pend)"
| "session_op db sha g key (Logout req) (d, pend) = (snd (logout_handler db sha req d), pend)"

definition session_run :: "'d database \<Rightarrow> (bytes \<Rightarrow> bytes) \<Rightarrow> aead \<Rightarrow> bytes \<Rightarrow> 'e session_event list
    \<Rightarrow> 'd session_state \<Rightarrow> 'd session_state" where
  "session_run db sha g key ops s = foldl (\<lambda>s op. session_op db sha g key op s) s ops"

text \<open>\<open>vouched idn t\<close>: Keycloak confirmed the identity in an exchange that ended at \<open>t\<close>. A session is
  backed when Keycloak confirmed what it says one refresh interval before it is due.\<close>

definition backed :: "(identity \<Rightarrow> time \<Rightarrow> bool) \<Rightarrow> session \<Rightarrow> bool" where
  "backed vouched s \<longleftrightarrow> vouched (session_identity s) (sess_expires s - session_refresh_interval)"

definition sessions_backed :: "(identity \<Rightarrow> time \<Rightarrow> bool) \<Rightarrow> (nat \<Rightarrow> session option) \<Rightarrow> tables \<Rightarrow> bool" where
  "sessions_backed vouched pend c \<longleftrightarrow>
     (\<forall>s \<in> set (tb_sessions c). backed vouched s) \<and> (\<forall>p s. pend p = Some s \<longrightarrow> backed vouched s)"

definition refresh_vouched :: "(identity \<Rightarrow> time \<Rightarrow> bool) \<Rightarrow> 'e auth_stamp \<Rightarrow> bool" where
  "refresh_vouched vouched st \<longleftrightarrow>
     (\<forall>rt idn rt'. as_refresh st rt = Inr (idn, rt') \<longrightarrow> vouched idn (as_later st))"

fun op_vouched :: "(identity \<Rightarrow> time \<Rightarrow> bool) \<Rightarrow> 'e session_event \<Rightarrow> bool" where
  "op_vouched vouched (FinishAuth p st) \<longleftrightarrow> refresh_vouched vouched st"
| "op_vouched vouched (LoginCallback st req) \<longleftrightarrow>
     (\<forall>token idn. ls_exchange st (query_get ''code'' req) = Inr token \<longrightarrow> ls_extract st token = Inr idn
        \<longrightarrow> vouched idn (ls_now st))"
| "op_vouched vouched op \<longleftrightarrow> True"

lemma backed_renewed: "vouched idn t \<Longrightarrow> backed vouched (renewed_session s idn enc t)"
  by (cases idn) (simp add: backed_def renewed_session_def session_identity_def)

lemma new_session_identity [simp]: "session_identity (new_session sha raw idn enc t) = idn"
  by (cases idn) (simp add: new_session_def session_identity_def)

lemma new_session_expires: "sess_expires (new_session sha raw idn enc t) = t + session_refresh_interval"
  by (simp add: new_session_def)

lemma backed_new: "vouched idn t \<Longrightarrow> backed vouched (new_session sha raw idn enc t)"
  by (simp add: backed_def new_session_expires)

lemma sessions_backed_pend:
  "sessions_backed vouched pend c \<Longrightarrow> (\<forall>s. x = Some s \<longrightarrow> backed vouched s) \<Longrightarrow> sessions_backed vouched (pend(p := x)) c"
  by (simp add: sessions_backed_def)

lemma sessions_backed_tables:
  "sessions_backed vouched pend c \<Longrightarrow> (\<forall>s \<in> set (tb_sessions c'). s \<in> set (tb_sessions c) \<or> backed vouched s)
   \<Longrightarrow> sessions_backed vouched pend c'"
  by (auto simp: sessions_backed_def)

lemma without_session_subset: "s \<in> set (tb_sessions (without_session i c)) \<Longrightarrow> s \<in> set (tb_sessions c)"
  by (auto simp: without_session_def)

context sql_database begin

lemma session_refresh_backed:
  assumes "session_refresh db g key st s d = (res, d')" "refresh_vouched vouched st" "backed vouched s"
    "sessions_backed vouched pend (content d)"
  shows "sessions_backed vouched pend (content d')
    \<and> (\<forall>idn. res = Inr idn \<longrightarrow> (\<exists>t. vouched idn t \<and> (t = as_later st \<or> as_now st < t + session_refresh_interval)))"
  using assms(1)
proof (cases rule: session_refresh_cases)
  case current
  with assms(3,4) show ?thesis
    by (auto simp: backed_def intro!: exI [of _ "sess_expires s - session_refresh_interval"])
next
  case (failed e)
  then have "sessions_backed vouched pend (content d')"
    by (intro sessions_backed_tables [OF assms(4)]) (auto dest: without_session_subset)
  with failed(2) show ?thesis by simp
next
  case (renewed token idn token' enc)
  with assms(2) have v: "vouched idn (as_later st)" by (auto simp: refresh_vouched_def)
  from v have "sessions_backed vouched pend (content d')"
    by (intro sessions_backed_tables [OF assms(4)]) (auto simp: renewed(6) save_row_set backed_renewed)
  with v renewed(2) show ?thesis by auto
qed

lemma session_op_backed:
  assumes "sessions_backed vouched (snd s) (content (fst s))" "op_vouched vouched op"
  shows "sessions_backed vouched (snd (session_op db sha g key op s)) (content (fst (session_op db sha g key op s)))"
proof (cases op)
  case (StartAuth p req)
  obtain r d1 where l: "session_lookup db sha req (fst s) = ((r :: unit session_error + session), d1)" by fastforce
  from session_lookup_effect [OF l] assms(1) have "content d1 = content (fst s)"
    "\<forall>x. r = Inr x \<longrightarrow> backed vouched x" by (auto simp: sessions_backed_def)
  with l assms(1) StartAuth show ?thesis
    by (cases s) (auto intro!: sessions_backed_pend split: sum.splits)
next
  case (FinishAuth p st)
  show ?thesis
  proof (cases "snd s p")
    case (Some x)
    obtain res d' where r: "session_refresh db g key st x (fst s) = (res, d')" by fastforce
    have "backed vouched x" using assms(1) Some by (auto simp: sessions_backed_def)
    with session_refresh_backed [OF r, of vouched "snd s"] assms FinishAuth r Some show ?thesis
      by (cases s) (auto intro!: sessions_backed_pend)
  qed (use assms FinishAuth in \<open>cases s; auto\<close>)
next
  case (LoginCallback st req)
  obtain reply d' where c: "callback_handler db sha g key st req (fst s) = (reply, d')" by fastforce
  from c have "sessions_backed vouched (snd s) (content d')"
  proof (cases rule: callback_cases)
    case (logged_in token idn enc)
    with assms(2) LoginCallback have "vouched idn (ls_now st)" by simp
    then show ?thesis
      by (intro sessions_backed_tables [OF assms(1)]) (auto simp: logged_in(6) backed_new)
  qed (use assms(1) in simp)
  with c LoginCallback show ?thesis by (cases s) simp
next
  case (Logout req)
  obtain reply d' where l: "logout_handler db sha req (fst s) = (reply, d')" by fastforce
  from logout_effect [OF l] have "sessions_backed vouched (snd s) (content d')"
    by (intro sessions_backed_tables [OF assms(1)]) (auto dest: without_session_subset)
  with l Logout show ?thesis by (cases s) simp
qed

lemma session_run_backed:
  assumes "sessions_backed vouched (snd s) (content (fst s))" "\<forall>op \<in> set ops. op_vouched vouched op"
  shows "sessions_backed vouched (snd (session_run db sha g key ops s)) (content (fst (session_run db sha g key ops s)))"
  using assms
proof (induction ops arbitrary: s)
  case (Cons op ops)
  then have "sessions_backed vouched (snd (session_op db sha g key op s)) (content (fst (session_op db sha g key op s)))"
    by (intro session_op_backed) simp_all
  with Cons show ?case by (simp add: session_run_def)
qed (simp add: session_run_def)

end

text \<open>Authentication with a session cookie, seen from the table of sessions.\<close>

context sql_database begin

lemma lookup_of_row:
  assumes "session_lookup db sha req d = ((res :: 'e session_error + session), d')"
    "cookie_value session_cookie_name req = Some raw" "uniq_sessions (tb_sessions (content d))"
    "s \<in> set (tb_sessions (content d))" "sess_id s = hash_session_id sha raw"
  shows "res = Inr s \<or> (\<exists>e. fst (sql_first (db_sessions db) (\<lambda>s. sess_id s = hash_session_id sha raw) d) = Inl (DbError e))"
proof -
  obtain r d1 where f: "sql_first (db_sessions db) (\<lambda>s. sess_id s = hash_session_id sha raw) d = (r, d1)" by fastforce
  show ?thesis
  proof (cases r)
    case (Inl e)
    with f sessions.first_missing [OF f [unfolded Inl]] assms(4,5) show ?thesis by (cases e) auto
  next
    case (Inr x)
    with sessions.first_found [OF f [unfolded Inr]] assms(3-5) distinct_map_eq [of sess_id "tb_sessions (content d)" x s]
    have "x = s" by (simp add: uniq_sessions_def)
    with f Inr assms(1,2) show ?thesis by (simp add: session_lookup_def)
  qed
qed

lemma lookup_of_none:
  assumes "cookie_value session_cookie_name req = Some raw" "hash_session_id sha raw \<notin> session_ids (content d)"
  shows "\<exists>d'. session_lookup db sha req d = ((Inl NoSuchSession :: 'e session_error + session), d')"
proof -
  obtain r d1 where f: "sql_first (db_sessions db) (\<lambda>s. sess_id s = hash_session_id sha raw) d = (r, d1)" by fastforce
  show ?thesis
  proof (cases r)
    case (Inr x)
    with sessions.first_found [OF f [unfolded Inr]] assms(2) have False by (metis imageI session_ids_def)
    then show ?thesis ..
  qed (use f assms(1) in \<open>simp add: session_lookup_def\<close>)
qed

lemma authenticate_of_none:
  assumes "cookie_value session_cookie_name req = Some raw" "hash_session_id sha raw \<notin> session_ids (content d)"
  shows "fst (oidc_authenticate db sha g key (st :: 'e auth_stamp) req d) = Inl NoSuchSession"
  using lookup_of_none [OF assms, where ?'e = 'e] by (auto simp: oidc_authenticate_def)

end

subsection \<open>A concrete login\<close>

definition example_key :: bytes where
  "example_key = replicate 32 CHR ''k''"

definition example_nonce :: "string + bytes" where
  "example_nonce = Inr (replicate 12 CHR ''n'')"

definition example_identity :: identity where
  "example_identity = \<lparr>id_subject = ''s1'', id_name = ''Ann'', id_role = ''admin''\<rparr>"

definition example_login :: login_stamp where
  "example_login =
     \<lparr>ls_exchange = (\<lambda>code. if code = ''c'' then Inr \<lparr>ot_refresh = ''r1'', ot_id_token = Some ''i''\<rparr> else Inl ''bad code''),
      ls_extract = verify_and_extract Inr
        (\<lambda>_. Inr \<lparr>cl_subject = ''s1'', cl_username = ''ann'', cl_name = ''Ann'', cl_groups = [''/admins'']\<rparr>) ''admins'',
      ls_nonce = example_nonce, ls_uuid = ''S1'', ls_now = 100\<rparr>"

definition example_callback :: http_request where
  "example_callback = \<lparr>rq_method = ''GET'', rq_path = ''/auth/callback'', rq_accept = [],
     rq_cookies = [(oauth_state_cookie_name, ''x'')], rq_query = [(''state'', ''x''), (''code'', ''c'')], rq_body = []\<rparr>"

definition example_page :: "(string \<times> string) list \<Rightarrow> http_request" where
  "example_page cookies = \<lparr>rq_method = ''GET'', rq_path = ''/api/me'', rq_accept = [],
     rq_cookies = cookies, rq_query = [], rq_body = []\<rparr>"

definition example_session :: session where
  "example_session = new_session id ''S1'' example_identity
     (b64_encode False (replicate 12 CHR ''n'' @ ''r1'' @ example_key @ plain_tag)) 100"

definition example_stamp :: "time \<Rightarrow> (string + (identity \<times> string)) \<Rightarrow> string auth_stamp" where
  "example_stamp now answer = \<lparr>as_now = now, as_refresh = (\<lambda>_. answer), as_nonce = example_nonce, as_later = now + 1\<rparr>"

definition example_logged_in :: mem_db where
  "example_logged_in = mem_empty\<lparr>md_tables := (md_tables mem_empty)\<lparr>tb_sessions := [example_session]\<rparr>\<rparr>"

lemmas example_login_defs = example_nonce_def example_identity_def example_login_def example_callback_def
  example_page_def example_stamp_def mem_empty_def

lemma example_encrypts:
  "encrypt_refresh_token tag_cipher example_nonce example_key rt
     = Inr (b64_encode False (replicate 12 CHR ''n'' @ rt @ example_key @ plain_tag))"
  by (simp only: encrypt_cases) (simp add: example_nonce_def example_key_def tag_cipher_def)

lemma example_decrypts: "decrypt_refresh_token tag_cipher example_key (sess_refresh example_session) = Inr ''r1''"
  using decrypt_encrypt [OF tag_cipher_ok example_encrypts [of "''r1''", unfolded example_nonce_def]]
  by (simp add: example_session_def new_session_def nonce_size_def)

lemma example_callback_runs:
  "callback_handler mem_database id tag_cipher example_key example_login example_callback mem_empty
     = (http_found [plain_cookie session_cookie_name ''S1'' 0] example_callback ''/'', example_logged_in)"
proof -
  have "encrypt_refresh_token tag_cipher (ls_nonce example_login) example_key rt
     = Inr (b64_encode False (replicate 12 CHR ''n'' @ rt @ example_key @ plain_tag))" for rt
    using example_encrypts by (simp add: example_login_def)
  moreover have "ls_extract example_login \<lparr>ot_refresh = ''r1'', ot_id_token = Some ''i''\<rparr> = Inr example_identity"
    by (simp add: example_login_def verify_and_extract_def example_identity_def)
  moreover have "ls_exchange example_login ''c'' = Inr \<lparr>ot_refresh = ''r1'', ot_id_token = Some ''i''\<rparr>"
    "ls_uuid example_login = ''S1''" "ls_now example_login = 100" by (simp_all add: example_login_def)
  moreover have "cookie_value oauth_state_cookie_name example_callback = Some (query_get ''state'' example_callback)"
    "query_get ''code'' example_callback = ''c''"
    by (simp_all add: example_callback_def cookie_value_def query_get_def)
  moreover have "sql_create (db_sessions mem_database) example_session mem_empty = (None, example_logged_in)"
    by (simp add: mem_eval mem_empty_def example_logged_in_def)
  ultimately show ?thesis by (simp add: callback_handler_def example_session_def)
qed

lemma example_lookup:
  "session_lookup mem_database id (example_page [(session_cookie_name, ''S1'')]) example_logged_in
     = (Inr example_session, example_logged_in)"
  by (simp add: session_lookup_def example_page_def cookie_value_def mem_eval example_logged_in_def mem_empty_def
      example_session_def new_session_def)

subsection \<open>Properties\<close>

text \<open>C14: the identity that Authenticate hands out is recent. However the steps of concurrent requests,
  logins and logouts interleave, and whichever statements fail, what a request is
  answered with is an identity that Keycloak confirmed during this very request or less
  than 15 minutes before it, as it was then: with that subject, that name and that role.\<close>

theorem session_claims_are_recent:
  assumes "sql_database content db" "tb_sessions (content d0) = []"
    "\<forall>op \<in> set ops. op_vouched vouched op" "refresh_vouched vouched st"
    "session_run db sha g key ops (d0, \<lambda>_. None) = (d, pend)" "pend p = Some s"
    "session_refresh db g key st s d = (Inr idn, d')"
  shows "\<exists>t. vouched idn t \<and> (t = as_later st \<or> as_now st < t + 15 * minute)"
proof -
  have "sessions_backed vouched (snd (d0, \<lambda>_. None)) (content (fst (d0, \<lambda>_. None)))"
    using assms(2) by (simp add: sessions_backed_def)
  from sql_database.session_run_backed [OF assms(1) this assms(3), of sha g key]
  have inv: "sessions_backed vouched pend (content d)" by (simp add: assms(5))
  with assms(6) have "backed vouched s" by (auto simp: sessions_backed_def)
  with sql_database.session_refresh_backed [OF assms(1,7,4) _ inv] show ?thesis
    by (auto simp: session_refresh_interval_def)
qed

theorem session_claims_are_recent_witness:
  "let page = example_page [(session_cookie_name, ''S1'')];
       ops = [LoginCallback example_login example_callback, StartAuth 1 page, StartAuth 2 page,
              FinishAuth 2 (example_stamp 200 (Inl ''down'')) :: string session_event];
       run = session_run mem_database id tag_cipher example_key ops (mem_empty, \<lambda>_. None)
   in fst (session_refresh mem_database tag_cipher example_key (example_stamp 300 (Inl ''down'')) example_session (fst run))
        = Inr example_identity \<and> snd run 1 = Some example_session
      \<and> (\<exists>t. (t :: time) = 100 \<and> (t = 301 \<or> 300 < t + 15 * minute))"
proof -
  let ?page = "example_page [(session_cookie_name, ''S1'')]"
  let ?ops = "[LoginCallback example_login example_callback, StartAuth 1 ?page, StartAuth 2 ?page,
              FinishAuth 2 (example_stamp 200 (Inl ''down'')) :: string session_event]"
  let ?vouched = "\<lambda>idn t. idn = example_identity \<and> t = (100 :: time)"
  have fresh: "session_refresh mem_database tag_cipher example_key (example_stamp t (Inl ''down'')) example_session d
      = (Inr example_identity, d)" if "t < 1000" for t d
    using that by (simp add: session_refresh_def example_stamp_def example_session_def new_session_def
        session_refresh_interval_def duration_defs session_identity_def)
  have run: "session_run mem_database id tag_cipher example_key ?ops (mem_empty, \<lambda>_. None)
      = (example_logged_in, ((\<lambda>_. None)(1 := Some example_session, 2 := Some example_session))(2 := None))"
    by (simp add: session_run_def example_callback_runs example_lookup fresh)
  have vouched: "\<forall>op \<in> set ?ops. op_vouched ?vouched op"
    by (simp add: refresh_vouched_def example_stamp_def example_login_def verify_and_extract_def
        example_identity_def split: if_splits)
  have "\<exists>t. ?vouched example_identity t \<and> (t = as_later (example_stamp 300 (Inl ''down''))
      \<or> as_now (example_stamp 300 (Inl ''down'')) < t + 15 * minute)"
  proof (rule session_claims_are_recent [OF mem.sql_database_axioms _ vouched _ run])
    show "tb_sessions (md_tables mem_empty) = []" by (simp add: mem_empty_def)
    show "refresh_vouched ?vouched (example_stamp 300 (Inl ''down''))"
      by (simp add: refresh_vouched_def example_stamp_def)
    show "(((\<lambda>_. None)(1 := Some example_session, 2 := Some example_session))(2 := None)) (1 :: nat) = Some example_session"
      by simp
  qed (rule fresh, simp)
  with run fresh [of 300 example_logged_in] show ?thesis by (simp add: Let_def example_stamp_def)
qed

text \<open>C15: the life of a login. The callback logs in only a browser whose state parameter equals its state
  cookie, as the identity that Keycloak verified for the code; any other outcome stores
  nothing and sets no cookie. The cookie it sets is HttpOnly and Secure, authenticates as that
  identity for the next 15 minutes unless the database fails, and after a logout with it
  authenticates nobody, unless the deletion failed.\<close>

theorem login_session_lifecycle:
  assumes "sql_database content db" "callback_handler db sha g key st req d = (reply, d1)"
    "cookie_value session_cookie_name page = Some (ls_uuid st)" "as_now st' < ls_now st + 15 * minute"
    "oidc_authenticate db sha g key st' page d1 = (res, d2)"
    "logout_handler db sha page d1 = (reply', d3)"
  shows "if hr_status reply = 302 then
      cookie_value oauth_state_cookie_name req = Some (query_get ''state'' req)
      \<and> hr_cookies reply = [plain_cookie session_cookie_name (ls_uuid st) 0]
      \<and> (\<exists>token idn. ls_exchange st (query_get ''code'' req) = Inr token \<and> ls_extract st token = Inr idn
          \<and> (res = Inr idn \<or> (\<exists>e. fst (sql_first (db_sessions db)
                (\<lambda>s. sess_id s = hash_session_id sha (ls_uuid st)) d1) = Inl (DbError e))))
      \<and> (content d3 = content d1 \<or> fst (oidc_authenticate db sha g key st' page d3) = Inl NoSuchSession)
    else hr_cookies reply = [] \<and> content d1 = content d"
proof (cases rule: sql_database.callback_cases [OF assms(1,2), case_names refused logged_in])
  case refused
  then show ?thesis by auto
next
  case (logged_in token idn enc)
  let ?s = "new_session sha (ls_uuid st) idn enc (ls_now st)"
  have row: "?s \<in> set (tb_sessions (content d1))" "uniq_sessions (tb_sessions (content d1))"
    "sess_id ?s = hash_session_id sha (ls_uuid st)"
    using logged_in(6,7) by (simp_all add: new_session_def)
  obtain r d4 where l: "session_lookup db sha page d1 = (r, d4)" "(case r of Inl e \<Rightarrow> (Inl e, d4)
      | Inr s \<Rightarrow> session_refresh db g key st' s d4) = (res, d2)"
    using assms(5) by (auto simp: oidc_authenticate_def split: prod.splits sum.splits)
  have "res = Inr idn \<or> (\<exists>e. fst (sql_first (db_sessions db)
          (\<lambda>s. sess_id s = hash_session_id sha (ls_uuid st)) d1) = Inl (DbError e))"
    using sql_database.lookup_of_row [OF assms(1) l(1) assms(3) row(2,1,3)]
  proof
    assume "r = Inr ?s"
    with l(2) assms(4) show ?thesis
      by (simp add: session_refresh_def new_session_expires session_refresh_interval_def)
  qed simp
  moreover have "content d3 = content d1 \<or> fst (oidc_authenticate db sha g key st' page d3) = Inl NoSuchSession"
    using sql_database.logout_effect [OF assms(1,6)] assms(3) without_session_ids
      sql_database.authenticate_of_none [OF assms(1,3), of sha d3 g key st'] by fastforce
  ultimately show ?thesis using logged_in(1-5) by simp
qed

theorem login_session_lifecycle_witness:
  "\<exists>d2 reply d3.
      callback_handler mem_database id tag_cipher example_key example_login example_callback mem_empty
        = (http_found [plain_cookie session_cookie_name ''S1'' 0] example_callback ''/'', example_logged_in)
    \<and> oidc_authenticate mem_database id tag_cipher example_key (example_stamp 300 (Inl ''down''))
        (example_page [(session_cookie_name, ''S1'')]) example_logged_in = (Inr example_identity, d2)
    \<and> logout_handler mem_database id (example_page [(session_cookie_name, ''S1'')]) example_logged_in = (reply, d3)
    \<and> fst (oidc_authenticate mem_database id tag_cipher example_key (example_stamp 300 (Inl ''down''))
        (example_page [(session_cookie_name, ''S1'')]) d3) = Inl NoSuchSession"
proof -
  let ?page = "example_page [(session_cookie_name, ''S1'')]" and ?st = "example_stamp 300 (Inl ''down'')"
  obtain res d2 where auth: "oidc_authenticate mem_database id tag_cipher example_key ?st ?page example_logged_in = (res, d2)"
    by fastforce
  obtain reply d3 where out: "logout_handler mem_database id ?page example_logged_in = (reply, d3)" by fastforce
  have cookie: "cookie_value session_cookie_name ?page = Some (ls_uuid example_login)"
    by (simp add: example_page_def cookie_value_def example_login_def)
  have soon: "as_now ?st < ls_now example_login + 15 * minute"
    by (simp add: example_stamp_def example_login_def duration_defs)
  have db: "fst (sql_first (db_sessions mem_database) P example_logged_in) \<noteq> Inl (DbError e)" for P e
    by (simp add: mem_eval example_logged_in_def mem_empty_def split: list.splits)
  have "tb_sessions (md_tables d3) = []"
    using out by (auto simp: logout_handler_def cookie mem_eval example_logged_in_def mem_empty_def
        example_session_def new_session_def example_login_def)
  moreover have "tb_sessions (md_tables example_logged_in) \<noteq> []" by (simp add: example_logged_in_def)
  ultimately have gone: "md_tables d3 \<noteq> md_tables example_logged_in" by metis
  have "ls_extract example_login \<lparr>ot_refresh = ''r1'', ot_id_token = Some ''i''\<rparr> = Inr example_identity"
    "ls_exchange example_login (query_get ''code'' example_callback) = Inr \<lparr>ot_refresh = ''r1'', ot_id_token = Some ''i''\<rparr>"
    by (simp_all add: example_login_def verify_and_extract_def example_identity_def example_callback_def query_get_def)
  with login_session_lifecycle [OF mem.sql_database_axioms example_callback_runs cookie soon auth out] db gone
  have "res = Inr example_identity"
    "fst (oidc_authenticate mem_database id tag_cipher example_key ?st ?page d3) = Inl NoSuchSession" by simp_all
  with auth out example_callback_runs show ?thesis by blast
qed

text \<open>C40: a logout during a refresh is undone. A request has read its session, which is due; while it waits
  for Keycloak, the browser logs out with the same cookie and the session is deleted; when
  the request finishes, Save inserts the row again, and the cookie that was logged out
  authenticates for another 15 minutes, without asking Keycloak.\<close>

theorem logout_during_refresh_is_undone:
  assumes "sql_database content db"
    "session_lookup db sha req d = ((Inr s :: 'e session_error + session), d1)"
    "logout_handler db sha req d1 = (reply, d2)" "content d2 \<noteq> content d1"
    "sess_expires s \<le> as_now st" "session_refresh db g key st s d2 = (Inr idn, d3)"
    "as_now st' < as_later st + 15 * minute"
    "session_lookup db sha req d3 = ((Inr s' :: 'e session_error + session), d4)"
  shows "sess_id s \<notin> session_ids (content d2) \<and> sess_id s \<in> session_ids (content d3)
    \<and> oidc_authenticate db sha g key (st' :: 'e auth_stamp) req d3 = (Inr idn, d4)"
proof -
  obtain raw where raw: "cookie_value session_cookie_name req = Some raw" "sess_id s = hash_session_id sha raw"
    using sql_database.session_lookup_effect [OF assms(1,2)] by auto
  have gone: "sess_id s \<notin> session_ids (content d2)"
    using sql_database.logout_effect [OF assms(1,3)] assms(4) raw without_session_ids by fastforce
  obtain enc where saved: "content d3 = tb_sessions_update (save_row sess_id (renewed_session s idn enc (as_later st))) (content d2)"
    using sql_database.session_refresh_cases [OF assms(1,6)] assms(5) by (metis Inl_Inr_False Inr_inject not_less)
  have id: "sess_id (renewed_session s idn enc (as_later st)) = sess_id s" by (simp add: renewed_session_def)
  have "s' = renewed_session s idn enc (as_later st)"
    using sql_database.session_lookup_effect [OF assms(1,8)] raw by (auto simp: saved save_row_set id)
  with assms(7,8) gone id show ?thesis
    by (cases idn) (auto simp: oidc_authenticate_def session_refresh_def renewed_session_def session_identity_def
        session_refresh_interval_def session_ids_def saved save_row_set)
qed

theorem logout_during_refresh_is_undone_witness:
  "let page = example_page [(session_cookie_name, ''S1'')];
       due = 1000000000000; out = snd (logout_handler mem_database id page example_logged_in);
       st = example_stamp due (Inr (example_identity, ''r2''))
   in tb_sessions (md_tables out) = []
      \<and> fst (oidc_authenticate mem_database id tag_cipher example_key (example_stamp (due + 2) (Inl ''down'')) page
          (snd (session_refresh mem_database tag_cipher example_key st example_session out))) = Inr example_identity"
proof -
  let ?page = "example_page [(session_cookie_name, ''S1'')]" and ?due = "1000000000000 :: int"
  let ?st = "example_stamp ?due (Inr (example_identity, ''r2''))" and ?st' = "example_stamp (?due + 2) (Inl ''down'')"
  let ?out = "example_logged_in\<lparr>md_tables := tb_sessions_update (\<lambda>_. []) (md_tables example_logged_in)\<rparr>"
  let ?enc = "b64_encode False (replicate 12 CHR ''n'' @ ''r2'' @ example_key @ plain_tag)"
  let ?again = "renewed_session example_session example_identity ?enc (?due + 1)"
  let ?d3 = "?out\<lparr>md_tables := tb_sessions_update (\<lambda>_. [?again]) (md_tables example_logged_in)\<rparr>"
  have cookie: "cookie_value session_cookie_name ?page = Some ''S1''" by (simp add: example_page_def cookie_value_def)
  have id: "sess_id example_session = hash_session_id id ''S1''" "sess_id ?again = hash_session_id id ''S1''"
    by (simp_all add: example_session_def new_session_def renewed_session_def)
  obtain reply where out: "logout_handler mem_database id ?page example_logged_in = (reply, ?out)"
    by (simp add: logout_handler_def cookie mem_eval example_logged_in_def mem_empty_def id)
  have due: "sess_expires example_session \<le> as_now ?st"
    by (simp add: example_session_def new_session_expires example_stamp_def session_refresh_interval_def duration_defs)
  have ref: "session_refresh mem_database tag_cipher example_key ?st example_session ?out = (Inr example_identity, ?d3)"
    using due by (simp add: session_refresh_def example_decrypts example_stamp_def example_encrypts mem_eval
        save_row_def example_logged_in_def mem_empty_def)
  have look: "session_lookup mem_database id ?page ?d3 = ((Inr ?again :: string session_error + session), ?d3)"
    by (simp add: session_lookup_def cookie mem_eval example_logged_in_def mem_empty_def id)
  have "oidc_authenticate mem_database id tag_cipher example_key ?st' ?page ?d3 = (Inr example_identity, ?d3)"
    by (rule conjunct2 [OF conjunct2 [OF logout_during_refresh_is_undone [OF mem.sql_database_axioms example_lookup out _ due ref _ look]]])
      (simp_all add: example_logged_in_def example_stamp_def duration_defs mem_empty_def)
  then show ?thesis by (simp add: Let_def out ref)
qed

text \<open>Two requests of one browser can end its login. Both have read the same session, which is due;
  the first one refreshes it and stores the new refresh token; Keycloak then rejects the
  old one, which the second request still holds, and that request deletes the session that
  the first has just renewed: the cookie authenticates nobody any more, unless the deletion
  failed.\<close>

theorem second_refresh_ends_session:
  assumes "sql_database content db"
    "session_lookup db sha req d = ((Inr s :: 'e session_error + session), d1)"
    "decrypt_refresh_token g key (sess_refresh s) = Inr token"
    "sess_expires s \<le> as_now st1" "session_refresh db g key st1 s d1 = (Inr idn, d2)"
    "sess_expires s \<le> as_now st2" "as_refresh st2 token = Inl e" "session_refresh db g key st2 s d2 = (res, d3)"
  shows "sess_id s \<in> session_ids (content d2) \<and> res = Inl (RefreshFailed e)
    \<and> (content d3 = content d2 \<or> fst (oidc_authenticate db sha g key (st :: 'e auth_stamp) req d3) = Inl NoSuchSession)"
proof -
  obtain raw where raw: "cookie_value session_cookie_name req = Some raw" "sess_id s = hash_session_id sha raw"
    using sql_database.session_lookup_effect [OF assms(1,2)] by auto
  obtain enc where "content d2 = tb_sessions_update (save_row sess_id (renewed_session s idn enc (as_later st1))) (content d1)"
    using sql_database.session_refresh_cases [OF assms(1,5)] assms(4) by (metis Inl_Inr_False Inr_inject not_less)
  then have stored: "sess_id s \<in> session_ids (content d2)"
    by (simp add: session_ids_def save_row_set renewed_session_def)
  have "res = Inl (RefreshFailed e)" "d3 = drop_session db s d2"
    using assms(3,6-8) by (simp_all add: session_refresh_def)
  moreover have "content d3 = content d2 \<or> sess_id s \<notin> session_ids (content d3)"
    using sql_database.drop_session_effect [OF assms(1), of s d2] without_session_ids calculation(2) by metis
  ultimately show ?thesis
    using stored sql_database.authenticate_of_none [OF assms(1) raw(1), of sha d3 g key st] raw(2) by auto
qed

theorem second_refresh_ends_session_witness:
  "let page = example_page [(session_cookie_name, ''S1'')]; due = 1000000000000;
       first_run = session_refresh mem_database tag_cipher example_key
         (example_stamp due (Inr (example_identity, ''r2''))) example_session example_logged_in;
       second_run = session_refresh mem_database tag_cipher example_key
         (example_stamp (due + 5) (Inl ''invalid_grant'')) example_session (snd first_run)
   in fst first_run = Inr example_identity \<and> fst second_run = Inl (RefreshFailed ''invalid_grant'')"
proof -
  let ?page = "example_page [(session_cookie_name, ''S1'')]" and ?due = "1000000000000 :: int"
  let ?st1 = "example_stamp ?due (Inr (example_identity, ''r2''))" and ?st2 = "example_stamp 1000000000005 (Inl ''invalid_grant'')"
  have due: "sess_expires example_session \<le> as_now ?st1" "sess_expires example_session \<le> as_now ?st2"
    by (simp_all add: example_session_def new_session_expires example_stamp_def session_refresh_interval_def duration_defs)
  obtain d2 where ref: "session_refresh mem_database tag_cipher example_key ?st1 example_session example_logged_in
      = (Inr example_identity, d2)"
    using due by (auto simp: session_refresh_def example_decrypts example_stamp_def example_encrypts mem_eval
        save_row_def example_logged_in_def mem_empty_def)
  obtain res d3 where ref2: "session_refresh mem_database tag_cipher example_key ?st2 example_session d2 = (res, d3)"
    by fastforce
  have "as_refresh ?st2 ''r1'' = Inl ''invalid_grant''" by (simp add: example_stamp_def)
  from second_refresh_ends_session [OF mem.sql_database_axioms example_lookup example_decrypts due(1) ref due(2) this ref2, of ?st1]
  show ?thesis by (simp add: Let_def ref ref2)
qed

end
