(* ===== verification/Oidc_Wiring.thy ===== *)
theory Oidc_Wiring
  imports Oidc
begin

section \<open>The OIDC handlers put together (NewOIDCHandlers in internal/humanauth/oidc_handlers.go)\<close>

text \<open>
  NewOIDCHandlers discovers the issuer and makes one OAuth2 client, one verifier and one
  refresher, which OIDCProvider and the three browser routes share. The OAuth2 and OIDC
  libraries are a parameter (\<open>oidc_library\<close>), given anew for every request, as Keycloak
  may answer otherwise every time. The theory then looks at the sessions of one browser
  from login to the last refresh: the cookie, the row and the encrypted refresh token
  together implement a machine that keeps an identity, the refresh token that Keycloak
  gave last, and an instant (\<open>token_chain\<close>).
\<close>

subsection \<open>The configuration and the handlers\<close>

record oidc_config =
  oc_issuer :: string
  oc_client_id :: string
  oc_client_secret :: string
  oc_public_url :: string
  oc_admin_group :: string
  oc_encryption_key :: bytes

type_synonym endpoints = "string \<times> string"         \<comment> \<open>the authorization and the token URL of the issuer\<close>

record oauth2_config =
  oa_client_id :: string
  oa_client_secret :: string
  oa_endpoint :: endpoints
  oa_redirect_url :: string
  oa_scopes :: "string list"

record keycloak_refresher =
  kr_oauth2 :: oauth2_config
  kr_verifier :: "string \<times> string"                  \<comment> \<open>the issuer and the client that ID tokens must be for\<close>
  kr_admin_group :: string

record oidc_setup =
  su_refresher :: keycloak_refresher
  su_key :: bytes

definition new_oidc_handlers :: "(string \<Rightarrow> string + endpoints) \<Rightarrow> oidc_config \<Rightarrow> string + oidc_setup" where
  "new_oidc_handlers discover cfg =
     (case discover (oc_issuer cfg) of
        Inl e \<Rightarrow> Inl e
      | Inr endpoint \<Rightarrow>
          Inr \<lparr>su_refresher =
                 \<lparr>kr_oauth2 = \<lparr>oa_client_id = oc_client_id cfg, oa_client_secret = oc_client_secret cfg,
                    oa_endpoint = endpoint, oa_redirect_url = oc_public_url cfg @ ''/auth/callback'',
                    oa_scopes = [''openid'', ''profile'', ''offline_access'']\<rparr>,
                  kr_verifier = (oc_issuer cfg, oc_client_id cfg), kr_admin_group = oc_admin_group cfg\<rparr>,
               su_key = oc_encryption_key cfg\<rparr>)"

record oidc_library =
  ol_auth_code_url :: "oauth2_config \<Rightarrow> string \<Rightarrow> string"
  ol_exchange :: "oauth2_config \<Rightarrow> string \<Rightarrow> string + oauth_token"
  ol_refresh :: "oauth2_config \<Rightarrow> string \<Rightarrow> string + oauth_token"
  ol_verify :: "string \<times> string \<Rightarrow> string \<Rightarrow> string + string"
  ol_claims :: "string \<Rightarrow> string + id_claims"

text \<open>The method values of the shared refresher.\<close>

definition refresher_extract :: "oidc_library \<Rightarrow> keycloak_refresher \<Rightarrow> oauth_token \<Rightarrow> claims_error + identity" where
  "refresher_extract lib k = verify_and_extract (ol_verify lib (kr_verifier k)) (ol_claims lib) (kr_admin_group k)"

definition refresher_refresh :: "oidc_library \<Rightarrow> keycloak_refresher \<Rightarrow> string \<Rightarrow> refresh_error + (identity \<times> string)" where
  "refresher_refresh lib k = keycloak_refresh (ol_refresh lib (kr_oauth2 k)) (refresher_extract lib k)"

definition setup_login :: "oidc_setup \<Rightarrow> oidc_library \<Rightarrow> bytes \<Rightarrow> http_request \<Rightarrow> http_reply" where
  "setup_login su lib buf req = login_handler (ol_auth_code_url lib (kr_oauth2 (su_refresher su))) buf req"

definition setup_callback :: "'d database \<Rightarrow> (bytes \<Rightarrow> bytes) \<Rightarrow> aead \<Rightarrow> oidc_setup \<Rightarrow> oidc_library
    \<Rightarrow> string + bytes \<Rightarrow> string \<Rightarrow> time \<Rightarrow> http_request \<Rightarrow> 'd \<Rightarrow> http_reply \<times> 'd" where
  "setup_callback db sha g su lib nonce uuid now req d =
     callback_handler db sha g (su_key su)
       \<lparr>ls_exchange = ol_exchange lib (kr_oauth2 (su_refresher su)), ls_extract = refresher_extract lib (su_refresher su),
        ls_nonce = nonce, ls_uuid = uuid, ls_now = now\<rparr> req d"

text \<open>What one run of Authenticate draws from outside, with the library behind the refresher.\<close>

record visit =
  vi_library :: oidc_library
  vi_now :: time
  vi_later :: time
  vi_nonce :: "string + bytes"

definition visit_stamp :: "oidc_setup \<Rightarrow> visit \<Rightarrow> refresh_error auth_stamp" where
  "visit_stamp su v = \<lparr>as_now = vi_now v, as_refresh = refresher_refresh (vi_library v) (su_refresher su),
     as_nonce = vi_nonce v, as_later = vi_later v\<rparr>"

definition setup_authenticate :: "'d database \<Rightarrow> (bytes \<Rightarrow> bytes) \<Rightarrow> aead \<Rightarrow> oidc_setup \<Rightarrow> visit
    \<Rightarrow> http_request \<Rightarrow> 'd \<Rightarrow> (refresh_error session_error + identity) \<times> 'd" where
  "setup_authenticate db sha g su v req d = oidc_authenticate db sha g (su_key su) (visit_stamp su v) req d"

text \<open>Whatever the issuer and the libraries answer, the shared refresher meets the contract of the
  provider.\<close>

interpretation wired: token_refresher "refresher_refresh lib k" for lib k
  unfolding refresher_refresh_def refresher_extract_def by (rule keycloak.token_refresher_axioms)

subsection \<open>The machine that a session implements\<close>

record chain_link =
  ch_identity :: identity
  ch_token :: string
  ch_expires :: time

fun chain_step :: "'e auth_stamp \<Rightarrow> chain_link option \<Rightarrow> ('e session_error + identity) \<times> chain_link option" where
  "chain_step st None = (Inl NoSuchSession, None)"
| "chain_step st (Some c) =
     (if as_now st < ch_expires c then (Inr (ch_identity c), Some c)
      else case as_refresh st (ch_token c) of
        Inl e \<Rightarrow> (Inl (RefreshFailed e), None)
      | Inr (idn, token) \<Rightarrow>
          (Inr idn, Some \<lparr>ch_identity = idn, ch_token = token, ch_expires = as_later st + 15 * minute\<rparr>))"

fun token_chain :: "'e auth_stamp list \<Rightarrow> chain_link option \<Rightarrow> ('e session_error + identity) list" where
  "token_chain [] c = []"
| "token_chain (st # sts) c = (case chain_step st c of (res, c') \<Rightarrow> res # token_chain sts c')"

fun browse :: "'d database \<Rightarrow> (bytes \<Rightarrow> bytes) \<Rightarrow> aead \<Rightarrow> bytes \<Rightarrow> http_request \<Rightarrow> 'e auth_stamp list \<Rightarrow> 'd
    \<Rightarrow> ('e session_error + identity) list" where
  "browse db sha g key req [] d = []"
| "browse db sha g key req (st # sts) d =
     (case oidc_authenticate db sha g key st req d of (res, d1) \<Rightarrow> res # browse db sha g key req sts d1)"

text \<open>The row behind a session identifier, against the link of the machine.\<close>

definition linked_session :: "aead \<Rightarrow> bytes \<Rightarrow> string \<Rightarrow> tables \<Rightarrow> chain_link option \<Rightarrow> bool" where
  "linked_session g key i c link =
     (case link of
        None \<Rightarrow> i \<notin> session_ids c
      | Some l \<Rightarrow> \<exists>s \<in> set (tb_sessions c). sess_id s = i \<and> session_identity s = ch_identity l
          \<and> sess_expires s = ch_expires l \<and> decrypt_refresh_token g key (sess_refresh s) = Inr (ch_token l))"

lemma unique_session:
  "uniq_sessions rows \<Longrightarrow> s \<in> set rows \<Longrightarrow> s' \<in> set rows \<Longrightarrow> sess_id s = sess_id s' \<Longrightarrow> s = s'"
  by (simp add: uniq_sessions_def distinct_map_eq)

context calm_database begin

lemma lookup_linked:
  assumes "calm d" "uniq_sessions (tb_sessions (content d))" "cookie_value session_cookie_name req = Some raw"
    "session_lookup db sha req d = ((res :: 'e session_error + session), d')"
  shows "calm d' \<and> content d' = content d \<and> (\<forall>s \<in> set (tb_sessions (content d)). sess_id s = hash_session_id sha raw \<longrightarrow> res = Inr s)
    \<and> (hash_session_id sha raw \<notin> session_ids (content d) \<longrightarrow> res = Inl NoSuchSession)"
proof -
  obtain r d1 where f: "sql_first (db_sessions db) (\<lambda>s. sess_id s = hash_session_id sha raw) d = (r, d1)" by fastforce
  from sessions.first_calm [OF f assms(1)] have c: "calm d1" "\<And>e. r \<noteq> Inl (DbError e)" by auto
  show ?thesis
  proof (cases r)
    case (Inl e)
    with c(2) have "e = RecordNotFound" by (cases e) auto
    with sessions.first_missing [OF f [unfolded Inl]] f Inl assms(3,4) c(1) show ?thesis
      by (auto simp: session_lookup_def)
  next
    case (Inr x)
    from sessions.first_found [OF f [unfolded Inr]] have x: "x \<in> set (tb_sessions (content d))"
      "sess_id x = hash_session_id sha raw" "content d1 = content d" by blast+
    have "res = Inr x" "d' = d1" using f Inr assms(3,4) by (simp_all add: session_lookup_def)
    moreover have "s = x" if "s \<in> set (tb_sessions (content d))" "sess_id s = hash_session_id sha raw" for s
      using unique_session [OF assms(2) that(1) x(1)] that(2) x(2) by simp
    moreover have "hash_session_id sha raw \<in> session_ids (content d)"
      using x(1) unfolding session_ids_def x(2) [symmetric] by (rule imageI)
    ultimately show ?thesis using c(1) x(3) by blast
  qed
qed

lemma drop_linked:
  assumes "calm d"
  shows "calm (drop_session db s d) \<and> content (drop_session db s d) = without_session (sess_id s) (content d)"
proof -
  obtain res d' where del: "sql_delete (db_sessions db) (\<lambda>x. sess_id x = sess_id s) d = (res, d')" by fastforce
  with sessions.delete_calm [OF del assms] delete_session_effect [OF del] show ?thesis
    by (auto simp: drop_session_def)
qed

text \<open>The refresh of a due session: the row follows the answer of Keycloak.\<close>

lemma renew_linked:
  assumes "aead_ok g" "length key = 32" "calm d" "uniq_sessions (tb_sessions (content d))"
    "as_nonce st = Inr nonce" "length nonce = nonce_size" "\<not> as_now st < sess_expires s"
    "decrypt_refresh_token g key (sess_refresh s) = Inr old" "as_refresh st old = Inr (idn, token)"
    "session_refresh db g key st s d = (res, d')"
  shows "res = Inr idn \<and> calm d' \<and> uniq_sessions (tb_sessions (content d'))
    \<and> linked_session g key (sess_id s) (content d')
        (Some \<lparr>ch_identity = idn, ch_token = token, ch_expires = as_later st + 15 * minute\<rparr>)"
proof -
  let ?enc = "b64_encode False (nonce @ gcm_seal g key nonce token)"
  let ?row = "renewed_session s idn ?enc (as_later st)"
  have enc: "encrypt_refresh_token g (as_nonce st) key token = Inr ?enc" using assms(2,5) by (simp add: encrypt_cases)
  obtain w d2 where w: "sql_save (db_sessions db) sess_id ?row d = (w, d2)" by fastforce
  have uniq: "uniq_sessions (save_row sess_id ?row (tb_sessions (content d)))"
    using assms(4) by (auto simp: uniq_sessions_def save_row_keys)
  with sessions.save_calm [OF w assms(3)] have "w = None" "calm d2" by auto
  moreover have "res = Inr idn" "d' = d2" using assms(7-10) enc w \<open>w = None\<close> by (simp_all add: session_refresh_def)
  moreover have "content d2 = tb_sessions_update (save_row sess_id ?row) (content d)"
    using sessions.save_ok [OF w [unfolded \<open>w = None\<close>]] by simp
  moreover have "decrypt_refresh_token g key ?enc = Inr token"
    using decrypt_encrypt [OF assms(1) _ assms(6)] enc assms(5) by simp
  ultimately show ?thesis using uniq
    by (auto simp: linked_session_def save_row_set renewed_session_def session_identity_def
        session_refresh_interval_def intro: bexI [of _ ?row])
qed

lemma chain_visit:
  assumes "aead_ok g" "length key = 32" "calm d" "uniq_sessions (tb_sessions (content d))"
    "cookie_value session_cookie_name req = Some raw" "as_nonce st = Inr nonce" "length nonce = nonce_size"
    "linked_session g key (hash_session_id sha raw) (content d) link"
    "oidc_authenticate db sha g key (st :: 'e auth_stamp) req d = (res, d')" "chain_step st link = (res', link')"
  shows "res = res' \<and> linked_session g key (hash_session_id sha raw) (content d') link'
    \<and> calm d' \<and> uniq_sessions (tb_sessions (content d'))"
proof -
  let ?i = "hash_session_id sha raw"
  obtain r d1 where l: "session_lookup db sha req d = ((r :: 'e session_error + session), d1)" by fastforce
  note look = lookup_linked [OF assms(3-5) l]
  show ?thesis
  proof (cases link)
    case None
    with look assms(4,8,9,10) l show ?thesis by (simp add: oidc_authenticate_def linked_session_def)
  next
    case (Some c)
    with assms(8) obtain s where s: "s \<in> set (tb_sessions (content d))" "sess_id s = ?i" "session_identity s = ch_identity c"
      "sess_expires s = ch_expires c" "decrypt_refresh_token g key (sess_refresh s) = Inr (ch_token c)"
      by (auto simp: linked_session_def)
    with look have d1: "r = Inr s" "calm d1" "content d1 = content d" by blast+
    with l assms(9) have run: "session_refresh db g key st s d1 = (res, d')" by (simp add: oidc_authenticate_def)
    consider "as_now st < ch_expires c" | (gone) e where "\<not> as_now st < ch_expires c" "as_refresh st (ch_token c) = Inl e"
      | (renewed) idn token where "\<not> as_now st < ch_expires c" "as_refresh st (ch_token c) = Inr (idn, token)"
      by (cases "as_refresh st (ch_token c)") force+
    then show ?thesis
    proof cases
      case 1
      with run s Some assms(4,8,10) d1 show ?thesis by (auto simp: session_refresh_def)
    next
      case (gone e)
      with run s(4,5) have "res = Inl (RefreshFailed e)" "d' = drop_session db s d1"
        by (simp_all add: session_refresh_def)
      with drop_linked [OF d1(2), of s] gone Some assms(4,10) d1(3) s(2) without_session_ids show ?thesis
        by (auto simp: linked_session_def without_session_def uniq_filter_rows)
    next
      case (renewed idn token)
      with renew_linked [OF assms(1,2) d1(2) _ assms(6,7) _ s(5) _ run] assms(4,10) d1(3) s(2,4) Some
      show ?thesis by simp
    qed
  qed
qed

text \<open>So the machine and the service answer alike for as long as they go on.\<close>

lemma browse_follows_chain:
  assumes "aead_ok g" "length key = 32" "calm d" "uniq_sessions (tb_sessions (content d))"
    "cookie_value session_cookie_name req = Some raw"
    "\<forall>st \<in> set sts. \<exists>nonce. as_nonce st = Inr nonce \<and> length nonce = nonce_size"
    "linked_session g key (hash_session_id sha raw) (content d) link"
  shows "browse db sha g key req sts d = token_chain sts link"
  using assms(3,4,6,7)
proof (induction sts arbitrary: d link)
  case (Cons st sts)
  obtain res d' where run: "oidc_authenticate db sha g key st req d = (res, d')" by fastforce
  obtain res' link' where step: "chain_step st link = (res', link')" by fastforce
  obtain nonce where "as_nonce st = Inr nonce" "length nonce = nonce_size" using Cons.prems(3) by auto
  from chain_visit [OF assms(1,2) Cons.prems(1,2) assms(5) this Cons.prems(4) run step] Cons.IH [of d' link'] Cons.prems(3)
  show ?case by (simp add: run step)
qed simp

lemma callback_links:
  assumes "aead_ok g" "calm d" "ls_nonce st = Inr nonce" "length nonce = nonce_size"
    "callback_handler db sha g key st req d = (reply, d')" "hr_status reply = 302"
  shows "\<exists>token idn. ls_exchange st (query_get ''code'' req) = Inr token \<and> ls_extract st token = Inr idn
    \<and> calm d' \<and> uniq_sessions (tb_sessions (content d'))
    \<and> linked_session g key (hash_session_id sha (ls_uuid st)) (content d')
        (Some \<lparr>ch_identity = idn, ch_token = ot_refresh token, ch_expires = ls_now st + 15 * minute\<rparr>)"
proof -
  have "calm d'" using assms(2,5) sessions.create_calm
    by (auto simp: callback_handler_def split: if_splits sum.splits prod.splits option.splits)
  show ?thesis
  proof (cases rule: callback_cases [OF assms(5), case_names refused logged_in])
    case refused
    with assms(6) show ?thesis by auto
  next
    case (logged_in token idn enc)
    then have "decrypt_refresh_token g key enc = Inr (ot_refresh token)"
      using decrypt_encrypt [OF assms(1) _ assms(4)] assms(3) by simp
    with logged_in(2,3,6,7) \<open>calm d'\<close> show ?thesis
      by (auto simp: linked_session_def new_session_def session_identity_def session_refresh_interval_def)
  qed
qed

end

subsection \<open>A concrete issuer\<close>

text \<open>It gives the refresh token r1 with the identity of an admin, takes r1 once for r2 with that of a
  viewer, and rejects every other refresh token.\<close>

definition example_library :: oidc_library where
  "example_library =
     \<lparr>ol_auth_code_url = (\<lambda>cfg state. fst (oa_endpoint cfg) @ ''?state='' @ state),
      ol_exchange = (\<lambda>cfg code. if code = ''c'' then Inr \<lparr>ot_refresh = ''r1'', ot_id_token = Some ''/admins''\<rparr> else Inl ''bad code''),
      ol_refresh = (\<lambda>cfg rt. if rt = ''r1'' then Inr \<lparr>ot_refresh = ''r2'', ot_id_token = Some ''/staff''\<rparr> else Inl ''rejected''),
      ol_verify = (\<lambda>who raw. Inr raw),
      ol_claims = (\<lambda>grp. Inr \<lparr>cl_subject = ''s1'', cl_username = ''ann'', cl_name = ''Ann'', cl_groups = [grp]\<rparr>)\<rparr>"

definition example_oidc_config :: oidc_config where
  "example_oidc_config = \<lparr>oc_issuer = ''https://k/realms/w'', oc_client_id = ''webtools'', oc_client_secret = ''s'',
     oc_public_url = ''https://w'', oc_admin_group = ''admins'', oc_encryption_key = example_key\<rparr>"

definition example_setup :: oidc_setup where
  "example_setup = \<lparr>su_refresher = \<lparr>kr_oauth2 = \<lparr>oa_client_id = ''webtools'', oa_client_secret = ''s'',
        oa_endpoint = (''https://k/auth'', ''https://k/token''), oa_redirect_url = ''https://w/auth/callback'',
        oa_scopes = [''openid'', ''profile'', ''offline_access'']\<rparr>,
      kr_verifier = (''https://k/realms/w'', ''webtools''), kr_admin_group = ''admins''\<rparr>, su_key = example_key\<rparr>"

definition example_visit :: "time \<Rightarrow> visit" where
  "example_visit now = \<lparr>vi_library = example_library, vi_now = now, vi_later = now + 1, vi_nonce = example_nonce\<rparr>"

lemma example_setup_built:
  "new_oidc_handlers (\<lambda>_. Inr (''https://k/auth'', ''https://k/token'')) example_oidc_config = Inr example_setup"
  by (simp add: new_oidc_handlers_def example_oidc_config_def example_setup_def)

lemma example_extract:
  "refresher_extract example_library (su_refresher example_setup) \<lparr>ot_refresh = rt, ot_id_token = Some grp\<rparr>
     = Inr \<lparr>id_subject = ''s1'', id_name = ''Ann'', id_role = (if grp \<in> {''/admins'', ''admins''} then ''admin'' else ''viewer'')\<rparr>"
  by (simp add: refresher_extract_def verify_and_extract_def example_library_def example_setup_def)

subsection \<open>Properties\<close>

text \<open>C16: a login lives on the refresh tokens that Keycloak gave. When the handlers were built from a
  configuration and the callback has logged a browser in, then all its later requests, on a
  database that works and without others of the same browser in between, are answered
  as the abstract machine answers: with the identity of the last exchange for 15 minutes,
  then with what Keycloak answers to exactly the refresh token that it gave last, and after
  a rejected one with no identity ever again. Hashing of the cookie, encryption of the
  token, the row and its updates are an implementation of that machine.\<close>

theorem session_implements_token_chain:
  assumes "calm_database content db calm" "aead_ok g" "new_oidc_handlers discover cfg = Inr su"
    "length (oc_encryption_key cfg) = 32" "calm d" "length nonce = nonce_size"
    "setup_callback db sha g su lib (Inr nonce) uuid now req d = (reply, d1)" "hr_status reply = 302"
    "cookie_value session_cookie_name page = Some uuid"
    "\<forall>v \<in> set visits. \<exists>n. vi_nonce v = Inr n \<and> length n = nonce_size"
  shows "\<exists>token idn. ol_exchange lib (kr_oauth2 (su_refresher su)) (query_get ''code'' req) = Inr token
    \<and> refresher_extract lib (su_refresher su) token = Inr idn
    \<and> browse db sha g (su_key su) page (map (visit_stamp su) visits) d1
      = token_chain (map (visit_stamp su) visits)
          (Some \<lparr>ch_identity = idn, ch_token = ot_refresh token, ch_expires = now + 15 * minute\<rparr>)"
proof -
  have key: "length (su_key su) = 32" using assms(3,4) by (auto simp: new_oidc_handlers_def split: sum.splits)
  obtain token idn where t: "ol_exchange lib (kr_oauth2 (su_refresher su)) (query_get ''code'' req) = Inr token"
    "refresher_extract lib (su_refresher su) token = Inr idn" "calm d1" "uniq_sessions (tb_sessions (content d1))"
    "linked_session g (su_key su) (hash_session_id sha uuid) (content d1)
       (Some \<lparr>ch_identity = idn, ch_token = ot_refresh token, ch_expires = now + 15 * minute\<rparr>)"
    using calm_database.callback_links [OF assms(1,2,5) _ assms(6) assms(7) [unfolded setup_callback_def] assms(8)] by auto
  have "\<forall>st \<in> set (map (visit_stamp su) visits). \<exists>nonce. as_nonce st = Inr nonce \<and> length nonce = nonce_size"
    using assms(10) by (simp add: visit_stamp_def)
  from calm_database.browse_follows_chain [OF assms(1,2) key t(3,4) assms(9) this t(5)] t(1,2) show ?thesis by blast
qed

theorem session_implements_token_chain_witness:
  "\<exists>d. setup_callback mem_database id tag_cipher example_setup example_library example_nonce ''S1'' 100 example_callback
         mem_empty = (http_found [plain_cookie session_cookie_name ''S1'' 0] example_callback ''/'', d)
     \<and> browse mem_database id tag_cipher example_key (example_page [(session_cookie_name, ''S1'')])
         (map (visit_stamp example_setup) (map example_visit [200, hour, 2 * hour, 3 * hour])) d
       = [Inr \<lparr>id_subject = ''s1'', id_name = ''Ann'', id_role = ''admin''\<rparr>,
          Inr \<lparr>id_subject = ''s1'', id_name = ''Ann'', id_role = ''viewer''\<rparr>,
          Inl (RefreshFailed (ExchangeFailed ''rejected'')), Inl NoSuchSession]"
proof -
  let ?page = "example_page [(session_cookie_name, ''S1'')]" and ?visits = "map example_visit [200, hour, 2 * hour, 3 * hour]"
  let ?reply = "http_found [plain_cookie session_cookie_name ''S1'' 0] example_callback ''/''"
  let ?token = "\<lparr>ot_refresh = ''r1'', ot_id_token = Some ''/admins''\<rparr>"
  have code: "query_get ''code'' example_callback = ''c''" "ol_exchange example_library cfg ''c'' = Inr ?token" for cfg
    by (simp_all add: example_callback_def query_get_def example_library_def)
  have run: "\<exists>d. setup_callback mem_database id tag_cipher example_setup example_library example_nonce ''S1'' 100
      example_callback mem_empty = (?reply, d)"
    using example_encrypts [of "''r1''"] example_extract [of "''r1''" "''/admins''"] code
    by (simp add: setup_callback_def callback_handler_def example_callback_def cookie_value_def query_get_def
        example_setup_def mem_eval mem_empty_def)
  then obtain d where run: "setup_callback mem_database id tag_cipher example_setup example_library
      (Inr (replicate 12 CHR ''n'')) ''S1'' 100 example_callback mem_empty = (?reply, d)"
    by (auto simp: example_nonce_def)
  have "browse mem_database id tag_cipher (su_key example_setup) ?page (map (visit_stamp example_setup) ?visits) d
      = token_chain (map (visit_stamp example_setup) ?visits)
          (Some \<lparr>ch_identity = \<lparr>id_subject = ''s1'', id_name = ''Ann'', id_role = ''admin''\<rparr>, ch_token = ''r1'',
             ch_expires = 100 + 15 * minute\<rparr>)"
    using session_implements_token_chain [OF calm.calm_database_axioms tag_cipher_ok example_setup_built _ _ _ run,
        of ?page ?visits] code example_extract
    by (auto simp: example_oidc_config_def example_key_def mem_calm_def mem_empty_def nonce_size_def example_page_def
        cookie_value_def example_visit_def example_nonce_def)
  moreover have "refresher_refresh example_library (su_refresher example_setup) ''r1''
      = Inr (\<lparr>id_subject = ''s1'', id_name = ''Ann'', id_role = ''viewer''\<rparr>, ''r2'')"
    "refresher_refresh example_library (su_refresher example_setup) ''r2'' = Inl (ExchangeFailed ''rejected'')"
    using example_extract by (simp_all add: refresher_refresh_def keycloak_refresh_def example_library_def)
  ultimately have "browse mem_database id tag_cipher example_key ?page (map (visit_stamp example_setup) ?visits) d
      = [Inr \<lparr>id_subject = ''s1'', id_name = ''Ann'', id_role = ''admin''\<rparr>,
         Inr \<lparr>id_subject = ''s1'', id_name = ''Ann'', id_role = ''viewer''\<rparr>,
         Inl (RefreshFailed (ExchangeFailed ''rejected'')), Inl NoSuchSession]"
    by (simp add: visit_stamp_def example_visit_def duration_defs example_setup_def)
  with run show ?thesis by (auto simp: example_nonce_def)
qed

end
