(* ===== verification/Rest_Api.thy ===== *)
theory Rest_Api
  imports Human_Auth Auth History_Repo Json
begin

section \<open>The REST API of the history UI (internal/restapi)\<close>

text \<open>
  NewHandler with its routes, and one definition per handler of agents.go, history.go and
  me.go. A handler answers with an \<open>http_reply\<close> whose body is the JSON text that
  encoding/json writes for the response struct, with the names and omissions of its tags:
  the hash of a credential is never part of it. The router is a library (chi): which route
  a method and a path select, and the value of \<open>{id}\<close>, is the argument \<open>chi\<close>. Decoding the
  body of a request and rendering an instant are arguments, as are the clock, the
  randomness and the identifiers.
\<close>

subsection \<open>Replies (json.go)\<close>

definition json_reply :: "int \<Rightarrow> json \<Rightarrow> http_reply" where
  "json_reply status v = \<lparr>hr_status = status, hr_headers = [(''Content-Type'', ''application/json'')],
     hr_cookies = [], hr_body = marshal v @ [CHR 0x0A]\<rparr>"

definition no_content :: http_reply where
  "no_content = \<lparr>hr_status = 204, hr_headers = [], hr_cookies = [], hr_body = []\<rparr>"

definition error_reply :: "int \<Rightarrow> string \<Rightarrow> http_reply" where
  "error_reply status msg =
     (if 500 \<le> status then json_reply status (JObj [(''error'', JStr ''internal error'')])
      else json_reply status (JObj [(''error'', JStr msg)]))"

fun db_error_text :: "db_error \<Rightarrow> string" where
  "db_error_text RecordNotFound = ''record not found''"
| "db_error_text (DbError e) = e"

fun repo_error_text :: "repo_error \<Rightarrow> string" where
  "repo_error_text ErrInvalidToken = ''invalid or revoked token''"
| "repo_error_text ErrEmptyDisplayName = ''display name must not be empty''"
| "repo_error_text ErrToolCallNotFound = ''tool call not found''"
| "repo_error_text ErrUnknownCursor = ''unknown pagination cursor''"
| "repo_error_text (RandError e) = e"
| "repo_error_text (DbErr e) = db_error_text e"

subsection \<open>Response structs\<close>

fun kind_text :: "actor_kind \<Rightarrow> string" where
  "kind_text AgentKind = ''agent''"
| "kind_text HumanKind = ''human''"

definition actor_fields :: "(time \<Rightarrow> string) \<Rightarrow> actor \<Rightarrow> (string \<times> json) list" where
  "actor_fields show_time a =
     [(''id'', JStr (actor_id a)), (''display_name'', JStr (actor_name a)),
      (''kind'', JStr (kind_text (actor_kind a))), (''created_at'', JStr (show_time (actor_created a)))]"

definition time_field :: "(time \<Rightarrow> string) \<Rightarrow> string \<Rightarrow> time option \<Rightarrow> (string \<times> json) list" where
  "time_field show_time name t = (case t of None \<Rightarrow> [] | Some u \<Rightarrow> [(name, JStr (show_time u))])"

definition credential_json :: "(time \<Rightarrow> string) \<Rightarrow> agent_credential \<Rightarrow> json" where
  "credential_json show_time c = JObj
     ([(''id'', JStr (cred_id c)), (''actor_id'', JStr (cred_actor c)), (''label'', JStr (cred_label c)),
       (''created_at'', JStr (show_time (cred_created c)))]
      @ time_field show_time ''revoked_at'' (cred_revoked c)
      @ time_field show_time ''last_used_at'' (cred_last_used c))"

definition call_json :: "(time \<Rightarrow> string) \<Rightarrow> tool_call \<Rightarrow> json" where
  "call_json show_time c = JObj
     ([(''id'', JStr (call_id c)), (''actor_id'', JStr (call_actor c)), (''tool'', JStr (call_tool c)),
       (''input_json'', JStr (call_input c)), (''is_error'', JBool (call_is_error c)),
       (''duration_ms'', JInt (call_duration_ms c)), (''output_size'', JInt (call_output_size c))]
      @ omit_empty (call_output c = []) (''output_json'', JStr (call_output c))
      @ [(''truncated'', JBool (call_truncated c)), (''called_at'', JStr (show_time (call_called_at c)))])"

text \<open>A Go map is rendered with its keys in order.\<close>

definition names_json :: "string list \<Rightarrow> (string \<Rightarrow> string option) \<Rightarrow> json" where
  "names_json ids names = JObj (map (\<lambda>i. (i, JStr (the (names i)))) (sort (filter (\<lambda>i. names i \<noteq> None) ids)))"

definition agents_json :: "(time \<Rightarrow> string) \<Rightarrow> actor list \<Rightarrow> (string \<Rightarrow> bool) \<Rightarrow> json" where
  "agents_json show_time as active = JArr (map (\<lambda>a.
     JObj (actor_fields show_time a @ [(''has_active_token'', JBool (active (actor_id a)))])) as)"

definition history_json :: "(time \<Rightarrow> string) \<Rightarrow> tool_call list \<Rightarrow> string \<Rightarrow> string list
    \<Rightarrow> (string \<Rightarrow> string option) \<Rightarrow> json" where
  "history_json show_time calls next_cursor ids names = JObj
     ([(''calls'', JArr (map (call_json show_time) calls))]
      @ omit_empty (next_cursor = []) (''next_cursor'', JStr next_cursor)
      @ [(''actors'', names_json ids names)])"

subsection \<open>Agents (agents.go)\<close>

record rest_env =
  re_sha :: "bytes \<Rightarrow> bytes"
  re_rnd :: "string + bytes"
  re_uuid :: string
  re_now :: time
  re_decode :: "string \<Rightarrow> string option"      \<comment> \<open>display_name of a JSON body\<close>
  re_time :: "time \<Rightarrow> string"                 \<comment> \<open>RFC 3339\<close>

definition list_agents_handler :: "'d database \<Rightarrow> rest_env \<Rightarrow> 'd \<Rightarrow> http_reply \<times> 'd" where
  "list_agents_handler db env d =
     (case list_agents db d of
        (Inl e, d1) \<Rightarrow> (error_reply 500 (repo_error_text e), d1)
      | (Inr as, d1) \<Rightarrow>
          (case actors_with_active_token db d1 of
             (Inl e, d2) \<Rightarrow> (error_reply 500 (repo_error_text e), d2)
           | (Inr active, d2) \<Rightarrow> (json_reply 200 (agents_json (re_time env) as active), d2)))"

definition create_agent_handler :: "'d database \<Rightarrow> rest_env \<Rightarrow> http_request \<Rightarrow> 'd \<Rightarrow> http_reply \<times> 'd" where
  "create_agent_handler db env req d =
     (case re_decode env (rq_body req) of
        None \<Rightarrow> (error_reply 400 ''body must be a JSON object with display_name'', d)
      | Some name \<Rightarrow>
          (case create_agent db (re_uuid env) (re_now env) name d of
             (Inl e, d1) \<Rightarrow>
               (error_reply (if e = ErrEmptyDisplayName then 400 else 500) (repo_error_text e), d1)
           | (Inr a, d1) \<Rightarrow> (json_reply 201 (JObj (actor_fields (re_time env) a)), d1)))"

definition delete_agent_handler :: "'d database \<Rightarrow> rest_env \<Rightarrow> string \<Rightarrow> 'd \<Rightarrow> http_reply \<times> 'd" where
  "delete_agent_handler db env i d =
     (case revoke_all_agent_credentials db (re_now env) i d of
        (Some e, d1) \<Rightarrow> (error_reply 500 (db_error_text e), d1)
      | (None, d1) \<Rightarrow> (no_content, d1))"

definition list_agent_tokens_handler :: "'d database \<Rightarrow> rest_env \<Rightarrow> string \<Rightarrow> 'd \<Rightarrow> http_reply \<times> 'd" where
  "list_agent_tokens_handler db env i d =
     (case list_agent_credentials db i d of
        (Inl e, d1) \<Rightarrow> (error_reply 500 (repo_error_text e), d1)
      | (Inr creds, d1) \<Rightarrow> (json_reply 200 (JArr (map (credential_json (re_time env)) creds)), d1))"

definition issue_token_handler :: "'d database \<Rightarrow> rest_env \<Rightarrow> string \<Rightarrow> 'd \<Rightarrow> http_reply \<times> 'd" where
  "issue_token_handler db env i d =
     (case auth_issue db (re_sha env) (re_rnd env) (re_uuid env) (re_now env) i [] d of
        (Inl e, d1) \<Rightarrow> (error_reply 500 (repo_error_text e), d1)
      | (Inr token, d1) \<Rightarrow> (json_reply 201 (JObj [(''token'', JStr token)]), d1))"

definition revoke_token_handler :: "'d database \<Rightarrow> rest_env \<Rightarrow> string \<Rightarrow> 'd \<Rightarrow> http_reply \<times> 'd" where
  "revoke_token_handler db env i d =
     (case revoke_agent_token db (re_now env) i d of
        (Some e, d1) \<Rightarrow> (error_reply 500 (db_error_text e), d1)
      | (None, d1) \<Rightarrow> (no_content, d1))"

subsection \<open>History (history.go, me.go)\<close>

text \<open>strconv.Atoi on a 64-bit machine.\<close>

definition digit_value :: "char \<Rightarrow> nat option" where
  "digit_value c = (if 48 \<le> bv c \<and> bv c \<le> 57 then Some (bv c - 48) else None)"

fun digits_value :: "nat \<Rightarrow> string \<Rightarrow> nat option" where
  "digits_value acc [] = Some acc"
| "digits_value acc (c # cs) =
     (case digit_value c of None \<Rightarrow> None | Some n \<Rightarrow> digits_value (acc * 10 + n) cs)"

definition atoi :: "string \<Rightarrow> int option" where
  "atoi s =
     (let neg = (s \<noteq> [] \<and> hd s = CHR ''-'');
          ds = (if s \<noteq> [] \<and> (hd s = CHR ''-'' \<or> hd s = CHR ''+'') then tl s else s)
      in if ds = [] then None
         else case digits_value 0 ds of
           None \<Rightarrow> None
         | Some n \<Rightarrow>
             let v = (if neg then - int n else int n)
             in if fits64 v then Some v else None)"

definition parse_filter :: "http_request \<Rightarrow> string + history_filter" where
  "parse_filter req =
     (let raw = query_get ''limit'' req; flag = query_get ''is_error'' req
      in if raw \<noteq> [] \<and> atoi raw = None then Inl ''limit must be an integer''
         else if flag \<noteq> [] \<and> flag \<noteq> ''true'' \<and> flag \<noteq> ''false''
         then Inl (''is_error must be '' @ [CHR 0x22] @ ''true'' @ [CHR 0x22] @ '' or '' @ [CHR 0x22] @ ''false'' @ [CHR 0x22])
         else Inr \<lparr>hf_actor = query_get ''actor'' req, hf_tool = query_get ''tool'' req,
                   hf_is_error = (if flag = [] then None else Some (flag = ''true'')),
                   hf_limit = (if raw = [] then 0 else the (atoi raw)),
                   hf_cursor = query_get ''cursor'' req\<rparr>)"

text \<open>The distinct values of a list, each where it occurs first: the loop with the map \<open>seen\<close>.\<close>

fun first_occurrences :: "string list \<Rightarrow> string list \<Rightarrow> string list" where
  "first_occurrences seen [] = []"
| "first_occurrences seen (x # xs) =
     (if x \<in> set seen then first_occurrences seen xs else x # first_occurrences (x # seen) xs)"

definition list_history_handler :: "'d database \<Rightarrow> rest_env \<Rightarrow> http_request \<Rightarrow> 'd \<Rightarrow> http_reply \<times> 'd" where
  "list_history_handler db env req d =
     (case parse_filter req of
        Inl msg \<Rightarrow> (error_reply 400 msg, d)
      | Inr f \<Rightarrow>
          (case list_tool_calls db f d of
             (Inl e, d1) \<Rightarrow> (error_reply (if e = ErrUnknownCursor then 400 else 500) (repo_error_text e), d1)
           | (Inr (calls, next_cursor), d1) \<Rightarrow>
               let ids = first_occurrences [] (map call_actor calls)
               in (case actor_names_by_id db ids d1 of
                     (Inl e, d2) \<Rightarrow> (error_reply 500 (repo_error_text e), d2)
                   | (Inr names, d2) \<Rightarrow>
                       (json_reply 200 (history_json (re_time env) calls next_cursor ids names), d2))))"

definition get_history_entry_handler :: "'d database \<Rightarrow> rest_env \<Rightarrow> string \<Rightarrow> 'd \<Rightarrow> http_reply \<times> 'd" where
  "get_history_entry_handler db env i d =
     (case get_tool_call db i d of
        (Inl e, d1) \<Rightarrow> (error_reply (if e = ErrToolCallNotFound then 404 else 500) (repo_error_text e), d1)
      | (Inr call, d1) \<Rightarrow>
          (case actor_names_by_id db [call_actor call] d1 of
             (Inl e, d2) \<Rightarrow> (error_reply 500 (repo_error_text e), d2)
           | (Inr names, d2) \<Rightarrow>
               (json_reply 200 (JObj [(''call'', call_json (re_time env) call),
                  (''actor'', JStr (case names (call_actor call) of None \<Rightarrow> [] | Some n \<Rightarrow> n))]), d2)))"

definition list_history_tools_handler :: "'d database \<Rightarrow> 'd \<Rightarrow> http_reply \<times> 'd" where
  "list_history_tools_handler db d =
     (case distinct_tools db d of
        (Inl e, d1) \<Rightarrow> (error_reply 500 (repo_error_text e), d1)
      | (Inr tools, d1) \<Rightarrow> (json_reply 200 (JArr (map JStr tools)), d1))"

definition me_handler :: "human option \<Rightarrow> http_reply" where
  "me_handler ctx =
     (case ctx of
        None \<Rightarrow> error_reply 401 ''no authenticated actor''
      | Some hm \<Rightarrow> json_reply 200 (JObj [(''actor_id'', JStr (actor_id (hm_actor hm))),
          (''display_name'', JStr (actor_name (hm_actor hm))), (''role'', JStr (hm_role hm))]))"

subsection \<open>The router (router.go)\<close>

datatype endpoint =
  ListHistory | ListHistoryTools | GetHistoryEntry
| ListAgents | CreateAgent | DeleteAgent | ListAgentTokens | IssueToken
| RevokeToken | Me

text \<open>Method, pattern, whether RequireAdmin wraps the route, and its handler.\<close>

definition rest_routes :: "(string \<times> string \<times> bool \<times> endpoint) list" where
  "rest_routes =
     [(''GET'', ''/tool-calls/'', False, ListHistory),
      (''GET'', ''/tool-calls/tools'', False, ListHistoryTools),
      (''GET'', ''/tool-calls/{id}'', False, GetHistoryEntry),
      (''GET'', ''/actors/'', True, ListAgents),
      (''POST'', ''/actors/'', True, CreateAgent),
      (''DELETE'', ''/actors/{id}'', True, DeleteAgent),
      (''GET'', ''/actors/{id}/credentials'', True, ListAgentTokens),
      (''POST'', ''/actors/{id}/credentials'', True, IssueToken),
      (''DELETE'', ''/credentials/{id}'', True, RevokeToken),
      (''GET'', ''/me'', False, Me)]"

datatype 'r route_match = Matched 'r string | Unrouted http_reply    \<comment> \<open>chi's own 404 or 405\<close>

type_synonym router = "(string \<times> string \<times> bool \<times> endpoint) list \<Rightarrow> string \<Rightarrow> string \<Rightarrow> (bool \<times> endpoint) route_match"

text \<open>What the code relies on: the router answers with a route that was registered for the method, or
  with one of its own two replies.\<close>

definition router_ok :: "router \<Rightarrow> bool" where
  "router_ok chi \<longleftrightarrow> (\<forall>routes m p. case chi routes m p of
       Matched r i \<Rightarrow> \<exists>pat. (m, pat, r) \<in> set routes
     | Unrouted reply \<Rightarrow> hr_status reply \<in> {404, 405})"

definition call_endpoint :: "'d database \<Rightarrow> rest_env \<Rightarrow> endpoint \<Rightarrow> string \<Rightarrow> human option \<Rightarrow> http_request \<Rightarrow> 'd
    \<Rightarrow> http_reply \<times> 'd" where
  "call_endpoint db env e i ctx req d =
     (case e of
        ListHistory \<Rightarrow> list_history_handler db env req d
      | ListHistoryTools \<Rightarrow> list_history_tools_handler db d
      | GetHistoryEntry \<Rightarrow> get_history_entry_handler db env i d
      | ListAgents \<Rightarrow> list_agents_handler db env d
      | CreateAgent \<Rightarrow> create_agent_handler db env req d
      | DeleteAgent \<Rightarrow> delete_agent_handler db env i d
      | ListAgentTokens \<Rightarrow> list_agent_tokens_handler db env i d
      | IssueToken \<Rightarrow> issue_token_handler db env i d
      | RevokeToken \<Rightarrow> revoke_token_handler db env i d
      | Me \<Rightarrow> (me_handler ctx, d))"

text \<open>The subrouter of the agents runs RequireAdmin before it looks for a route of its own.\<close>

definition in_actors :: "string \<Rightarrow> bool" where
  "in_actors p \<longleftrightarrow> p = ''/actors'' \<or> cut_prefix p ''/actors/'' \<noteq> None"

definition collapse :: "http_reply guarded \<times> 'd \<Rightarrow> http_reply \<times> 'd" where
  "collapse x = (case x of (Refused r, d) \<Rightarrow> (r, d) | (Served r, d) \<Rightarrow> (r, d))"

definition rest_dispatch :: "router \<Rightarrow> 'd database \<Rightarrow> rest_env \<Rightarrow> human \<Rightarrow> http_request \<Rightarrow> 'd
    \<Rightarrow> http_reply \<times> 'd" where
  "rest_dispatch chi db env hm req d =
     (case chi rest_routes (rq_method req) (rq_path req) of
        Matched (admin, e) i \<Rightarrow>
          if admin then collapse (require_admin (Some hm) (call_endpoint db env e i (Some hm) req) d)
          else call_endpoint db env e i (Some hm) req d
      | Unrouted reply \<Rightarrow>
          if in_actors (rq_path req) then collapse (require_admin (Some hm) (\<lambda>d. (reply, d)) d)
          else (reply, d))"

definition rest_handle :: "router \<Rightarrow> 'd database \<Rightarrow> (http_request \<Rightarrow> 'd \<Rightarrow> ('e + identity) \<times> 'd) \<Rightarrow> rest_env
    \<Rightarrow> string \<Rightarrow> time \<Rightarrow> http_request \<Rightarrow> 'd \<Rightarrow> http_reply \<times> 'd" where
  "rest_handle chi db authenticate env uuid now req d =
     collapse (require_human_auth db authenticate uuid now (rest_dispatch chi db env) req d)"

lemma router_registered: "router_ok chi \<Longrightarrow> chi routes m p = Matched r i \<Longrightarrow> \<exists>pat. (m, pat, r) \<in> set routes"
  unfolding router_ok_def by (drule spec [of _ routes], drule spec [of _ m], drule spec [of _ p]) simp

lemma router_unrouted: "router_ok chi \<Longrightarrow> chi routes m p = Unrouted r \<Longrightarrow> hr_status r \<in> {404, 405}"
  unfolding router_ok_def by (drule spec [of _ routes], drule spec [of _ m], drule spec [of _ p]) simp

subsection \<open>What the handlers do to the tables\<close>

lemma status_replies [simp]: "hr_status (json_reply s v) = s" "hr_status (error_reply s msg) = s"
    "hr_status no_content = 204"
  by (simp_all add: json_reply_def error_reply_def no_content_def)

text \<open>A reply that hides what went wrong inside.\<close>

definition discreet :: "http_reply \<Rightarrow> bool" where
  "discreet r \<longleftrightarrow> (500 \<le> hr_status r \<longrightarrow>
     hr_body r = marshal (JObj [(''error'', JStr ''internal error'')]) @ [CHR 0x0A]
     \<or> hr_body r = ''internal error'' @ [CHR 0x0A])"

lemma discreet_replies [simp]:
  "discreet (error_reply s msg)" "s < 500 \<Longrightarrow> discreet (json_reply s v)" "discreet no_content"
  "discreet (http_found cs req url)" "s < 500 \<Longrightarrow> discreet (http_error h msg s)"
  "discreet (http_error [] ''internal error'' 500)"
  by (auto simp: discreet_def error_reply_def json_reply_def no_content_def http_error_def http_found_def)

lemma endpoint_discreet: "discreet (fst (call_endpoint db env e i ctx req d))"
  by (cases e) (auto simp: call_endpoint_def list_history_handler_def list_history_tools_handler_def
      get_history_entry_handler_def list_agents_handler_def create_agent_handler_def delete_agent_handler_def
      list_agent_tokens_handler_def issue_token_handler_def revoke_token_handler_def me_handler_def Let_def
      split: prod.splits sum.splits option.splits)

definition open_endpoint :: "endpoint \<Rightarrow> bool" where
  "open_endpoint e \<longleftrightarrow> e \<in> {ListHistory, ListHistoryTools, GetHistoryEntry, Me}"

lemma rest_routes_admin: "(m, pat, admin, e) \<in> set rest_routes \<Longrightarrow> admin \<longleftrightarrow> \<not> open_endpoint e"
  by (auto simp: rest_routes_def open_endpoint_def)

text \<open>What an endpoint may do to the tables: nothing, or one write of its own.\<close>

definition endpoint_change :: "rest_env \<Rightarrow> endpoint \<Rightarrow> tables \<Rightarrow> tables \<Rightarrow> bool" where
  "endpoint_change env e c c' \<longleftrightarrow> c' = c
     \<or> (e = CreateAgent \<and> (\<exists>a. actor_kind a = AgentKind \<and> actor_id a = re_uuid env \<and> c' = tb_actors_update (\<lambda>rs. rs @ [a]) c
          \<and> uniq_actors (tb_actors c')))
     \<or> (e = IssueToken \<and> (\<exists>x. cred_revoked x = None \<and> c' = tb_credentials_update (\<lambda>rs. rs @ [x]) c
          \<and> uniq_credentials (tb_credentials c')))
     \<or> (e \<in> {DeleteAgent, RevokeToken} \<and> (\<exists>P. c' = tb_credentials_update
          (map (\<lambda>x. if P x then x\<lparr>cred_revoked := Some (re_now env)\<rparr> else x)) c))"

context sql_database begin

lemma history_keeps:
  "find_cursor db cur d = (r0, d') \<Longrightarrow> content d' = content d"
  "list_tool_calls db f d = (r1, d') \<Longrightarrow> content d' = content d"
  "get_tool_call db i d = (r2, d') \<Longrightarrow> content d' = content d"
  "distinct_tools db d = (r3, d') \<Longrightarrow> content d' = content d"
proof -
  show c: "find_cursor db cur d = (r0, d') \<Longrightarrow> content d' = content d" for cur d r0 d'
    using calls.first_found calls.first_missing
    by (auto simp: find_cursor_def split: prod.splits sum.splits if_splits)
  show "list_tool_calls db f d = (r1, d') \<Longrightarrow> content d' = content d"
    using c calls.find_keeps
    by (auto simp: list_tool_calls_def Let_def split: prod.splits sum.splits)
  show "get_tool_call db i d = (r2, d') \<Longrightarrow> content d' = content d"
    using calls.first_found calls.first_missing by (auto simp: get_tool_call_def split: prod.splits sum.splits)
  show "distinct_tools db d = (r3, d') \<Longrightarrow> content d' = content d"
    using calls.pluck_keeps by (auto simp: distinct_tools_def split: prod.splits sum.splits)
qed

lemma list_history_keeps: "list_history_handler db env req d = (reply, d') \<Longrightarrow> content d' = content d"
  by (auto simp: list_history_handler_def Let_def split: prod.splits sum.splits
      dest!: history_keeps(2) lists_keep(3))

lemma history_entry_keeps: "get_history_entry_handler db env i d = (reply, d') \<Longrightarrow> content d' = content d"
  by (auto simp: get_history_entry_handler_def split: prod.splits sum.splits
      dest!: history_keeps(3) lists_keep(3))

lemma history_tools_keeps: "list_history_tools_handler db d = (reply, d') \<Longrightarrow> content d' = content d"
  by (auto simp: list_history_tools_handler_def split: prod.splits sum.splits dest!: history_keeps(4))

lemma open_endpoint_keeps:
  assumes "open_endpoint e" "call_endpoint db env e i ctx req d = (reply, d')"
  shows "content d' = content d"
  using assms list_history_keeps history_entry_keeps history_tools_keeps
  by (auto simp: open_endpoint_def call_endpoint_def)

lemma endpoint_effect:
  assumes "call_endpoint db env e i ctx req d = (reply, d')"
  shows "endpoint_change env e (content d) (content d')"
proof (cases "open_endpoint e")
  case True
  with open_endpoint_keeps assms show ?thesis by (metis endpoint_change_def)
next
  case False
  show ?thesis
  proof (cases e)
    case ListAgents
    with assms lists_keep(1,4) show ?thesis
      by (fastforce simp: call_endpoint_def list_agents_handler_def endpoint_change_def split: prod.splits sum.splits)
  next
    case ListAgentTokens
    with assms lists_keep(2) show ?thesis
      by (fastforce simp: call_endpoint_def list_agent_tokens_handler_def endpoint_change_def split: prod.splits sum.splits)
  next
    case CreateAgent
    with assms show ?thesis
      by (auto simp: call_endpoint_def create_agent_handler_def endpoint_change_def
          split: option.splits prod.splits sum.splits dest!: create_agent_effect)
  next
    case DeleteAgent
    with assms show ?thesis
      by (auto simp: call_endpoint_def delete_agent_handler_def endpoint_change_def
          split: option.splits prod.splits dest!: revoke_all_effect)
  next
    case RevokeToken
    with assms show ?thesis
      by (auto simp: call_endpoint_def revoke_token_handler_def endpoint_change_def
          split: option.splits prod.splits dest!: revoke_agent_token_effect)
  next
    case IssueToken
    obtain r d2 where t: "issue_agent_token db (re_sha env) (re_rnd env) (re_uuid env) (re_now env) i d = (r, d2)"
      by fastforce
    with assms IssueToken have d': "d' = d2"
      by (auto simp: call_endpoint_def issue_token_handler_def auth_issue_def split: sum.splits)
    show ?thesis
    proof (cases r)
      case (Inl x)
      with issue_agent_token_effect [OF t] d' show ?thesis by (simp add: endpoint_change_def)
    next
      case (Inr token)
      with issue_agent_token_effect [OF t] obtain cred where
        "content d' = tb_credentials_update (\<lambda>rs. rs @ [cred]) (content d)" "cred_revoked cred = None"
        "uniq_credentials (tb_credentials (content d) @ [cred])" by (auto simp: d')
      then have "\<exists>x. cred_revoked x = None \<and> content d' = tb_credentials_update (\<lambda>rs. rs @ [x]) (content d)
          \<and> uniq_credentials (tb_credentials (content d'))" by (intro exI [of _ cred]) simp
      with IssueToken show ?thesis unfolding endpoint_change_def by blast
    qed
  qed (use False in \<open>simp_all add: open_endpoint_def\<close>)
qed

lemma endpoint_keeps_calls:
  assumes "call_endpoint db env e i ctx req d = (reply, d')" shows "tb_calls (content d') = tb_calls (content d)"
  using endpoint_effect [OF assms] by (auto simp: endpoint_change_def)

lemma rest_dispatch_cases:
  assumes "router_ok chi" "rest_dispatch chi db env hm req d = (reply, d')"
  obtains (refused) "content d' = content d" "hr_status reply \<in> {403, 404, 405}" "discreet reply"
      "hr_status reply = 403 \<or> (\<exists>r. chi rest_routes (rq_method req) (rq_path req) = Unrouted r)"
  | (called) admin e i where "chi rest_routes (rq_method req) (rq_path req) = Matched (admin, e) i"
      "open_endpoint e \<or> hm_role hm = ''admin''" "call_endpoint db env e i (Some hm) req d = (reply, d')"
proof (cases "chi rest_routes (rq_method req) (rq_path req)")
  case (Matched r i)
  obtain admin e where r: "r = (admin, e)" by fastforce
  have adm: "admin \<longleftrightarrow> \<not> open_endpoint e"
    using router_registered [OF assms(1) Matched] rest_routes_admin r by blast
  show thesis
  proof (cases "open_endpoint e")
    case True
    with assms(2) Matched r adm have "call_endpoint db env e i (Some hm) req d = (reply, d')"
      by (simp add: rest_dispatch_def)
    with True Matched r called show thesis by simp
  next
    case False
    with assms(2) Matched r adm
    have "collapse (require_admin (Some hm) (call_endpoint db env e i (Some hm) req) d) = (reply, d')"
      by (simp add: rest_dispatch_def)
    then have "hm_role hm = ''admin'' \<and> call_endpoint db env e i (Some hm) req d = (reply, d')
        \<or> reply = http_error [] ''forbidden'' 403 \<and> d' = d"
      by (auto simp: collapse_def require_admin_def split: if_splits prod.splits)
    with False Matched r called refused show thesis by auto
  qed
next
  case (Unrouted r)
  then have "hr_status r \<in> {404, 405}"
    by (rule router_unrouted [OF assms(1)])
  moreover have "d' = d" "reply = r \<or> reply = http_error [] ''forbidden'' 403"
    using assms(2) Unrouted
    by (auto simp: rest_dispatch_def collapse_def require_admin_def split: if_splits)
  ultimately show thesis using Unrouted by (intro refused) (auto simp: discreet_def http_error_def)
qed

end

text \<open>An invariant of the database that the provider, the registration of humans and the endpoint of
  the request keep is kept by the request.\<close>

lemma rest_handle_keeps:
  assumes "\<And>res d'. authenticate req d = (res, d') \<Longrightarrow> I d'"
    "\<And>idn d1 res d2. authenticate req d = (Inr idn, d1) \<Longrightarrow> I d1
       \<Longrightarrow> get_or_create_human_actor db uuid now (id_subject idn) (id_name idn) (id_role idn) d1 = (res, d2) \<Longrightarrow> I d2"
    "\<And>admin e i ctx d1 reply d2. chi rest_routes (rq_method req) (rq_path req) = Matched (admin, e) i \<Longrightarrow> I d1
       \<Longrightarrow> call_endpoint db env e i ctx req d1 = (reply, d2) \<Longrightarrow> I d2"
    "rest_handle chi db authenticate env uuid now req d = (reply, d')"
  shows "I d'"
proof -
  have dispatch: "I d2" if "rest_dispatch chi db env hm req d1 = (r, d2)" "I d1" for hm d1 r d2
    using that assms(3) [of _ _ _ d1 "Some hm"]
    by (auto simp: rest_dispatch_def require_admin_def collapse_def
        split: route_match.splits prod.splits guarded.splits if_splits)
  obtain res d1 where a: "authenticate req d = (res, d1)" by fastforce
  show ?thesis
  proof (cases res)
    case (Inl e)
    with a assms(1,4) show ?thesis by (auto simp: rest_handle_def require_human_auth_def collapse_def)
  next
    case (Inr idn)
    obtain res' d2 where g: "get_or_create_human_actor db uuid now (id_subject idn) (id_name idn) (id_role idn) d1
        = (res', d2)" by fastforce
    have I2: "I d2" using assms(2) [OF a [unfolded Inr] assms(1) [OF a] g] .
    with a g Inr assms(4) show ?thesis
      by (auto simp: rest_handle_def require_human_auth_def collapse_def split: sum.splits prod.splits dest: dispatch)
  qed
qed

text \<open>A request to the API: refused before the router, refused by it, or handed to one handler.\<close>

lemma rest_handle_cases:
  assumes "human_provider content authenticate good" "sql_database content db" "router_ok chi"
    "linked (content d)" "good (tb_sessions (content d))"
    "rest_handle chi db authenticate env uuid now req d = (reply, d')"
  obtains (turned_away) "hr_status reply \<in> {302, 401, 403, 404, 405, 500}" "discreet reply"
      "tb_credentials (content d') = tb_credentials (content d)" "tb_calls (content d') = tb_calls (content d)"
      "agents (content d') = agents (content d)"
      "\<forall>r i. chi rest_routes (rq_method req) (rq_path req) = Matched r i \<longrightarrow> hr_status reply \<notin> {404, 405}"
  | (called) idn d1 a d2 admin e i where "authenticate req d = (Inr idn, d1)"
      "chi rest_routes (rq_method req) (rq_path req) = Matched (admin, e) i"
      "open_endpoint e \<or> id_role idn = ''admin''"
      "call_endpoint db env e i (Some \<lparr>hm_actor = a, hm_role = id_role idn\<rparr>) req d2 = (reply, d')"
      "tb_credentials (content d2) = tb_credentials (content d)" "tb_calls (content d2) = tb_calls (content d)"
      "agents (content d2) = agents (content d)"
      "human_of (id_subject idn) (id_role idn) (content d2) a"
proof -
  obtain g d0 where r: "require_human_auth db authenticate uuid now (rest_dispatch chi db env) req d = (g, d0)" by fastforce
  show thesis
  proof (cases rule: human_provider.require_human_auth_cases [OF assms(1,2) r assms(4,5), case_names refused served])
    case (refused reply')
    with r assms(6) have "reply = reply'" "d' = d0" by (simp_all add: rest_handle_def collapse_def)
    moreover have "discreet reply'"
      using r refused(1) by (auto simp: require_human_auth_def split: prod.splits sum.splits if_splits)
    ultimately show thesis using refused agents_def by (intro turned_away) auto
  next
    case (served idn a d1 d2 r')
    with r assms(6) have d': "reply = r'" "d' = d0" by (simp_all add: rest_handle_def collapse_def)
    show thesis
    proof (cases rule: sql_database.rest_dispatch_cases
        [OF assms(2,3) served(10) [folded d'], case_names refused called])
      case refused
      then show thesis
        using served(7-9) by (intro turned_away) auto
    next
      case (called admin e i)
      with served show thesis by (intro that(2)) (auto simp: d')
    qed
  qed
qed

subsection \<open>The page of history and its names\<close>

lemma first_occurrences_set: "set (first_occurrences seen xs) = set xs - set seen"
  by (induction xs arbitrary: seen) auto

lemma first_occurrences_distinct: "distinct (first_occurrences seen xs)"
  by (induction xs arbitrary: seen) (auto simp: first_occurrences_set)

lemma names_fold:
  assumes "distinct (map actor_id as)" "a \<in> set as"
  shows "foldl (\<lambda>names a. names(actor_id a \<mapsto> actor_name a)) m as (actor_id a) = Some (actor_name a)"
proof -
  have other: "foldl (\<lambda>names a. names(actor_id a \<mapsto> actor_name a)) m as i = m i" if "i \<notin> actor_id ` set as" for m i as
    using that by (induction as arbitrary: m) auto
  show ?thesis using assms by (induction as arbitrary: m) (auto simp: other)
qed

context sql_database begin

lemma actor_names_effect:
  assumes "actor_names_by_id db ids d = (Inr names, d')" "uniq_actors (tb_actors (content d))"
    "a \<in> set (tb_actors (content d))" "actor_id a \<in> set ids"
  shows "names (actor_id a) = Some (actor_name a)"
proof -
  have weak: "strict_weak (\<lambda>_ _ :: actor. False)" by (simp add: strict_weak_def)
  let ?q = "\<lparr>q_where = (\<lambda>a. actor_id a \<in> set ids), q_before = (\<lambda>_ _. False), q_limit = None\<rparr>"
  have ne: "ids \<noteq> []" using assms(4) by auto
  obtain as where q: "sql_find (db_actors db) ?q d = (Inr as, d')"
    and names: "names = foldl (\<lambda>names a. names(actor_id a \<mapsto> actor_name a)) Map.empty as"
    using assms(1) ne by (auto simp: actor_names_by_id_def split: prod.splits sum.splits)
  have ms: "mset as = mset (filter (\<lambda>a. actor_id a \<in> set ids) (tb_actors (content d)))"
    using actors.find_rows [OF q] weak by (auto simp: answers_def limit_to_def)
  then have "mset (map actor_id as) = mset (map actor_id (filter (\<lambda>a. actor_id a \<in> set ids) (tb_actors (content d))))"
    by simp
  then have "distinct (map actor_id as)"
    using assms(2) mset_eq_imp_distinct_iff by (fastforce simp: uniq_actors_def distinct_map_filter)
  moreover have "a \<in> set as" using ms assms(3,4) by (metis (mono_tags, lifting) mem_Collect_eq set_filter set_mset_mset)
  ultimately show ?thesis by (simp add: names names_fold)
qed

end

text \<open>On a calm database a call in the history is found, with the name of its actor.\<close>

lemma history_entry_calm:
  assumes "calm_database content db calm" "calm d" "x \<in> set (tb_calls (content d))" "uniq_calls (tb_calls (content d))"
    "a \<in> set (tb_actors (content d))" "actor_id a = call_actor x" "uniq_actors (tb_actors (content d))"
  shows "fst (get_history_entry_handler db env (call_id x) d)
    = json_reply 200 (JObj [(''call'', call_json (re_time env) x), (''actor'', JStr (actor_name a))])"
proof -
  have sql: "sql_database content db" using assms(1) by (rule calm_database.axioms(1))
  have calls: "calm_table content tb_calls tb_calls_update uniq_calls (db_calls db) calm"
    using assms(1) by (rule calm_database.axioms(4))
  obtain r d1 where f: "sql_first (db_calls db) (\<lambda>c. call_id c = call_id x) d = (r, d1)" by fastforce
  obtain y where y: "calm d1" "content d1 = content d" "r = Inr y" "y \<in> set (tb_calls (content d))" "call_id y = call_id x"
    using calm_table.found_when_calm [OF calls assms(2,3) _ f] by auto
  then have "y = x" using assms(3,4) distinct_map_eq [of call_id "tb_calls (content d)" x y] by (simp add: uniq_calls_def)
  with f y(3) have g: "get_tool_call db (call_id x) d = (Inr x, d1)" by (simp add: get_tool_call_def)
  obtain r2 d2 where n: "actor_names_by_id db [call_actor x] d1 = (r2, d2)" by fastforce
  then obtain names where names: "r2 = Inr names"
    using calm_database.actor_names_calm [OF assms(1) y(1)] by blast
  have "names (actor_id a) = Some (actor_name a)"
    using sql_database.actor_names_effect [OF sql n [unfolded names]] assms(5-7) y(2) by simp
  with g n names assms(6) show ?thesis by (simp add: get_history_entry_handler_def)
qed

subsection \<open>An instance of the router\<close>

text \<open>The first registered route of the method whose pattern matches segment by segment.\<close>

fun segments :: "string \<Rightarrow> string list" where
  "segments [] = [[]]"
| "segments (c # cs) =
     (if c = CHR ''/'' then [] # segments cs
      else case segments cs of [] \<Rightarrow> [[c]] | x # xs \<Rightarrow> (c # x) # xs)"

fun match_pattern :: "string list \<Rightarrow> string list \<Rightarrow> string option" where
  "match_pattern [] [] = Some []"
| "match_pattern (p # ps) (x # xs) =
     (if p = ''{id}'' then (if x = [] then None else map_option (\<lambda>_. x) (match_pattern ps xs))
      else if p = x then match_pattern ps xs else None)"
| "match_pattern _ _ = None"

definition segment_router :: router where
  "segment_router routes m p =
     (case filter (\<lambda>(m', pat, r). m' = m \<and> match_pattern (segments pat) (segments p) \<noteq> None) routes of
        [] \<Rightarrow> Unrouted (http_error [] ''404 page not found'' 404)
      | (m', pat, r) # _ \<Rightarrow> Matched r (the (match_pattern (segments pat) (segments p))))"

lemma segment_router_ok: "router_ok segment_router"
proof -
  have "case segment_router routes m p of Matched r i \<Rightarrow> \<exists>pat. (m, pat, r) \<in> set routes
     | Unrouted reply \<Rightarrow> hr_status reply \<in> {404, 405}" for routes m p
  proof (cases "filter (\<lambda>(m', pat, r). m' = m \<and> match_pattern (segments pat) (segments p) \<noteq> None) routes")
    case (Cons x xs)
    obtain m' pat r where x: "x = (m', pat, r)" by (cases x)
    from Cons have "x \<in> set routes" "fst x = m" by (auto simp: filter_eq_Cons_iff)
    with Cons x show ?thesis by (auto simp: segment_router_def)
  qed (simp add: segment_router_def)
  then show ?thesis by (simp add: router_ok_def)
qed

definition fixed_provider :: "identity \<Rightarrow> http_request \<Rightarrow> 'd \<Rightarrow> (string + identity) \<times> 'd" where
  "fixed_provider idn req d = (Inr idn, d)"

lemma fixed_provider_ok: "known_role (id_role idn) \<Longrightarrow> human_provider content (fixed_provider idn) (\<lambda>_. True)"
  by unfold_locales (auto simp: fixed_provider_def)

definition example_rest_env :: rest_env where
  "example_rest_env = \<lparr>re_sha = id, re_rnd = Inr ''R'', re_uuid = ''idR'', re_now = 20,
     re_decode = (\<lambda>b. Some b), re_time = show_int\<rparr>"

definition example_api :: "string \<Rightarrow> string \<Rightarrow> http_request" where
  "example_api m p = \<lparr>rq_method = m, rq_path = p, rq_accept = [], rq_cookies = [], rq_query = [], rq_body = []\<rparr>"

definition example_viewer :: identity where
  "example_viewer = \<lparr>id_subject = ''sub'', id_name = ''Vi'', id_role = ''viewer''\<rparr>"

definition example_admin :: identity where
  "example_admin = \<lparr>id_subject = ''sub'', id_name = ''Ad'', id_role = ''admin''\<rparr>"

lemma example_routes:
  "segment_router rest_routes ''DELETE'' ''/credentials/idT'' = Matched (True, RevokeToken) ''idT''"
  "segment_router rest_routes ''POST'' ''/actors/a1/credentials'' = Matched (True, IssueToken) ''a1''"
  "segment_router rest_routes ''GET'' ''/tool-calls/'' = Matched (False, ListHistory) []"
  by (simp_all add: segment_router_def rest_routes_def)

subsection \<open>The page of history\<close>

text \<open>What GET /tool-calls answers, for any database.\<close>

lemma history_page:
  assumes "sql_database content db" "list_history_handler db env req d = (reply, d')"
    "uniq_calls (tb_calls (content d))" "uniq_actors (tb_actors (content d))"
  shows "content d' = content d
    \<and> (case parse_filter req of
        Inl msg \<Rightarrow> reply = error_reply 400 msg
      | Inr f \<Rightarrow>
          hr_status reply = 500
          \<or> (if hf_cursor f \<noteq> [] \<and> hf_cursor f \<notin> call_id ` set (tb_calls (content d))
             then reply = error_reply 400 (repo_error_text ErrUnknownCursor)
             else (let page = page_of db f (tb_calls (content d));
                       next_cursor = (if blen page = page_limit f then call_id (last page) else [])
                   in \<exists>names. reply = json_reply 200 (history_json (re_time env) page next_cursor
                        (first_occurrences [] (map call_actor page)) names)
                      \<and> (\<forall>a \<in> set (tb_actors (content d)). actor_id a \<in> call_actor ` set page \<longrightarrow>
                           names (actor_id a) = Some (actor_name a)))))"
proof (cases "parse_filter req")
  case (Inl msg)
  with assms(2) show ?thesis by (simp add: list_history_handler_def)
next
  case (Inr f)
  let ?rows = "tb_calls (content d)"
  obtain r1 d1 where l: "list_tool_calls db f d = (r1, d1)" by fastforce
  note out = sql_database.list_tool_calls_outcome [OF assms(1) l assms(3)]
  have same: "content d' = content d" using sql_database.list_history_keeps [OF assms(1,2)] .
  show ?thesis
  proof (cases r1)
    case (Inl e)
    with l Inr assms(2) have "reply = error_reply (if e = ErrUnknownCursor then 400 else 500) (repo_error_text e)"
      by (simp add: list_history_handler_def)
    with Inr Inl same out show ?thesis by auto
  next
    case page: (Inr x)
    define pg where "pg = page_of db f ?rows"
    define nxt where "nxt = (if blen pg = page_limit f then call_id (last pg) else [])"
    have x: "x = (pg, nxt)" and known: "hf_cursor f = [] \<or> hf_cursor f \<in> call_id ` set ?rows"
      using out page by (auto simp: pg_def nxt_def)
    let ?ids = "first_occurrences [] (map call_actor pg)"
    obtain r2 d2 where n: "actor_names_by_id db ?ids d1 = (r2, d2)" by fastforce
    show ?thesis
    proof (cases r2)
      case (Inl e)
      with l Inr page x n assms(2) have "reply = error_reply 500 (repo_error_text e)"
        by (simp add: list_history_handler_def Let_def)
      with Inr same show ?thesis by simp
    next
      case names: (Inr names)
      have "reply = json_reply 200 (history_json (re_time env) pg nxt ?ids names)"
        using assms(2) Inr l page x n names by (simp add: list_history_handler_def Let_def)
      moreover have "names (actor_id a) = Some (actor_name a)"
        if "a \<in> set (tb_actors (content d))" "actor_id a \<in> call_actor ` set pg" for a
        using sql_database.actor_names_effect [OF assms(1) n [unfolded names]] assms(4) that out
        by (simp add: first_occurrences_set)
      ultimately have "let page = page_of db f ?rows; next_cursor = (if blen page = page_limit f then call_id (last page) else [])
          in \<exists>names. reply = json_reply 200 (history_json (re_time env) page next_cursor
               (first_occurrences [] (map call_actor page)) names)
             \<and> (\<forall>a \<in> set (tb_actors (content d)). actor_id a \<in> call_actor ` set page \<longrightarrow> names (actor_id a) = Some (actor_name a))"
        unfolding Let_def pg_def [symmetric] nxt_def [symmetric] by blast
      with Inr same known show ?thesis by auto
    qed
  qed
qed

lemma history_page_calm:
  assumes "calm_database content db calm" "calm d" "list_history_handler db env req d = (reply, d')"
  shows "hr_status reply \<noteq> 500"
proof (cases "parse_filter req")
  case (Inr f)
  obtain r1 d1 where l: "list_tool_calls db f d = (r1, d1)" by fastforce
  note c = calm_database.list_tool_calls_calm [OF assms(1,2) l]
  show ?thesis
  proof (cases r1)
    case (Inl e)
    with c l Inr assms(3) show ?thesis by (auto simp: list_history_handler_def)
  next
    case page: (Inr x)
    obtain calls nxt where x: "x = (calls, nxt)" by fastforce
    obtain r2 d2 where n: "actor_names_by_id db (first_occurrences [] (map call_actor calls)) d1 = (r2, d2)" by fastforce
    with calm_database.actor_names_calm [OF assms(1) conjunct1 [OF c] n] obtain names where "r2 = Inr names" by blast
    with l Inr page x n assms(3) show ?thesis by (auto simp: list_history_handler_def Let_def)
  qed
qed (use assms(3) in \<open>auto simp: list_history_handler_def\<close>)

subsection \<open>Properties\<close>

text \<open>C13: only admins manage agents. Whoever the provider does not identify as an admin, a viewer or
  nobody, changes no agent and no credential by any request, and is answered 302, 401, 403
  or 500 on every route that manages agents, so that it is not even read. No request to
  the API, by anybody, changes the history.\<close>

theorem rest_admin_only:
  assumes "human_provider content authenticate good" "sql_database content db" "router_ok chi"
    "linked (content d)" "good (tb_sessions (content d))"
    "rest_handle chi db authenticate env uuid now req d = (reply, d')"
  shows "tb_calls (content d') = tb_calls (content d)
    \<and> ((\<forall>idn d1. authenticate req d = (Inr idn, d1) \<longrightarrow> id_role idn \<noteq> ''admin'') \<longrightarrow>
        tb_credentials (content d') = tb_credentials (content d) \<and> agents (content d') = agents (content d)
        \<and> (\<forall>b e i. chi rest_routes (rq_method req) (rq_path req) = Matched (b, e) i \<and> \<not> open_endpoint e \<longrightarrow>
             hr_status reply \<in> {302, 401, 403, 500}))"
proof (cases rule: rest_handle_cases [OF assms, case_names turned_away called])
  case turned_away
  then show ?thesis by auto
next
  case (called idn d1 a d2 admin e i)
  have "tb_calls (content d') = tb_calls (content d2)"
    using sql_database.endpoint_keeps_calls [OF assms(2) called(4)] .
  moreover have "content d' = content d2" if "open_endpoint e"
    using sql_database.open_endpoint_keeps [OF assms(2) that called(4)] .
  ultimately show ?thesis using called by (auto simp: agents_def)
qed

theorem rest_admin_only_witness:
  "\<exists>reply d'. rest_handle segment_router mem_database (fixed_provider example_viewer) example_rest_env ''h'' 9
        (example_api ''DELETE'' ''/credentials/idT'') (example_agents [''T'']) = (reply, d')
      \<and> tb_credentials (md_tables d') = tb_credentials (md_tables (example_agents [''T'']))
      \<and> hr_status reply \<in> {302, 401, 403, 500}"
proof -
  let ?req = "example_api ''DELETE'' ''/credentials/idT''" and ?auth = "fixed_provider example_viewer"
  obtain reply d' where run: "rest_handle segment_router mem_database ?auth example_rest_env ''h'' 9 ?req
      (example_agents [''T'']) = (reply, d')" by fastforce
  have ok: "human_provider md_tables ?auth (\<lambda>_. True)"
    by (rule fixed_provider_ok) (simp add: example_viewer_def known_role_def)
  have lk: "linked (md_tables (example_agents [''T'']))"
    by (simp add: linked_def example_agents_defs uniq_defs)
  show ?thesis
    using rest_admin_only [OF ok mem.sql_database_axioms segment_router_ok lk TrueI run] run
    by (auto simp: fixed_provider_def example_viewer_def example_api_def example_routes open_endpoint_def)
qed

text \<open>C37: an internal failure is never described to the client: every reply of the API with a status of
  500 or more has the same fixed body, whatever the error was.\<close>

theorem rest_hides_internal_errors:
  assumes "human_provider content authenticate good" "sql_database content db" "router_ok chi"
    "linked (content d)" "good (tb_sessions (content d))"
    "rest_handle chi db authenticate env uuid now req d = (reply, d')" "500 \<le> hr_status reply"
  shows "hr_body reply = marshal (JObj [(''error'', JStr ''internal error'')]) @ [CHR 0x0A]
    \<or> hr_body reply = ''internal error'' @ [CHR 0x0A]"
proof -
  have "discreet reply"
  proof (cases rule: rest_handle_cases [OF assms(1-6), case_names turned_away called])
    case (called idn d1 a d2 admin e i)
    with endpoint_discreet [of db env e i "Some \<lparr>hm_actor = a, hm_role = id_role idn\<rparr>" req d2] show ?thesis
      by simp
  qed
  with assms(7) show ?thesis by (simp add: discreet_def)
qed

theorem rest_hides_internal_errors_witness:
  "\<exists>reply d'. rest_handle segment_router mem_database (fixed_provider example_viewer) example_rest_env ''h'' 9
        (example_api ''GET'' ''/tool-calls/'') (mem_empty\<lparr>md_faults := [Some ''password=secret'']\<rparr>) = (reply, d')
      \<and> hr_status reply = 500 \<and> hr_body reply \<in> {marshal (JObj [(''error'', JStr ''internal error'')]) @ [CHR 0x0A],
          ''internal error'' @ [CHR 0x0A]}"
proof -
  let ?req = "example_api ''GET'' ''/tool-calls/''" and ?auth = "fixed_provider example_viewer"
  let ?d = "mem_empty\<lparr>md_faults := [Some ''password=secret'']\<rparr>"
  obtain reply d' where run: "rest_handle segment_router mem_database ?auth example_rest_env ''h'' 9 ?req ?d = (reply, d')"
    by fastforce
  have ok: "human_provider md_tables ?auth (\<lambda>_. True)"
    by (rule fixed_provider_ok) (simp add: example_viewer_def known_role_def)
  have lk: "linked (md_tables ?d)" by (simp add: linked_def mem_empty_def uniq_defs)
  have status: "hr_status reply = 500"
    using run by (auto simp: rest_handle_def require_human_auth_def fixed_provider_def get_or_create_human_actor_def
        mem_eval mem_empty_def collapse_def)
  with rest_hides_internal_errors [OF ok mem.sql_database_axioms segment_router_ok lk TrueI run] run show ?thesis
    by auto
qed

text \<open>C36: GET /tool-calls answers with the page it was asked for. Unless a statement fails, which is
  answered with 500, parameters that do not parse and a cursor that names no call of the history
  are answered with 400, and everything else with exactly the next page of the filtered
  history, newest first: without a cursor from its start, with one the rows older than the
  row it names, also when the filter leaves that row out. A full page carries the cursor of
  its last row, and a name comes with every actor on the page that exists. A calm database
  never makes it 500, and nothing is changed.\<close>

theorem rest_history_page:
  assumes "sql_database content db" "list_history_handler db env req d = (reply, d')"
    "uniq_calls (tb_calls (content d))" "uniq_actors (tb_actors (content d))"
  shows "content d' = content d
    \<and> (case parse_filter req of
        Inl msg \<Rightarrow> reply = error_reply 400 msg
      | Inr f \<Rightarrow>
          hr_status reply = 500
          \<or> (if hf_cursor f \<noteq> [] \<and> hf_cursor f \<notin> call_id ` set (tb_calls (content d))
             then reply = error_reply 400 (repo_error_text ErrUnknownCursor)
             else (let page = page_of db f (tb_calls (content d));
                       next_cursor = (if blen page = page_limit f then call_id (last page) else [])
                   in \<exists>names. reply = json_reply 200 (history_json (re_time env) page next_cursor
                        (first_occurrences [] (map call_actor page)) names)
                      \<and> (\<forall>a \<in> set (tb_actors (content d)). actor_id a \<in> call_actor ` set page \<longrightarrow>
                           names (actor_id a) = Some (actor_name a)))))
    \<and> (calm_database content db calm \<and> calm d \<longrightarrow> hr_status reply \<noteq> 500)"
  using history_page [OF assms] history_page_calm [OF _ _ assms(2)] by blast

definition example_page_request :: "string \<Rightarrow> http_request" where
  "example_page_request cursor = (example_api ''GET'' ''/tool-calls/'')\<lparr>rq_query :=
     [(''limit'', ''1''), (''tool'', ''fetch''), (''cursor'', cursor)]\<rparr>"

lemma example_page_filter:
  "parse_filter (example_page_request cursor)
     = Inr \<lparr>hf_actor = [], hf_tool = ''fetch'', hf_is_error = None, hf_limit = 1, hf_cursor = cursor\<rparr>"
  by (simp add: parse_filter_def query_get_def example_page_request_def example_api_def atoi_def digit_value_def fits64_def
      max_int64_def min_int64_def)

theorem rest_history_page_witness:
  "let d = example_history [example_call ''1'' ''fetch'' 5, example_call ''2'' ''search'' 7, example_call ''3'' ''fetch'' 9]
   in fst (list_history_handler mem_database example_rest_env (example_page_request ''9'') d)
        = error_reply 400 (repo_error_text ErrUnknownCursor)
      \<and> (\<exists>names. fst (list_history_handler mem_database example_rest_env (example_page_request ''2'') d)
        = json_reply 200 (history_json show_int [example_call ''1'' ''fetch'' 5] ''1'' [''a1''] names))"
proof -
  define d where "d = example_history [example_call ''1'' ''fetch'' 5, example_call ''2'' ''search'' 7, example_call ''3'' ''fetch'' 9]"
  let ?env = example_rest_env and ?f = "\<lparr>hf_actor = [], hf_tool = ''fetch'', hf_is_error = None, hf_limit = 1, hf_cursor = ''2''\<rparr>"
  have u: "uniq_calls (tb_calls (md_tables d))" "uniq_actors (tb_actors (md_tables d))"
    by (simp_all add: example_history_defs uniq_defs d_def)
  have calm: "calm_database md_tables mem_database mem_calm \<and> mem_calm d"
    by (simp add: calm.calm_database_axioms mem_calm_def d_def example_history_defs)
  obtain bad d1 where bad: "list_history_handler mem_database ?env (example_page_request ''9'') d = (bad, d1)" by fastforce
  obtain good d2 where good: "list_history_handler mem_database ?env (example_page_request ''2'') d = (good, d2)" by fastforce
  have ids: "call_id ` set (tb_calls (md_tables d)) = {''1'', ''2'', ''3''}" by (simp add: d_def example_history_defs)
  have "bad = error_reply 400 (repo_error_text ErrUnknownCursor)"
    using rest_history_page [OF mem.sql_database_axioms bad u, of mem_calm] calm ids
    by (auto simp: example_page_filter)
  moreover have "page_of mem_database ?f (tb_calls (md_tables d)) = [example_call ''1'' ''fetch'' 5]"
    by (simp add: page_of_def history_after_def history_def call_matches_def order_rows_def older_def example_history_defs d_def
        page_limit_def max_history_page_size_def)
  then have "\<exists>names. good = json_reply 200 (history_json show_int [example_call ''1'' ''fetch'' 5] ''1'' [''a1''] names)"
    using rest_history_page [OF mem.sql_database_axioms good u, of mem_calm] calm ids
    by (auto simp: example_page_filter Let_def page_limit_def max_history_page_size_def example_call_def example_rest_env_def)
  ultimately show ?thesis using bad good unfolding Let_def d_def by simp
qed

end
