(* ===== verification/Server.thy ===== *)
theory Server
  imports Prelude
begin

section \<open>The HTTP server around the routes (newServer, shutdown, main, clearWriteDeadline)\<close>

text \<open>
  The settings of the server, the write deadline of a connection and how the /mcp handler
  removes it, the graceful shutdown and the exit code. What net/http does with the settings is
  written as its documentation says: a connection gets its write deadline when the header of a
  request has been read, and a reply that is finished later is cut. The listener and the
  connections themselves are not modelled.
\<close>

subsection \<open>Settings and deadlines\<close>

record http_server =
  sv_addr :: string
  sv_read_header_timeout :: duration
  sv_read_timeout :: duration
  sv_write_timeout :: duration
  sv_idle_timeout :: duration

definition new_server :: "string \<Rightarrow> http_server" where
  "new_server addr = \<lparr>sv_addr = addr, sv_read_header_timeout = 5 * second, sv_read_timeout = 30 * second,
     sv_write_timeout = 60 * second, sv_idle_timeout = 120 * second\<rparr>"

record connection =
  cn_write_deadline :: "time option"

text \<open>The connection of a request whose header was read at an instant.\<close>

definition accepted :: "http_server \<Rightarrow> time \<Rightarrow> connection" where
  "accepted sv now = \<lparr>cn_write_deadline =
     (if sv_write_timeout sv > 0 then Some (now + sv_write_timeout sv) else None)\<rparr>"

definition clear_write_deadline :: "(connection \<Rightarrow> 'r) \<Rightarrow> connection \<Rightarrow> 'r" where
  "clear_write_deadline next_handler cn = next_handler (cn\<lparr>cn_write_deadline := None\<rparr>)"

definition delivered :: "connection \<Rightarrow> time \<Rightarrow> bool" where
  "delivered cn finished \<longleftrightarrow> (case cn_write_deadline cn of None \<Rightarrow> True | Some t \<Rightarrow> finished \<le> t)"

text \<open>A handler behind clearWriteDeadline has all the time it needs, the others sixty seconds: so the
  timeouts of the tools need not fit into WriteTimeout.\<close>

lemma cleared_is_delivered: "clear_write_deadline (\<lambda>cn. delivered cn finished) cn"
  by (simp add: clear_write_deadline_def delivered_def)

lemma accepted_is_cut: "delivered (accepted (new_server addr) now) finished \<longleftrightarrow> finished \<le> now + 60 * second"
  by (simp add: delivered_def accepted_def new_server_def second_def)

subsection \<open>The end of the process\<close>

text \<open>How the connections of a server drain: the error of closing the listeners, and how long it takes
  until no connection is busy, if they ever are not.\<close>

record draining =
  dr_close :: "string option"
  dr_idle :: "duration option"

definition shutdown_server :: "draining \<Rightarrow> string option" where
  "shutdown_server dr =
     (case dr_idle dr of
        None \<Rightarrow> Some ''context deadline exceeded''
      | Some t \<Rightarrow> if t < 5 * second then dr_close dr else Some ''context deadline exceeded'')"

text \<open>What ends the select of serveReady and serveDegradedUntilReady: the context, then the result is that
  of the shutdown, or the end of ListenAndServe.\<close>

datatype server_end = ContextDone draining | ListenEnded string | ServerClosed

fun end_result :: "server_end \<Rightarrow> string option" where
  "end_result (ContextDone dr) = shutdown_server dr"
| "end_result ServerClosed = None"
| "end_result (ListenEnded e) = Some e"

definition main_exit :: "string option \<Rightarrow> nat" where
  "main_exit result = (case result of None \<Rightarrow> 0 | Some e \<Rightarrow> 1)"

lemma main_exit_ok: "main_exit (end_result stop) = 0 \<longleftrightarrow> stop = ServerClosed
    \<or> (\<exists>dr t. stop = ContextDone dr \<and> dr_idle dr = Some t \<and> t < 5 * second \<and> dr_close dr = None)"
  by (cases stop) (auto simp: main_exit_def shutdown_server_def split: option.splits)

end
