(* ===== verification/Startup.thy ===== *)
theory Startup
  imports Oidc_Wiring Fetch Search Rest_Api Server
begin

section \<open>Start-up and readiness (cmd/webtools/main.go, internal/health)\<close>

text \<open>
  The flags with their defaults, buildAppHandler with its checks, the readiness probe, the
  loop that retries to open the database, and the server that starts degraded: its
  goroutines as a step relation whose steps are the statements that the probes and the
  requests can observe. The command-line library, the listener and the signals are not
  modelled; opening the database, discovering the OIDC issuer and the two file-system and
  pool handles are arguments.
\<close>

subsection \<open>Health (health.go)\<close>

datatype ping = PingFails string | PingPool       \<comment> \<open>a fixed failure, or the pool of connections\<close>

record ready_checker =
  rc_ping :: ping
  rc_migrations :: bool
  rc_oidc :: bool

definition livez :: http_reply where
  "livez = \<lparr>hr_status = 200, hr_headers = [], hr_cookies = [], hr_body = []\<rparr>"

text \<open>\<open>pool\<close> is what pinging the pool answers at this moment.\<close>

definition ping_result :: "ping \<Rightarrow> string option \<Rightarrow> string option" where
  "ping_result p pool = (case p of PingFails e \<Rightarrow> Some e | PingPool \<Rightarrow> pool)"

definition failing_checks :: "ready_checker \<Rightarrow> string option \<Rightarrow> string list" where
  "failing_checks rc pool =
     (if rc_migrations rc then [] else [''migrations''])
     @ (if rc_oidc rc then [] else [''oidc_discovery''])
     @ (if ping_result (rc_ping rc) pool = None then [] else [''database''])"

definition readyz :: "ready_checker \<Rightarrow> string option \<Rightarrow> http_reply" where
  "readyz rc pool =
     (let failing = failing_checks rc pool
      in if failing \<noteq> []
         then json_reply 503 (JObj [(''status'', JStr ''not_ready''), (''failing'', JArr (map JStr failing))])
         else json_reply 200 (JObj [(''status'', JStr ''ready'')]))"

lemma readyz_ok: "hr_status (readyz rc pool) = 200 \<longleftrightarrow>
    rc_migrations rc \<and> rc_oidc rc \<and> ping_result (rc_ping rc) pool = None"
  by (simp add: readyz_def failing_checks_def Let_def)

lemma readyz_status: "hr_status (readyz rc pool) \<in> {200, 503}"
  by (simp add: readyz_def Let_def)

subsection \<open>Flags\<close>

record config =
  cf_listen_addr :: string
  cf_db_dsn :: string
  cf_searxng_url :: string
  cf_fetch_timeout :: duration
  cf_fetch_max_bytes :: int
  cf_fetch_cache_max_bytes :: int
  cf_cache_ttl :: duration
  cf_search_timeout :: duration
  cf_history_preview_bytes :: int
  cf_history_retention :: duration
  cf_auth_stub :: bool
  cf_oidc_issuer :: string
  cf_oidc_client_id :: string
  cf_oidc_client_secret :: string
  cf_public_url :: string
  cf_admin_group :: string
  cf_session_encryption_key :: string

text \<open>The values of the flags that are not given.\<close>

definition default_config :: config where
  "default_config = \<lparr>cf_listen_addr = '':8080'', cf_db_dsn = ''data/webtools.db'',
     cf_searxng_url = ''http://localhost:8080'', cf_fetch_timeout = default_fetch_timeout,
     cf_fetch_max_bytes = default_max_bytes, cf_fetch_cache_max_bytes = default_cache_max_bytes,
     cf_cache_ttl = 5 * minute, cf_search_timeout = default_search_timeout,
     cf_history_preview_bytes = 65536, cf_history_retention = 0, cf_auth_stub = False,
     cf_oidc_issuer = [], cf_oidc_client_id = [], cf_oidc_client_secret = [], cf_public_url = [],
     cf_admin_group = ''admins'', cf_session_encryption_key = []\<rparr>"

subsection \<open>Building the routes\<close>

datatype auth_provider = Stub | Oidc oidc_setup

datatype app_route =
  LivezRoute | ReadyzRoute | LoginRoute | CallbackRoute | LogoutRoute | McpMount | ApiMount | StaticMount

text \<open>The static files: from disk for development, otherwise the embedded ones, which \<open>sub\<close> opens.\<close>

datatype static_files = LiveFiles string | EmbeddedFiles

definition frontend_fs :: "bool \<Rightarrow> string option \<Rightarrow> string + static_files" where
  "frontend_fs devel sub =
     (if devel then Inr (LiveFiles ''internal/frontend/static'')
      else case sub of Some e \<Rightarrow> Inl e | None \<Rightarrow> Inr EmbeddedFiles)"

record app =
  app_provider :: auth_provider
  app_static :: static_files
  app_routes :: "(string \<times> app_route) list"
  app_fetcher :: fetcher
  app_searcher :: searcher

datatype build_error =
  MissingOidcFlags
| KeyNotBase64
| KeyWrongSize nat
| OidcFailed string
| StaticFailed string
| PoolFailed string

text \<open>What the surroundings answer while the routes are built.\<close>

record build_env =
  be_discover :: "string \<Rightarrow> string + endpoints"   \<comment> \<open>oidc.NewProvider\<close>
  be_static :: "string option"                  \<comment> \<open>fs.Sub on the embedded files\<close>
  be_pool :: "string option"                    \<comment> \<open>db.DB\<close>

definition choose_provider :: "build_env \<Rightarrow> config \<Rightarrow> build_error + auth_provider" where
  "choose_provider env cf =
     (if cf_auth_stub cf then Inr Stub
      else if cf_oidc_issuer cf = [] \<or> cf_oidc_client_id cf = [] \<or> cf_oidc_client_secret cf = []
              \<or> cf_public_url cf = [] \<or> cf_session_encryption_key cf = []
      then Inl MissingOidcFlags
      else case b64_std_decode (cf_session_encryption_key cf) of
        None \<Rightarrow> Inl KeyNotBase64
      | Some key \<Rightarrow>
          if length key \<noteq> 32 then Inl (KeyWrongSize (length key))
          else case new_oidc_handlers (be_discover env)
              \<lparr>oc_issuer = cf_oidc_issuer cf, oc_client_id = cf_oidc_client_id cf,
               oc_client_secret = cf_oidc_client_secret cf, oc_public_url = cf_public_url cf,
               oc_admin_group = cf_admin_group cf, oc_encryption_key = key\<rparr> of
            Inl e \<Rightarrow> Inl (OidcFailed e)
          | Inr su \<Rightarrow> Inr (Oidc su))"

definition route_table :: "bool \<Rightarrow> (string \<times> app_route) list" where
  "route_table use_oidc =
     [(''/livez'', LivezRoute), (''/readyz'', ReadyzRoute)]
     @ (if use_oidc then [(''/auth/login'', LoginRoute), (''/auth/callback'', CallbackRoute),
          (''/auth/logout'', LogoutRoute)] else [])
     @ [(''/mcp'', McpMount), (''/api'', ApiMount), (''/'', StaticMount)]"

text \<open>The connection as the handler of a mount sees it: mcpserver.Handler clears the write deadline.\<close>

definition route_connection :: "app_route \<Rightarrow> connection \<Rightarrow> connection" where
  "route_connection route cn = (case route of McpMount \<Rightarrow> clear_write_deadline (\<lambda>cn. cn) cn | _ \<Rightarrow> cn)"

lemma only_mcp_outlives_write_timeout:
  "delivered (route_connection route (accepted (new_server addr) now)) finished
     \<longleftrightarrow> route = McpMount \<or> finished \<le> now + 60 * second"
  using cleared_is_delivered [of finished] accepted_is_cut
  by (cases route) (simp_all add: route_connection_def clear_write_deadline_def)

definition build_app_handler :: "build_env \<Rightarrow> config \<Rightarrow> build_error + app \<times> ready_checker" where
  "build_app_handler env cf =
     (case choose_provider env cf of
        Inl e \<Rightarrow> Inl e
      | Inr provider \<Rightarrow>
          case frontend_fs False (be_static env) of
            Inl e \<Rightarrow> Inl (StaticFailed e)
          | Inr files \<Rightarrow>
              case be_pool env of
                Some e \<Rightarrow> Inl (PoolFailed e)
              | None \<Rightarrow>
                  Inr (\<lparr>app_provider = provider, app_static = files, app_routes = route_table (\<not> cf_auth_stub cf),
                        app_fetcher = new_fetcher (cf_fetch_timeout cf) (wrap64 (cf_fetch_max_bytes cf))
                          (wrap64 (cf_fetch_cache_max_bytes cf)) (cf_cache_ttl cf),
                        app_searcher = new_searcher (cf_searxng_url cf) (cf_search_timeout cf) (cf_cache_ttl cf)\<rparr>,
                       \<lparr>rc_ping = PingPool, rc_migrations = True, rc_oidc = True\<rparr>))"

text \<open>The authentication that an app was built with: the two interpretations of the provider
  interface, chosen by the configuration.\<close>

definition app_authenticate :: "'d database \<Rightarrow> (bytes \<Rightarrow> bytes) \<Rightarrow> aead \<Rightarrow> 'e auth_stamp \<Rightarrow> auth_provider
    \<Rightarrow> http_request \<Rightarrow> 'd \<Rightarrow> ('e session_error + identity) \<times> 'd" where
  "app_authenticate db sha g st provider =
     (case provider of
        Stub \<Rightarrow> stub_authenticate
      | Oidc su \<Rightarrow> oidc_authenticate db sha g (su_key su) st)"

lemma choose_provider_ok:
  assumes "choose_provider env cf = Inr provider"
  shows "case provider of Stub \<Rightarrow> cf_auth_stub cf
    | Oidc su \<Rightarrow> \<not> cf_auth_stub cf \<and> length (su_key su) = 32 \<and> kr_admin_group (su_refresher su) = cf_admin_group cf
        \<and> oa_redirect_url (kr_oauth2 (su_refresher su)) = cf_public_url cf @ ''/auth/callback''
        \<and> b64_std_decode (cf_session_encryption_key cf) = Some (su_key su)"
  using assms by (auto simp: choose_provider_def new_oidc_handlers_def split: if_splits option.splits sum.splits)

lemma build_app_tools:
  assumes "build_app_handler env cf = Inr (a, rc)"
  shows "app_fetcher a = new_fetcher (cf_fetch_timeout cf) (wrap64 (cf_fetch_max_bytes cf))
      (wrap64 (cf_fetch_cache_max_bytes cf)) (cf_cache_ttl cf)"
    "app_searcher a = new_searcher (cf_searxng_url cf) (cf_search_timeout cf) (cf_cache_ttl cf)"
  using assms by (auto simp: build_app_handler_def split: sum.splits option.splits)

lemma build_app_static: "build_app_handler env cf = Inr (a, rc) \<Longrightarrow> app_static a = EmbeddedFiles"
  by (auto simp: build_app_handler_def frontend_fs_def split: sum.splits option.splits)

text \<open>No configuration leaves a tool without a timeout: a zero one would be none in net/http.\<close>

lemma built_clients_bounded:
  assumes "build_app_handler env cf = Inr (a, rc)"
  shows "(\<exists>t. client_deadline (f_client (app_fetcher a)) now = Some t \<and> now < t)
    \<and> (\<exists>t. client_deadline (s_client (app_searcher a)) now = Some t \<and> now < t)"
  using build_app_tools [OF assms]
  by (auto simp: client_bounded new_fetcher_def new_searcher_def default_search_timeout_def default_fetch_timeout_def second_def Let_def)

lemma build_app_provider:
  "build_app_handler env cf = Inr (a, rc) \<Longrightarrow> choose_provider env cf = Inr (app_provider a)
     \<and> rc = \<lparr>rc_ping = PingPool, rc_migrations = True, rc_oidc = True\<rparr> \<and> app_routes a = route_table (\<not> cf_auth_stub cf)"
  by (auto simp: build_app_handler_def split: sum.splits option.splits)

lemma app_provider_ok:
  assumes "sql_database content db" "token_refresher (as_refresh st)"
  shows "human_provider content (app_authenticate db sha g st provider) roles_known"
proof (cases provider)
  case Stub
  show ?thesis unfolding Stub app_authenticate_def auth_provider.case
    by unfold_locales (auto simp: stub_authenticate_def known_role_def)
next
  case (Oidc su)
  show ?thesis unfolding Oidc app_authenticate_def auth_provider.case
    by (rule sql_database.oidc_provider [OF assms])
qed

subsection \<open>The ready start\<close>

text \<open>serveReady: the database is open, the routes are built at once, and the process ends with the
  first of the end of its context (and the error of the shutdown, if any) and the end of
  ListenAndServe.\<close>

definition serve_ready :: "build_env \<Rightarrow> config \<Rightarrow> server_end
    \<Rightarrow> build_error + (app \<times> http_server \<times> string option)" where
  "serve_ready env cf stop =
     (case build_app_handler env cf of
        Inl e \<Rightarrow> Inl e
      | Inr (a, rc) \<Rightarrow> Inr (a, new_server (cf_listen_addr cf), end_result stop))"

subsection \<open>Retrying to open the database\<close>

definition first_backoff :: duration where
  "first_backoff = second"

definition max_backoff :: duration where
  "max_backoff = 30 * second"

definition next_backoff :: "duration \<Rightarrow> duration" where
  "next_backoff b = min (b * 2) max_backoff"

text \<open>retryOpenUntilReady from attempt \<open>n\<close> on: \<open>opened n\<close> is what storage.Open answers in that attempt,
  \<open>cancelled n\<close> whether the context ended before it. The result is the database with the
  number of the attempt and the time waited, or no database when the context ended. The
  loop need not end, so it is a partial function.\<close>

partial_function (option) retry_open :: "(nat \<Rightarrow> bool) \<Rightarrow> (nat \<Rightarrow> string + 'db) \<Rightarrow> nat \<Rightarrow> duration \<Rightarrow> duration
    \<Rightarrow> ('db \<times> nat \<times> duration) option option" where
  "retry_open cancelled opened n backoff waited =
     (if cancelled n then Some None
      else case opened n of
        Inr db \<Rightarrow> Some (Some (db, n, waited + backoff))
      | Inl e \<Rightarrow> retry_open cancelled opened (n + 1) (next_backoff backoff) (waited + backoff))"

text \<open>The wait before attempt \<open>n\<close>.\<close>

definition backoff_at :: "nat \<Rightarrow> duration" where
  "backoff_at n = min (2 ^ n * second) max_backoff"

lemma backoff_at_0: "backoff_at 0 = first_backoff"
  by (simp add: backoff_at_def first_backoff_def max_backoff_def duration_defs)

lemma backoff_at_Suc: "next_backoff (backoff_at n) = backoff_at (Suc n)"
  by (simp add: next_backoff_def backoff_at_def max_backoff_def duration_defs min_def)

lemma backoff_at_bounds: "second \<le> backoff_at n" "backoff_at n \<le> 30 * second"
  by (simp_all add: backoff_at_def max_backoff_def duration_defs)

definition total_wait :: "nat \<Rightarrow> duration" where
  "total_wait n = (\<Sum>k\<le>n. backoff_at k)"

lemma total_wait_Suc: "total_wait (Suc n) = total_wait n + backoff_at (Suc n)"
  by (simp add: total_wait_def)

lemma total_wait_bound: "total_wait n \<le> int (Suc n) * (30 * second)"
proof (induction n)
  case (Suc n)
  with backoff_at_bounds(2) [of "Suc n"] show ?case by (simp add: total_wait_Suc algebra_simps)
qed (use backoff_at_bounds(2) [of 0] in \<open>simp add: total_wait_def\<close>)

text \<open>The attempt that ends the loop: the first one that succeeds or finds the context cancelled.\<close>

definition ends_at :: "(nat \<Rightarrow> bool) \<Rightarrow> (nat \<Rightarrow> string + 'db) \<Rightarrow> nat \<Rightarrow> bool" where
  "ends_at cancelled opened n \<longleftrightarrow> cancelled n \<or> (\<exists>db. opened n = Inr db)"

lemma retry_open_reaches:
  assumes "\<forall>k < n. \<not> ends_at cancelled opened k" "m \<le> n" "ends_at cancelled opened n"
    "0 < m \<longrightarrow> waited = total_wait (m - 1)" "m = 0 \<longrightarrow> waited = 0"
  shows "retry_open cancelled opened m (backoff_at m) waited =
    Some (if cancelled n then None else Some (projr (opened n), n, total_wait n))"
  using assms
proof (induction "n - m" arbitrary: m waited)
  case 0
  then have "m = n" by simp
  moreover have "waited + backoff_at n = total_wait n"
    using 0 \<open>m = n\<close> by (cases n) (simp_all add: total_wait_def)
  ultimately show ?case using 0(4)
    by (subst retry_open.simps) (auto simp: ends_at_def split: sum.splits)
next
  case (Suc k)
  then have "m < n" by simp
  then have "\<not> ends_at cancelled opened m" using Suc.prems(1) by blast
  then obtain e where unopened: "\<not> cancelled m" "opened m = Inl e"
    by (cases "opened m") (auto simp: ends_at_def)
  have waited: "waited + backoff_at m = total_wait m"
    using Suc.prems(4,5) by (cases m) (simp_all add: total_wait_def)
  have "retry_open cancelled opened (m + 1) (backoff_at (m + 1)) (waited + backoff_at m)
      = Some (if cancelled n then None else Some (projr (opened n), n, total_wait n))"
    using Suc.hyps(2) Suc.prems(1,3) \<open>m < n\<close> waited by (intro Suc.hyps(1)) simp_all
  with unopened show ?case by (subst retry_open.simps) (simp add: backoff_at_Suc)
qed

lemma retry_open_ends:
  assumes ret: "retry_open cancelled opened n b w = Some r"
  shows "\<exists>k \<ge> n. ends_at cancelled opened k"
proof (rule retry_open.raw_induct [where P = "\<lambda>c op n b w r. \<exists>k \<ge> n. ends_at c op k", OF _ ret])
  fix f c op n b w r
  assume IH: "\<And>c op n b w r. f c op n b w = Some r \<Longrightarrow> \<exists>k \<ge> n. ends_at c op k"
    and eq: "(if c n then Some None
        else case op n of Inr db \<Rightarrow> Some (Some (db, n, w + b))
          | Inl e \<Rightarrow> f c op (n + 1) (next_backoff b) (w + b)) = Some r"
  show "\<exists>k \<ge> n. ends_at c op k"
  proof (cases "ends_at c op n")
    case False
    then obtain e where "\<not> c n" "op n = Inl e" by (cases "op n") (auto simp: ends_at_def)
    with eq have "f c op (n + 1) (next_backoff b) (w + b) = Some r" by simp
    from IH [OF this] show ?thesis by (meson add_leD1)
  qed blast
qed

subsection \<open>The degraded server\<close>

text \<open>The goroutines of serveDegradedUntilReady. The retry goroutine sleeps, delivers the database on
  the channel or has ended; the main goroutine waits, has built the routes, has stored
  them, or has left the loop with its result. \<open>'a\<close> is the handler that was built.\<close>

datatype retry_pc = Sleeping duration | Delivered | RetryDone

datatype 'a main_pc = Waiting | Built 'a ready_checker | Stored ready_checker | Left "string option"

record 'a boot =
  bt_checker :: ready_checker
  bt_handler :: "'a option"
  bt_retry :: retry_pc
  bt_main :: "'a main_pc"

definition boot_start :: "string \<Rightarrow> 'a boot" where
  "boot_start first_err = \<lparr>bt_checker = \<lparr>rc_ping = PingFails first_err, rc_migrations = False, rc_oidc = False\<rparr>,
     bt_handler = None, bt_retry = Sleeping first_backoff, bt_main = Waiting\<rparr>"

text \<open>\<open>build\<close> is buildAppHandler: its outcome when it is called.\<close>

inductive boot_step :: "('a \<times> ready_checker \<Rightarrow> bool) \<Rightarrow> 'a boot \<Rightarrow> 'a boot \<Rightarrow> bool" for builds where
  retry_failed: "bt_retry s = Sleeping b \<Longrightarrow>
    boot_step builds s (s\<lparr>bt_checker := (bt_checker s)\<lparr>rc_ping := PingFails e\<rparr>, bt_retry := Sleeping (next_backoff b)\<rparr>)"
| retry_opened: "bt_retry s = Sleeping b \<Longrightarrow> boot_step builds s (s\<lparr>bt_retry := Delivered\<rparr>)"
| retry_cancelled: "bt_retry s = Sleeping b \<Longrightarrow> boot_step builds s (s\<lparr>bt_retry := RetryDone\<rparr>)"
| build_ok: "bt_main s = Waiting \<Longrightarrow> bt_retry s = Delivered \<Longrightarrow> builds (a, rc) \<Longrightarrow>
    boot_step builds s (s\<lparr>bt_retry := RetryDone, bt_main := Built a rc\<rparr>)"
| build_failed: "bt_main s = Waiting \<Longrightarrow> bt_retry s = Delivered \<Longrightarrow>
    boot_step builds s (s\<lparr>bt_retry := RetryDone, bt_main := Left (Some e)\<rparr>)"
| store_handler: "bt_main s = Built a rc \<Longrightarrow>
    boot_step builds s (s\<lparr>bt_handler := Some a, bt_main := Stored rc\<rparr>)"
| swap_checker: "bt_main s = Stored rc \<Longrightarrow>
    boot_step builds s (s\<lparr>bt_checker := rc, bt_main := Waiting\<rparr>)"
| leave: "bt_main s = Waiting \<Longrightarrow> boot_step builds s (s\<lparr>bt_main := Left (end_result stop)\<rparr>)"

text \<open>What a request gets while the server is in a state: the probes, and the catch-all route.\<close>

definition boot_readyz :: "'a boot \<Rightarrow> string option \<Rightarrow> http_reply" where
  "boot_readyz s pool = readyz (bt_checker s) pool"

definition boot_serve :: "('a \<Rightarrow> http_request \<Rightarrow> http_reply) \<Rightarrow> 'a boot \<Rightarrow> http_request \<Rightarrow> http_reply" where
  "boot_serve handle s req =
     (case bt_handler s of
        Some a \<Rightarrow> handle a req
      | None \<Rightarrow> http_error [] ''starting up: database not yet available'' 503)"

text \<open>The invariant: the probe follows the handler, and once the routes are there the retry
  goroutine is gone, so that it cannot overwrite the checker.\<close>

definition boot_inv :: "('a \<times> ready_checker \<Rightarrow> bool) \<Rightarrow> 'a boot \<Rightarrow> bool" where
  "boot_inv builds s \<longleftrightarrow>
     (rc_migrations (bt_checker s) \<longrightarrow> bt_handler s \<noteq> None)
     \<and> (bt_handler s \<noteq> None \<longrightarrow> bt_retry s = RetryDone \<and> (\<exists>rc. builds (the (bt_handler s), rc)))
     \<and> (case bt_main s of
          Built a rc \<Rightarrow> builds (a, rc) \<and> bt_retry s = RetryDone \<and> bt_handler s = None
        | Stored rc \<Rightarrow> bt_handler s \<noteq> None \<and> builds (the (bt_handler s), rc)
        | _ \<Rightarrow> True)"

lemma boot_start_inv: "boot_inv builds (boot_start e)"
  by (simp add: boot_inv_def boot_start_def)

lemma boot_step_inv:
  assumes "boot_step builds s s'" "boot_inv builds s" shows "boot_inv builds s'"
  using assms
proof (cases rule: boot_step.cases)
  case (store_handler a rc)
  with assms(2) show ?thesis by (auto simp: boot_inv_def)
next
  case (swap_checker rc)
  with assms(2) show ?thesis by (auto simp: boot_inv_def)
qed (use assms(2) in \<open>auto simp: boot_inv_def split: main_pc.splits\<close>)

lemma boot_run_inv: "(boot_step builds)\<^sup>*\<^sup>* s s' \<Longrightarrow> boot_inv builds s \<Longrightarrow> boot_inv builds s'"
  by (induction rule: rtranclp_induct) (auto intro: boot_step_inv)

text \<open>The handler, once stored, stays.\<close>

lemma boot_step_handler:
  assumes "boot_step builds s s'" "boot_inv builds s" "bt_handler s = Some a"
  shows "bt_handler s' = Some a"
  using assms
proof (cases rule: boot_step.cases)
  case (store_handler b rc)
  with assms(2,3) show ?thesis by (simp add: boot_inv_def)
qed simp_all

lemma boot_run_handler:
  assumes "(boot_step builds)\<^sup>*\<^sup>* s s'" "boot_inv builds s" "bt_handler s = Some a"
  shows "bt_handler s' = Some a"
  using assms
proof (induction rule: rtranclp_induct)
  case (step s1 s2)
  with boot_run_inv [OF step(1)] boot_step_handler [OF step(2)] show ?case by blast
qed simp

subsection \<open>Sweeping the history\<close>

text \<open>pruneHistoryUntilDone: a sweep at once and one at every tick, whose clock readings are given,
  until the context ends. A failed sweep is logged and the next one tries again.\<close>

definition history_prune_interval :: duration where
  "history_prune_interval = hour"

fun prune_sweeps :: "'d database \<Rightarrow> duration \<Rightarrow> time list \<Rightarrow> 'd \<Rightarrow> 'd" where
  "prune_sweeps db retention [] d = d"
| "prune_sweeps db retention (now # ticks) d =
     prune_sweeps db retention ticks (snd (prune_tool_calls db now retention d))"

definition prune_history_until_done :: "'d database \<Rightarrow> duration \<Rightarrow> time list \<Rightarrow> 'd \<Rightarrow> 'd" where
  "prune_history_until_done db retention ticks d =
     (if retention \<le> 0 then d else prune_sweeps db retention ticks d)"

lemma prune_keeps_recent:
  assumes "sql_database content db" "retention \<le> max_int64" "c \<in> set (tb_calls (content d))"
    "\<forall>now \<in> set ticks. now - call_called_at c \<le> retention"
  shows "c \<in> set (tb_calls (content (prune_history_until_done db retention ticks d)))"
proof (cases "retention \<le> 0")
  case False
  have "c \<in> set (tb_calls (content (prune_sweeps db retention ticks d)))"
    using assms(3,4)
  proof (induction ticks arbitrary: d)
    case (Cons now ticks)
    obtain res d1 where run: "prune_tool_calls db now retention d = (res, d1)" by fastforce
    from prune_tool_calls_effect [OF assms(1) run assms(2)] Cons.prems
    have "c \<in> set (tb_calls (content d1))" by (cases res) (auto simp: Let_def)
    with Cons run show ?case by simp
  qed simp
  with False show ?thesis by (simp add: prune_history_until_done_def)
qed (use assms(3) in \<open>simp add: prune_history_until_done_def\<close>)

lemma prune_disabled: "retention \<le> 0 \<Longrightarrow> prune_history_until_done db retention ticks d = d"
  by (simp add: prune_history_until_done_def)

subsection \<open>Properties\<close>

text \<open>C35: a configuration that builds is one that authenticates humans. The fixed admin identity is used
  exactly when --auth-stub is set; otherwise the login routes are mounted and the key
  encrypts every refresh token; and in both cases the provider meets the contract on which
  the API rests.\<close>

theorem built_app_authenticates_humans:
  assumes "sql_database content db" "token_refresher (as_refresh st)"
    "build_app_handler env cf = Inr (a, rc)"
  shows "human_provider content (app_authenticate db sha g st (app_provider a)) roles_known
    \<and> (app_provider a = Stub \<longleftrightarrow> cf_auth_stub cf)
    \<and> ((''/auth/login'', LoginRoute) \<in> set (app_routes a) \<longleftrightarrow> \<not> cf_auth_stub cf)
    \<and> (case app_provider a of
         Stub \<Rightarrow> True
       | Oidc su \<Rightarrow> \<exists>enc. encrypt_refresh_token g (Inr nonce) (su_key su) token = Inr enc)"
proof -
  have p: "choose_provider env cf = Inr (app_provider a)" "app_routes a = route_table (\<not> cf_auth_stub cf)"
    using build_app_provider [OF assms(3)] by simp_all
  show ?thesis
    using choose_provider_ok [OF p(1)] app_provider_ok [OF assms(1,2)]
    by (cases "app_provider a") (auto simp: p(2) route_table_def encrypt_cases)
qed

definition example_build_env :: build_env where
  "example_build_env = \<lparr>be_discover = (\<lambda>_. Inr (''https://k/auth'', ''https://k/token'')), be_static = None, be_pool = None\<rparr>"

definition example_config :: config where
  "example_config = default_config\<lparr>cf_oidc_issuer := ''https://k/realms/w'', cf_oidc_client_id := ''webtools'',
     cf_oidc_client_secret := ''s'', cf_public_url := ''https://w'',
     cf_session_encryption_key := b64_encode False example_key\<rparr>"

lemma example_config_builds:
  "\<exists>a. build_app_handler example_build_env example_config
      = Inr (a, \<lparr>rc_ping = PingPool, rc_migrations = True, rc_oidc = True\<rparr>) \<and> app_provider a \<noteq> Stub"
proof -
  have len: "length example_key = 32" by (simp add: example_key_def)
  have "b64_std_decode [] \<noteq> Some example_key" using len by (metis b64_quads.simps(1) b64_std_decode_def filter.simps(1)
      list.size(3) option.inject zero_neq_numeral)
  then have ne: "b64_encode False example_key \<noteq> []" using b64_roundtrip [of example_key] by metis
  show ?thesis
    by (simp add: build_app_handler_def choose_provider_def new_oidc_handlers_def example_config_def default_config_def
        example_build_env_def frontend_fs_def b64_roundtrip len ne)
qed

theorem built_app_authenticates_humans_witness:
  "\<exists>a rc su. build_app_handler example_build_env example_config = Inr (a, rc) \<and> app_provider a = Oidc su
     \<and> (\<exists>enc. encrypt_refresh_token tag_cipher (Inr (replicate 12 CHR ''n'')) (su_key su) ''r1'' = Inr enc)"
proof -
  let ?st = "example_stamp 1 (Inl ''down'')"
  obtain a rc where b: "build_app_handler example_build_env example_config = Inr (a, rc)" "app_provider a \<noteq> Stub"
    using example_config_builds by blast
  have "token_refresher (as_refresh ?st)" by unfold_locales (simp_all add: example_stamp_def)
  from built_app_authenticates_humans [OF mem.sql_database_axioms this b(1), of id tag_cipher "replicate 12 CHR ''n''" "''r1''"] b
  show ?thesis by (cases "app_provider a") auto
qed

text \<open>C24: a degraded server that reports ready serves. In every state that the start-up goroutines can
  reach, a 200 from /readyz means that the database answers, that the routes built from the
  configuration are installed and get every other request, and that they stay installed
  whatever happens next.\<close>

theorem ready_means_serving:
  assumes "(boot_step (\<lambda>(a, rc). build_app_handler env cf = Inr (a, rc)))\<^sup>*\<^sup>* (boot_start e) s"
    "hr_status (boot_readyz s pool) = 200"
    "(boot_step (\<lambda>(a, rc). build_app_handler env cf = Inr (a, rc)))\<^sup>*\<^sup>* s s'"
  shows "pool = None \<and> (\<exists>a rc. build_app_handler env cf = Inr (a, rc)
    \<and> (\<forall>handle req. boot_serve handle s req = handle a req \<and> boot_serve handle s' req = handle a req))"
proof -
  let ?builds = "\<lambda>(a, rc). build_app_handler env cf = Inr (a, rc)"
  have inv: "boot_inv ?builds s" using boot_run_inv [OF assms(1)] boot_start_inv by blast
  have ready: "rc_migrations (bt_checker s)" "ping_result (rc_ping (bt_checker s)) pool = None"
    using assms(2) by (simp_all add: boot_readyz_def readyz_ok)
  then obtain a rc where a: "bt_handler s = Some a" "build_app_handler env cf = Inr (a, rc)"
    using inv by (auto simp: boot_inv_def)
  have "pool = None" using ready(2) by (auto simp: ping_result_def split: ping.splits)
  moreover have "bt_handler s' = Some a" using boot_run_handler [OF assms(3) inv a(1)] .
  ultimately show ?thesis using a by (auto simp: boot_serve_def)
qed

theorem ready_means_serving_witness:
  "let step = boot_step (\<lambda>(a, rc). build_app_handler example_build_env example_config = Inr (a, rc))
   in \<exists>s a. step\<^sup>*\<^sup>* (boot_start ''refused'') s \<and> hr_status (boot_readyz s None) = 200
        \<and> (\<forall>req. boot_serve (\<lambda>a req. livez) s req = livez)"
proof -
  define builds where "builds = (\<lambda>(a, rc). build_app_handler example_build_env example_config = Inr (a, rc))"
  let ?rc = "\<lparr>rc_ping = PingPool, rc_migrations = True, rc_oidc = True\<rparr>"
  obtain a where a: "builds (a, ?rc)" using example_config_builds by (auto simp: builds_def)
  let ?s0 = "boot_start ''refused'' :: app boot"
  let ?s1 = "?s0\<lparr>bt_retry := Delivered\<rparr>"
  let ?s2 = "?s1\<lparr>bt_retry := RetryDone, bt_main := Built a ?rc\<rparr>"
  let ?s3 = "?s2\<lparr>bt_handler := Some a, bt_main := Stored ?rc\<rparr>"
  let ?s4 = "?s3\<lparr>bt_checker := ?rc, bt_main := Waiting\<rparr>"
  have "boot_step builds ?s0 ?s1" by (rule retry_opened [of _ first_backoff]) (simp add: boot_start_def)
  moreover have "boot_step builds ?s1 ?s2" by (rule build_ok) (simp_all add: boot_start_def a)
  moreover have "boot_step builds ?s2 ?s3" by (rule store_handler) simp
  moreover have "boot_step builds ?s3 ?s4" by (rule swap_checker) simp
  ultimately have run: "(boot_step builds)\<^sup>*\<^sup>* ?s0 ?s4"
    by (meson converse_rtranclp_into_rtranclp rtranclp.rtrancl_refl)
  have ready: "hr_status (boot_readyz ?s4 None) = 200" by (simp add: boot_readyz_def readyz_ok ping_result_def)
  from ready_means_serving [OF run [unfolded builds_def] ready rtranclp.rtrancl_refl]
  have "\<forall>req. boot_serve (\<lambda>a req. livez) ?s4 req = livez" by auto
  with run ready show ?thesis unfolding Let_def builds_def by blast
qed

text \<open>C25: the retry loop returns exactly when some attempt to open the database succeeds or finds the
  context ended; it then returns after the first such attempt, with the database it
  opened; every wait is between one second and thirty, so that attempt \<open>n\<close> comes after at
  most 30 (n + 1) seconds.\<close>

theorem retry_returns_after_first_success:
  shows "(retry_open cancelled opened 0 first_backoff 0 \<noteq> None \<longleftrightarrow> (\<exists>n. ends_at cancelled opened n))
    \<and> (\<forall>n. ends_at cancelled opened n \<and> (\<forall>k < n. \<not> ends_at cancelled opened k) \<longrightarrow>
        retry_open cancelled opened 0 first_backoff 0
          = Some (if cancelled n then None else Some (projr (opened n), n, total_wait n))
        \<and> total_wait n \<le> int (Suc n) * (30 * second))
    \<and> second \<le> backoff_at m \<and> backoff_at m \<le> 30 * second"
proof -
  have reach: "retry_open cancelled opened 0 first_backoff 0
      = Some (if cancelled n then None else Some (projr (opened n), n, total_wait n))"
    if "ends_at cancelled opened n" "\<forall>k < n. \<not> ends_at cancelled opened k" for n
    using retry_open_reaches [OF that(2) le0 that(1), of 0] by (simp add: backoff_at_0)
  have "\<exists>n. ends_at cancelled opened n" if "retry_open cancelled opened 0 first_backoff 0 \<noteq> None"
    using that retry_open_ends [of cancelled opened 0 first_backoff 0] by auto
  moreover have "retry_open cancelled opened 0 first_backoff 0 \<noteq> None" if "ends_at cancelled opened n" for n
  proof -
    have "ends_at cancelled opened (LEAST n. ends_at cancelled opened n)" using that by (rule LeastI)
    moreover have "\<forall>k < (LEAST n. ends_at cancelled opened n). \<not> ends_at cancelled opened k"
      using not_less_Least by blast
    ultimately show ?thesis by (metis reach option.distinct(1))
  qed
  ultimately have ends: "retry_open cancelled opened 0 first_backoff 0 \<noteq> None \<longleftrightarrow> (\<exists>n. ends_at cancelled opened n)"
    by blast
  show ?thesis
  proof (intro conjI allI impI)
    fix n assume "ends_at cancelled opened n \<and> (\<forall>k < n. \<not> ends_at cancelled opened k)"
    then show "retry_open cancelled opened 0 first_backoff 0
        = Some (if cancelled n then None else Some (projr (opened n), n, total_wait n))"
      using reach by blast
  qed (rule ends total_wait_bound backoff_at_bounds)+
qed

theorem retry_returns_after_first_success_witness:
  "retry_open (\<lambda>_. False) (\<lambda>n. if n < 6 then Inl ''refused'' else Inr ''db'') 0 first_backoff 0
     = Some (Some (''db'', 6, 91 * second))"
proof -
  let ?opened = "\<lambda>n :: nat. if n < 6 then Inl ''refused'' else (Inr ''db'' :: string + string)"
  have "ends_at (\<lambda>_. False) ?opened 6" "\<forall>k < 6. \<not> ends_at (\<lambda>_. False) ?opened k" by (simp_all add: ends_at_def)
  moreover have "total_wait 6 = 91 * second"
    by (simp add: total_wait_def backoff_at_def max_backoff_def duration_defs numeral_eq_Suc)
  ultimately show ?thesis
    using retry_returns_after_first_success [of "\<lambda>_. False" ?opened 0] by simp
qed

end
