(* ===== verification/App_Run.thy ===== *)
theory App_Run
  imports Mcp Startup
begin

section \<open>The running service: the routes of cmd/webtools/main.go on one state\<close>

text \<open>
  The server that buildAppHandler puts together, as one state machine: its events are the
  requests to /mcp, to /api and to the routes of the login, and the sweeps of the history,
  each handled by the definitions of the theories before. The tables it may write are
  specified apart, as a relation with one rule per kind of write (\<open>table_write\<close>), and
  \<open>permitted\<close> says which kinds an event may use. The refinement lemma shows that every event
  does no more; the invariants of the data are then proved on the rules of the
  specification, once for all requests. Requests are handled one after the other here;
  Service_Conc interleaves them.
\<close>

subsection \<open>The service\<close>

record 'd deployment =
  dp_db :: "'d database"
  dp_sha :: "bytes \<Rightarrow> bytes"
  dp_aead :: aead
  dp_router :: router
  dp_provider :: auth_provider
  dp_retention :: duration

datatype 'e app_event =
  McpRequest mcp_env string tool_request
| ApiRequest "'e auth_stamp" rest_env string time http_request
| CallbackRequest login_stamp http_request
| LogoutRequest http_request
| PruneTick time

text \<open>The service that buildAppHandler builds from the flags, over a database, and its state when it
  starts: the tools have empty caches.\<close>

definition deploy :: "config \<Rightarrow> app \<Rightarrow> 'd database \<Rightarrow> (bytes \<Rightarrow> bytes) \<Rightarrow> aead \<Rightarrow> router \<Rightarrow> 'd deployment" where
  "deploy cf ap db sha g chi = \<lparr>dp_db = db, dp_sha = sha, dp_aead = g, dp_router = chi,
     dp_provider = app_provider ap, dp_retention = cf_history_retention cf\<rparr>"

definition app_start :: "app \<Rightarrow> 'd \<Rightarrow> 'd mcp_state" where
  "app_start ap d = \<lparr>ms_fetcher = app_fetcher ap, ms_searcher = app_searcher ap, ms_db = d\<rparr>"

lemma deploy_simps [simp]:
  "dp_db (deploy cf ap db sha g chi) = db" "dp_sha (deploy cf ap db sha g chi) = sha"
  "dp_router (deploy cf ap db sha g chi) = chi" "dp_provider (deploy cf ap db sha g chi) = app_provider ap"
  "dp_retention (deploy cf ap db sha g chi) = cf_history_retention cf"
  by (simp_all add: deploy_def)

lemma app_start_simps [simp]: "ms_db (app_start ap d) = d" "ms_fetcher (app_start ap d) = app_fetcher ap"
  by (simp_all add: app_start_def)

definition api_handle :: "'d deployment \<Rightarrow> 'e auth_stamp \<Rightarrow> rest_env \<Rightarrow> string \<Rightarrow> time \<Rightarrow> http_request \<Rightarrow> 'd
    \<Rightarrow> http_reply \<times> 'd" where
  "api_handle dp stamp env uuid now req d =
     rest_handle (dp_router dp) (dp_db dp)
       (app_authenticate (dp_db dp) (dp_sha dp) (dp_aead dp) stamp (dp_provider dp)) env uuid now req d"

text \<open>The routes of the login exist only with OIDC.\<close>

fun app_step :: "'d deployment \<Rightarrow> 'e app_event \<Rightarrow> 'd mcp_state \<Rightarrow> 'd mcp_state" where
  "app_step dp (McpRequest env header req) st = snd (mcp_handle (dp_db dp) env header req st)"
| "app_step dp (ApiRequest stamp env uuid now req) st =
     st\<lparr>ms_db := snd (api_handle dp stamp env uuid now req (ms_db st))\<rparr>"
| "app_step dp (CallbackRequest stamp req) st =
     (case dp_provider dp of
        Stub \<Rightarrow> st
      | Oidc su \<Rightarrow> st\<lparr>ms_db := snd (callback_handler (dp_db dp) (dp_sha dp) (dp_aead dp) (su_key su)
                                    stamp req (ms_db st))\<rparr>)"
| "app_step dp (LogoutRequest req) st =
     (case dp_provider dp of
        Stub \<Rightarrow> st
      | Oidc su \<Rightarrow> st\<lparr>ms_db := snd (logout_handler (dp_db dp) (dp_sha dp) req (ms_db st))\<rparr>)"
| "app_step dp (PruneTick now) st =
     st\<lparr>ms_db := prune_history_until_done (dp_db dp) (dp_retention dp) [now] (ms_db st)\<rparr>"

definition app_run :: "'d deployment \<Rightarrow> 'e app_event list \<Rightarrow> 'd mcp_state \<Rightarrow> 'd mcp_state" where
  "app_run dp evs st = foldl (\<lambda>st ev. app_step dp ev st) st evs"

lemma app_run_simps [simp]:
  "app_run dp [] st = st" "app_run dp (ev # evs) st = app_run dp evs (app_step dp ev st)"
  "app_run dp (evs @ evs') st = app_run dp evs' (app_run dp evs st)"
  by (simp_all add: app_run_def)

subsection \<open>The specification of the writes\<close>

datatype write_kind =
  AddAgent string
| RegisterHuman string
| IssueCredential
| TouchCredentials
| RevokeCredentials
| ChangeSessions
| AddCall
| DeleteCalls time

inductive table_write :: "write_kind \<Rightarrow> tables \<Rightarrow> tables \<Rightarrow> bool" where
  agent: "actor_kind a = AgentKind \<Longrightarrow> actor_id a = i \<Longrightarrow> uniq_actors (tb_actors c @ [a]) \<Longrightarrow>
    table_write (AddAgent i) c (tb_actors_update (\<lambda>rs. rs @ [a]) c)"
| human: "linked c' \<Longrightarrow> same_but_humans c c' \<Longrightarrow> set (tb_actors c) \<subseteq> set (tb_actors c') \<Longrightarrow>
    \<forall>a \<in> set (tb_actors c') - set (tb_actors c). actor_id a = i \<Longrightarrow>
    \<forall>subject aid. owns subject c aid \<longrightarrow> owns subject c' aid \<Longrightarrow> table_write (RegisterHuman i) c c'"
| issue: "cred_revoked x = None \<Longrightarrow> uniq_credentials (tb_credentials c @ [x]) \<Longrightarrow>
    table_write IssueCredential c (tb_credentials_update (\<lambda>rs. rs @ [x]) c)"
| touch: "table_write TouchCredentials c
    (tb_credentials_update (map (\<lambda>x. if P x then x\<lparr>cred_last_used := Some now\<rparr> else x)) c)"
| revoke: "table_write RevokeCredentials c
    (tb_credentials_update (map (\<lambda>x. if P x then x\<lparr>cred_revoked := Some now\<rparr> else x)) c)"
| sessions: "uniq_sessions (tb_sessions c) \<longrightarrow> uniq_sessions ss \<Longrightarrow> roles_known (tb_sessions c) \<longrightarrow> roles_known ss \<Longrightarrow>
    table_write ChangeSessions c (c\<lparr>tb_sessions := ss\<rparr>)"
| call: "a \<in> set (tb_actors c) \<Longrightarrow> actor_id a = call_actor x \<Longrightarrow> call_id x \<noteq> [] \<Longrightarrow> uniq_calls (tb_calls c @ [x]) \<Longrightarrow>
    table_write AddCall c (tb_calls_update (\<lambda>rs. rs @ [x]) c)"
| prune: "table_write (DeleteCalls t) c (tb_calls_update (filter (\<lambda>x. \<not> call_called_at x < t)) c)"

inductive_cases table_writeE: "table_write k c c'"

definition table_writes :: "write_kind set \<Rightarrow> tables \<Rightarrow> tables \<Rightarrow> bool" where
  "table_writes K = (\<lambda>c c'. \<exists>k \<in> K. table_write k c c')\<^sup>*\<^sup>*"

lemma writes_none [simp]: "table_writes K c c"
  by (simp add: table_writes_def)

lemma writes_one: "table_write k c c' \<Longrightarrow> k \<in> K \<Longrightarrow> table_writes K c c'"
  by (auto simp: table_writes_def)

lemma writes_trans: "table_writes K c1 c2 \<Longrightarrow> table_writes K c2 c3 \<Longrightarrow> table_writes K c1 c3"
  unfolding table_writes_def by (rule rtranclp_trans)

lemma writes_mono: "table_writes K c c' \<Longrightarrow> K \<subseteq> L \<Longrightarrow> table_writes L c c'"
  unfolding table_writes_def by (erule rtranclp_mono [THEN predicate2D, rotated]) auto

lemma writes_induct [consumes 1, case_names none step]:
  assumes "table_writes K c c'" "Q c"
    "\<And>k c1 c2. k \<in> K \<Longrightarrow> table_write k c1 c2 \<Longrightarrow> Q c1 \<Longrightarrow> Q c2"
  shows "Q c'"
  using assms(1) unfolding table_writes_def by (induction rule: rtranclp_induct) (use assms(2,3) in auto)

text \<open>Which writes an event may do.\<close>

definition route_writes :: "rest_env \<Rightarrow> endpoint \<Rightarrow> write_kind set" where
  "route_writes env e = (case e of
      CreateAgent \<Rightarrow> {AddAgent (re_uuid env)}
    | IssueToken \<Rightarrow> {IssueCredential}
    | DeleteAgent \<Rightarrow> {RevokeCredentials}
    | RevokeToken \<Rightarrow> {RevokeCredentials}
    | _ \<Rightarrow> {})"

fun permitted :: "'d deployment \<Rightarrow> 'e app_event \<Rightarrow> write_kind set" where
  "permitted dp (McpRequest env header req) = {TouchCredentials, AddCall}"
| "permitted dp (ApiRequest stamp env uuid now req) = {ChangeSessions, RegisterHuman uuid}
     \<union> (case dp_router dp rest_routes (rq_method req) (rq_path req) of
          Matched (admin, e) i \<Rightarrow> route_writes env e
        | Unrouted reply \<Rightarrow> {})"
| "permitted dp (CallbackRequest stamp req) = {ChangeSessions}"
| "permitted dp (LogoutRequest req) = {ChangeSessions}"
| "permitted dp (PruneTick now) = (if dp_retention dp \<le> 0 then {} else {DeleteCalls (now - dp_retention dp)})"

text \<open>What an event brings along from outside: one hash function in the whole service, roles that
  Keycloak's answers map to, and identifiers without NUL bytes.\<close>

fun event_ok :: "'d deployment \<Rightarrow> 'e app_event \<Rightarrow> bool" where
  "event_ok dp (McpRequest env header req) \<longleftrightarrow> me_sha env = dp_sha dp \<and> st_uuid (me_stamp env) \<noteq> []"
| "event_ok dp (ApiRequest stamp env uuid now req) \<longleftrightarrow> re_sha env = dp_sha dp \<and> token_refresher (as_refresh stamp)
     \<and> nul \<notin> set uuid \<and> nul \<notin> set (re_uuid env)"
| "event_ok dp (CallbackRequest stamp req) \<longleftrightarrow>
     (\<forall>token idn. ls_extract stamp token = Inr idn \<longrightarrow> known_role (id_role idn))"
| "event_ok dp (LogoutRequest req) \<longleftrightarrow> True"
| "event_ok dp (PruneTick now) \<longleftrightarrow> dp_retention dp \<le> max_int64"

subsection \<open>Every event keeps to the specification\<close>

lemma sessions_write:
  assumes "uniq_sessions (tb_sessions c) \<Longrightarrow> uniq_sessions (f (tb_sessions c))"
    "roles_known (tb_sessions c) \<Longrightarrow> roles_known (f (tb_sessions c))"
  shows "table_writes {ChangeSessions} c (tb_sessions_update f c)"
proof -
  have "table_write ChangeSessions c (c\<lparr>tb_sessions := f (tb_sessions c)\<rparr>)"
    using assms by (intro table_write.sessions) auto
  moreover have "c\<lparr>tb_sessions := f (tb_sessions c)\<rparr> = tb_sessions_update f c" by (cases c) simp
  ultimately show ?thesis by (intro writes_one [of ChangeSessions]) simp_all
qed

lemma uniq_sessions_save: "uniq_sessions ss \<Longrightarrow> uniq_sessions (save_row sess_id s ss)"
  by (auto simp: uniq_sessions_def save_row_keys)

lemma without_session_write: "table_writes {ChangeSessions} c (without_session i c)"
  unfolding without_session_def
  by (rule sessions_write) (auto simp: uniq_filter_rows roles_known_def)

lemma endpoint_writes: "endpoint_change env e c c' \<Longrightarrow> table_writes (route_writes env e) c c'"
  unfolding endpoint_change_def
proof (elim disjE exE conjE)
  fix a assume "e = CreateAgent" "actor_kind a = AgentKind" "actor_id a = re_uuid env"
    "c' = tb_actors_update (\<lambda>rs. rs @ [a]) c" "uniq_actors (tb_actors c')"
  then show ?thesis
    by (intro writes_one [of "AddAgent (re_uuid env)"]) (simp_all add: table_write.agent route_writes_def)
next
  fix x assume "e = IssueToken" "cred_revoked x = None"
    "c' = tb_credentials_update (\<lambda>rs. rs @ [x]) c" "uniq_credentials (tb_credentials c')"
  then show ?thesis
    by (intro writes_one [of IssueCredential]) (simp_all add: table_write.issue route_writes_def)
next
  fix P assume "e \<in> {DeleteAgent, RevokeToken}"
    "c' = tb_credentials_update (map (\<lambda>x. if P x then x\<lparr>cred_revoked := Some (re_now env)\<rparr> else x)) c"
  then show ?thesis
    by (intro writes_one [of RevokeCredentials]) (auto simp: table_write.revoke route_writes_def)
qed simp

context sql_database begin

lemma provider_writes:
  assumes "token_refresher (as_refresh st)" "app_authenticate db sha g st provider req d = (res, d')"
  shows "table_writes {ChangeSessions} (content d) (content d')"
proof (cases provider)
  case Stub
  with assms(2) show ?thesis by (simp add: app_authenticate_def stub_authenticate_def)
next
  case (Oidc su)
  with assms(2) have "oidc_authenticate db sha g (su_key su) st req d = (res, d')"
    by (simp add: app_authenticate_def)
  then show ?thesis
  proof (cases rule: oidc_authenticate_cases)
    case (known s d1)
    from known(4) show ?thesis
    proof (cases rule: session_refresh_cases)
      case (failed e)
      with known(2) without_session_write show ?thesis by auto
    next
      case (renewed token idn token' enc)
      from token_refresher.refresh_role [OF assms(1) renewed(4)] show ?thesis
        unfolding renewed(6) known(2) by (intro sessions_write uniq_sessions_save roles_known_save)
    qed (simp add: known(2))
  qed simp
qed

lemma human_registration_writes:
  assumes "linked (content d)" "get_or_create_human_actor db uuid now subject name role d = (res, d')"
  shows "table_writes {RegisterHuman uuid} (content d) (content d')"
proof -
  have "table_write (RegisterHuman uuid) (content d) (content d')"
    using get_or_create_effect [OF assms(2,1)] get_or_create_keeps [OF assms(2)] get_or_create_actors [OF assms(2)]
    by (intro table_write.human) (auto simp: new_human_def)
  then show ?thesis by (rule writes_one) simp
qed

lemma authentication_writes:
  assumes "authenticate_agent_token db sha now raw d = (res, d')"
  shows "table_writes {TouchCredentials} (content d) (content d')"
  using assms
proof (cases rule: authenticate_effect)
  case (2 cred)
  from 2(2) show ?thesis
  proof
    assume "content d' = content d"
    then show ?thesis by simp
  qed (auto intro!: writes_one table_write.touch)
qed simp

end

lemma reply_row_actor: "reply_row a req reply c \<Longrightarrow> call_actor c = actor_id a"
  by (auto simp: reply_row_def faithful_row_def split: tool_request.splits tool_reply.splits)

lemma mcp_writes:
  assumes "sql_database content db" "st_uuid (me_stamp env) \<noteq> []" "mcp_handle db env header req st = (res, st')"
  shows "table_writes {TouchCredentials, AddCall} (content (ms_db st)) (content (ms_db st'))"
proof (rule mcp_handle_keeps [OF _ _ _ assms(3), where I = "\<lambda>d. table_writes {TouchCredentials, AddCall} (content (ms_db st)) (content d)"])
  have touched: "table_writes {TouchCredentials, AddCall} (content (ms_db st)) (content d1)"
    if "authenticate_agent_token db (me_sha env) (me_auth_now env) token (ms_db st) = (r, d1)" for token r d1
    using sql_database.authentication_writes [OF assms(1) that] by (rule writes_mono) simp
  fix token r d1 assume "authenticate_agent_token db (me_sha env) (me_auth_now env) token (ms_db st) = (r, d1)"
  then show "table_writes {TouchCredentials, AddCall} (content (ms_db st)) (content d1)" by (rule touched)
next
  fix token a d1 reply reqs st1
  assume auth: "authenticate_agent_token db (me_sha env) (me_auth_now env) token (ms_db st) = (Inr a, d1)"
    and run: "dispatch_tool db env (Some a) req (st\<lparr>ms_db := d1\<rparr>) = Some (reply, reqs, st1)"
  have touched: "table_writes {TouchCredentials, AddCall} (content (ms_db st)) (content d1)"
    using sql_database.authentication_writes [OF assms(1) auth] by (rule writes_mono) simp
  have a: "a \<in> set (tb_actors (content d1))"
    using sql_database.authenticate_effect [OF assms(1) auth] by cases auto
  obtain c where c: "reply_row a req reply c" "row_written db content c d1 (ms_db st1)" "call_id c \<noteq> []"
    using dispatch_recorded [OF assms(1) run] assms(2) by auto
  from c(2) have "table_writes {TouchCredentials, AddCall} (content d1) (content (ms_db st1))"
  proof (cases rule: row_written_cases)
    case there
    with a reply_row_actor [OF c(1)] c(3) show ?thesis
      by (intro writes_one [of AddCall]) (auto intro!: table_write.call [of a])
  qed simp
  with touched show "table_writes {TouchCredentials, AddCall} (content (ms_db st)) (content (ms_db st1))"
    by (rule writes_trans)
qed simp

lemma linked_provider:
  assumes "table_writes {ChangeSessions} c c'" "linked c" shows "linked c'"
  using assms by (induction rule: writes_induct) (auto elim!: table_writeE simp: linked_def)

lemma api_writes:
  assumes "sql_database content (dp_db dp)" "event_ok dp (ApiRequest stamp env uuid now req)" "linked (content d)"
    "api_handle dp stamp env uuid now req d = (reply, d')"
  shows "table_writes (permitted dp (ApiRequest stamp env uuid now req)) (content d) (content d')"
proof -
  let ?K = "permitted dp (ApiRequest stamp env uuid now req)"
  let ?I = "\<lambda>d1. table_writes ?K (content d) (content d1)"
  let ?auth = "app_authenticate (dp_db dp) (dp_sha dp) (dp_aead dp) stamp (dp_provider dp)"
  have ref: "token_refresher (as_refresh stamp)" using assms(2) by simp
  show ?thesis
  proof (rule rest_handle_keeps [OF _ _ _ assms(4) [unfolded api_handle_def], where I = ?I])
    show "?I d1" if "?auth req d = (res, d1)" for res d1
      using sql_database.provider_writes [OF assms(1) ref that] by (rule writes_mono) simp
  next
    fix idn d1 res d2
    assume auth: "?auth req d = (Inr idn, d1)" and keep: "?I d1"
      and g: "get_or_create_human_actor (dp_db dp) uuid now (id_subject idn) (id_name idn) (id_role idn) d1 = (res, d2)"
    have "linked (content d1)"
      using linked_provider [OF sql_database.provider_writes [OF assms(1) ref auth] assms(3)] .
    from sql_database.human_registration_writes [OF assms(1) this g] have "table_writes ?K (content d1) (content d2)"
      by (rule writes_mono) simp
    with keep show "?I d2" by (rule writes_trans)
  next
    fix admin e i ctx d1 reply d2
    assume route: "dp_router dp rest_routes (rq_method req) (rq_path req) = Matched (admin, e) i" and keep: "?I d1"
      and run: "call_endpoint (dp_db dp) env e i ctx req d1 = (reply, d2)"
    from endpoint_writes [OF sql_database.endpoint_effect [OF assms(1) run]]
    have "table_writes ?K (content d1) (content d2)" by (rule writes_mono) (auto simp: route)
    with keep show "?I d2" by (rule writes_trans)
  qed
qed

text \<open>One sweep.\<close>

lemma prune_writes:
  assumes "sql_database content db" "retention \<le> max_int64"
  shows "table_writes (if retention \<le> 0 then {} else {DeleteCalls (now - retention)}) (content d)
    (content (prune_history_until_done db retention [now] d))"
proof (cases "retention \<le> 0")
  case False
  obtain res d1 where run: "prune_tool_calls db now retention d = (res, d1)" by fastforce
  have w: "now + wrap64 (- retention) = now - retention"
    using False assms(2) by (simp add: wrap64_def max_int64_def)
  obtain c' where "c' = content d1" "c' = content d \<or> c' = tb_calls_update (filter (\<lambda>x. \<not> call_called_at x < now - retention)) (content d)"
    using run False sql_table.delete_ok [OF sql_database.axioms(5) [OF assms(1)]]
      sql_table.delete_failed [OF sql_database.axioms(5) [OF assms(1)]]
    by (cases res) (fastforce simp: prune_tool_calls_def w)+
  then have "table_writes {DeleteCalls (now - retention)} (content d) (content d1)"
    by (auto intro!: writes_one [OF table_write.prune])
  with False run show ?thesis by (simp add: prune_history_until_done_def)
qed (simp add: prune_history_until_done_def)

lemma app_step_writes:
  assumes "sql_database content (dp_db dp)" "event_ok dp ev" "linked (content (ms_db st))"
  shows "table_writes (permitted dp ev) (content (ms_db st)) (content (ms_db (app_step dp ev st)))"
proof (cases ev)
  case (McpRequest env header req)
  with mcp_writes [OF assms(1) _ prod.collapse [symmetric]] assms(2) show ?thesis by simp
next
  case (ApiRequest stamp env uuid now req)
  with api_writes [OF assms(1) _ assms(3) prod.collapse [symmetric]] assms(2) show ?thesis by simp
next
  case (CallbackRequest stamp req)
  show ?thesis
  proof (cases "dp_provider dp")
    case (Oidc su)
    obtain reply d' where run: "callback_handler (dp_db dp) (dp_sha dp) (dp_aead dp) (su_key su) stamp req (ms_db st)
        = (reply, d')" by fastforce
    have "table_writes {ChangeSessions} (content (ms_db st)) (content d')"
    proof (cases rule: sql_database.callback_cases [OF assms(1) run, case_names refused logged_in])
      case (logged_in token idn enc)
      have "known_role (id_role idn)" using logged_in(3) assms(2) CallbackRequest by simp
      with logged_in(7) show ?thesis
        unfolding logged_in(6) by (intro sessions_write) (auto simp: roles_known_def new_session_def)
    qed simp
    with run Oidc CallbackRequest show ?thesis by simp
  qed (simp add: CallbackRequest)
next
  case (LogoutRequest req)
  show ?thesis
  proof (cases "dp_provider dp")
    case (Oidc su)
    obtain reply d' where run: "logout_handler (dp_db dp) (dp_sha dp) req (ms_db st) = (reply, d')" by fastforce
    from sql_database.logout_effect [OF assms(1) run] without_session_write
    have "table_writes {ChangeSessions} (content (ms_db st)) (content d')" by auto
    with run Oidc LogoutRequest show ?thesis by simp
  qed (simp add: LogoutRequest)
next
  case (PruneTick now)
  with prune_writes [OF assms(1), of "dp_retention dp" now "ms_db st"] assms(2) show ?thesis by simp
qed

subsection \<open>What the writes keep\<close>

text \<open>The data are well formed: the unique indexes hold, every identity is linked to a human actor,
  every session has a known role, and every call in the history has an identifier and belongs
  to an actor.\<close>

definition well_formed :: "tables \<Rightarrow> bool" where
  "well_formed c \<longleftrightarrow> tables_ok c \<and> linked c \<and> roles_known (tb_sessions c)
     \<and> (\<forall>x \<in> set (tb_calls c). call_id x \<noteq> [] \<and> (\<exists>a \<in> set (tb_actors c). actor_id a = call_actor x))"

lemma write_well_formed:
  assumes "table_write k c c'" "well_formed c" shows "well_formed c'"
  using assms
proof (cases rule: table_write.cases)
  case (agent a i)
  with assms(2) show ?thesis by (fastforce simp: well_formed_def tables_ok_def linked_def)
next
  case (human i)
  then have "\<forall>x \<in> set (tb_calls c'). call_id x \<noteq> [] \<and> (\<exists>a \<in> set (tb_actors c'). actor_id a = call_actor x)"
    using assms(2) unfolding well_formed_def same_but_humans_def by (metis subsetD)
  with human assms(2) show ?thesis by (simp add: well_formed_def tables_ok_def linked_def same_but_humans_def)
next
  case (call a x)
  with assms(2) show ?thesis by (auto simp: well_formed_def tables_ok_def linked_def)
next
  case (touch P now)
  have "uniq_credentials (map (\<lambda>x. if P x then x\<lparr>cred_last_used := Some now\<rparr> else x) (tb_credentials c))"
    using assms(2) by (intro uniq_credentials_map) (simp_all add: well_formed_def tables_ok_def)
  with touch assms(2) show ?thesis by (simp add: well_formed_def tables_ok_def linked_def)
next
  case (revoke P now)
  have "uniq_credentials (map (\<lambda>x. if P x then x\<lparr>cred_revoked := Some now\<rparr> else x) (tb_credentials c))"
    using assms(2) by (intro uniq_credentials_map) (simp_all add: well_formed_def tables_ok_def)
  with revoke assms(2) show ?thesis by (simp add: well_formed_def tables_ok_def linked_def)
qed (use assms(2) in \<open>auto simp: well_formed_def tables_ok_def linked_def uniq_filter_rows\<close>)

lemma writes_well_formed: "table_writes K c c' \<Longrightarrow> well_formed c \<Longrightarrow> well_formed c'"
  by (induction rule: writes_induct) (auto intro: write_well_formed)

text \<open>Actors stay, with their names.\<close>

lemma write_keeps_actors: "table_write k c c' \<Longrightarrow> set (tb_actors c) \<subseteq> set (tb_actors c')"
  by (auto elim!: table_writeE)

lemma writes_keep_actors: "table_writes K c c' \<Longrightarrow> set (tb_actors c) \<subseteq> set (tb_actors c')"
  by (induction rule: writes_induct) (auto dest: write_keeps_actors)

text \<open>A call stays until a sweep reaches its time.\<close>

lemma write_keeps_call:
  assumes "table_write k c c'" "x \<in> set (tb_calls c)" "\<forall>t. k = DeleteCalls t \<longrightarrow> t \<le> call_called_at x"
  shows "x \<in> set (tb_calls c')"
  using assms by (cases rule: table_write.cases) (auto simp: same_but_humans_def)

lemma writes_keep_call:
  assumes "table_writes K c c'" "x \<in> set (tb_calls c)" "\<forall>t. DeleteCalls t \<in> K \<longrightarrow> t \<le> call_called_at x"
  shows "x \<in> set (tb_calls c')"
  using assms(1) by (induction rule: writes_induct) (use assms(2,3) write_keeps_call in blast)+

text \<open>A revoked credential stays revoked, and only a revocation ends a live one.\<close>

lemma write_keeps_dead:
  assumes "table_write k c c'" "dead_hash h c" shows "dead_hash h c'"
  using assms
proof (cases rule: table_write.cases)
  case (issue x)
  with assms(2) show ?thesis by (auto intro: dead_hash_append)
next
  case (touch P now)
  with assms(2) show ?thesis by (auto intro!: dead_hash_update)
next
  case (revoke P now)
  with assms(2) show ?thesis by (auto intro!: dead_hash_update)
qed (use assms(2) in \<open>auto simp: dead_hash_def same_but_humans_def\<close>)

lemma writes_keep_dead: "table_writes K c c' \<Longrightarrow> dead_hash h c \<Longrightarrow> dead_hash h c'"
  by (induction rule: writes_induct) (auto intro: write_keeps_dead)

definition admits :: "string \<Rightarrow> string \<Rightarrow> tables \<Rightarrow> bool" where
  "admits h i c \<longleftrightarrow> (\<exists>cred. live h c cred \<and> cred_actor cred = i)"

lemma write_keeps_live:
  assumes "table_write k c c'" "admits h i c" "k \<noteq> RevokeCredentials" shows "admits h i c'"
  using assms
proof (cases rule: table_write.cases)
  case (touch P now)
  from assms(2) obtain cred where cred: "cred \<in> set (tb_credentials c)" "cred_hash cred = h"
    "cred_revoked cred = None" "cred_actor cred = i" by (auto simp: admits_def live_def)
  let ?u = "\<lambda>x. if P x then x\<lparr>cred_last_used := Some now\<rparr> else x"
  have "?u cred \<in> set (tb_credentials c')" using cred(1) touch(2) by simp
  with cred(2-4) show ?thesis unfolding admits_def live_def by (intro exI [of _ "?u cred"]) simp
qed (use assms(2,3) in \<open>auto simp: admits_def live_def same_but_humans_def\<close>)

lemma writes_keep_live:
  assumes "table_writes K c c'" "admits h i c" "RevokeCredentials \<notin> K" shows "admits h i c'"
  using assms(1) by (induction rule: writes_induct) (use assms(2,3) write_keeps_live in blast)+

text \<open>Identifiers of actors hold no NUL byte, the separator of the cache keys.\<close>

definition clean_ids :: "tables \<Rightarrow> bool" where
  "clean_ids c \<longleftrightarrow> (\<forall>a \<in> set (tb_actors c). nul \<notin> set (actor_id a))"

fun clean_kind :: "write_kind \<Rightarrow> bool" where
  "clean_kind (AddAgent i) \<longleftrightarrow> nul \<notin> set i"
| "clean_kind (RegisterHuman i) \<longleftrightarrow> nul \<notin> set i"
| "clean_kind _ \<longleftrightarrow> True"

lemma write_clean: "table_write k c c' \<Longrightarrow> clean_ids c \<Longrightarrow> clean_kind k \<Longrightarrow> clean_ids c'"
  by (auto elim!: table_writeE simp: clean_ids_def)

lemma writes_clean:
  assumes "table_writes K c c'" "clean_ids c" "\<forall>k \<in> K. clean_kind k" shows "clean_ids c'"
  using assms(1) by (induction rule: writes_induct) (use assms(2,3) write_clean in blast)+

lemma permitted_clean: "event_ok dp ev \<Longrightarrow> \<forall>k \<in> permitted dp ev. clean_kind k"
  by (cases ev) (auto simp: route_writes_def split: route_match.splits endpoint.splits)

subsection \<open>Runs\<close>

lemma app_run_writes:
  assumes "sql_database content (dp_db dp)" "\<forall>ev \<in> set evs. event_ok dp ev" "well_formed (content (ms_db st))"
  shows "table_writes (\<Union>ev \<in> set evs. permitted dp ev) (content (ms_db st)) (content (ms_db (app_run dp evs st)))"
  using assms(2,3)
proof (induction evs arbitrary: st)
  case (Cons ev evs)
  have one: "table_writes (permitted dp ev) (content (ms_db st)) (content (ms_db (app_step dp ev st)))"
    using Cons.prems by (intro app_step_writes [OF assms(1)]) (simp_all add: well_formed_def)
  have rest: "table_writes (\<Union>ev \<in> set evs. permitted dp ev) (content (ms_db (app_step dp ev st)))
      (content (ms_db (app_run dp evs (app_step dp ev st))))"
    using Cons.prems writes_well_formed [OF one] by (intro Cons.IH) simp_all
  let ?K = "\<Union>ev \<in> set (ev # evs). permitted dp ev"
  have "table_writes ?K (content (ms_db st)) (content (ms_db (app_step dp ev st)))" by (rule writes_mono [OF one]) auto
  moreover have "table_writes ?K (content (ms_db (app_step dp ev st))) (content (ms_db (app_run dp (ev # evs) st)))"
    unfolding app_run_simps by (rule writes_mono [OF rest]) auto
  ultimately show ?case by (rule writes_trans)
qed simp

lemma app_run_well_formed:
  assumes "sql_database content (dp_db dp)" "\<forall>ev \<in> set evs. event_ok dp ev" "well_formed (content (ms_db st))"
  shows "well_formed (content (ms_db (app_run dp evs st)))"
  using writes_well_formed [OF app_run_writes [OF assms] assms(3)] .

lemma app_run_keeps_actors:
  assumes "sql_database content (dp_db dp)" "\<forall>ev \<in> set evs. event_ok dp ev" "well_formed (content (ms_db st))"
  shows "set (tb_actors (content (ms_db st))) \<subseteq> set (tb_actors (content (ms_db (app_run dp evs st))))"
  using writes_keep_actors [OF app_run_writes [OF assms]] .

text \<open>Only sweeps delete calls.\<close>

lemma delete_only_by_sweep:
  assumes "DeleteCalls t \<in> permitted dp ev"
  shows "\<exists>now. ev = PruneTick now \<and> 0 < dp_retention dp \<and> t = now - dp_retention dp"
  using assms by (cases ev) (auto simp: route_writes_def split: route_match.splits endpoint.splits if_splits)

lemma app_run_keeps_call:
  assumes "sql_database content (dp_db dp)" "\<forall>ev \<in> set evs. event_ok dp ev" "well_formed (content (ms_db st))"
    "x \<in> set (tb_calls (content (ms_db st)))"
    "\<forall>now. PruneTick now \<in> set evs \<longrightarrow> dp_retention dp \<le> 0 \<or> now - call_called_at x \<le> dp_retention dp"
  shows "x \<in> set (tb_calls (content (ms_db (app_run dp evs st))))"
  by (rule writes_keep_call [OF app_run_writes [OF assms(1-3)] assms(4)])
    (use assms(5) delete_only_by_sweep in \<open>fastforce\<close>)

text \<open>Only the routes that revoke credentials revoke credentials.\<close>

fun revoking :: "'d deployment \<Rightarrow> 'e app_event \<Rightarrow> bool" where
  "revoking dp (ApiRequest stamp env uuid now req) \<longleftrightarrow>
     (\<exists>admin i. dp_router dp rest_routes (rq_method req) (rq_path req) \<in> {Matched (admin, DeleteAgent) i, Matched (admin, RevokeToken) i})"
| "revoking dp _ \<longleftrightarrow> False"

lemma revoke_only_by_route: "RevokeCredentials \<in> permitted dp ev \<Longrightarrow> revoking dp ev"
  by (cases ev) (auto simp: route_writes_def split: route_match.splits endpoint.splits if_splits)

lemma app_run_keeps_live:
  assumes "sql_database content (dp_db dp)" "\<forall>ev \<in> set evs. event_ok dp ev" "well_formed (content (ms_db st))"
    "admits h i (content (ms_db st))" "\<forall>ev \<in> set evs. \<not> revoking dp ev"
  shows "admits h i (content (ms_db (app_run dp evs st)))"
  by (rule writes_keep_live [OF app_run_writes [OF assms(1-3)] assms(4)])
    (use assms(5) revoke_only_by_route in \<open>fastforce\<close>)

subsection \<open>Requests to the API\<close>

text \<open>A request to the API that reached its endpoint: whoever sent it, the tables the endpoint starts
  from hold the credentials, calls and agents that the request found.\<close>

lemma api_handle_cases:
  assumes "sql_database content (dp_db dp)" "router_ok (dp_router dp)"
    "event_ok dp (ApiRequest stamp env uuid now req)" "well_formed (content d)"
    "api_handle dp stamp env uuid now req d = (reply, d')"
  obtains (turned_away) "hr_status reply \<in> {302, 401, 403, 404, 405, 500}"
  | (called) d2 ctx admin e i where "dp_router dp rest_routes (rq_method req) (rq_path req) = Matched (admin, e) i"
      "call_endpoint (dp_db dp) env e i ctx req d2 = (reply, d')"
      "tb_credentials (content d2) = tb_credentials (content d)"
proof -
  have ref: "token_refresher (as_refresh stamp)" and ok: "linked (content d)" "roles_known (tb_sessions (content d))"
    using assms(3,4) by (simp_all add: well_formed_def)
  from app_provider_ok [OF assms(1) ref] assms(1,2) ok assms(5) [unfolded api_handle_def] show thesis
    by (rule rest_handle_cases) (use that in blast)+
qed

text \<open>Both routes that revoke leave the hash of the credential dead when they answer 204.\<close>

lemma revoking_route_kills:
  assumes "sql_database content db" "call_endpoint db env e i ctx req d = (reply, d')" "hr_status reply = 204"
    "e = RevokeToken \<and> i = cred_id cred \<or> e = DeleteAgent \<and> i = cred_actor cred"
    "uniq_credentials (tb_credentials (content d))" "cred \<in> set (tb_credentials (content d))"
  shows "dead_hash (cred_hash cred) (content d')"
  using assms(4)
proof (elim disjE conjE)
  assume e: "e = RevokeToken" "i = cred_id cred"
  with assms(2,3) have "revoke_agent_token db (re_now env) (cred_id cred) d = (None, d')"
    by (auto simp: call_endpoint_def revoke_token_handler_def split: prod.splits option.splits)
  from sql_database.revoke_agent_token_effect [OF assms(1) this] show ?thesis
    by (intro dead_after_revocation [OF assms(5,6), of "\<lambda>c. cred_id c = cred_id cred" "content d'" "re_now env"]) simp_all
next
  assume e: "e = DeleteAgent" "i = cred_actor cred"
  with assms(2,3) have "revoke_all_agent_credentials db (re_now env) (cred_actor cred) d = (None, d')"
    by (auto simp: call_endpoint_def delete_agent_handler_def split: prod.splits option.splits)
  from sql_database.revoke_all_effect [OF assms(1) this] show ?thesis
    by (intro dead_after_revocation [OF assms(5,6), of "\<lambda>c. cred_actor c = cred_actor cred" "content d'" "re_now env"]) simp_all
qed

text \<open>The route that issues a token answers 201 with a token that the tables admit from then on.\<close>

lemma issuing_route_admits:
  assumes "sql_database content db" "call_endpoint db env IssueToken i ctx req d = (reply, d')" "hr_status reply = 201"
  shows "\<exists>token. reply = json_reply 201 (JObj [(''token'', JStr token)]) \<and> token \<noteq> []
    \<and> admits (hash_token (re_sha env) token) i (content d')
    \<and> (\<exists>raw. re_rnd env = Inr raw \<and> token = token_prefix @ b64_encode True raw)"
proof -
  obtain token where issued: "issue_agent_token db (re_sha env) (re_rnd env) (re_uuid env) (re_now env) i d = (Inr token, d')"
    "reply = json_reply 201 (JObj [(''token'', JStr token)])"
    using assms(2,3)
    by (auto simp: call_endpoint_def issue_token_handler_def auth_issue_def split: prod.splits sum.splits)
  from sql_database.issue_agent_token_effect [OF assms(1) issued(1)]
  have "admits (hash_token (re_sha env) token) i (content d')" "token \<noteq> []"
    by (auto simp: admits_def live_def token_prefix_def)
  moreover have "\<exists>raw. re_rnd env = Inr raw \<and> token = token_prefix @ b64_encode True raw"
    using issued(1) by (auto simp: issue_agent_token_def Let_def split: sum.splits prod.splits option.splits)
  ultimately show ?thesis using issued(2) by blast
qed

lemma app_run_keeps_dead:
  assumes "sql_database content (dp_db dp)" "\<forall>ev \<in> set evs. event_ok dp ev" "well_formed (content (ms_db st))"
    "dead_hash h (content (ms_db st))"
  shows "dead_hash h (content (ms_db (app_run dp evs st)))"
  using writes_keep_dead [OF app_run_writes [OF assms(1-3)] assms(4)] .

subsection \<open>An example\<close>

definition example_deployment :: "duration \<Rightarrow> mem_db deployment" where
  "example_deployment retention = \<lparr>dp_db = mem_database, dp_sha = id, dp_aead = tag_cipher,
     dp_router = segment_router, dp_provider = Stub, dp_retention = retention\<rparr>"

lemma example_deployment_simps [simp]:
  "dp_db (example_deployment r) = mem_database" "dp_sha (example_deployment r) = id"
  "dp_router (example_deployment r) = segment_router" "dp_retention (example_deployment r) = r"
  by (simp_all add: example_deployment_def)

lemma example_deployment_sql: "sql_database md_tables (dp_db (example_deployment r))"
  by (simp add: mem.sql_database_axioms)

definition example_events :: "unit app_event list" where
  "example_events = [McpRequest example_mcp_env ''Bearer T'' example_fetch, PruneTick 9]"

lemma example_events_ok: "\<forall>ev \<in> set example_events. event_ok (example_deployment 5) ev"
  by (simp add: example_events_def example_mcp_env_def max_int64_def)

lemma example_start_well_formed: "well_formed (md_tables (ms_db (example_mcp_state (example_agents [''T'']))))"
  by (simp add: well_formed_def tables_ok_def linked_def roles_known_def example_mcp_state_def example_agents_defs uniq_defs)

text \<open>A request to the API of that service, whose provider is the stub.\<close>

definition example_api_request :: "string \<Rightarrow> string \<Rightarrow> string app_event" where
  "example_api_request m p = ApiRequest (example_stamp 0 (Inl ''down'')) example_rest_env ''h'' 9 (example_api m p)"

lemma example_api_request_ok: "event_ok (example_deployment r) (example_api_request m p)"
  by (simp add: example_api_request_def example_rest_env_def example_stamp_def nul_def, unfold_locales) simp_all

lemma example_api_handle:
  "api_handle (example_deployment r) (example_stamp 0 (Inl e)) example_rest_env ''h'' 9 (example_api m p) d
   = rest_handle segment_router mem_database
       (fixed_provider \<lparr>id_subject = ''stub-user'', id_name = ''Local Tester'', id_role = ''admin''\<rparr>)
       example_rest_env ''h'' 9 (example_api m p) d"
  by (simp add: api_handle_def app_authenticate_def example_deployment_def rest_handle_def require_human_auth_def
      stub_authenticate_def fixed_provider_def)

lemmas example_rest_eval = rest_handle_def require_human_auth_def fixed_provider_def get_or_create_human_actor_def
  create_human_tx_def load_actor_def new_human_def new_identity_def rest_dispatch_def require_admin_def
  call_endpoint_def collapse_def example_api_def

subsection \<open>Properties\<close>

text \<open>Every request does to the data what it may do and nothing else. At every point of every run of
  the service the change of the tables by the next event is made of the writes permitted to
  it: a tool call touches its credential and adds calls, a login or logout changes sessions,
  the API changes sessions, registers the human and does the one write of its route, and
  only a sweep deletes history, up to its cutoff.\<close>

theorem every_event_keeps_to_its_writes:
  assumes "sql_database content (dp_db dp)" "\<forall>ev \<in> set evs. event_ok dp ev" "well_formed (content (ms_db st))"
    "evs = before @ ev # after"
  shows "table_writes (permitted dp ev) (content (ms_db (app_run dp before st)))
    (content (ms_db (app_run dp (before @ [ev]) st)))"
proof -
  have "well_formed (content (ms_db (app_run dp before st)))"
    using assms(2,4) by (intro app_run_well_formed [OF assms(1) _ assms(3)]) simp
  with app_step_writes [OF assms(1), of ev "app_run dp before st"] assms(2,4) show ?thesis
    by (simp add: well_formed_def)
qed

theorem every_event_keeps_to_its_writes_witness:
  "let st = example_mcp_state (example_agents [''T'']); dp = example_deployment 5;
       tool = McpRequest example_mcp_env ''Bearer T'' example_fetch :: unit app_event
   in table_writes {DeleteCalls 4} (md_tables (ms_db (app_run dp [tool] st)))
        (md_tables (ms_db (app_run dp ([tool] @ [PruneTick 9]) st)))"
proof -
  let ?tool = "McpRequest example_mcp_env ''Bearer T'' example_fetch :: unit app_event"
  have "example_events = [?tool] @ PruneTick 9 # []" by (simp add: example_events_def)
  from every_event_keeps_to_its_writes [OF example_deployment_sql example_events_ok example_start_well_formed this]
  show ?thesis by (simp add: Let_def)
qed

text \<open>The data of the service stay well formed. Whatever requests, logins, logouts and sweeps are
  handled, in any order and whichever statements fail, all unique indexes hold, every
  identity is linked to a human actor, every session has one of the two roles, every call
  in the history belongs to an actor, and no actor ever disappears or is renamed.\<close>

theorem service_data_stay_well_formed:
  assumes "sql_database content (dp_db dp)" "\<forall>ev \<in> set evs. event_ok dp ev" "well_formed (content (ms_db st))"
  shows "well_formed (content (ms_db (app_run dp evs st)))
    \<and> set (tb_actors (content (ms_db st))) \<subseteq> set (tb_actors (content (ms_db (app_run dp evs st))))"
  using app_run_well_formed [OF assms] app_run_keeps_actors [OF assms] by blast

theorem service_data_stay_well_formed_witness:
  "let c = md_tables (ms_db (app_run (example_deployment 5) example_events (example_mcp_state (example_agents [''T'']))))
   in well_formed c \<and> example_actor \<in> set (tb_actors c)"
  using service_data_stay_well_formed [OF example_deployment_sql example_events_ok example_start_well_formed]
  by (simp add: Let_def example_mcp_state_def example_agents_defs)

definition past_calls :: "tool_call list \<Rightarrow> mem_db" where
  "past_calls cs = mem_empty\<lparr>md_tables := (md_tables mem_empty)\<lparr>tb_actors := [example_actor], tb_calls := cs\<rparr>\<rparr>"

lemmas past_calls_defs = past_calls_def example_call_def example_agents_defs

definition example_past :: "mem_db mcp_state" where
  "example_past = example_mcp_state (past_calls [example_call ''1'' ''fetch'' 2, example_call ''2'' ''fetch'' 5])"

lemma example_past_well_formed: "well_formed (md_tables (ms_db example_past))"
  by (simp add: example_past_def well_formed_def tables_ok_def linked_def roles_known_def example_mcp_state_def
      past_calls_defs uniq_defs)

definition example_sweep :: "unit app_event list" where
  "example_sweep = [PruneTick 9]"

lemma example_sweep_ok: "\<forall>ev \<in> set example_sweep. event_ok (example_deployment 5) ev"
  by (simp add: example_sweep_def max_int64_def)

lemma example_after_sweep:
  "ms_db (app_run (example_deployment 5) example_sweep example_past) = past_calls [example_call ''2'' ''fetch'' 5]"
  by (simp add: example_sweep_def example_past_def example_mcp_state_def prune_history_until_done_def prune_tool_calls_def
      mem_eval past_calls_defs wrap64_def)

text \<open>Every row of the history UI has a name. After any run of the service, every page of the
  history that is answered with 200 comes with a name for the actor of every call on it:
  deleting an agent does not leave calls without an owner.\<close>

theorem history_names_every_agent:
  assumes "sql_database content (dp_db dp)" "\<forall>ev \<in> set evs. event_ok dp ev" "well_formed (content (ms_db st))"
    "list_history_handler (dp_db dp) env req (ms_db (app_run dp evs st)) = (reply, d')" "hr_status reply = 200"
  shows "\<exists>page next_cursor names. reply = json_reply 200 (history_json (re_time env) page next_cursor
        (first_occurrences [] (map call_actor page)) names)
    \<and> (\<forall>x \<in> set page. \<exists>a \<in> set (tb_actors (content d')). actor_id a = call_actor x
          \<and> names (call_actor x) = Some (actor_name a))"
proof -
  let ?c = "content (ms_db (app_run dp evs st))"
  have wf: "well_formed ?c" using app_run_well_formed [OF assms(1-3)] .
  then have ok: "uniq_calls (tb_calls ?c)" "uniq_actors (tb_actors ?c)"
    by (simp_all add: well_formed_def tables_ok_def)
  note answer = history_page [OF assms(1,4) ok]
  obtain f where f: "parse_filter req = Inr f" using answer assms(5) by (cases "parse_filter req") auto
  define page where "page = page_of (dp_db dp) f (tb_calls ?c)"
  obtain names next_cursor where
    page: "content d' = ?c" "reply = json_reply 200 (history_json (re_time env) page next_cursor
        (first_occurrences [] (map call_actor page)) names)"
      "\<forall>a \<in> set (tb_actors ?c). actor_id a \<in> call_actor ` set page \<longrightarrow> names (actor_id a) = Some (actor_name a)"
    using answer assms(5) unfolding f sum.case Let_def page_def [symmetric] by (auto split: if_splits)
  have rows: "set page \<subseteq> set (tb_calls ?c)" using page_of_rows unfolding page_def by blast
  have "\<exists>a \<in> set (tb_actors (content d')). actor_id a = call_actor x \<and> names (call_actor x) = Some (actor_name a)"
    if x: "x \<in> set page" for x
  proof -
    obtain a where "a \<in> set (tb_actors ?c)" "actor_id a = call_actor x"
      using wf subsetD [OF rows x] unfolding well_formed_def by blast
    with page(1,3) x show ?thesis by (intro bexI [of _ a]) auto
  qed
  with page(2) show ?thesis by blast
qed

theorem history_names_every_agent_witness:
  "let d = ms_db (app_run (example_deployment 5) example_sweep example_past);
       req = (example_api ''GET'' ''/tool-calls/'')\<lparr>rq_query := [(''limit'', ''1'')]\<rparr>
   in \<exists>page nxt names. fst (list_history_handler mem_database example_rest_env req d)
        = json_reply 200 (history_json show_int page nxt (first_occurrences [] (map call_actor page)) names)
      \<and> (\<forall>x \<in> set page. names (call_actor x) = Some ''bot'')"
proof -
  let ?d = "ms_db (app_run (example_deployment 5) example_sweep example_past)"
  let ?req = "(example_api ''GET'' ''/tool-calls/'')\<lparr>rq_query := [(''limit'', ''1'')]\<rparr>"
  obtain reply d' where run: "list_history_handler (dp_db (example_deployment 5)) example_rest_env ?req ?d = (reply, d')"
    by fastforce
  have "parse_filter ?req = Inr \<lparr>hf_actor = [], hf_tool = [], hf_is_error = None, hf_limit = 1, hf_cursor = []\<rparr>"
    by (simp add: parse_filter_def query_get_def example_api_def atoi_def digit_value_def fits64_def
        max_int64_def min_int64_def)
  then have ok: "hr_status reply = 200" "\<forall>a \<in> set (tb_actors (md_tables d')). actor_name a = ''bot''"
    using run by (auto simp: example_after_sweep list_history_handler_def list_tool_calls_def find_cursor_def
        actor_names_by_id_def mem_eval past_calls_defs Let_def page_limit_def max_history_page_size_def
        call_matches_def older_def)
  from history_names_every_agent [OF example_deployment_sql example_sweep_ok example_past_well_formed run ok(1)] ok(2) run
  show ?thesis unfolding Let_def by (fastforce simp: example_rest_env_def)
qed

text \<open>Nothing but the retention removes a call. Whatever the service handles, a call in the history
  stays as it is until a sweep finds it older than the retention, and on a calm database
  GET /tool-calls/{id} answers with it and with the name of its agent, deleted or not.\<close>

theorem recorded_call_stays_readable:
  assumes "sql_database content (dp_db dp)" "\<forall>ev \<in> set evs. event_ok dp ev" "well_formed (content (ms_db st))"
    "x \<in> set (tb_calls (content (ms_db st)))"
    "\<forall>now. PruneTick now \<in> set evs \<longrightarrow> dp_retention dp \<le> 0 \<or> now - call_called_at x \<le> dp_retention dp"
  shows "x \<in> set (tb_calls (content (ms_db (app_run dp evs st))))
    \<and> (\<exists>a \<in> set (tb_actors (content (ms_db st))). actor_id a = call_actor x
        \<and> (calm_database content (dp_db dp) calm \<and> calm (ms_db (app_run dp evs st)) \<longrightarrow>
            fst (get_history_entry_handler (dp_db dp) env (call_id x) (ms_db (app_run dp evs st)))
              = json_reply 200 (JObj [(''call'', call_json (re_time env) x), (''actor'', JStr (actor_name a))])))"
proof -
  let ?last = "ms_db (app_run dp evs st)"
  have stays: "x \<in> set (tb_calls (content ?last))" using app_run_keeps_call [OF assms] .
  obtain a where a: "a \<in> set (tb_actors (content (ms_db st)))" "actor_id a = call_actor x"
    using assms(3,4) by (auto simp: well_formed_def)
  have a': "a \<in> set (tb_actors (content ?last))" using app_run_keeps_actors [OF assms(1-3)] a(1) by blast
  have "uniq_calls (tb_calls (content ?last))" "uniq_actors (tb_actors (content ?last))"
    using app_run_well_formed [OF assms(1-3)] by (simp_all add: well_formed_def tables_ok_def)
  with stays a a' history_entry_calm [of content "dp_db dp" calm ?last x a env] show ?thesis by blast
qed

theorem recorded_call_stays_readable_witness:
  "let d = ms_db (app_run (example_deployment 5) example_sweep example_past); x = example_call ''2'' ''fetch'' 5
   in tb_calls (md_tables d) = [x]
      \<and> fst (get_history_entry_handler mem_database example_rest_env ''2'' d)
          = json_reply 200 (JObj [(''call'', call_json show_int x), (''actor'', JStr ''bot'')])"
proof -
  let ?d = "ms_db (app_run (example_deployment 5) example_sweep example_past)" and ?x = "example_call ''2'' ''fetch'' 5"
  have x: "?x \<in> set (tb_calls (md_tables (ms_db example_past)))"
    by (simp add: example_past_def example_mcp_state_def past_calls_defs)
  have kept: "\<forall>now. PruneTick now \<in> set example_sweep \<longrightarrow> dp_retention (example_deployment 5) \<le> 0
      \<or> now - call_called_at ?x \<le> dp_retention (example_deployment 5)"
    by (simp add: example_sweep_def example_call_def)
  have calm: "calm_database md_tables (dp_db (example_deployment 5)) mem_calm \<and> mem_calm ?d"
    by (simp add: calm.calm_database_axioms example_after_sweep mem_calm_def past_calls_defs)
  have names: "\<forall>a \<in> set (tb_actors (md_tables (ms_db example_past))). actor_name a = ''bot''"
    by (simp add: example_past_def example_mcp_state_def past_calls_defs)
  have "call_id ?x = ''2''" "tb_calls (md_tables ?d) = [?x]" "re_time example_rest_env = show_int"
    by (simp_all add: example_call_def example_after_sweep past_calls_defs example_rest_env_def)
  with conjunct2 [OF recorded_call_stays_readable [OF example_deployment_sql example_sweep_ok example_past_well_formed x kept,
      of mem_calm example_rest_env]] calm names
  show ?thesis by (auto simp: Let_def)
qed

end
