(* ===== verification/Turns.thy ===== *)
theory Turns
  imports Prelude
begin

section \<open>Goroutines that share a state\<close>

text \<open>
  Requests run in goroutines of their own and share what their handlers share. A handler is
  cut where it touches the shared state: one turn of it is a function of the call, of where
  the call stands (its program counter) and of the shared state, and what it sends out is
  logged with the call. Between two turns of a call any other call may take its turns; a
  schedule is the list of the calls in the order of their turns.
\<close>

record ('s, 'p, 'r) server =
  tn_state :: 's
  tn_pc :: "nat \<Rightarrow> 'p"
  tn_log :: "(nat \<times> 'r) list"

type_synonym ('c, 'p, 's, 'r) turn = "'c \<Rightarrow> 'p \<Rightarrow> 's \<Rightarrow> 'p \<times> 's \<times> 'r list"

definition take_turn :: "('c, 'p, 's, 'r) turn \<Rightarrow> (nat \<Rightarrow> 'c) \<Rightarrow> nat \<Rightarrow> ('s, 'p, 'r) server \<Rightarrow> ('s, 'p, 'r) server" where
  "take_turn turn calls i s =
     (case turn (calls i) (tn_pc s i) (tn_state s) of
        (pc, st, out) \<Rightarrow> s\<lparr>tn_state := st, tn_pc := (tn_pc s)(i := pc), tn_log := tn_log s @ map (Pair i) out\<rparr>)"

fun take_turns :: "('c, 'p, 's, 'r) turn \<Rightarrow> (nat \<Rightarrow> 'c) \<Rightarrow> nat list \<Rightarrow> ('s, 'p, 'r) server \<Rightarrow> ('s, 'p, 'r) server" where
  "take_turns turn calls [] s = s"
| "take_turns turn calls (i # is) s = take_turns turn calls is (take_turn turn calls i s)"

definition server_start :: "'p \<Rightarrow> 's \<Rightarrow> ('s, 'p, 'r) server" where
  "server_start pc st = \<lparr>tn_state = st, tn_pc = (\<lambda>_. pc), tn_log = []\<rparr>"

lemma server_start_simps [simp]:
  "tn_state (server_start pc st) = st" "tn_pc (server_start pc st) i = pc" "tn_log (server_start pc st) = []"
  by (simp_all add: server_start_def)

lemma take_turns_append: "take_turns turn calls (is @ js) s = take_turns turn calls js (take_turns turn calls is s)"
  by (induction "is" arbitrary: s) simp_all

lemma take_turns_other: "i \<notin> set is \<Longrightarrow> tn_pc (take_turns turn calls is s) i = tn_pc s i"
  by (induction "is" arbitrary: s) (simp_all add: take_turn_def split: prod.splits)

lemma take_turns_stay:
  "(\<And>st. turn (calls i) pc st = (pc, st, [])) \<Longrightarrow> tn_pc s i = pc \<Longrightarrow> tn_pc (take_turns turn calls sched s) i = pc"
proof (induction sched arbitrary: s)
  case (Cons j js)
  have "tn_pc (take_turn turn calls j s) i = pc"
    using Cons.prems by (cases "j = i") (auto simp: take_turn_def split: prod.splits)
  with Cons.IH [OF Cons.prems(1)] show ?case by simp
qed simp

text \<open>The turns of one call that no other call separates.\<close>

fun own_turns :: "('c, 'p, 's, 'r) turn \<Rightarrow> 'c \<Rightarrow> nat \<Rightarrow> 'p \<Rightarrow> 's \<Rightarrow> 'p \<times> 's \<times> 'r list" where
  "own_turns turn c 0 pc st = (pc, st, [])"
| "own_turns turn c (Suc n) pc st =
     (case turn c pc st of (pc1, st1, out1) \<Rightarrow> case own_turns turn c n pc1 st1 of (pc2, st2, out2) \<Rightarrow> (pc2, st2, out1 @ out2))"

lemma own_turns_append:
  assumes "own_turns turn c m pc st = (pc1, st1, out1)" "own_turns turn c n pc1 st1 = (pc2, st2, out2)"
  shows "own_turns turn c (m + n) pc st = (pc2, st2, out1 @ out2)"
  using assms
proof (induction m arbitrary: pc st out1)
  case (Suc m)
  obtain pc0 st0 out0 where t: "turn c pc st = (pc0, st0, out0)" by (metis prod.collapse)
  obtain out3 where "own_turns turn c m pc0 st0 = (pc1, st1, out3)" "out1 = out0 @ out3"
    using Suc.prems(1) t by (auto split: prod.splits)
  with Suc.IH [OF _ Suc.prems(2)] t show ?case by simp
qed simp

lemma own_turns_stay: "(\<And>st. turn c pc st = (pc, st, [])) \<Longrightarrow> own_turns turn c n pc st = (pc, st, [])"
  by (induction n arbitrary: st) simp_all

lemma take_own_turns:
  "own_turns turn (calls i) n (tn_pc s i) (tn_state s) = (pc, st, out) \<Longrightarrow>
     take_turns turn calls (replicate n i) s
       = s\<lparr>tn_state := st, tn_pc := (tn_pc s)(i := pc), tn_log := tn_log s @ map (Pair i) out\<rparr>"
proof (induction n arbitrary: s pc st out)
  case (Suc n)
  obtain pc1 st1 out1 where t: "turn (calls i) (tn_pc s i) (tn_state s) = (pc1, st1, out1)" by (metis prod.collapse)
  obtain pc2 st2 out2 where o: "own_turns turn (calls i) n pc1 st1 = (pc2, st2, out2)" by (metis prod.collapse)
  from Suc.prems t o have "pc = pc2" "st = st2" "out = out1 @ out2" by simp_all
  with Suc.IH [of "take_turn turn calls i s"] t o show ?case by (simp add: take_turn_def cong: if_cong)
qed simp

text \<open>Calls whose every turn takes them further end.\<close>

locale finite_turns =
  fixes turn :: "('c, 'p, 's, 'r) turn" and stage :: "'p \<Rightarrow> nat" and last_stage :: nat
  assumes progress: "turn c pc st = (pc', st', out) \<Longrightarrow> min last_stage (Suc (stage pc)) \<le> stage pc'"
begin

lemma turn_progress:
  "min last_stage (stage (tn_pc s i) + (if j = i then 1 else 0)) \<le> stage (tn_pc (take_turn turn calls j s) i)"
  using progress [of "calls i" "tn_pc s i" "tn_state s"] by (auto simp: take_turn_def split: prod.splits)

lemma turns_progress:
  "min last_stage (stage (tn_pc s i) + count_list is i) \<le> stage (tn_pc (take_turns turn calls is s) i)"
proof (induction "is" arbitrary: s)
  case (Cons j js)
  from Cons [of "take_turn turn calls j s"] turn_progress [of s i j calls] show ?case by (auto split: if_splits)
qed simp

lemma ends_in_time: "last_stage \<le> count_list sched i \<Longrightarrow> last_stage \<le> stage (tn_pc (take_turns turn calls sched s) i)"
  using turns_progress [of s i sched calls] by simp

end

text \<open>The turn at which a call comes to satisfy \<open>P\<close>.\<close>

lemma turn_when:
  assumes "\<not> P (tn_pc s i)" "P (tn_pc (take_turns turn calls sched s) i)"
  obtains before after where "sched = before @ i # after" "\<not> P (tn_pc (take_turns turn calls before s) i)"
    "P (tn_pc (take_turns turn calls (before @ [i]) s) i)"
  using assms(2)
proof (induction sched arbitrary: thesis rule: rev_induct)
  case Nil
  with assms(1) show ?case by simp
next
  case (snoc j js)
  show ?case
  proof (cases "P (tn_pc (take_turns turn calls js s) i)")
    case True
    then show ?thesis by (rule snoc.IH [rotated]) (rule snoc.prems(1), simp_all)
  next
    case False
    with snoc.prems(2) have "j = i"
      by (cases "j = i") (simp_all add: take_turns_append take_turn_def split: prod.splits)
    with False snoc.prems show ?thesis by (intro snoc.prems(1) [of js "[]"]) simp_all
  qed
qed

lemma take_turns_log:
  "(i, x) \<in> set (tn_log (take_turns turn calls sched s)) \<Longrightarrow> (i, x) \<in> set (tn_log s) \<or> i \<in> set sched"
  by (induction sched arbitrary: s) (fastforce simp: take_turn_def split: prod.splits)+

text \<open>What is known of the state and of each call: \<open>inv\<close> is kept by every turn, and \<open>at\<close> by the turns
  of its own call, and it is stable under the turns of the others.\<close>

locale stable_turns =
  fixes turn :: "('c, 'p, 's, 'r) turn"
    and ok :: "(nat \<Rightarrow> 'c) \<Rightarrow> bool"
    and inv :: "(nat \<Rightarrow> 'c) \<Rightarrow> (nat \<times> 'r) list \<Rightarrow> 's \<Rightarrow> bool"
    and at :: "(nat \<Rightarrow> 'c) \<Rightarrow> (nat \<times> 'r) list \<Rightarrow> 's \<Rightarrow> 'c \<Rightarrow> 'p \<Rightarrow> bool"
  assumes turn_keeps: "ok calls \<Longrightarrow> inv calls log st \<Longrightarrow> at calls log st (calls i) pc \<Longrightarrow> turn (calls i) pc st = (pc', st', out)
      \<Longrightarrow> inv calls (log @ map (Pair i) out) st' \<and> at calls (log @ map (Pair i) out) st' (calls i) pc'"
    and turn_stable: "ok calls \<Longrightarrow> inv calls log st \<Longrightarrow> at calls log st (calls i) pc \<Longrightarrow> turn (calls i) pc st = (pc', st', out)
      \<Longrightarrow> at calls log st c other \<Longrightarrow> at calls (log @ map (Pair i) out) st' c other"
begin

definition sound :: "(nat \<Rightarrow> 'c) \<Rightarrow> ('s, 'p, 'r) server \<Rightarrow> bool" where
  "sound calls s \<longleftrightarrow> inv calls (tn_log s) (tn_state s) \<and> (\<forall>i. at calls (tn_log s) (tn_state s) (calls i) (tn_pc s i))"

lemma take_turn_sound:
  assumes "ok calls" "sound calls s" shows "sound calls (take_turn turn calls i s)"
proof -
  obtain pc st out where t: "turn (calls i) (tn_pc s i) (tn_state s) = (pc, st, out)" by (metis prod.collapse)
  from assms(2) have here: "inv calls (tn_log s) (tn_state s)" "at calls (tn_log s) (tn_state s) (calls i) (tn_pc s i)"
    by (simp_all add: sound_def)
  from assms(2) turn_keeps [OF assms(1) here t] turn_stable [OF assms(1) here t] t show ?thesis
    by (simp add: sound_def take_turn_def)
qed

lemma take_turns_sound: "ok calls \<Longrightarrow> sound calls s \<Longrightarrow> sound calls (take_turns turn calls is s)"
  by (induction "is" arbitrary: s) (simp_all add: take_turn_sound)

lemma run_sound:
  assumes "ok calls" "inv calls [] st" "\<And>i. at calls [] st (calls i) pc"
    "s = take_turns turn calls sched (server_start pc st)"
  shows "inv calls (tn_log s) (tn_state s)" "at calls (tn_log s) (tn_state s) (calls i) (tn_pc s i)"
proof -
  have "sound calls (server_start pc st)" using assms(2,3) by (simp add: sound_def)
  from take_turns_sound [OF assms(1) this, of sched]
  show "inv calls (tn_log s) (tn_state s)" "at calls (tn_log s) (tn_state s) (calls i) (tn_pc s i)"
    by (simp_all add: sound_def assms(4))
qed

end

text \<open>The simple case: what is known of a call depends on the exchanges alone, and more of them do not
  spoil it.\<close>

locale sound_turns =
  fixes turn :: "('c, 'p, 's, 'r) turn"
    and ok :: "(nat \<Rightarrow> 'c) \<Rightarrow> bool"
    and inv :: "(nat \<Rightarrow> 'c) \<Rightarrow> (nat \<times> 'r) list \<Rightarrow> 's \<Rightarrow> bool"
    and at :: "(nat \<Rightarrow> 'c) \<Rightarrow> (nat \<times> 'r) list \<Rightarrow> 'c \<Rightarrow> 'p \<Rightarrow> bool"
  assumes at_mono: "at calls log c pc \<Longrightarrow> at calls (log @ later) c pc"
    and turn_sound: "ok calls \<Longrightarrow> inv calls log st \<Longrightarrow> at calls log (calls i) pc \<Longrightarrow> turn (calls i) pc st = (pc', st', out)
      \<Longrightarrow> inv calls (log @ map (Pair i) out) st' \<and> at calls (log @ map (Pair i) out) (calls i) pc'"

sublocale sound_turns \<subseteq> stable_turns turn ok inv "\<lambda>calls log st. at calls log"
  by unfold_locales (use turn_sound at_mono in blast)+

context sound_turns begin

lemmas run_known = run_sound

end

end
