(* ===== verification/Human_Conc.thy ===== *)
theory Human_Conc
  imports App_Run Turns
begin

section \<open>A request to /api, statement by statement\<close>

text \<open>
  The handler chain RequireHumanAuth, router, endpoint of a request to /api, cut at its accesses to the
  database: the session is read, then refreshed and written or dropped; the identity is looked
  up, its role corrected or the human registered in a transaction, the actor loaded; the
  endpoint runs. An endpoint is one turn: each does one write or only reads. Alone, the
  request does what \<open>api_handle\<close> does.
\<close>

subsection \<open>The turns\<close>

datatype api_pc =
  ApiArrived
| SessionRead session
| Identified identity
| RoleDiffers identity user_identity
| NoIdentity identity             \<comment> \<open>about to run the transaction\<close>
| IdentityTaken identity          \<comment> \<open>another request's identity was there first\<close>
| ActorKnown identity string      \<comment> \<open>about to load this actor\<close>
| Admitted identity actor
| Answered http_reply

definition unauthorized_reply :: "http_request \<Rightarrow> http_reply" where
  "unauthorized_reply req = (if contains_text (rq_accept req) ''text/html'' then http_found [] req ''/auth/login''
     else http_error [] ''unauthorized'' 401)"

definition failed_reply :: api_pc where
  "failed_reply = Answered (http_error [] ''internal error'' 500)"

fun api_turn :: "'d deployment \<Rightarrow> 'e auth_stamp \<Rightarrow> rest_env \<Rightarrow> string \<Rightarrow> time \<Rightarrow> http_request
    \<Rightarrow> api_pc \<times> 'd \<Rightarrow> api_pc \<times> 'd" where
  "api_turn dp stamp env uuid now req (ApiArrived, d) =
     (case dp_provider dp of
        Stub \<Rightarrow> (case (stub_authenticate req d :: ('e session_error + identity) \<times> 'd) of
            (Inl e, d1) \<Rightarrow> (Answered (unauthorized_reply req), d1)
          | (Inr idn, d1) \<Rightarrow> (Identified idn, d1))
      | Oidc su \<Rightarrow> (case (session_lookup (dp_db dp) (dp_sha dp) req d :: ('e session_error + session) \<times> 'd) of
            (Inl e, d1) \<Rightarrow> (Answered (unauthorized_reply req), d1)
          | (Inr s, d1) \<Rightarrow> (SessionRead s, d1)))"
| "api_turn dp stamp env uuid now req (SessionRead s, d) =
     (case dp_provider dp of
        Stub \<Rightarrow> (Answered (unauthorized_reply req), d)      \<comment> \<open>cannot be: the stub reads no session\<close>
      | Oidc su \<Rightarrow> (case session_refresh (dp_db dp) (dp_aead dp) (su_key su) stamp s d of
            (Inl e, d1) \<Rightarrow> (Answered (unauthorized_reply req), d1)
          | (Inr idn, d1) \<Rightarrow> (Identified idn, d1)))"
| "api_turn dp stamp env uuid now req (Identified idn, d) =
     (case sql_first (db_identities (dp_db dp)) (\<lambda>i. ident_subject i = id_subject idn) d of
        (Inr i, d1) \<Rightarrow> (if ident_role i \<noteq> id_role idn then RoleDiffers idn i else ActorKnown idn (ident_actor i), d1)
      | (Inl e, d1) \<Rightarrow> (if e \<noteq> RecordNotFound then failed_reply else NoIdentity idn, d1))"
| "api_turn dp stamp env uuid now req (RoleDiffers idn i, d) =
     (case sql_update (db_identities (dp_db dp)) (\<lambda>x. ident_actor x = ident_actor i)
             (\<lambda>x. x\<lparr>ident_role := id_role idn\<rparr>) d of
        (Some e, d1) \<Rightarrow> (failed_reply, d1)
      | (None, d1) \<Rightarrow> (ActorKnown idn (ident_actor i), d1))"
| "api_turn dp stamp env uuid now req (NoIdentity idn, d) =
     (case db_transaction (dp_db dp) (create_human_tx (dp_db dp) uuid now (id_subject idn) (id_name idn) (id_role idn)) d of
        ((won, Some e), d1) \<Rightarrow> (failed_reply, d1)
      | ((won, None), d1) \<Rightarrow> (if won then ActorKnown idn uuid else IdentityTaken idn, d1))"
| "api_turn dp stamp env uuid now req (IdentityTaken idn, d) =
     (case sql_first (db_identities (dp_db dp)) (\<lambda>i. ident_subject i = id_subject idn) d of
        (Inl e, d1) \<Rightarrow> (failed_reply, d1)
      | (Inr winner, d1) \<Rightarrow> (ActorKnown idn (ident_actor winner), d1))"
| "api_turn dp stamp env uuid now req (ActorKnown idn i, d) =
     (case load_actor (dp_db dp) i d of
        (Inl e, d1) \<Rightarrow> (failed_reply, d1)
      | (Inr a, d1) \<Rightarrow> (Admitted idn a, d1))"
| "api_turn dp stamp env uuid now req (Admitted idn a, d) =
     (case rest_dispatch (dp_router dp) (dp_db dp) env \<lparr>hm_actor = a, hm_role = id_role idn\<rparr> req d of
        (reply, d1) \<Rightarrow> (Answered reply, d1))"
| "api_turn dp stamp env uuid now req (Answered reply, d) = (Answered reply, d)"

fun api_stage :: "api_pc \<Rightarrow> nat" where
  "api_stage ApiArrived = 0"
| "api_stage (SessionRead s) = 1"
| "api_stage (Identified idn) = 2"
| "api_stage (RoleDiffers idn i) = 3"
| "api_stage (NoIdentity idn) = 3"
| "api_stage (IdentityTaken idn) = 4"
| "api_stage (ActorKnown idn i) = 5"
| "api_stage (Admitted idn a) = 6"
| "api_stage (Answered reply) = 7"

lemma api_turn_progress:
  "api_turn dp stamp env uuid now req (pc, d) = (pc', d') \<Longrightarrow> min 7 (Suc (api_stage pc)) \<le> api_stage pc'"
  by (cases pc) (auto simp: failed_reply_def split: prod.splits sum.splits option.splits if_splits auth_provider.splits)

subsection \<open>Alone, the request is \<open>api_handle\<close>\<close>

text \<open>The rest of the chain, once the human is registered or the registration failed.\<close>

definition finish_api :: "'d deployment \<Rightarrow> rest_env \<Rightarrow> http_request \<Rightarrow> identity \<Rightarrow> (repo_error + actor) \<times> 'd \<Rightarrow> api_pc \<times> 'd" where
  "finish_api dp env req idn x = (case x of
      (Inl e, d) \<Rightarrow> (failed_reply, d)
    | (Inr a, d) \<Rightarrow> (case rest_dispatch (dp_router dp) (dp_db dp) env \<lparr>hm_actor = a, hm_role = id_role idn\<rparr> req d of
        (reply, d1) \<Rightarrow> (Answered reply, d1)))"

lemma finish_failed [simp]: "finish_api dp env req idn (Inl e, d) = (failed_reply, d)"
  by (simp add: finish_api_def)

lemma answered_stays [simp]:
  "(api_turn dp stamp env uuid now req ^^ n) (Answered reply, d) = (Answered reply, d)"
  by (induction n) simp_all

lemma failed_stays [simp]:
  "(api_turn dp stamp env uuid now req ^^ n) (failed_reply, d) = (failed_reply, d)"
  "api_turn dp stamp env uuid now req (failed_reply, d) = (failed_reply, d)"
  by (simp_all add: failed_reply_def)

lemma known_alone:
  "(api_turn dp stamp env uuid now req ^^ Suc (Suc n)) (ActorKnown idn i, d) = finish_api dp env req idn (load_actor (dp_db dp) i d)"
  by (auto simp: funpow_Suc_right finish_api_def simp del: funpow.simps(2) split: prod.splits sum.splits)

lemma identified_alone:
  "(api_turn dp stamp env uuid now req ^^ (5 + n)) (Identified idn, d)
     = finish_api dp env req idn
         (get_or_create_human_actor (dp_db dp) uuid now (id_subject idn) (id_name idn) (id_role idn) d)"
proof -
  let ?f = "api_turn dp stamp env uuid now req"
  have unroll: "(?f ^^ (5 + n)) x = (?f ^^ Suc (Suc n)) (?f (?f (?f x)))"
    "(?f ^^ (5 + n)) x = (?f ^^ Suc (Suc (Suc n))) (?f (?f x))" "(?f ^^ (5 + n)) x = (?f ^^ Suc (Suc (Suc (Suc n)))) (?f x)" for x
    by (simp_all add: numeral_eq_Suc funpow_Suc_right del: funpow.simps(2))
  obtain r d1 where first: "sql_first (db_identities (dp_db dp)) (\<lambda>i. ident_subject i = id_subject idn) d = (r, d1)" by fastforce
  show ?thesis
  proof (cases r)
    case (Inr i)
    show ?thesis
    proof (cases "ident_role i = id_role idn")
      case True
      with first Inr known_alone [where n = "Suc (Suc n)" and dp = dp and stamp = stamp] show ?thesis
        unfolding unroll(3) by (simp add: get_or_create_human_actor_def del: funpow.simps)
    next
      case False
      with first Inr known_alone [where n = "Suc n" and dp = dp and stamp = stamp] show ?thesis
        unfolding unroll(2) by (auto simp: get_or_create_human_actor_def simp del: funpow.simps split: prod.splits option.splits)
    qed
  next
    case (Inl e)
    show ?thesis
    proof (cases "e = RecordNotFound")
      case False
      with first Inl show ?thesis unfolding unroll(3) by (simp add: get_or_create_human_actor_def del: funpow.simps)
    next
      case True
      obtain won err d2 where tx: "db_transaction (dp_db dp)
          (create_human_tx (dp_db dp) uuid now (id_subject idn) (id_name idn) (id_role idn)) d1 = ((won, err), d2)"
        by (metis prod.collapse)
      show ?thesis
      proof (cases "err = None \<and> \<not> won")
        case True
        with first Inl \<open>e = RecordNotFound\<close> tx known_alone [where n = n and dp = dp and stamp = stamp] show ?thesis
          unfolding unroll(1) by (auto simp: get_or_create_human_actor_def simp del: funpow.simps split: prod.splits sum.splits)
      next
        case False
        with first Inl \<open>e = RecordNotFound\<close> tx known_alone [where n = "Suc n" and dp = dp and stamp = stamp] show ?thesis
          unfolding unroll(2) by (cases err) (simp_all add: get_or_create_human_actor_def del: funpow.simps)
      qed
    qed
  qed
qed

lemma api_alone:
  fixes stamp :: "'e auth_stamp" and d :: 'd
  assumes "api_handle dp stamp env uuid now req d = (reply, d')"
  shows "(api_turn dp stamp env uuid now req ^^ 7) (ApiArrived, d) = (Answered reply, d')"
proof -
  let ?f = "api_turn dp stamp env uuid now req"
  have unroll: "(?f ^^ 7) x = (?f ^^ (5 + 1)) (?f x)" "(?f ^^ 7) x = (?f ^^ (5 + 0)) (?f (?f x))" for x
    by (simp_all add: numeral_eq_Suc funpow_Suc_right del: funpow.simps(2))
  obtain r d1 where auth: "app_authenticate (dp_db dp) (dp_sha dp) (dp_aead dp) stamp (dp_provider dp) req d = (r, d1)"
    by fastforce
  have "(?f ^^ 7) (ApiArrived, d) = (case r of Inl e \<Rightarrow> (Answered (unauthorized_reply req), d1)
      | Inr idn \<Rightarrow> finish_api dp env req idn
          (get_or_create_human_actor (dp_db dp) uuid now (id_subject idn) (id_name idn) (id_role idn) d1))"
  proof (cases "dp_provider dp")
    case Stub
    with auth identified_alone [where n = 1 and dp = dp and stamp = stamp] show ?thesis
      unfolding unroll(1) by (auto simp: app_authenticate_def stub_authenticate_def simp del: funpow.simps)
  next
    case (Oidc su)
    obtain r2 d2 where look: "(session_lookup (dp_db dp) (dp_sha dp) req d :: ('e session_error + session) \<times> 'd) = (r2, d2)"
      by fastforce
    with auth Oidc identified_alone [where n = 0 and dp = dp and stamp = stamp] show ?thesis
      unfolding unroll(2)
      by (cases r2) (auto simp: app_authenticate_def oidc_authenticate_def split: prod.splits sum.splits)
  qed
  also have "\<dots> = (Answered reply, d')"
    using assms auth by (auto simp: api_handle_def rest_handle_def require_human_auth_def collapse_def finish_api_def
        failed_reply_def unauthorized_reply_def split: prod.splits sum.splits)
  finally show ?thesis .
qed

subsection \<open>What a turn writes\<close>

context sql_database begin

text \<open>The transaction, run where the subject has an identity by now: nothing is written.\<close>

lemma create_human_tx_taken:
  assumes "db_transaction db (create_human_tx db uuid now subject name role) d = ((won, err), d')"
    "\<exists>i \<in> set (tb_identities (content d)). ident_subject i = subject"
  shows "content d' = content d \<and> (err = None \<longrightarrow> \<not> won)"
proof (cases err)
  case (Some e)
  with rollback [OF assms(1) [unfolded Some]] show ?thesis by simp
next
  case None
  obtain d0 d1 where tx: "content d0 = content d"
    "create_human_tx db uuid now subject name role d0 = ((won, None), d1)" "content d' = content d1"
    using commit [OF assms(1) [unfolded None]] by blast
  obtain r d2 where i: "sql_create_new (db_identities db) ident_subject (new_identity uuid subject role) d0 = (r, d2)"
    by fastforce
  with tx(2) obtain n where n: "r = Inr n" by (cases r) (auto simp: create_human_tx_def)
  have "n = 0" "content d2 = content d"
    using identities.create_new_ok [OF i [unfolded n]] assms(2) tx(1) by (auto simp: new_identity_def split: if_splits)
  with tx i n show ?thesis by (auto simp: create_human_tx_def)
qed

lemma registration_related:
  assumes "linked (content d)" "db_transaction db (create_human_tx db uuid now subject name role) d = ((won, err), d')"
  shows "table_write (RegisterHuman uuid) (content d) (content d')"
    "err = None \<Longrightarrow> \<exists>aid. owns subject (content d') aid"
    "err = None \<Longrightarrow> won \<Longrightarrow> owns subject (content d') uuid"
proof -
  let ?i = "new_identity uuid subject role" and ?a = "new_human uuid name now"
  have "content d' = content d \<and> (err = None \<longrightarrow> \<not> won \<and> (\<exists>aid. owns subject (content d) aid))
      \<or> content d' = add_human ?i ?a (content d) \<and> uniq_identities (tb_identities (content d) @ [?i])
          \<and> uniq_actors (tb_actors (content d) @ [?a])"
  proof (cases "\<exists>i \<in> set (tb_identities (content d)). ident_subject i = subject")
    case True
    with create_human_tx_taken [OF assms(2) True] show ?thesis by (auto simp: owns_def)
  next
    case False
    with create_human_tx_effect [OF assms(2)] show ?thesis by (cases err) auto
  qed
  then consider "content d' = content d" "err = None \<longrightarrow> \<not> won \<and> (\<exists>aid. owns subject (content d) aid)"
    | "content d' = add_human ?i ?a (content d)" "linked (add_human ?i ?a (content d))"
    using linked_add_human [OF assms(1), of ?a ?i] by (auto simp: new_identity_def new_human_def)
  note cases = this
  show "table_write (RegisterHuman uuid) (content d) (content d')"
    using cases
  proof cases
    case 1
    then show ?thesis using assms(1) by (intro table_write.human) simp_all
  next
    case 2
    then show ?thesis unfolding 2(1)
      by (intro table_write.human) (auto simp: same_but_humans_def add_human_def new_human_def owns_def)
  qed
  have new: "owns subject (add_human ?i ?a (content d)) uuid" by (simp add: owns_def add_human_def new_identity_def)
  show "\<exists>aid. owns subject (content d') aid" if "err = None"
    using cases
  proof cases
    case 1
    with that show ?thesis by simp
  next
    case 2
    with new show ?thesis by auto
  qed
  show "owns subject (content d') uuid" if "err = None" "won"
    using cases
  proof cases
    case 1
    with that show ?thesis by simp
  next
    case 2
    with new show ?thesis by simp
  qed
qed

lemma same_but_humans_set_role: "same_but_humans c (set_role i role c)"
  by (simp add: set_role_def)

lemma role_write:
  assumes "linked (content d)" "sql_update (db_identities db) (\<lambda>x. ident_actor x = i) (\<lambda>x. x\<lparr>ident_role := role\<rparr>) d = (err, d')"
  shows "table_write (RegisterHuman uuid) (content d) (content d')"
proof -
  have "content d' = content d \<or> content d' = set_role i role (content d)"
    using assms(2) identities.update_ok identities.update_failed by (cases err) (auto simp: set_role_def)
  then show ?thesis
  proof
    assume "content d' = set_role i role (content d)"
    moreover have "table_write (RegisterHuman uuid) (content d) (set_role i role (content d))"
      using assms(1) by (intro table_write.human) (simp_all add: linked_set_role owns_set_role same_but_humans_set_role)
    ultimately show ?thesis by simp
  qed (use assms(1) in \<open>simp add: table_write.human\<close>)
qed

end

lemma dispatch_permitted:
  assumes "sql_database content (dp_db dp)" "rest_dispatch (dp_router dp) (dp_db dp) env hm req d = (reply, d')"
  shows "table_writes (permitted dp (ApiRequest stamp env uuid now req)) (content d) (content d')"
proof (cases "dp_router dp rest_routes (rq_method req) (rq_path req)")
  case (Matched route i)
  obtain admin e where route: "route = (admin, e)" by fastforce
  have "content d' = content d \<or> (\<exists>ctx. call_endpoint (dp_db dp) env e i ctx req d = (reply, d'))"
    using assms(2) Matched route by (auto simp: rest_dispatch_def collapse_def require_admin_def split: if_splits prod.splits)
  then have "table_writes (route_writes env e) (content d) (content d')"
    using endpoint_writes sql_database.endpoint_effect [OF assms(1)] by fastforce
  then show ?thesis by (rule writes_mono) (auto simp: Matched route)
next
  case (Unrouted r)
  with assms(2) have "d' = d" by (auto simp: rest_dispatch_def collapse_def require_admin_def split: if_splits)
  then show ?thesis by simp
qed

lemma refresh_permitted:
  assumes "sql_database content db" "token_refresher (as_refresh st)" "session_refresh db g key st s d = (res, d')"
  shows "table_writes {ChangeSessions} (content d) (content d')"
  using sql_database.session_refresh_cases [OF assms(1,3)]
proof cases
  case (2 e)
  with without_session_write show ?thesis by auto
next
  case (3 token idn token' enc)
  from token_refresher.refresh_role [OF assms(2) 3(4)] show ?thesis
    unfolding 3(6) by (intro sessions_write uniq_sessions_save roles_known_save)
qed simp

text \<open>Before its endpoint runs a request writes sessions and identities only.\<close>

lemma api_turn_before_endpoint:
  fixes stamp :: "'e auth_stamp"
  assumes "sql_database content (dp_db dp)" "event_ok dp (ApiRequest stamp env uuid now req)" "linked (content d)"
    "api_turn dp stamp env uuid now req (pc, d) = (pc', d')" "\<forall>idn a. pc \<noteq> Admitted idn a"
  shows "table_writes {ChangeSessions, RegisterHuman uuid} (content d) (content d')"
proof -
  let ?K = "{ChangeSessions, RegisterHuman uuid}"
  have human: "table_writes ?K (content d) (content d')" if "table_write (RegisterHuman uuid) (content d) (content d')"
    using that by (rule writes_one) simp
  show ?thesis
  proof (cases pc)
    case ApiArrived
    show ?thesis
    proof (cases "dp_provider dp")
      case Stub
      with assms(4) ApiArrived show ?thesis by (auto simp: stub_authenticate_def)
    next
      case (Oidc su)
      obtain r d1 where l: "(session_lookup (dp_db dp) (dp_sha dp) req d :: ('e session_error + session) \<times> _) = (r, d1)" by fastforce
      from sql_database.session_lookup_effect [OF assms(1) l] l assms(4) ApiArrived Oidc show ?thesis
        by (cases r) auto
    qed
  next
    case (SessionRead s)
    show ?thesis
    proof (cases "dp_provider dp")
      case Stub
      with assms(4) SessionRead show ?thesis by simp
    next
      case (Oidc su)
      obtain r d1 where l: "session_refresh (dp_db dp) (dp_aead dp) (su_key su) stamp s d = (r, d1)" by fastforce
      have "token_refresher (as_refresh stamp)" using assms(2) by simp
      from refresh_permitted [OF assms(1) this l] have "table_writes ?K (content d) (content d1)" by (rule writes_mono) simp
      with l assms(4) SessionRead Oidc show ?thesis by (cases r) auto
    qed
  next
    case (Identified idn)
    obtain r d1 where f: "sql_first (db_identities (dp_db dp)) (\<lambda>i. ident_subject i = id_subject idn) d = (r, d1)" by fastforce
    then have "content d1 = content d"
      using sql_table.first_found [OF sql_database.axioms(3) [OF assms(1)]]
        sql_table.first_missing [OF sql_database.axioms(3) [OF assms(1)]] by (cases r) blast+
    with f assms(4) Identified show ?thesis by (cases r) auto
  next
    case (RoleDiffers idn i)
    obtain err d1 where u: "sql_update (db_identities (dp_db dp)) (\<lambda>x. ident_actor x = ident_actor i)
        (\<lambda>x. x\<lparr>ident_role := id_role idn\<rparr>) d = (err, d1)" by fastforce
    with assms(4) RoleDiffers have "d1 = d'" by (auto split: option.splits)
    with human sql_database.role_write [OF assms(1,3) u] show ?thesis by blast
  next
    case (NoIdentity idn)
    obtain won err d1 where t: "db_transaction (dp_db dp)
        (create_human_tx (dp_db dp) uuid now (id_subject idn) (id_name idn) (id_role idn)) d = ((won, err), d1)"
      by (metis prod.collapse)
    with assms(4) NoIdentity have "d1 = d'" by (auto split: option.splits)
    with human sql_database.registration_related(1) [OF assms(1,3) t] show ?thesis by blast
  next
    case (IdentityTaken idn)
    obtain r d1 where f: "sql_first (db_identities (dp_db dp)) (\<lambda>i. ident_subject i = id_subject idn) d = (r, d1)" by fastforce
    then have "content d1 = content d"
      using sql_table.first_found [OF sql_database.axioms(3) [OF assms(1)]]
        sql_table.first_missing [OF sql_database.axioms(3) [OF assms(1)]] by (cases r) blast+
    with f assms(4) IdentityTaken show ?thesis by (cases r) auto
  next
    case (ActorKnown idn i)
    obtain r d1 where l: "load_actor (dp_db dp) i d = (r, d1)" by fastforce
    from sql_database.load_actor_effect [OF assms(1) l] l assms(4) ActorKnown show ?thesis by (cases r) auto
  qed (use assms(4,5) in simp_all)
qed

lemma api_turn_permitted:
  assumes "sql_database content (dp_db dp)" "event_ok dp (ApiRequest stamp env uuid now req)" "linked (content d)"
    "api_turn dp stamp env uuid now req (pc, d) = (pc', d')"
  shows "table_writes (permitted dp (ApiRequest stamp env uuid now req)) (content d) (content d')"
proof (cases "\<exists>idn a. pc = Admitted idn a")
  case True
  then obtain idn a where pc: "pc = Admitted idn a" by blast
  obtain reply d1 where r: "rest_dispatch (dp_router dp) (dp_db dp) env \<lparr>hm_actor = a, hm_role = id_role idn\<rparr> req d = (reply, d1)"
    by fastforce
  with assms(4) pc have "d1 = d'" by simp
  with dispatch_permitted [OF assms(1) r] show ?thesis by blast
next
  case False
  then have "table_writes {ChangeSessions, RegisterHuman uuid} (content d) (content d')"
    by (intro api_turn_before_endpoint [OF assms]) simp
  then show ?thesis by (rule writes_mono) simp
qed

text \<open>What management is about: the agents, and their credentials but for the time of their last use.\<close>

definition managed :: "tables \<Rightarrow> actor list \<times> agent_credential list" where
  "managed c = (agents c, map (\<lambda>x. x\<lparr>cred_last_used := None\<rparr>) (tb_credentials c))"

fun managing :: "write_kind \<Rightarrow> bool" where
  "managing (AddAgent i) \<longleftrightarrow> True"
| "managing IssueCredential \<longleftrightarrow> True"
| "managing RevokeCredentials \<longleftrightarrow> True"
| "managing _ \<longleftrightarrow> False"

lemma write_keeps_managed: "table_write k c c' \<Longrightarrow> \<not> managing k \<Longrightarrow> managed c' = managed c"
  by (auto elim!: table_writeE simp: managed_def agents_def same_but_humans_def)

lemma writes_keep_managed: "table_writes K c c' \<Longrightarrow> \<forall>k \<in> K. \<not> managing k \<Longrightarrow> managed c' = managed c"
  by (induction rule: writes_induct) (auto dest: write_keeps_managed)

lemma api_turn_manages:
  assumes "sql_database content (dp_db dp)" "router_ok (dp_router dp)" "event_ok dp (ApiRequest stamp env uuid now req)"
    "linked (content d)" "api_turn dp stamp env uuid now req (pc, d) = (pc', d')" "managed (content d') \<noteq> managed (content d)"
  shows "\<exists>idn a. pc = Admitted idn a \<and> id_role idn = ''admin''"
proof (cases "\<exists>idn a. pc = Admitted idn a")
  case True
  then obtain idn a where pc: "pc = Admitted idn a" by blast
  obtain reply where r: "rest_dispatch (dp_router dp) (dp_db dp) env \<lparr>hm_actor = a, hm_role = id_role idn\<rparr> req d = (reply, d')"
    using assms(5) pc by (auto split: prod.splits)
  from sql_database.rest_dispatch_cases [OF assms(1,2) r] show ?thesis
  proof cases
    case 1
    with assms(6) show ?thesis by simp
  next
    case (2 admin e i)
    with assms(6) sql_database.open_endpoint_keeps [OF assms(1) _ 2(3)] pc show ?thesis by auto
  qed
next
  case False
  then have "table_writes {ChangeSessions, RegisterHuman uuid} (content d) (content d')"
    by (intro api_turn_before_endpoint [OF assms(1,3-5)]) simp
  from writes_keep_managed [OF this] assms(6) show ?thesis by simp
qed

subsection \<open>Who is admitted\<close>

definition api_known :: "tables \<Rightarrow> api_pc \<Rightarrow> bool" where
  "api_known c pc = (case pc of
      RoleDiffers idn i \<Rightarrow> owns (id_subject idn) c (ident_actor i)
    | IdentityTaken idn \<Rightarrow> \<exists>aid. owns (id_subject idn) c aid
    | ActorKnown idn aid \<Rightarrow> owns (id_subject idn) c aid
    | Admitted idn a \<Rightarrow> a \<in> set (tb_actors c) \<and> owns (id_subject idn) c (actor_id a)
    | _ \<Rightarrow> True)"

lemma write_keeps_identity:
  assumes "table_write k c c'" "owns subject c aid" shows "owns subject c' aid"
  using assms(1)
proof (cases rule: table_write.cases)
  case (human i)
  with assms(2) show ?thesis by blast
qed (use assms(2) in \<open>auto simp: owns_def\<close>)

lemma writes_keep_identity: "table_writes K c c' \<Longrightarrow> owns subject c aid \<Longrightarrow> owns subject c' aid"
  by (induction rule: writes_induct) (auto intro: write_keeps_identity)

lemma api_known_later: "table_writes K c c' \<Longrightarrow> api_known c pc \<Longrightarrow> api_known c' pc"
  using writes_keep_identity writes_keep_actors by (cases pc) (fastforce simp: api_known_def)+

context sql_database begin

lemma identity_found:
  assumes "sql_first (db_identities db) (\<lambda>i. ident_subject i = subject) d = (Inr i, d1)"
  shows "owns subject (content d) (ident_actor i)"
  using identities.first_found [OF assms] by (auto simp: owns_def)

end

lemma api_turn_known:
  fixes stamp :: "'e auth_stamp"
  assumes "sql_database content (dp_db dp)" "event_ok dp (ApiRequest stamp env uuid now req)" "linked (content d)"
    "api_known (content d) pc" "api_turn dp stamp env uuid now req (pc, d) = (pc', d')"
  shows "api_known (content d') pc'"
proof -
  note writes = api_turn_permitted [OF assms(1-3,5)]
  have later: "api_known (content d') pc'" if "api_known (content d) pc'"
    using api_known_later [OF writes that] .
  show ?thesis
  proof (cases pc)
    case ApiArrived
    with assms(5) show ?thesis
      by (intro later) (auto simp: api_known_def split: auth_provider.splits prod.splits sum.splits)
  next
    case (SessionRead s)
    with assms(5) show ?thesis
      by (intro later) (auto simp: api_known_def split: auth_provider.splits prod.splits sum.splits)
  next
    case (Identified idn)
    with assms(5) sql_database.identity_found [OF assms(1)] show ?thesis
      by (intro later) (auto simp: api_known_def failed_reply_def split: prod.splits sum.splits)
  next
    case (RoleDiffers idn i)
    with assms(4,5) show ?thesis
      by (intro later) (auto simp: api_known_def failed_reply_def split: prod.splits option.splits)
  next
    case (NoIdentity idn)
    obtain won err d1 where t: "db_transaction (dp_db dp)
        (create_human_tx (dp_db dp) uuid now (id_subject idn) (id_name idn) (id_role idn)) d = ((won, err), d1)"
      by (metis prod.collapse)
    with assms(5) NoIdentity sql_database.registration_related(2,3) [OF assms(1,3) t] show ?thesis
      by (cases err) (auto simp: api_known_def failed_reply_def)
  next
    case (IdentityTaken idn)
    with assms(5) sql_database.identity_found [OF assms(1)] show ?thesis
      by (intro later) (auto simp: api_known_def failed_reply_def split: prod.splits sum.splits)
  next
    case (ActorKnown idn i)
    obtain r d1 where l: "load_actor (dp_db dp) i d = (r, d1)" by fastforce
    from sql_database.load_actor_effect [OF assms(1) l] l assms(4,5) ActorKnown show ?thesis
      by (intro later) (cases r, auto simp: api_known_def failed_reply_def)
  next
    case (Admitted idn a)
    with assms(5) show ?thesis by (intro later) (auto simp: api_known_def split: prod.splits)
  qed (use assms(5) in \<open>auto simp: api_known_def\<close>)
qed

lemma admitted_same:
  assumes "linked c" "api_known c (Admitted idn a)" "api_known c (Admitted idn' b)" "id_subject idn = id_subject idn'"
  shows "a = b \<and> actor_kind a = HumanKind"
proof -
  obtain i j where i: "i \<in> set (tb_identities c)" "ident_subject i = id_subject idn" "ident_actor i = actor_id a"
    and j: "j \<in> set (tb_identities c)" "ident_subject j = id_subject idn" "ident_actor j = actor_id b"
    using assms(2-4) by (auto simp: api_known_def owns_def)
  have in_c: "a \<in> set (tb_actors c)" "b \<in> set (tb_actors c)" using assms(2,3) by (simp_all add: api_known_def)
  obtain h where h: "h \<in> set (tb_actors c)" "actor_id h = ident_actor i" "actor_kind h = HumanKind"
    using assms(1) i(1) by (auto simp: linked_def)
  from linked_same_actor [OF assms(1) i(1) j(1) _ in_c] linked_same_actor [OF assms(1) i(1) i(1) refl in_c(1) h(1)] i j h
  show ?thesis by simp
qed

subsection \<open>Answers\<close>

text \<open>A request is answered by one of the refusals, or by the endpoint that its route names.\<close>

lemma api_turn_answers:
  assumes "sql_database content (dp_db dp)" "router_ok (dp_router dp)"
    "api_turn dp stamp env uuid now req (pc, d) = (Answered reply, d')" "pc \<noteq> Answered reply"
  shows "hr_status reply \<in> {302, 401, 403, 404, 405, 500}
    \<or> (\<exists>idn a admin e i. pc = Admitted idn a \<and> dp_router dp rest_routes (rq_method req) (rq_path req) = Matched (admin, e) i
        \<and> (open_endpoint e \<or> id_role idn = ''admin'')
        \<and> call_endpoint (dp_db dp) env e i (Some \<lparr>hm_actor = a, hm_role = id_role idn\<rparr>) req d = (reply, d'))"
proof (cases "\<exists>idn a. pc = Admitted idn a")
  case True
  then obtain idn a where pc: "pc = Admitted idn a" by blast
  with assms(3) have "rest_dispatch (dp_router dp) (dp_db dp) env \<lparr>hm_actor = a, hm_role = id_role idn\<rparr> req d = (reply, d')"
    by (simp split: prod.splits)
  from sql_database.rest_dispatch_cases [OF assms(1,2) this] show ?thesis
  proof cases
    case (2 admin e i)
    with pc show ?thesis by auto
  qed auto
next
  case False
  have "hr_status (unauthorized_reply req) \<in> {302, 401}" by (simp add: unauthorized_reply_def http_found_def http_error_def)
  with False assms(3,4) show ?thesis
    by (cases pc) (auto simp: http_error_def failed_reply_def
        split: prod.splits sum.splits option.splits if_splits auth_provider.splits)
qed

text \<open>The turn at which a request to a revoking route comes to be answered with 204 leaves the hash of the
  credential dead.\<close>

lemma api_turn_kills:
  assumes "sql_database content (dp_db dp)" "router_ok (dp_router dp)" "uniq_credentials (tb_credentials (content d))"
    "x \<in> set (tb_credentials (content d))"
    "dp_router dp rest_routes (rq_method req) (rq_path req) \<in> {Matched (b, RevokeToken) (cred_id x), Matched (b, DeleteAgent) (cred_actor x)}"
    "api_turn dp stamp env uuid now req (pc, d) = (Answered reply, d')" "pc \<noteq> Answered reply" "hr_status reply = 204"
  shows "dead_hash (cred_hash x) (content d')"
proof -
  from api_turn_answers [OF assms(1,2,6,7)] assms(5,8) obtain e i ctx where
    "call_endpoint (dp_db dp) env e i ctx req d = (reply, d')" "e = RevokeToken \<and> i = cred_id x \<or> e = DeleteAgent \<and> i = cred_actor x"
    by auto
  from revoking_route_kills [OF assms(1) this(1) assms(8) this(2) assms(3,4)] show ?thesis .
qed

end
