(* ===== verification/Fetch_Conc.thy ===== *)
theory Fetch_Conc
  imports Fetch Turns
begin

section \<open>Concurrent calls of Fetch on the shared caches (internal/tools/fetch/fetch.go)\<close>

text \<open>
  One Fetcher serves every request, each in its own goroutine; the mutex of a cache makes
  its operations atomic, and nothing else is shared. A call is cut where it touches a
  cache: the lookup of the result, the lookup of the snapshot, and the exchange with the
  origin up to the Put at its end. Between two turns of a call any other call may take
  its turns. A call and what its surroundings answer to it is a \<open>fetch_call\<close>; the requests
  that were sent are kept in a log, with the call that sent them.
\<close>

subsection \<open>Calls and their turns\<close>

record fetch_call =
  fc_env :: fetch_env
  fc_url :: string
  fc_offset :: int
  fc_caller :: string

datatype fetch_pc =
  Arrived
| ResultMissed parsed_url
| SnapshotMissed parsed_url
| Ended "fetch_error + fetch_result"

definition call_snap_key :: "fetch_call \<Rightarrow> string" where
  "call_snap_key c = snap_key (fc_caller c) (fc_url c)"

definition call_result_key :: "fetch_call \<Rightarrow> string" where
  "call_result_key c = result_key (fc_caller c) (fc_url c) (fc_offset c)"

fun fetch_turn :: "fetch_call \<Rightarrow> fetch_pc \<Rightarrow> fetcher \<Rightarrow> fetch_pc \<times> fetcher \<times> string list" where
  "fetch_turn c Arrived f =
     (if trim_space (fc_url c) = [] then (Ended (Inl ErrEmptyURL), f, [])
      else if fc_offset c < 0 then (Ended (Inl ErrNegativeOffset), f, [])
      else case env_parse (fc_env c) (fc_url c) of
        Inl e \<Rightarrow> (Ended (Inl (ParseURL e)), f, [])
      | Inr u \<Rightarrow>
          if url_scheme u \<noteq> ''http'' \<and> url_scheme u \<noteq> ''https'' then
            (Ended (Inl (UnsupportedScheme (url_scheme u))), f, [])
          else case lookup_result (fc_env c) f (call_result_key c) of
            (Some r, f1) \<Rightarrow> (Ended (Inr r), f1, [])
          | (None, f1) \<Rightarrow> (ResultMissed u, f1, []))"
| "fetch_turn c (ResultMissed u) f =
     (case lookup_snapshot (fc_env c) f (call_snap_key c) of
        (Some entry, f1) \<Rightarrow>
          (Ended (page_result (f_max_bytes f1) (url_redacted u) (doc_status entry)
             (doc_content_type entry) (doc_body entry) (fc_offset c)), f1, [])
      | (None, f1) \<Rightarrow> (SnapshotMissed u, f1, []))"
| "fetch_turn c (SnapshotMissed u) f =
     (case do_get (fc_env c) u of
        (Inl e, reqs) \<Rightarrow> (Ended (Inl e), f, reqs)
      | (Inr resp, reqs) \<Rightarrow>
          case fetch_response (fc_env c) f u resp (fc_offset c) (call_snap_key c) (call_result_key c) of
            (res, f1) \<Rightarrow> (Ended res, f1, reqs))"
| "fetch_turn c (Ended res) f = (Ended res, f, [])"

subsection \<open>A call by itself is Fetch\<close>

lemma fetch_doc_turns:
  assumes "fetch_doc (fc_env c) f (fc_url c) (fc_offset c) (fc_caller c) = (res, f', reqs)"
  shows "own_turns fetch_turn c 3 Arrived f = (Ended res, f', reqs)"
  using assms
  by (auto simp: numeral_3_eq_3 fetch_doc_def Let_def call_snap_key_def call_result_key_def
      split: if_splits sum.splits prod.splits option.splits)

text \<open>How far a call has come; every turn takes it further.\<close>

fun fetch_stage :: "fetch_pc \<Rightarrow> nat" where
  "fetch_stage Arrived = 0"
| "fetch_stage (ResultMissed u) = 1"
| "fetch_stage (SnapshotMissed u) = 2"
| "fetch_stage (Ended res) = 3"

lemma fetch_stage_3 [simp]: "3 \<le> fetch_stage pc \<longleftrightarrow> (\<exists>res. pc = Ended res)"
  by (cases pc) simp_all

lemma fetch_turn_progress: "fetch_turn c pc f = (pc', f', reqs) \<Longrightarrow> min 3 (Suc (fetch_stage pc)) \<le> fetch_stage pc'"
  by (cases "(c, pc, f)" rule: fetch_turn.cases) (auto split: if_splits sum.splits prod.splits option.splits)

interpretation fetching: finite_turns fetch_turn fetch_stage 3
  by unfold_locales (rule fetch_turn_progress)

subsection \<open>What the calls get\<close>

text \<open>The responses that the origins gave to the requests of a log, with the caller and the URL that
  they were asked for.\<close>

definition origin_gave :: "(nat \<Rightarrow> fetch_call) \<Rightarrow> (nat \<times> string) list \<Rightarrow> string \<Rightarrow> string \<Rightarrow> http_response \<Rightarrow> bool" where
  "origin_gave calls log caller url resp \<longleftrightarrow>
     (\<exists>j u. (j, url_string u) \<in> set log \<and> fc_caller (calls j) = caller \<and> fc_url (calls j) = url
        \<and> env_parse (fc_env (calls j)) url = Inr u \<and> env_origin (fc_env (calls j)) (url_string u) = Inr resp)"

definition pc_from :: "(string \<Rightarrow> string \<Rightarrow> http_response \<Rightarrow> bool) \<Rightarrow> fetch_call \<Rightarrow> fetch_pc \<Rightarrow> bool" where
  "pc_from ob c pc \<longleftrightarrow> (case pc of
      Arrived \<Rightarrow> True
    | ResultMissed u \<Rightarrow> env_parse (fc_env c) (fc_url c) = Inr u
    | SnapshotMissed u \<Rightarrow> env_parse (fc_env c) (fc_url c) = Inr u
    | Ended (Inl e) \<Rightarrow> True
    | Ended (Inr r) \<Rightarrow> \<exists>resp. ob (fc_caller c) (fc_url c) resp \<and> from_response resp (fc_offset c) r)"

lemma pc_from_simps [simp]:
  "pc_from ob c Arrived" "pc_from ob c (Ended (Inl e))"
  "pc_from ob c (ResultMissed u) \<longleftrightarrow> env_parse (fc_env c) (fc_url c) = Inr u"
  "pc_from ob c (SnapshotMissed u) \<longleftrightarrow> env_parse (fc_env c) (fc_url c) = Inr u"
  "pc_from ob c (Ended (Inr r)) \<longleftrightarrow> (\<exists>resp. ob (fc_caller c) (fc_url c) resp \<and> from_response resp (fc_offset c) r)"
  by (simp_all add: pc_from_def)

text \<open>All of it is monotonic in what was obtained.\<close>

lemma fetcher_sat_mono:
  "fetcher_sat S R f \<Longrightarrow> (\<And>k e. S k e \<Longrightarrow> S' k e) \<Longrightarrow> (\<And>k r. R k r \<Longrightarrow> R' k r) \<Longrightarrow> fetcher_sat S' R' f"
  by (auto simp: fetcher_sat_def all_stored_def)

lemma origins_mono:
  assumes "\<And>c u resp. ob c u resp \<Longrightarrow> ob' c u resp"
  shows "fetcher_sat (snap_origin ob) (result_origin ob) f \<Longrightarrow> fetcher_sat (snap_origin ob') (result_origin ob') f"
    "pc_from ob c pc \<Longrightarrow> pc_from ob' c pc"
proof -
  show "fetcher_sat (snap_origin ob) (result_origin ob) f \<Longrightarrow> fetcher_sat (snap_origin ob') (result_origin ob') f"
    by (erule fetcher_sat_mono) (use assms in \<open>unfold snap_origin_def result_origin_def, blast+\<close>)
  show "pc_from ob c pc \<Longrightarrow> pc_from ob' c pc"
    using assms by (auto simp: pc_from_def split: fetch_pc.splits sum.splits)
qed

lemma fetch_turn_from:
  assumes sat: "fetcher_sat (snap_origin ob) (result_origin ob) f" and pc: "pc_from ob c pc"
    and clean: "nul \<notin> set (fc_caller c)" and turn: "fetch_turn c pc f = (pc', f', reqs)"
    and sent: "\<And>u resp. env_parse (fc_env c) (fc_url c) = Inr u \<Longrightarrow> url_string u \<in> set reqs
      \<Longrightarrow> env_origin (fc_env c) (url_string u) = Inr resp \<Longrightarrow> ob (fc_caller c) (fc_url c) resp"
  shows "fetcher_sat (snap_origin ob) (result_origin ob) f' \<and> pc_from ob c pc'"
proof (cases pc)
  case Arrived
  consider (refused) "f' = f" "\<exists>e. pc' = Ended (Inl e)"
    | (looked) r u f1 where "lookup_result (fc_env c) f (call_result_key c) = (r, f1)" "f' = f1"
        "env_parse (fc_env c) (fc_url c) = Inr u"
        "pc' = (case r of None \<Rightarrow> ResultMissed u | Some x \<Rightarrow> Ended (Inr x))"
    using turn Arrived by (auto split: if_splits sum.splits prod.splits option.splits)
  then show ?thesis
  proof cases
    case looked
    from lookup_result_sat [OF sat looked(1)] looked(2-4) clean show ?thesis
      by (auto simp: call_result_key_def result_key_def split: option.splits if_splits
          intro: result_hit_from [unfolded result_key_def, of ob "fc_caller c" "fc_url c" "fc_offset c"])
  qed (use sat in auto)
next
  case (ResultMissed u)
  obtain e f1 where l: "lookup_snapshot (fc_env c) f (call_snap_key c) = (e, f1)" by fastforce
  note hit = lookup_snapshot_sat [OF sat l]
  show ?thesis
  proof (cases e)
    case None
    with hit turn ResultMissed l pc show ?thesis by auto
  next
    case (Some entry)
    with turn ResultMissed l have out: "f' = f1" "pc' = Ended (page_result (f_max_bytes f1) (url_redacted u) (doc_status entry)
        (doc_content_type entry) (doc_body entry) (fc_offset c))" by auto
    have "fc_caller c \<noteq> []" "snap_origin ob (snap_key (fc_caller c) (fc_url c)) entry"
      using hit Some by (auto simp: call_snap_key_def snap_key_def)
    from snapshot_hit_from [OF this(2,1) clean] hit out show ?thesis
      by (auto simp: pc_from_def split: sum.splits)
  qed
next
  case (SnapshotMissed u)
  then have u: "env_parse (fc_env c) (fc_url c) = Inr u" using pc by simp
  show ?thesis
  proof (cases "env_origin (fc_env c) (url_string u)")
    case (Inl e)
    with turn SnapshotMissed sat show ?thesis by (cases e) (auto simp: do_get_def)
  next
    case (Inr resp)
    obtain res f1 where run: "fetch_response (fc_env c) f u resp (fc_offset c) (call_snap_key c) (call_result_key c) = (res, f1)"
      by fastforce
    with turn SnapshotMissed Inr have out: "pc' = Ended res" "f' = f1" "reqs = [url_string u]" by (auto simp: do_get_def)
    have "ob (fc_caller c) (fc_url c) resp" using sent [OF u] out(3) Inr by simp
    from fetch_response_sat [OF sat origin_ways [where ob = ob, OF this clean] run [unfolded call_snap_key_def call_result_key_def]] out
    show ?thesis by (cases res) auto
  qed
next
  case (Ended res)
  with turn sat pc show ?thesis by simp
qed

definition callers_clean :: "(nat \<Rightarrow> fetch_call) \<Rightarrow> bool" where
  "callers_clean calls \<longleftrightarrow> (\<forall>i. nul \<notin> set (fc_caller (calls i)))"

definition fetcher_from :: "(nat \<Rightarrow> fetch_call) \<Rightarrow> (nat \<times> string) list \<Rightarrow> fetcher \<Rightarrow> bool" where
  "fetcher_from calls log f \<longleftrightarrow>
     fetcher_sat (snap_origin (origin_gave calls log)) (result_origin (origin_gave calls log)) f"

lemma origin_gave_mono: "origin_gave calls log c u resp \<Longrightarrow> origin_gave calls (log @ later) c u resp"
  unfolding origin_gave_def by auto

interpretation fetches: sound_turns fetch_turn callers_clean fetcher_from "\<lambda>calls log. pc_from (origin_gave calls log)"
proof
  fix calls :: "nat \<Rightarrow> fetch_call" and log later :: "(nat \<times> string) list" and f f' c pc pc' i reqs
  let ?ob = "origin_gave calls log" and ?ob' = "origin_gave calls (log @ later)"
  show "pc_from ?ob c pc \<Longrightarrow> pc_from ?ob' c pc" by (rule origins_mono) (rule origin_gave_mono)
  let ?ob' = "origin_gave calls (log @ map (Pair i) reqs)"
  assume clean: "callers_clean calls" and inv: "fetcher_from calls log f" and pc: "pc_from ?ob (calls i) pc"
    and turn: "fetch_turn (calls i) pc f = (pc', f', reqs)"
  have "fetcher_sat (snap_origin ?ob') (result_origin ?ob') f" "pc_from ?ob' (calls i) pc"
    using inv pc origins_mono [of ?ob ?ob', OF origin_gave_mono] by (auto simp: fetcher_from_def)
  from fetch_turn_from [OF this _ turn] clean
  show "fetcher_from calls (log @ map (Pair i) reqs) f' \<and> pc_from ?ob' (calls i) pc'"
    by (auto simp: fetcher_from_def callers_clean_def origin_gave_def)
qed

lemma start_from:
  assumes "2 * maxb \<le> max_int64" "2 * budget \<le> max_int64"
  shows "fetcher_from calls [] (new_fetcher t maxb budget d)"
  using new_fetcher_sat [OF assms] by (simp add: fetcher_from_def)

subsection \<open>What the caches hold is what they account for\<close>

definition body_bytes :: "doc_entry \<Rightarrow> int" where
  "body_bytes e = blen (doc_body e)"

definition page_bytes :: "fetch_result \<Rightarrow> int" where
  "page_bytes r = blen (res_content r)"

definition fetcher_sized :: "fetcher \<Rightarrow> bool" where
  "fetcher_sized f \<longleftrightarrow> sized body_bytes (f_snapshots f) \<and> sized page_bytes (f_results f)"

lemma store_result_sized:
  assumes "fetcher_sized f"
  shows "fetcher_sized (store_result now key res f) \<and> f_cache_budget (store_result now key res f) = f_cache_budget f"
proof (cases res)
  case (Some r)
  with assms sized_put [of page_bytes "f_results f" now key r] show ?thesis
    by (simp add: store_result_def fetcher_sized_def page_bytes_def)
qed (use assms in \<open>simp add: store_result_def\<close>)

lemma capture_sized:
  assumes "fetcher_sized f" "capture_and_page env f u resp key = (res, captured, f')"
  shows "fetcher_sized f' \<and> f_cache_budget f' = f_cache_budget f"
proof -
  have put: "fetcher_sized (f\<lparr>f_snapshots := cache_put now key e (blen (doc_body e)) (f_snapshots f)\<rparr>)" for now e
    using assms(1) sized_put [of body_bytes "f_snapshots f" now key e] by (simp add: fetcher_sized_def body_bytes_def)
  have "f' = f \<or> (\<exists>now e. f' = f\<lparr>f_snapshots := cache_put now key e (blen (doc_body e)) (f_snapshots f)\<rparr>)"
  proof (cases "read_chunk (resp_body resp) (f_max_bytes f) 0")
    case (Pair r body1)
    show ?thesis
    proof (cases r)
      case (Inr pb)
      obtain rest ended where "capture_rest (env_timely env) body1 (wrap64 (f_cache_budget f - blen (fst pb))) = (rest, ended)"
        by fastforce
      with assms(2) Pair Inr show ?thesis
        by (cases pb) (auto simp: capture_and_page_def Let_def split: if_splits intro!: exI [of _ "env_clock env 2"]
            exI [of _ "\<lparr>doc_body = fst pb @ rest, doc_status = resp_status resp,
              doc_content_type = resp_content_type resp\<rparr>"])
    qed (use assms(2) Pair in \<open>simp add: capture_and_page_def\<close>)
  qed
  with put assms(1) show ?thesis by auto
qed

lemma lookup_result_sized:
  assumes "fetcher_sized f" "lookup_result env f key = (r, f1)"
  shows "fetcher_sized f1 \<and> f_cache_budget f1 = f_cache_budget f"
  using assms sized_get [of page_bytes "f_results f" "env_clock env 0" key]
  by (auto simp: lookup_result_def fetcher_sized_def split: if_splits prod.splits)

lemma lookup_snapshot_sized:
  assumes "fetcher_sized f" "lookup_snapshot env f key = (r, f1)"
  shows "fetcher_sized f1 \<and> f_cache_budget f1 = f_cache_budget f"
  using assms sized_get [of body_bytes "f_snapshots f" "env_clock env 1" key]
  by (auto simp: lookup_snapshot_def fetcher_sized_def split: if_splits prod.splits)

lemma response_sized:
  assumes "fetcher_sized f" "fetch_response env f u resp off skey rkey = (res, f1)"
  shows "fetcher_sized f1 \<and> f_cache_budget f1 = f_cache_budget f"
proof (cases "capture_and_page env f u resp skey")
  case (fields r captured f2)
  from capture_sized [OF assms(1) this] assms(2) fields assms(1) store_result_sized show ?thesis
    by (auto simp: fetch_response_def Let_def split: if_splits)
qed

lemma fetch_turn_sized:
  assumes "fetcher_sized f" "fetch_turn c pc f = (pc', f', reqs)"
  shows "fetcher_sized f' \<and> f_cache_budget f' = f_cache_budget f"
proof (cases pc)
  case Arrived
  with assms lookup_result_sized [OF assms(1)] show ?thesis by (auto split: if_splits sum.splits prod.splits option.splits)
next
  case (ResultMissed u)
  with assms lookup_snapshot_sized [OF assms(1)] show ?thesis by (auto split: prod.splits option.splits)
next
  case (SnapshotMissed u)
  with assms response_sized [OF assms(1)] show ?thesis by (auto split: prod.splits sum.splits)
qed (use assms in simp)

lemma turns_sized:
  assumes "fetcher_sized (tn_state s)"
  shows "fetcher_sized (tn_state (take_turns fetch_turn calls sched s))
    \<and> f_cache_budget (tn_state (take_turns fetch_turn calls sched s)) = f_cache_budget (tn_state s)"
  using assms
proof (induction sched arbitrary: s)
  case (Cons i sched)
  obtain pc f reqs where t: "fetch_turn (calls i) (tn_pc s i) (tn_state s) = (pc, f, reqs)" by (metis prod.collapse)
  from fetch_turn_sized [OF Cons.prems t] Cons.IH [of "take_turn fetch_turn calls i s"] t show ?case by (simp add: take_turn_def)
qed simp

subsection \<open>An example\<close>

text \<open>Two agents ask for the same URL, and the origin answers them differently; then the first asks again.\<close>

definition example_calls :: "nat \<Rightarrow> fetch_call" where
  "example_calls i = \<lparr>fc_env = example_env (if i = 1 then ''other'' else ''hello'') 7, fc_url = ''http://x'',
     fc_offset = 0, fc_caller = (if i = 1 then ''a2'' else ''a1'')\<rparr>"

lemma example_calls_clean: "callers_clean example_calls"
  by (simp add: callers_clean_def example_calls_def nul_def)

lemma example_lookups:
  "fetch_turn (example_calls i) Arrived (new_fetcher t m b d)
     = (ResultMissed \<lparr>url_scheme = ''http'', url_redacted = ''http://x'', url_string = ''http://x''\<rparr>, new_fetcher t m b d, [])"
  "fetch_turn (example_calls i) (ResultMissed u) (new_fetcher t m b d) = (SnapshotMissed u, new_fetcher t m b d, [])"
  by (simp_all add: example_calls_def example_env_def example_url new_fetcher_misses)

lemma example_interleaving:
  "\<exists>r. tn_pc (take_turns fetch_turn example_calls [0, 1, 0, 1, 0] (server_start Arrived (new_fetcher 0 4 8 0))) 0 = Ended (Inr r)"
proof -
  let ?f = "new_fetcher 0 4 8 0" and ?u = "\<lparr>url_scheme = ''http'', url_redacted = ''http://x'', url_string = ''http://x''\<rparr>"
  let ?c = "example_calls 0"
  obtain res f1 where run: "fetch_response (fc_env ?c) ?f ?u (example_response ''hello'') (fc_offset ?c)
      (call_snap_key ?c) (call_result_key ?c) = (res, f1)" by fastforce
  have "\<exists>r. res = Inr r"
    by (rule fetch_response_total [OF run]) (simp_all add: example_response_def example_calls_def new_fetcher_sel max_int64_def)
  moreover have "do_get (fc_env ?c) ?u = (Inr (example_response ''hello''), [''http://x''])"
    by (simp add: do_get_def example_calls_def example_env_def)
  ultimately show ?thesis
    using run by (auto simp: take_turn_def example_lookups simp del: fetch_turn.simps(1,2))
qed

subsection \<open>Properties\<close>

text \<open>Concurrent requests never mix documents. Whatever calls run at the same time on one Fetcher and
  however their cache operations and exchanges interleave, a page that a call ends with is a
  piece, at the offset it asked for, of a response that an origin gave to an exchange already
  sent by a call of the same caller for the same URL.\<close>

theorem concurrent_fetches_are_isolated:
  assumes "2 * maxb \<le> max_int64" "2 * budget \<le> max_int64" "callers_clean calls"
    "s = take_turns fetch_turn calls sched (server_start Arrived (new_fetcher timeout maxb budget lifetime))"
    "tn_pc s i = Ended (Inr r)"
  shows "\<exists>j u resp. (j, url_string u) \<in> set (tn_log s) \<and> fc_caller (calls j) = fc_caller (calls i)
    \<and> fc_url (calls j) = fc_url (calls i) \<and> env_parse (fc_env (calls j)) (fc_url (calls j)) = Inr u
    \<and> env_origin (fc_env (calls j)) (url_string u) = Inr resp \<and> from_response resp (fc_offset (calls i)) r"
proof -
  have "pc_from (origin_gave calls (tn_log s)) (calls i) (tn_pc s i)"
    by (rule fetches.run_sound(2) [OF assms(3) start_from [OF assms(1,2)] _ assms(4)]) simp
  with assms(5) show ?thesis unfolding origin_gave_def by fastforce
qed

theorem concurrent_fetches_are_isolated_witness:
  "let s = take_turns fetch_turn example_calls [0, 1, 0, 1, 0] (server_start Arrived (new_fetcher 0 4 8 0))
   in \<exists>r resp. tn_pc s 0 = Ended (Inr r) \<and> resp = example_response ''hello'' \<and> from_response resp 0 r"
proof -
  let ?s = "take_turns fetch_turn example_calls [0, 1, 0, 1, 0] (server_start Arrived (new_fetcher 0 4 8 0))"
  have sizes: "2 * 4 \<le> max_int64" "2 * 8 \<le> max_int64" by (simp_all add: max_int64_def)
  obtain r where r: "tn_pc ?s 0 = Ended (Inr r)" using example_interleaving by blast
  obtain j and u :: parsed_url and resp where "fc_caller (example_calls j) = fc_caller (example_calls 0)"
    "env_origin (fc_env (example_calls j)) (url_string u) = Inr resp" "from_response resp (fc_offset (example_calls 0)) r"
    using concurrent_fetches_are_isolated [OF sizes example_calls_clean refl r] by blast
  then have "resp = example_response ''hello''" "from_response resp 0 r"
    by (auto simp: example_calls_def example_env_def split: if_splits)
  with r show ?thesis by (simp add: Let_def)
qed

text \<open>C21: the memory of the caches stays bounded under load. At every point of every interleaving of any
  number of calls, the bytes of the bodies that the snapshot cache holds, and those of the
  pages that the result cache holds, add up to what the cache accounts for, and are at
  most the cache budget, which is the one the fetcher was built with, is at least the page
  size, and fits the counter twice.\<close>

theorem concurrent_caches_within_budget:
  assumes "2 * maxb \<le> max_int64" "2 * budget \<le> max_int64" "callers_clean calls"
    "f = tn_state (take_turns fetch_turn calls sched (server_start Arrived (new_fetcher timeout maxb budget lifetime)))"
  shows "stored_bytes body_bytes (f_snapshots f) = cache_used (f_snapshots f) \<and> cache_used (f_snapshots f) \<le> f_cache_budget f
    \<and> stored_bytes page_bytes (f_results f) = cache_used (f_results f) \<and> cache_used (f_results f) \<le> f_cache_budget f
    \<and> f_cache_budget f = f_cache_budget (new_fetcher timeout maxb budget lifetime)
    \<and> f_max_bytes f \<le> f_cache_budget f \<and> 2 * f_cache_budget f \<le> max_int64"
proof -
  have "fetcher_inv f"
    using fetches.run_sound(1) [OF assms(3) start_from [OF assms(1,2)] _ refl, where pc = Arrived and sched = sched]
    by (simp add: fetcher_from_def fetcher_sat_def assms(4))
  moreover have "fetcher_sized f" "f_cache_budget f = f_cache_budget (new_fetcher timeout maxb budget lifetime)"
    using turns_sized [of "server_start Arrived (new_fetcher timeout maxb budget lifetime)" calls sched]
    by (simp_all add: assms(4) fetcher_sized_def new_fetcher_def Let_def)
  ultimately show ?thesis
    using mem.used_bounds [of "f_snapshots f"] mem.used_bounds [of "f_results f"]
    by (auto simp: fetcher_inv_def fetcher_sized_def cache_max_bytes_def cache_used_def stored_bytes_used)
qed

theorem concurrent_caches_within_budget_witness:
  "let f = tn_state (take_turns fetch_turn example_calls [0, 1, 0, 1, 0, 1, 2] (server_start Arrived (new_fetcher 0 4 8 0)))
   in stored_bytes body_bytes (f_snapshots f) \<le> 8 \<and> stored_bytes page_bytes (f_results f) \<le> 8"
proof -
  have "2 * 4 \<le> max_int64" "2 * 8 \<le> max_int64" by (simp_all add: max_int64_def)
  from concurrent_caches_within_budget [OF this example_calls_clean refl, of "[0, 1, 0, 1, 0, 1, 2]" 0 0]
  show ?thesis unfolding Let_def by (simp add: new_fetcher_sel)
qed

text \<open>Every call ends, and alone it is Fetch. A call that has had three turns has ended, whatever the
  others did in between; and three turns in a row leave the outcome, the caches and the
  requests of \<open>fetch_doc\<close>.\<close>

theorem fetch_call_ends:
  assumes "s = take_turns fetch_turn calls sched start"
  shows "(3 \<le> count_list sched i \<longrightarrow> (\<exists>res. tn_pc s i = Ended res))
    \<and> (tn_pc s i = Arrived \<longrightarrow> (\<forall>res f reqs.
        fetch_doc (fc_env (calls i)) (tn_state s) (fc_url (calls i)) (fc_offset (calls i)) (fc_caller (calls i)) = (res, f, reqs)
        \<longrightarrow> take_turns fetch_turn calls [i, i, i] s
            = s\<lparr>tn_state := f, tn_pc := (tn_pc s)(i := Ended res), tn_log := tn_log s @ map (Pair i) reqs\<rparr>))"
proof (intro conjI impI allI)
  assume "3 \<le> count_list sched i"
  from fetching.ends_in_time [OF this] show "\<exists>res. tn_pc s i = Ended res" by (simp add: assms)
next
  fix res f reqs
  assume fresh: "tn_pc s i = Arrived" and doc: "fetch_doc (fc_env (calls i)) (tn_state s) (fc_url (calls i))
    (fc_offset (calls i)) (fc_caller (calls i)) = (res, f, reqs)"
  have "own_turns fetch_turn (calls i) 3 (tn_pc s i) (tn_state s) = (Ended res, f, reqs)"
    unfolding fresh by (rule fetch_doc_turns [OF doc])
  from take_own_turns [where calls = calls and i = i and s = s, OF this] show "take_turns fetch_turn calls [i, i, i] s
      = s\<lparr>tn_state := f, tn_pc := (tn_pc s)(i := Ended res), tn_log := tn_log s @ map (Pair i) reqs\<rparr>"
    by (simp add: numeral_3_eq_3)
qed

theorem fetch_call_ends_witness:
  "let s = take_turns fetch_turn example_calls [0, 1, 0, 1, 0] (server_start Arrived (new_fetcher 0 4 8 0))
   in (\<exists>res. tn_pc s 0 = Ended res) \<and> (\<exists>res f. take_turns fetch_turn example_calls [2, 2, 2] s
        = s\<lparr>tn_state := f, tn_pc := (tn_pc s)(2 := Ended res), tn_log := tn_log s @ map (Pair 2)
              (snd (snd (fetch_doc (fc_env (example_calls 2)) (tn_state s) ''http://x'' 0 ''a1'')))\<rparr>)"
proof -
  let ?init = "server_start Arrived (new_fetcher 0 4 8 0)"
  let ?s = "take_turns fetch_turn example_calls [0, 1, 0, 1, 0] ?init"
  obtain res f reqs where doc: "fetch_doc (fc_env (example_calls 2)) (tn_state ?s) (fc_url (example_calls 2))
      (fc_offset (example_calls 2)) (fc_caller (example_calls 2)) = (res, f, reqs)" by (metis prod.collapse)
  have "tn_pc ?s 2 = Arrived" by (subst take_turns_other) (simp_all add: server_start_def)
  with fetch_call_ends [OF refl, where sched = "[0, 1, 0, 1, 0]" and i = 2 and calls = example_calls and start = "?init"] doc
  have "take_turns fetch_turn example_calls [2, 2, 2] ?s
      = ?s\<lparr>tn_state := f, tn_pc := (tn_pc ?s)(2 := Ended res), tn_log := tn_log ?s @ map (Pair 2) reqs\<rparr>" by blast
  moreover have "\<exists>res. tn_pc ?s 0 = Ended res" using fetch_call_ends [OF refl, where sched = "[0, 1, 0, 1, 0]" and i = 0 and calls = example_calls and start = "?init"] by simp
  moreover have "fetch_doc (fc_env (example_calls 2)) (tn_state ?s) ''http://x'' 0 ''a1'' = (res, f, reqs)"
    using doc by (simp add: example_calls_def)
  ultimately show ?thesis unfolding Let_def by (metis snd_conv)
qed

end
