(* ===== verification/Search_Conc.thy ===== *)
theory Search_Conc
  imports Search Turns
begin

section \<open>Concurrent calls of Search on the shared cache (internal/tools/search/search.go)\<close>

text \<open>
  One Searcher serves every request. A call is cut where it touches the cache: the lookup, and
  the exchange with SearXNG up to the Put at its end.
\<close>

record search_call =
  sc_env :: search_env
  sc_query :: string
  sc_limit :: int
  sc_caller :: string

datatype search_pc = SearchArrived | SearchMissed | SearchEnded "search_error + search_result list"

definition call_search_key :: "search_call \<Rightarrow> string" where
  "call_search_key c = search_key (sc_caller c) (sc_query c) (clamp_limit (sc_limit c))"

fun search_turn :: "search_call \<Rightarrow> search_pc \<Rightarrow> searcher \<Rightarrow> search_pc \<times> searcher \<times> string list" where
  "search_turn c SearchArrived s =
     (if trim_space (sc_query c) = [] then (SearchEnded (Inl ErrEmptyQuery), s, [])
      else if call_search_key c = [] then (SearchMissed, s, [])
      else case cache_get (se_clock (sc_env c) 0) (call_search_key c) (s_results s) of
        (Some rs, k) \<Rightarrow> (SearchEnded (Inr rs), s\<lparr>s_results := k\<rparr>, [])
      | (None, k) \<Rightarrow> (SearchMissed, s\<lparr>s_results := k\<rparr>, []))"
| "search_turn c SearchMissed s =
     (case query_searxng (sc_env c) s (sc_query c) (clamp_limit (sc_limit c)) of
        (Inl e, reqs) \<Rightarrow> (SearchEnded (Inl e), s, reqs)
      | (Inr rs, reqs) \<Rightarrow>
          (SearchEnded (Inr rs),
           if call_search_key c \<noteq> []
           then s\<lparr>s_results := cache_put (se_clock (sc_env c) 1) (call_search_key c) rs (results_size rs) (s_results s)\<rparr>
           else s, reqs))"
| "search_turn c (SearchEnded res) s = (SearchEnded res, s, [])"

subsection \<open>A call by itself is Search\<close>

lemma search_web_turns:
  assumes "search_web (sc_env c) s (sc_query c) (sc_limit c) (sc_caller c) = (res, s', reqs)"
  shows "own_turns search_turn c 2 SearchArrived s = (SearchEnded res, s', reqs)"
  using assms
  by (auto simp: numeral_2_eq_2 search_web_def Let_def call_search_key_def
      split: if_splits sum.splits prod.splits option.splits)

fun search_stage :: "search_pc \<Rightarrow> nat" where
  "search_stage SearchArrived = 0"
| "search_stage SearchMissed = 1"
| "search_stage (SearchEnded res) = 2"

lemma search_turn_progress: "search_turn c pc s = (pc', s', reqs) \<Longrightarrow> min 2 (Suc (search_stage pc)) \<le> search_stage pc'"
  by (cases "(c, pc, s)" rule: search_turn.cases) (auto split: if_splits sum.splits prod.splits option.splits)

interpretation searching: finite_turns search_turn search_stage 2
  by unfold_locales (rule search_turn_progress)

subsection \<open>What the calls get\<close>

definition search_at :: "(string \<Rightarrow> string \<Rightarrow> search_result list \<Rightarrow> bool) \<Rightarrow> search_call \<Rightarrow> search_pc \<Rightarrow> bool" where
  "search_at asked c pc \<longleftrightarrow> (\<forall>v. pc = SearchEnded (Inr v) \<longrightarrow>
     (\<exists>rs. asked (sc_caller c) (sc_query c) rs \<and> v = take (nat (clamp_limit (sc_limit c))) rs))"

lemma asked_mono:
  assumes "\<And>c q rs. asked c q rs \<Longrightarrow> asked' c q rs"
  shows "searcher_sat asked s \<Longrightarrow> searcher_sat asked' s" "search_at asked c pc \<Longrightarrow> search_at asked' c pc"
proof -
  have "search_origin asked k v \<Longrightarrow> search_origin asked' k v" for k v
    using assms unfolding search_origin_def by blast
  then show "searcher_sat asked s \<Longrightarrow> searcher_sat asked' s" by (auto simp: searcher_sat_def all_stored_def)
  show "search_at asked c pc \<Longrightarrow> search_at asked' c pc" using assms unfolding search_at_def by blast
qed

lemma hits_of_base: "s_base_url s = s_base_url s' \<Longrightarrow> hits_of env s = hits_of env s'"
  by (simp add: hits_of_def fun_eq_iff)

lemma query_searxng_asks:
  "query_searxng env s query limit = (Inr v, reqs) \<Longrightarrow> reqs \<noteq> []"
  by (auto simp: query_searxng_def Let_def split: sum.splits search_failure.splits if_splits)

lemma search_turn_from:
  assumes sat: "searcher_sat asked s" and at: "search_at asked c pc" and clean: "nul \<notin> set (sc_caller c)"
    and turn: "search_turn c pc s = (pc', s', reqs)"
    and sent: "\<And>rs. reqs \<noteq> [] \<Longrightarrow> hits_of (sc_env c) s (sc_query c) rs \<Longrightarrow> asked (sc_caller c) (sc_query c) rs
      \<and> default_results_cache_bytes + results_size rs \<le> max_int64"
  shows "searcher_sat asked s' \<and> search_at asked c pc' \<and> s_base_url s' = s_base_url s"
proof (cases pc)
  case SearchArrived
  show ?thesis
  proof (cases "trim_space (sc_query c) = [] \<or> call_search_key c = []")
    case True
    with turn SearchArrived have "s' = s" "\<forall>v. pc' \<noteq> SearchEnded (Inr v)" by (auto split: if_splits)
    with sat show ?thesis by (simp add: search_at_def)
  next
    case False
    obtain r k where get: "cache_get (se_clock (sc_env c) 0) (call_search_key c) (s_results s) = (r, k)" by fastforce
    with turn SearchArrived False have out: "s' = s\<lparr>s_results := k\<rparr>"
      "pc' = (case r of Some rs \<Rightarrow> SearchEnded (Inr rs) | None \<Rightarrow> SearchMissed)" by (simp_all split: option.splits)
    have "\<exists>rs. asked (sc_caller c) (sc_query c) rs \<and> v = take (nat (clamp_limit (sc_limit c))) rs" if "r = Some v" for v
    proof -
      have "search_origin asked (search_key (sc_caller c) (sc_query c) (clamp_limit (sc_limit c))) v"
        using searcher_sat_get [OF sat get] that by (simp add: call_search_key_def)
      moreover have "sc_caller c \<noteq> []" using False by (simp add: call_search_key_def)
      ultimately show ?thesis unfolding search_origin_def using clean search_key_inj by blast
    qed
    with searcher_sat_get [OF sat get] out show ?thesis
      by (simp add: search_at_def split: option.splits)
  qed
next
  case SearchMissed
  obtain res rq where q: "query_searxng (sc_env c) s (sc_query c) (clamp_limit (sc_limit c)) = (res, rq)" by fastforce
  show ?thesis
  proof (cases res)
    case (Inl e)
    with q turn SearchMissed sat show ?thesis by (auto simp: search_at_def)
  next
    case (Inr v)
    with q turn SearchMissed have out: "pc' = SearchEnded (Inr v)" "reqs = rq"
      "s' = (if call_search_key c \<noteq> [] then s\<lparr>s_results := cache_put (se_clock (sc_env c) 1) (call_search_key c) v
        (results_size v) (s_results s)\<rparr> else s)" by simp_all
    obtain rs where rs: "hits_of (sc_env c) s (sc_query c) rs" "v = take (nat (clamp_limit (sc_limit c))) rs"
      using query_searxng_hits q Inr by blast
    have "reqs \<noteq> []" using query_searxng_asks q Inr out(2) by blast
    with sent [OF _ rs(1)] results_size_take_le [of "nat (clamp_limit (sc_limit c))" rs] rs(2)
    have ask: "asked (sc_caller c) (sc_query c) rs" "default_results_cache_bytes + results_size v \<le> max_int64" by auto
    have "search_origin asked (call_search_key c) v" if "call_search_key c \<noteq> []"
      unfolding search_origin_def call_search_key_def using that ask(1) clean rs(2) by (auto simp: call_search_key_def)
    with searcher_sat_put [OF sat _ ask(2)] sat out ask(1) rs(2) show ?thesis by (auto simp: search_at_def)
  qed
next
  case (SearchEnded res)
  with turn sat at show ?thesis by simp
qed

end
