(* ===== verification/Mcp_Conc.thy ===== *)
theory Mcp_Conc
  imports Mcp Fetch_Conc Search_Conc
begin

section \<open>Concurrent requests to /mcp on the shared caches and the database\<close>

text \<open>
  The requests of all agents run at the same time. A request is cut at every access to what
  they share: the three statements of AuthenticateAgentToken, the accesses of the tool to its
  caches (the turns of Fetch and Search), and the INSERT of the recorder. Each request has
  its own environment: what its clock, the origin and SearXNG answer it. The log holds the
  requests that were sent, with the agent for whom. Alone, a request does what
  \<open>mcp_handle\<close> does; the properties hold for every interleaving.
\<close>

subsection \<open>Requests and their turns\<close>

record mcp_call =
  mc_env :: mcp_env
  mc_header :: string
  mc_request :: tool_request

datatype mcp_pc =
  McpArrived
| CredentialFound agent_credential
| CredentialTouched agent_credential
| FetchRuns actor fetch_input fetch_pc
| SearchRuns actor search_input search_pc
| ToolReturned actor tool_reply
| McpEnded "tool_reply option guarded"

definition agent_fetch :: "mcp_call \<Rightarrow> actor \<Rightarrow> fetch_input \<Rightarrow> fetch_call" where
  "agent_fetch c a inp = \<lparr>fc_env = me_fetch (mc_env c), fc_url = in_url inp, fc_offset = in_offset inp,
     fc_caller = actor_id a\<rparr>"

definition agent_search :: "mcp_call \<Rightarrow> actor \<Rightarrow> search_input \<Rightarrow> search_call" where
  "agent_search c a inp = \<lparr>sc_env = me_search (mc_env c), sc_query = in_query inp, sc_limit = in_limit inp,
     sc_caller = actor_id a\<rparr>"

text \<open>The recorder's part of \<open>dispatch_tool\<close>; a reply of the other tool cannot be.\<close>

definition record_reply :: "'d database \<Rightarrow> mcp_call \<Rightarrow> actor \<Rightarrow> tool_reply \<Rightarrow> 'd \<Rightarrow> 'd option" where
  "record_reply db c a reply d =
     (let stamp = me_stamp (mc_env c);
          save = (\<lambda>tool inp outcome. record_call (tool_recorder db) (Some a) tool inp outcome
                    (st_elapsed stamp) (st_uuid stamp) (st_now stamp) d)
      in case (mc_request c, reply) of
        (CallFetch inp, FetchReply res) \<Rightarrow> save ''fetch'' (fetch_input_json inp)
          (case res of Inl e \<Rightarrow> Inl (fetch_error_text e) | Inr r \<Rightarrow> Inr (fetch_output_json r))
      | (CallSearch inp, SearchReply res) \<Rightarrow> save ''search'' (search_input_json inp)
          (case res of Inl e \<Rightarrow> Inl (search_error_text e) | Inr r \<Rightarrow> Inr (search_output_json r))
      | _ \<Rightarrow> Some d)"

fun mcp_turn :: "'d database \<Rightarrow> mcp_call \<Rightarrow> mcp_pc \<Rightarrow> 'd mcp_state
    \<Rightarrow> mcp_pc \<times> 'd mcp_state \<times> (string \<times> string) list" where
  "mcp_turn db c McpArrived st =
     (case cut_prefix (mc_header c) ''Bearer '' of
        None \<Rightarrow> (McpEnded (Refused missing_token_reply), st, [])
      | Some token \<Rightarrow>
          if token = [] then (McpEnded (Refused missing_token_reply), st, [])
          else case sql_first (db_credentials db)
                 (\<lambda>x. cred_hash x = hash_token (me_sha (mc_env c)) token \<and> cred_revoked x = None) (ms_db st) of
            (Inl e, d) \<Rightarrow> (McpEnded (Refused invalid_token_reply), st\<lparr>ms_db := d\<rparr>, [])
          | (Inr cred, d) \<Rightarrow> (CredentialFound cred, st\<lparr>ms_db := d\<rparr>, []))"
| "mcp_turn db c (CredentialFound cred) st =
     (case sql_update (db_credentials db) (\<lambda>x. cred_id x = cred_id cred)
             (\<lambda>x. x\<lparr>cred_last_used := Some (me_auth_now (mc_env c))\<rparr>) (ms_db st) of
        (ignored, d) \<Rightarrow> (CredentialTouched cred, st\<lparr>ms_db := d\<rparr>, []))"
| "mcp_turn db c (CredentialTouched cred) st =
     (case sql_first (db_actors db) (\<lambda>a. actor_id a = cred_actor cred) (ms_db st) of
        (Inl e, d) \<Rightarrow> (McpEnded (Refused invalid_token_reply), st\<lparr>ms_db := d\<rparr>, [])
      | (Inr a, d) \<Rightarrow>
          ((case mc_request c of
              CallFetch inp \<Rightarrow> FetchRuns a inp Arrived
            | CallSearch inp \<Rightarrow> SearchRuns a inp SearchArrived), st\<lparr>ms_db := d\<rparr>, []))"
| "mcp_turn db c (FetchRuns a inp pc) st =
     (case fetch_turn (agent_fetch c a inp) pc (ms_fetcher st) of
        (pc1, f, reqs) \<Rightarrow>
          ((case pc1 of Ended res \<Rightarrow> ToolReturned a (FetchReply res) | _ \<Rightarrow> FetchRuns a inp pc1),
           st\<lparr>ms_fetcher := f\<rparr>, map (Pair (actor_id a)) reqs))"
| "mcp_turn db c (SearchRuns a inp pc) st =
     (case search_turn (agent_search c a inp) pc (ms_searcher st) of
        (pc1, s, reqs) \<Rightarrow>
          ((case pc1 of SearchEnded res \<Rightarrow> ToolReturned a (SearchReply res) | _ \<Rightarrow> SearchRuns a inp pc1),
           st\<lparr>ms_searcher := s\<rparr>, map (Pair (actor_id a)) reqs))"
| "mcp_turn db c (ToolReturned a reply) st =
     (case record_reply db c a reply (ms_db st) of
        None \<Rightarrow> (McpEnded (Served None), st, [])
      | Some d \<Rightarrow> (McpEnded (Served (Some reply)), st\<lparr>ms_db := d\<rparr>, []))"
| "mcp_turn db c (McpEnded res) st = (McpEnded res, st, [])"

text \<open>Every turn takes a request further, so it ends.\<close>

fun mcp_stage :: "mcp_pc \<Rightarrow> nat" where
  "mcp_stage McpArrived = 0"
| "mcp_stage (CredentialFound cred) = 1"
| "mcp_stage (CredentialTouched cred) = 2"
| "mcp_stage (FetchRuns a inp pc) = 3 + min 2 (fetch_stage pc)"
| "mcp_stage (SearchRuns a inp pc) = 3 + min 2 (search_stage pc)"
| "mcp_stage (ToolReturned a reply) = 6"
| "mcp_stage (McpEnded res) = 7"

lemma mcp_stage_7 [simp]: "7 \<le> mcp_stage pc \<longleftrightarrow> (\<exists>res. pc = McpEnded res)"
  by (cases pc) auto

lemma mcp_turn_progress:
  "mcp_turn db c pc st = (pc', st', out) \<Longrightarrow> min 7 (Suc (mcp_stage pc)) \<le> mcp_stage pc'"
proof (cases pc)
  case (FetchRuns a inp fpc)
  assume t: "mcp_turn db c pc st = (pc', st', out)"
  obtain pc1 f reqs where f: "fetch_turn (agent_fetch c a inp) fpc (ms_fetcher st) = (pc1, f, reqs)" by (metis prod.collapse)
  from fetch_turn_progress [OF f] f t FetchRuns show ?thesis by (cases pc1) auto
next
  case (SearchRuns a inp spc)
  assume t: "mcp_turn db c pc st = (pc', st', out)"
  obtain pc1 s reqs where s: "search_turn (agent_search c a inp) spc (ms_searcher st) = (pc1, s, reqs)" by (metis prod.collapse)
  from search_turn_progress [OF s] s t SearchRuns show ?thesis by (cases pc1) auto
qed (auto split: option.splits if_splits sum.splits prod.splits tool_request.splits)

interpretation requests: finite_turns "mcp_turn db" mcp_stage 7 for db
  by unfold_locales (rule mcp_turn_progress)

subsection \<open>A request by itself is \<open>mcp_handle\<close>\<close>

text \<open>A tool that ends within \<open>n\<close> turns leaves the request recorded one turn later.\<close>

lemma returned_alone:
  assumes "record_reply db c a reply (ms_db st) = Some d"
  shows "own_turns (mcp_turn db) c (Suc n) (ToolReturned a reply) st = (McpEnded (Served (Some reply)), st\<lparr>ms_db := d\<rparr>, [])"
  using assms own_turns_stay [of "mcp_turn db" c "McpEnded (Served (Some reply))" n] by simp

lemma fetch_runs_alone:
  assumes "own_turns fetch_turn (agent_fetch c a inp) n pc (ms_fetcher st) = (Ended res, f, reqs)" "\<forall>r. pc \<noteq> Ended r"
    "record_reply db c a (FetchReply res) (ms_db st) = Some d"
  shows "own_turns (mcp_turn db) c (Suc n) (FetchRuns a inp pc) st
    = (McpEnded (Served (Some (FetchReply res))), st\<lparr>ms_fetcher := f, ms_db := d\<rparr>, map (Pair (actor_id a)) reqs)"
  using assms
proof (induction n arbitrary: pc st reqs)
  case (Suc n)
  obtain pc1 f1 r1 where t: "fetch_turn (agent_fetch c a inp) pc (ms_fetcher st) = (pc1, f1, r1)" by (metis prod.collapse)
  obtain r2 where rest: "own_turns fetch_turn (agent_fetch c a inp) n pc1 f1 = (Ended res, f, r2)" "reqs = r1 @ r2"
    using Suc.prems(1) t by (auto split: prod.splits)
  show ?case
  proof (cases "\<exists>r. pc1 = Ended r")
    case True
    then obtain r where r: "pc1 = Ended r" by blast
    with rest own_turns_stay [of fetch_turn "agent_fetch c a inp" "Ended r" n f1] have "res = r" "f = f1" "r2 = []" by simp_all
    with t rest(2) r returned_alone [of db c a "FetchReply r" "st\<lparr>ms_fetcher := f1\<rparr>" d n] Suc.prems(3) show ?thesis
      by (simp del: own_turns.simps(2) add: own_turns.simps(2) [of _ _ "Suc n"])
  next
    case False
    have "own_turns (mcp_turn db) c (Suc n) (FetchRuns a inp pc1) (st\<lparr>ms_fetcher := f1\<rparr>)
        = (McpEnded (Served (Some (FetchReply res))), st\<lparr>ms_fetcher := f, ms_db := d\<rparr>, map (Pair (actor_id a)) r2)"
      using Suc.IH [of pc1 "st\<lparr>ms_fetcher := f1\<rparr>" r2] rest(1) False Suc.prems(3) by simp
    moreover have "mcp_turn db c (FetchRuns a inp pc) st
        = (FetchRuns a inp pc1, st\<lparr>ms_fetcher := f1\<rparr>, map (Pair (actor_id a)) r1)"
      using t False by (cases pc1) simp_all
    ultimately show ?thesis using rest(2) by (simp del: own_turns.simps(2) add: own_turns.simps(2) [of _ _ "Suc n"])
  qed
qed simp

lemma search_runs_alone:
  assumes "own_turns search_turn (agent_search c a inp) n pc (ms_searcher st) = (SearchEnded res, s, reqs)"
    "\<forall>r. pc \<noteq> SearchEnded r" "record_reply db c a (SearchReply res) (ms_db st) = Some d"
  shows "own_turns (mcp_turn db) c (Suc n) (SearchRuns a inp pc) st
    = (McpEnded (Served (Some (SearchReply res))), st\<lparr>ms_searcher := s, ms_db := d\<rparr>, map (Pair (actor_id a)) reqs)"
  using assms
proof (induction n arbitrary: pc st reqs)
  case (Suc n)
  obtain pc1 s1 r1 where t: "search_turn (agent_search c a inp) pc (ms_searcher st) = (pc1, s1, r1)" by (metis prod.collapse)
  obtain r2 where rest: "own_turns search_turn (agent_search c a inp) n pc1 s1 = (SearchEnded res, s, r2)" "reqs = r1 @ r2"
    using Suc.prems(1) t by (auto split: prod.splits)
  show ?case
  proof (cases "\<exists>r. pc1 = SearchEnded r")
    case True
    then obtain r where r: "pc1 = SearchEnded r" by blast
    with rest own_turns_stay [of search_turn "agent_search c a inp" "SearchEnded r" n s1] have "res = r" "s = s1" "r2 = []" by simp_all
    with t rest(2) r returned_alone [of db c a "SearchReply r" "st\<lparr>ms_searcher := s1\<rparr>" d n] Suc.prems(3) show ?thesis
      by (simp del: own_turns.simps(2) add: own_turns.simps(2) [of _ _ "Suc n"])
  next
    case False
    have "own_turns (mcp_turn db) c (Suc n) (SearchRuns a inp pc1) (st\<lparr>ms_searcher := s1\<rparr>)
        = (McpEnded (Served (Some (SearchReply res))), st\<lparr>ms_searcher := s, ms_db := d\<rparr>, map (Pair (actor_id a)) r2)"
      using Suc.IH [of pc1 "st\<lparr>ms_searcher := s1\<rparr>" r2] rest(1) False Suc.prems(3) by simp
    moreover have "mcp_turn db c (SearchRuns a inp pc) st
        = (SearchRuns a inp pc1, st\<lparr>ms_searcher := s1\<rparr>, map (Pair (actor_id a)) r1)"
      using t False by (cases pc1) simp_all
    ultimately show ?thesis using rest(2) by (simp del: own_turns.simps(2) add: own_turns.simps(2) [of _ _ "Suc n"])
  qed
qed simp

definition tool_start :: "mcp_call \<Rightarrow> actor \<Rightarrow> mcp_pc" where
  "tool_start c a = (case mc_request c of
      CallFetch inp \<Rightarrow> FetchRuns a inp Arrived | CallSearch inp \<Rightarrow> SearchRuns a inp SearchArrived)"

lemma tool_alone:
  assumes "dispatch_tool db (mc_env c) (Some a) (mc_request c) st = Some (reply, reqs, st')"
  shows "own_turns (mcp_turn db) c 4 (tool_start c a) st
    = (McpEnded (Served (Some reply)), st', map (Pair (actor_id a)) reqs)"
proof (cases "mc_request c")
  case (CallFetch inp)
  obtain res f rq where run: "fetch_doc (me_fetch (mc_env c)) (ms_fetcher st) (in_url inp) (in_offset inp) (actor_id a) = (res, f, rq)"
    by (metis prod.collapse)
  with assms CallFetch obtain d where d: "record_reply db c a (FetchReply res) (ms_db st) = Some d" "reply = FetchReply res"
    "reqs = rq" "st' = st\<lparr>ms_fetcher := f, ms_db := d\<rparr>"
    by (auto simp: dispatch_tool_def recorded_def fetch_tool_def fetch_handler_def record_reply_def split: option.splits)
  have "own_turns fetch_turn (agent_fetch c a inp) 3 Arrived (ms_fetcher st) = (Ended res, f, rq)"
    using fetch_doc_turns [of "agent_fetch c a inp" "ms_fetcher st"] run by (simp add: agent_fetch_def)
  from fetch_runs_alone [OF this _ d(1)] CallFetch d(2-4) show ?thesis by (simp add: tool_start_def)
next
  case (CallSearch inp)
  obtain res s rq where run: "search_web (me_search (mc_env c)) (ms_searcher st) (in_query inp) (in_limit inp) (actor_id a) = (res, s, rq)"
    by (metis prod.collapse)
  with assms CallSearch obtain d where d: "record_reply db c a (SearchReply res) (ms_db st) = Some d" "reply = SearchReply res"
    "reqs = rq" "st' = st\<lparr>ms_searcher := s, ms_db := d\<rparr>"
    by (auto simp: dispatch_tool_def recorded_def search_tool_def search_handler_def record_reply_def split: option.splits)
  have "own_turns search_turn (agent_search c a inp) 2 SearchArrived (ms_searcher st) = (SearchEnded res, s, rq)"
    using search_web_turns [of "agent_search c a inp" "ms_searcher st"] run by (simp add: agent_search_def)
  from own_turns_append [OF search_runs_alone [OF this _ d(1)] own_turns_stay, of 1] CallSearch d(2-4) show ?thesis
    by (simp add: tool_start_def)
qed

fun reply_of :: "(tool_reply \<times> string list) option guarded \<Rightarrow> tool_reply option guarded" where
  "reply_of (Refused reply) = Refused reply"
| "reply_of (Served out) = Served (map_option fst out)"

fun sent_by :: "(tool_reply \<times> string list) option guarded \<Rightarrow> string list" where
  "sent_by (Served (Some (reply, reqs))) = reqs"
| "sent_by res = []"

lemma dispatch_total: "\<exists>reply reqs st'. dispatch_tool db env (Some a) req st = Some (reply, reqs, st')"
proof (cases req)
  case (CallFetch inp)
  obtain res f rq where "fetch_doc (me_fetch env) (ms_fetcher st) (in_url inp) (in_offset inp) (actor_id a) = (res, f, rq)"
    by (metis prod.collapse)
  from call_fetch [OF this] CallFetch show ?thesis by blast
next
  case (CallSearch inp)
  obtain res s rq where "search_web (me_search env) (ms_searcher st) (in_query inp) (in_limit inp) (actor_id a) = (res, s, rq)"
    by (metis prod.collapse)
  from call_search [OF this] CallSearch show ?thesis by blast
qed

lemma request_alone:
  assumes "mcp_handle db (mc_env c) (mc_header c) (mc_request c) st = (res, st')"
  shows "\<exists>out. own_turns (mcp_turn db) c 7 McpArrived st = (McpEnded (reply_of res), st', out) \<and> map snd out = sent_by res"
proof -
  have ended: "\<exists>out. own_turns (mcp_turn db) c 7 McpArrived st = (McpEnded r, st1, out) \<and> map snd out = []"
    if "own_turns (mcp_turn db) c n McpArrived st = (McpEnded r, st1, [])" "n \<le> 7" for n r st1
    using own_turns_append [OF that(1) own_turns_stay, of "7 - n"] that(2) by simp
  show ?thesis
  proof (cases "cut_prefix (mc_header c) ''Bearer ''")
    case None
    with ended [of 1] assms show ?thesis by (auto simp: mcp_handle_def require_bearer_def)
  next
    case (Some token)
    show ?thesis
    proof (cases "token = []")
      case True
      with ended [of 1] assms Some show ?thesis by (auto simp: mcp_handle_def require_bearer_def)
    next
      case False
      let ?env = "mc_env c" and ?P = "\<lambda>x. cred_hash x = hash_token (me_sha (mc_env c)) token \<and> cred_revoked x = None"
      obtain r1 d1 where first: "sql_first (db_credentials db) ?P (ms_db st) = (r1, d1)" by fastforce
      show ?thesis
      proof (cases r1)
        case (Inl e)
        with Some False first assms have "res = Refused invalid_token_reply" "st' = st\<lparr>ms_db := d1\<rparr>"
          by (auto simp: mcp_handle_def require_bearer_def auth_authenticate_def authenticate_agent_token_def)
        with ended [of 1] Some False first Inl show ?thesis by simp
      next
        case (Inr cred)
        obtain r2 d2 where touch: "sql_update (db_credentials db) (\<lambda>x. cred_id x = cred_id cred)
            (\<lambda>x. x\<lparr>cred_last_used := Some (me_auth_now ?env)\<rparr>) d1 = (r2, d2)" by fastforce
        obtain r3 d3 where act: "sql_first (db_actors db) (\<lambda>a. actor_id a = cred_actor cred) d2 = (r3, d3)" by fastforce
        have auth: "auth_authenticate db (me_sha ?env) (me_auth_now ?env) token (ms_db st)
            = ((case r3 of Inl e \<Rightarrow> Inl (DbErr e) | Inr a \<Rightarrow> Inr a), d3)"
          using first Inr touch act by (simp add: auth_authenticate_def authenticate_agent_token_def split: sum.splits)
        show ?thesis
        proof (cases r3)
          case (Inl e)
          with Some False auth assms have "res = Refused invalid_token_reply" "st' = st\<lparr>ms_db := d3\<rparr>"
            by (auto simp: mcp_handle_def require_bearer_def)
          with ended [of 3] Some False first Inr touch act Inl show ?thesis by (simp add: numeral_3_eq_3)
        next
          case (Inr a)
          obtain reply reqs st1 where run: "dispatch_tool db ?env (Some a) (mc_request c) (st\<lparr>ms_db := d3\<rparr>) = Some (reply, reqs, st1)"
            using dispatch_total by blast
          with Some False auth assms Inr have "res = Served (Some (reply, reqs))" "st' = st1"
            by (auto simp: mcp_handle_def require_bearer_def)
          moreover have "own_turns (mcp_turn db) c 3 McpArrived st = (tool_start c a, st\<lparr>ms_db := d3\<rparr>, [])"
            using Some False first \<open>r1 = Inr cred\<close> touch act Inr by (simp add: numeral_3_eq_3 tool_start_def)
          ultimately show ?thesis using own_turns_append [OF _ tool_alone [OF run]] by (fastforce simp: comp_def)
        qed
      qed
    qed
  qed
qed

subsection \<open>Whose request it is\<close>

text \<open>The requests change of the agents and their credentials only when they were used last.\<close>

definition forget_use :: "agent_credential \<Rightarrow> agent_credential" where
  "forget_use cred = cred\<lparr>cred_last_used := None\<rparr>"

definition same_agents :: "tables \<Rightarrow> tables \<Rightarrow> bool" where
  "same_agents c0 c \<longleftrightarrow> tb_actors c = tb_actors c0
     \<and> map forget_use (tb_credentials c) = map forget_use (tb_credentials c0)"

lemma same_agents_refl [simp]: "same_agents c c"
  by (simp add: same_agents_def)

lemma forget_use_fields:
  assumes "forget_use x = forget_use y"
  shows "cred_hash x = cred_hash y" "cred_revoked x = cred_revoked y" "cred_actor x = cred_actor y"
  using assms unfolding forget_use_def by (cases x; cases y; simp)+

lemma live_same:
  assumes "same_agents c0 c" "live h c cred"
  shows "\<exists>cred0. live h c0 cred0 \<and> cred_actor cred0 = cred_actor cred"
proof -
  have "forget_use cred \<in> forget_use ` set (tb_credentials c)" using assms(2) by (simp add: live_def)
  also have "\<dots> = forget_use ` set (tb_credentials c0)"
    using assms(1) unfolding same_agents_def by (metis set_map)
  finally obtain cred0 where "cred0 \<in> set (tb_credentials c0)" "forget_use cred = forget_use cred0" by blast
  with forget_use_fields [OF this(2)] assms(2) show ?thesis by (auto simp: live_def intro!: exI [of _ cred0])
qed

lemma forget_touched: "forget_use (if P x then x\<lparr>cred_last_used := u\<rparr> else x) = forget_use x"
  by (simp add: forget_use_def)

lemma same_agents_touched:
  "same_agents c0 c \<Longrightarrow> same_agents c0 (tb_credentials_update (map (\<lambda>x. if P x then x\<lparr>cred_last_used := u\<rparr> else x)) c)"
  by (simp add: same_agents_def comp_def forget_touched)

lemma same_agents_calls: "same_agents c0 (tb_calls_update f c) = same_agents c0 c"
  by (simp add: same_agents_def)

text \<open>Every actor, and the owner of every live credential, is one that \<open>c0\<close> knows.\<close>

definition within :: "tables \<Rightarrow> tables \<Rightarrow> bool" where
  "within c0 c \<longleftrightarrow> set (tb_actors c) \<subseteq> set (tb_actors c0)
     \<and> (\<forall>h cred. live h c cred \<longrightarrow> (\<exists>cred0. live h c0 cred0 \<and> cred_actor cred0 = cred_actor cred))"

lemma same_within: "same_agents c0 c \<Longrightarrow> within c0 c"
  using live_same by (auto simp: within_def same_agents_def)

text \<open>What is known of a request by where it stands: the agent is the owner of the token, by a
  credential that was live when the requests began.\<close>

definition bearer_of :: "tables \<Rightarrow> mcp_call \<Rightarrow> string \<Rightarrow> bool" where
  "bearer_of c0 c i \<longleftrightarrow> (\<exists>token cred. mc_header c = ''Bearer '' @ token
     \<and> live (hash_token (me_sha (mc_env c)) token) c0 cred \<and> cred_actor cred = i)"

definition owner_of :: "tables \<Rightarrow> mcp_call \<Rightarrow> actor \<Rightarrow> bool" where
  "owner_of c0 c a \<longleftrightarrow> a \<in> set (tb_actors c0) \<and> bearer_of c0 c (actor_id a)"

definition answers_request :: "mcp_call \<Rightarrow> tool_reply \<Rightarrow> bool" where
  "answers_request c reply \<longleftrightarrow> (case (mc_request c, reply) of
      (CallFetch inp, FetchReply res) \<Rightarrow> True | (CallSearch inp, SearchReply res) \<Rightarrow> True | _ \<Rightarrow> False)"

fun request_at :: "tables \<Rightarrow> mcp_call \<Rightarrow> mcp_pc \<Rightarrow> bool" where
  "request_at c0 c McpArrived \<longleftrightarrow> True"
| "request_at c0 c (CredentialFound cred) \<longleftrightarrow> bearer_of c0 c (cred_actor cred)"
| "request_at c0 c (CredentialTouched cred) \<longleftrightarrow> bearer_of c0 c (cred_actor cred)"
| "request_at c0 c (FetchRuns a inp pc) \<longleftrightarrow> owner_of c0 c a \<and> mc_request c = CallFetch inp"
| "request_at c0 c (SearchRuns a inp pc) \<longleftrightarrow> owner_of c0 c a \<and> mc_request c = CallSearch inp"
| "request_at c0 c (ToolReturned a reply) \<longleftrightarrow> owner_of c0 c a \<and> answers_request c reply"
| "request_at c0 c (McpEnded (Refused reply)) \<longleftrightarrow> hr_status reply = 401"
| "request_at c0 c (McpEnded (Served None)) \<longleftrightarrow> False"
| "request_at c0 c (McpEnded (Served (Some reply))) \<longleftrightarrow> answers_request c reply"

lemma record_reply_effect:
  assumes "sql_database content db" "answers_request c reply"
  shows "\<exists>d' row. record_reply db c a reply d = Some d' \<and> reply_row a (mc_request c) reply row
    \<and> call_id row = st_uuid (me_stamp (mc_env c)) \<and> call_called_at row = st_now (me_stamp (mc_env c))
    \<and> row_written db content row d d'"
proof -
  have rec: "rec_db (tool_recorder db) = Some db" "preview_limit (tool_recorder db) = default_preview_bytes"
    by (simp_all add: tool_recorder_def preview_limit_def)
  have any: "\<exists>d' row. record_call (tool_recorder db) (Some a) tool inp outcome elapsed uuid now d = Some d'
      \<and> faithful_row default_preview_bytes a tool inp outcome row \<and> call_id row = uuid \<and> call_called_at row = now
      \<and> row_written db content row d d'" for tool inp outcome elapsed uuid now
    using record_call_total record_call_effect [OF assms(1) rec(1) refl] unfolding rec(2) by metis
  show ?thesis
    using assms(2) any unfolding answers_request_def record_reply_def reply_row_def Let_def
    by (cases "mc_request c"; cases reply) simp_all
qed

context sql_database begin

lemma mcp_turn_request:
  assumes "within c0 (content (ms_db st))" "request_at c0 c pc" "mcp_turn db c pc st = (pc', st', out)"
  shows "request_at c0 c pc'"
proof (cases pc)
  case McpArrived
  show ?thesis
  proof (cases "cut_prefix (mc_header c) ''Bearer ''")
    case None
    with McpArrived assms(3) show ?thesis by (auto simp: missing_token_reply_def)
  next
    case (Some token)
    then have header: "mc_header c = ''Bearer '' @ token"
      by (auto simp: cut_prefix_def split: if_splits) (metis append_take_drop_id append_Cons append_Nil)
    obtain r d where f: "sql_first (db_credentials db)
        (\<lambda>x. cred_hash x = hash_token (me_sha (mc_env c)) token \<and> cred_revoked x = None) (ms_db st) = (r, d)" by fastforce
    show ?thesis
    proof (cases r)
      case (Inl e)
      with f McpArrived Some assms(3) show ?thesis
        by (auto simp: missing_token_reply_def invalid_token_reply_def split: if_splits)
    next
      case (Inr cred)
      with credentials.first_found f have "live (hash_token (me_sha (mc_env c)) token) (content (ms_db st)) cred"
        unfolding live_def by blast
      with assms(1) header have "bearer_of c0 c (cred_actor cred)" unfolding within_def bearer_of_def by blast
      with f Inr McpArrived Some assms(3) show ?thesis by (auto simp: missing_token_reply_def split: if_splits)
    qed
  qed
next
  case (CredentialFound cred)
  with assms(2,3) show ?thesis by (auto split: prod.splits)
next
  case (CredentialTouched cred)
  obtain r d where f: "sql_first (db_actors db) (\<lambda>a. actor_id a = cred_actor cred) (ms_db st) = (r, d)" by fastforce
  show ?thesis
  proof (cases r)
    case (Inl e)
    with f CredentialTouched assms(3) show ?thesis by (auto simp: invalid_token_reply_def)
  next
    case (Inr a)
    with actors.first_found f have "a \<in> set (tb_actors (content (ms_db st)))" "actor_id a = cred_actor cred" by blast+
    with f Inr CredentialTouched assms show ?thesis
      by (auto simp: owner_of_def within_def split: tool_request.splits)
  qed
next
  case (FetchRuns a inp fpc)
  with assms show ?thesis by (auto simp: answers_request_def split: prod.splits fetch_pc.splits)
next
  case (SearchRuns a inp spc)
  with assms show ?thesis by (auto simp: answers_request_def split: prod.splits search_pc.splits)
next
  case (ToolReturned a reply)
  then have "answers_request c reply" using assms(2) by simp
  from record_reply_effect [OF sql_database_axioms this] obtain d'
    where "record_reply db c a reply (ms_db st) = Some d'" by blast
  with ToolReturned assms show ?thesis by auto
qed (use assms in simp)

text \<open>What a turn does to the tables: nothing, the time of the last use, or the row of the call.\<close>

lemma mcp_turn_tables:
  assumes "request_at c0 c pc" "mcp_turn db c pc st = (pc', st', out)"
  obtains (same) "content (ms_db st') = content (ms_db st)" "\<forall>a reply. pc \<noteq> ToolReturned a reply"
  | (touched) cred P where "pc = CredentialFound cred" "content (ms_db st') = tb_credentials_update
        (map (\<lambda>x. if P x then x\<lparr>cred_last_used := Some (me_auth_now (mc_env c))\<rparr> else x)) (content (ms_db st))"
  | (row) a reply row where "pc = ToolReturned a reply" "pc' = McpEnded (Served (Some reply))"
      "reply_row a (mc_request c) reply row" "call_id row = st_uuid (me_stamp (mc_env c))"
      "call_called_at row = st_now (me_stamp (mc_env c))" "row_written db content row (ms_db st) (ms_db st')"
proof (cases pc)
  case McpArrived
  with assms(2) credentials.first_found credentials.first_missing show thesis
    by (intro same) (fastforce split: option.splits if_splits prod.splits sum.splits)+
next
  case (CredentialFound cred)
  obtain r d where u: "sql_update (db_credentials db) (\<lambda>x. cred_id x = cred_id cred)
      (\<lambda>x. x\<lparr>cred_last_used := Some (me_auth_now (mc_env c))\<rparr>) (ms_db st) = (r, d)" by fastforce
  then have d: "ms_db st' = d" using assms(2) CredentialFound by auto
  show thesis
  proof (cases r)
    case None
    from credentials.update_ok [OF u [unfolded None]] CredentialFound show thesis unfolding d [symmetric] by (intro touched) auto
  next
    case (Some e)
    from credentials.update_failed [OF u [unfolded Some]] CredentialFound show thesis unfolding d [symmetric] by (intro same) auto
  qed
next
  case (CredentialTouched cred)
  with assms(2) actors.first_found actors.first_missing show thesis
    by (intro same) (fastforce split: prod.splits sum.splits)+
next
  case (ToolReturned a reply)
  then have "answers_request c reply" using assms(1) by simp
  from record_reply_effect [OF sql_database_axioms this] obtain d' r
    where r: "record_reply db c a reply (ms_db st) = Some d'" "reply_row a (mc_request c) reply r"
      "call_id r = st_uuid (me_stamp (mc_env c))" "call_called_at r = st_now (me_stamp (mc_env c))"
      "row_written db content r (ms_db st) d'" by blast
  with assms(2) ToolReturned show thesis by (intro row [of a reply r]) auto
qed (use assms in \<open>auto split: prod.splits intro!: same\<close>)

lemma mcp_turn_same_agents:
  assumes "request_at c0 c pc" "mcp_turn db c pc st = (pc', st', out)" "same_agents c1 (content (ms_db st))"
  shows "same_agents c1 (content (ms_db st'))"
  using assms(1,2)
proof (cases rule: mcp_turn_tables)
  case (row a reply r)
  from row(6) assms(3) show ?thesis by (cases rule: row_written_cases) (simp_all add: same_agents_calls)
qed (use assms(3) in \<open>simp_all add: same_agents_touched\<close>)

lemma mcp_turn_typed:
  assumes "same_agents c0 (content (ms_db st))" "request_at c0 c pc" "mcp_turn db c pc st = (pc', st', out)"
  shows "same_agents c0 (content (ms_db st')) \<and> request_at c0 c pc'"
  using mcp_turn_request [OF same_within [OF assms(1)] assms(2,3)] mcp_turn_same_agents [OF assms(2,3,1)] by blast

lemma typed_sound:
  "sound_turns (mcp_turn db) (\<lambda>_. True) (\<lambda>calls log st. same_agents c0 (content (ms_db st))) (\<lambda>calls log. request_at c0)"
  by unfold_locales (auto dest: mcp_turn_typed)

end

subsection \<open>What the agents get\<close>

text \<open>The responses that the origins gave, and the hits that SearXNG gave, to the requests of a log: for
  whom, and for which URL or query. \<open>s0\<close> is the searcher as it was built.\<close>

definition mcp_gave :: "(nat \<Rightarrow> mcp_call) \<Rightarrow> (nat \<times> string \<times> string) list \<Rightarrow> string \<Rightarrow> string \<Rightarrow> http_response \<Rightarrow> bool" where
  "mcp_gave calls log caller url resp \<longleftrightarrow>
     (\<exists>j inp u. (j, caller, url_string u) \<in> set log \<and> mc_request (calls j) = CallFetch inp \<and> in_url inp = url
        \<and> env_parse (me_fetch (mc_env (calls j))) url = Inr u
        \<and> env_origin (me_fetch (mc_env (calls j))) (url_string u) = Inr resp)"

definition mcp_asked :: "searcher \<Rightarrow> (nat \<Rightarrow> mcp_call) \<Rightarrow> (nat \<times> string \<times> string) list \<Rightarrow> string \<Rightarrow> string
    \<Rightarrow> search_result list \<Rightarrow> bool" where
  "mcp_asked s0 calls log caller query rs \<longleftrightarrow>
     (\<exists>j inp target. (j, caller, target) \<in> set log \<and> mc_request (calls j) = CallSearch inp \<and> in_query inp = query
        \<and> hits_of (me_search (mc_env (calls j))) s0 query rs)"

definition reply_from :: "(string \<Rightarrow> string \<Rightarrow> http_response \<Rightarrow> bool) \<Rightarrow> (string \<Rightarrow> string \<Rightarrow> search_result list \<Rightarrow> bool)
    \<Rightarrow> mcp_call \<Rightarrow> actor \<Rightarrow> tool_reply \<Rightarrow> bool" where
  "reply_from gave asked c a reply \<longleftrightarrow> (case (mc_request c, reply) of
      (CallFetch inp, FetchReply res) \<Rightarrow> (\<forall>r. res = Inr r \<longrightarrow>
        (\<exists>resp. gave (actor_id a) (in_url inp) resp \<and> from_response resp (in_offset inp) r))
    | (CallSearch inp, SearchReply res) \<Rightarrow> (\<forall>v. res = Inr v \<longrightarrow>
        (\<exists>rs. asked (actor_id a) (in_query inp) rs \<and> v = take (nat (clamp_limit (in_limit inp))) rs))
    | _ \<Rightarrow> False)"

fun content_at :: "(string \<Rightarrow> string \<Rightarrow> http_response \<Rightarrow> bool) \<Rightarrow> (string \<Rightarrow> string \<Rightarrow> search_result list \<Rightarrow> bool)
    \<Rightarrow> tables \<Rightarrow> mcp_call \<Rightarrow> mcp_pc \<Rightarrow> bool" where
  "content_at gave asked c0 c (FetchRuns a inp pc) \<longleftrightarrow> pc_from gave (agent_fetch c a inp) pc"
| "content_at gave asked c0 c (SearchRuns a inp pc) \<longleftrightarrow> search_at asked (agent_search c a inp) pc"
| "content_at gave asked c0 c (ToolReturned a reply) \<longleftrightarrow> reply_from gave asked c a reply"
| "content_at gave asked c0 c (McpEnded (Served (Some reply))) \<longleftrightarrow> (\<exists>a. owner_of c0 c a \<and> reply_from gave asked c a reply)"
| "content_at gave asked c0 c pc \<longleftrightarrow> True"

definition tools_from :: "(string \<Rightarrow> string \<Rightarrow> http_response \<Rightarrow> bool) \<Rightarrow> (string \<Rightarrow> string \<Rightarrow> search_result list \<Rightarrow> bool)
    \<Rightarrow> searcher \<Rightarrow> 'd mcp_state \<Rightarrow> bool" where
  "tools_from gave asked s0 st \<longleftrightarrow> fetcher_sat (snap_origin gave) (result_origin gave) (ms_fetcher st)
     \<and> searcher_sat asked (ms_searcher st) \<and> s_base_url (ms_searcher st) = s_base_url s0"

definition requests_ok :: "tables \<Rightarrow> searcher \<Rightarrow> (nat \<Rightarrow> mcp_call) \<Rightarrow> bool" where
  "requests_ok c0 s0 calls \<longleftrightarrow> (\<forall>a \<in> set (tb_actors c0). nul \<notin> set (actor_id a))
     \<and> (\<forall>i inp rs. mc_request (calls i) = CallSearch inp
          \<longrightarrow> hits_of (me_search (mc_env (calls i))) s0 (in_query inp) rs
          \<longrightarrow> default_results_cache_bytes + results_size rs \<le> max_int64)"

lemma gave_mono: "mcp_gave calls log c u resp \<Longrightarrow> mcp_gave calls (log @ later) c u resp"
  unfolding mcp_gave_def by (metis Un_iff set_append)

lemma mcp_asked_mono: "mcp_asked s0 calls log c q rs \<Longrightarrow> mcp_asked s0 calls (log @ later) c q rs"
  unfolding mcp_asked_def by (metis Un_iff set_append)

lemma reply_from_mono:
  assumes "\<And>c u resp. gave c u resp \<Longrightarrow> gave' c u resp" "\<And>c q rs. asked c q rs \<Longrightarrow> asked' c q rs"
  shows "reply_from gave asked c a reply \<Longrightarrow> reply_from gave' asked' c a reply"
proof (cases "mc_request c"; cases reply)
  fix inp res
  assume "reply_from gave asked c a reply" "mc_request c = CallFetch inp" "reply = FetchReply res"
  then show "reply_from gave' asked' c a reply" using assms(1) by (simp add: reply_from_def) blast
next
  fix inp res
  assume "reply_from gave asked c a reply" "mc_request c = CallSearch inp" "reply = SearchReply res"
  then show "reply_from gave' asked' c a reply" using assms(2) by (simp add: reply_from_def) blast
qed (simp_all add: reply_from_def)

lemma content_at_mono:
  assumes "\<And>c u resp. gave c u resp \<Longrightarrow> gave' c u resp" "\<And>c q rs. asked c q rs \<Longrightarrow> asked' c q rs"
    "content_at gave asked c0 c pc"
  shows "content_at gave' asked' c0 c pc"
  using assms(3) origins_mono(2) [of gave gave', OF assms(1)] asked_mono(2) [of asked asked', OF assms(2)]
    reply_from_mono [of gave gave' asked asked', OF assms(1,2)]
  by (cases "(gave, asked, c0, c, pc)" rule: content_at.cases) auto

lemma tools_from_mono:
  assumes "\<And>c u resp. gave c u resp \<Longrightarrow> gave' c u resp" "\<And>c q rs. asked c q rs \<Longrightarrow> asked' c q rs"
    "tools_from gave asked s0 st"
  shows "tools_from gave' asked' s0 st"
  using assms(3) origins_mono(1) [of gave gave', OF assms(1)] asked_mono(1) [of asked asked', OF assms(2)]
  by (auto simp: tools_from_def)

lemma content_at_more:
  assumes "content_at (mcp_gave calls log) (mcp_asked s0 calls log) c0 c pc"
  shows "content_at (mcp_gave calls (log @ later)) (mcp_asked s0 calls (log @ later)) c0 c pc"
  by (rule content_at_mono [OF _ _ assms]) (erule gave_mono mcp_asked_mono)+

lemma tools_from_more:
  assumes "tools_from (mcp_gave calls log) (mcp_asked s0 calls log) s0 st"
  shows "tools_from (mcp_gave calls (log @ later)) (mcp_asked s0 calls (log @ later)) s0 st"
  by (rule tools_from_mono [OF _ _ assms]) (erule gave_mono mcp_asked_mono)+

lemma tools_from_db [simp]: "tools_from gave asked s0 (st\<lparr>ms_db := d\<rparr>) \<longleftrightarrow> tools_from gave asked s0 st"
  by (simp add: tools_from_def)

lemma mcp_turn_content:
  assumes tools: "tools_from gave asked s0 st" and typed: "request_at c0 c pc" and at: "content_at gave asked c0 c pc"
    and clean: "\<forall>a \<in> set (tb_actors c0). nul \<notin> set (actor_id a)" and turn: "mcp_turn db c pc st = (pc', st', out)"
    and sent: "\<And>(a :: actor) inp u resp. mc_request c = CallFetch inp \<Longrightarrow> env_parse (me_fetch (mc_env c)) (in_url inp) = Inr u
      \<Longrightarrow> (actor_id a, url_string u) \<in> set out \<Longrightarrow> env_origin (me_fetch (mc_env c)) (url_string u) = Inr resp
      \<Longrightarrow> gave (actor_id a) (in_url inp) resp"
    and hits: "\<And>(a :: actor) inp target rs. mc_request c = CallSearch inp \<Longrightarrow> (actor_id a, target) \<in> set out
      \<Longrightarrow> hits_of (me_search (mc_env c)) s0 (in_query inp) rs
      \<Longrightarrow> asked (actor_id a) (in_query inp) rs \<and> default_results_cache_bytes + results_size rs \<le> max_int64"
  shows "tools_from gave asked s0 st' \<and> content_at gave asked c0 c pc'"
proof (cases pc)
  case (FetchRuns a inp fpc)
  obtain pc1 f reqs where t: "fetch_turn (agent_fetch c a inp) fpc (ms_fetcher st) = (pc1, f, reqs)" by (metis prod.collapse)
  with turn FetchRuns have out: "out = map (Pair (actor_id a)) reqs" "st' = st\<lparr>ms_fetcher := f\<rparr>"
    "pc' = (case pc1 of Ended res \<Rightarrow> ToolReturned a (FetchReply res) | _ \<Rightarrow> FetchRuns a inp pc1)" by auto
  have req: "mc_request c = CallFetch inp" "nul \<notin> set (actor_id a)" using typed clean FetchRuns by (auto simp: owner_of_def)
  have "fetcher_sat (snap_origin gave) (result_origin gave) f \<and> pc_from gave (agent_fetch c a inp) pc1"
    by (rule fetch_turn_from [OF _ _ _ t])
      (use tools at req sent [of inp _ a] out(1) FetchRuns in \<open>auto simp: tools_from_def agent_fetch_def\<close>)
  with tools out(2,3) req(1) show ?thesis
    by (auto simp: tools_from_def reply_from_def agent_fetch_def split: fetch_pc.splits)
next
  case (SearchRuns a inp spc)
  obtain pc1 s reqs where t: "search_turn (agent_search c a inp) spc (ms_searcher st) = (pc1, s, reqs)" by (metis prod.collapse)
  with turn SearchRuns have out: "out = map (Pair (actor_id a)) reqs" "st' = st\<lparr>ms_searcher := s\<rparr>"
    "pc' = (case pc1 of SearchEnded res \<Rightarrow> ToolReturned a (SearchReply res) | _ \<Rightarrow> SearchRuns a inp pc1)" by auto
  have req: "mc_request c = CallSearch inp" "nul \<notin> set (actor_id a)" using typed clean SearchRuns by (auto simp: owner_of_def)
  have base: "hits_of env (ms_searcher st) = hits_of env s0" for env
    using tools by (intro hits_of_base) (simp add: tools_from_def)
  have "searcher_sat asked s \<and> search_at asked (agent_search c a inp) pc1 \<and> s_base_url s = s_base_url (ms_searcher st)"
  proof (rule search_turn_from [OF _ _ _ t])
    fix rs assume "reqs \<noteq> []" "hits_of (sc_env (agent_search c a inp)) (ms_searcher st) (sc_query (agent_search c a inp)) rs"
    with hits [OF req(1), of a "hd reqs" rs] out(1)
    show "asked (sc_caller (agent_search c a inp)) (sc_query (agent_search c a inp)) rs
        \<and> default_results_cache_bytes + results_size rs \<le> max_int64"
      by (simp add: base agent_search_def)
  qed (use tools at req SearchRuns in \<open>auto simp: tools_from_def agent_search_def\<close>)
  with tools out(2,3) req(1) show ?thesis
    by (auto simp: tools_from_def reply_from_def search_at_def agent_search_def split: search_pc.splits)
next
  case (ToolReturned a reply)
  with turn tools typed at show ?thesis by (auto split: option.splits)
next
  case (CredentialTouched cred)
  with turn tools show ?thesis
    by (auto simp: search_at_def split: prod.splits sum.splits tool_request.splits)
qed (use turn tools at in \<open>auto split: option.splits if_splits prod.splits sum.splits\<close>)

context sql_database begin

lemma content_sound:
  "sound_turns (mcp_turn db) (requests_ok c0 s0)
     (\<lambda>calls log st. same_agents c0 (content (ms_db st)) \<and> tools_from (mcp_gave calls log) (mcp_asked s0 calls log) s0 st)
     (\<lambda>calls log c pc. request_at c0 c pc \<and> content_at (mcp_gave calls log) (mcp_asked s0 calls log) c0 c pc)"
proof (unfold_locales, goal_cases)
  case (1 calls log c pc later)
  then show ?case using content_at_more by blast
next
  case (2 calls log st i pc pc' st' out)
  let ?log = "log @ map (Pair i) out"
  have now: "tools_from (mcp_gave calls ?log) (mcp_asked s0 calls ?log) s0 st"
    "content_at (mcp_gave calls ?log) (mcp_asked s0 calls ?log) c0 (calls i) pc"
    using 2 tools_from_more content_at_more by blast+
  have "tools_from (mcp_gave calls ?log) (mcp_asked s0 calls ?log) s0 st'
      \<and> content_at (mcp_gave calls ?log) (mcp_asked s0 calls ?log) c0 (calls i) pc'"
  proof (rule mcp_turn_content [OF now(1) _ now(2) _ 2(4)])
    fix a :: actor and inp u resp
    assume "mc_request (calls i) = CallFetch inp" "env_parse (me_fetch (mc_env (calls i))) (in_url inp) = Inr u"
      "(actor_id a, url_string u) \<in> set out" "env_origin (me_fetch (mc_env (calls i))) (url_string u) = Inr resp"
    then show "mcp_gave calls ?log (actor_id a) (in_url inp) resp" unfolding mcp_gave_def by fastforce
  next
    fix a :: actor and inp target rs
    assume s: "mc_request (calls i) = CallSearch inp" "(actor_id a, target) \<in> set out"
      "hits_of (me_search (mc_env (calls i))) s0 (in_query inp) rs"
    then have "mcp_asked s0 calls ?log (actor_id a) (in_query inp) rs" unfolding mcp_asked_def by fastforce
    with 2(1) s show "mcp_asked s0 calls ?log (actor_id a) (in_query inp) rs
        \<and> default_results_cache_bytes + results_size rs \<le> max_int64"
      unfolding requests_ok_def by blast
  qed (use 2(1,3) in \<open>auto simp: requests_ok_def\<close>)
  with mcp_turn_typed [OF _ _ 2(4)] 2(2,3) show ?case by blast
qed

end

subsection \<open>What the history gets\<close>

definition served_requests :: "(nat \<Rightarrow> mcp_pc) \<Rightarrow> nat set" where
  "served_requests pcs = {i. \<exists>reply. pcs i = McpEnded (Served (Some reply))}"

definition row_of_request :: "tables \<Rightarrow> mcp_call \<Rightarrow> mcp_pc \<Rightarrow> tool_call \<Rightarrow> bool" where
  "row_of_request c0 c pc row \<longleftrightarrow> (\<exists>a reply. pc = McpEnded (Served (Some reply)) \<and> owner_of c0 c a
     \<and> reply_row a (mc_request c) reply row \<and> call_id row = st_uuid (me_stamp (mc_env c))
     \<and> call_called_at row = st_now (me_stamp (mc_env c)))"

context sql_database begin

lemma mcp_turn_writes:
  assumes "request_at c0 c pc" "mcp_turn db c pc st = (pc', st', out)"
  obtains (silent) "tb_calls (content (ms_db st')) = tb_calls (content (ms_db st))"
      "pc' = pc \<or> (\<forall>reply. pc \<noteq> McpEnded reply) \<and> (\<forall>reply. pc' \<noteq> McpEnded (Served (Some reply)))"
  | (row) row where "\<forall>reply. pc \<noteq> McpEnded reply" "row_of_request c0 c pc' row" "row_written db content row (ms_db st) (ms_db st')"
  using assms
proof (cases rule: mcp_turn_tables)
  case same
  then have "pc' = pc \<or> (\<forall>reply. pc \<noteq> McpEnded reply) \<and> (\<forall>reply. pc' \<noteq> McpEnded (Served (Some reply)))"
    using assms(2) by (cases pc) (auto split: option.splits if_splits prod.splits sum.splits tool_request.splits
        fetch_pc.splits search_pc.splits)
  with same(1) show thesis by (intro silent) simp_all
next
  case (touched cred P)
  with assms(2) show thesis by (intro silent) (auto split: prod.splits)
next
  case (row a reply r)
  with assms(1) show thesis by (intro that(2) [of r]) (auto simp: row_of_request_def)
qed

end

text \<open>The identifiers that the requests draw for their rows are new and differ.\<close>

definition fresh_ids :: "tables \<Rightarrow> (nat \<Rightarrow> mcp_call) \<Rightarrow> bool" where
  "fresh_ids c0 calls \<longleftrightarrow> uniq_calls (tb_calls c0) \<and> inj (\<lambda>i. st_uuid (me_stamp (mc_env (calls i))))
     \<and> (\<forall>i. st_uuid (me_stamp (mc_env (calls i))) \<notin> call_id ` set (tb_calls c0))"

definition rows_of :: "tables \<Rightarrow> (nat \<Rightarrow> mcp_call) \<Rightarrow> (nat \<Rightarrow> mcp_pc) \<Rightarrow> (nat \<times> tool_call) list \<Rightarrow> bool" where
  "rows_of c0 calls pcs rows \<longleftrightarrow> distinct (map fst rows)
     \<and> (\<forall>(i, row) \<in> set rows. row_of_request c0 (calls i) (pcs i) row)"

lemma rows_of_turn:
  assumes "rows_of c0 calls pcs rows" "pc' = pcs i \<or> (\<forall>reply. pcs i \<noteq> McpEnded reply)"
  shows "rows_of c0 calls (pcs(i := pc')) rows"
  using assms unfolding rows_of_def row_of_request_def by fastforce

lemma rows_of_snoc:
  assumes "rows_of c0 calls pcs rows" "\<forall>reply. pcs i \<noteq> McpEnded reply" "row_of_request c0 (calls i) pc' row"
  shows "rows_of c0 calls (pcs(i := pc')) (rows @ [(i, row)])"
proof -
  have "i \<notin> fst ` set rows" using assms(1,2) by (fastforce simp: rows_of_def row_of_request_def)
  with rows_of_turn [OF assms(1), of pc' i] assms(2,3) show ?thesis by (auto simp: rows_of_def)
qed

lemma fresh_row:
  assumes "fresh_ids c0 calls" "rows_of c0 calls (pcs(i := pc')) (rows @ [(i, row)])"
  shows "uniq_calls (tb_calls c0 @ map snd (rows @ [(i, row)]))"
proof -
  let ?id = "\<lambda>j. st_uuid (me_stamp (mc_env (calls j)))" and ?rows = "rows @ [(i, row)]"
  define ids where "ids = map ?id (map fst ?rows)"
  define rs where "rs = map snd ?rows"
  have "map call_id rs = ids" using assms(2) by (auto simp: rows_of_def row_of_request_def ids_def rs_def)
  moreover have "distinct ids"
    using assms unfolding fresh_ids_def rows_of_def ids_def distinct_map by (meson inj_on_subset top_greatest)
  moreover have "set ids \<inter> set (map call_id (tb_calls c0)) = {}" using assms(1) by (auto simp: fresh_ids_def ids_def)
  ultimately show ?thesis
    using assms(1) unfolding rs_def [symmetric] by (auto simp: uniq_calls_def fresh_ids_def)
qed

context calm_database begin

lemma calm_insert:
  assumes "calm d" "uniq_calls (tb_calls (content d) @ [r])" "row_written db content r d d'"
  shows "tb_calls (content d') = tb_calls (content d) @ [r]"
proof -
  have "fst (sql_create (db_calls db) r d) = None"
    using calls.create_calm [OF prod.collapse [symmetric] assms(1), of r] assms(2) by blast
  from row_written_there [OF assms(3) this] show ?thesis by simp
qed

lemma mcp_turn_calm:
  assumes "calm (ms_db st)" "request_at c0 c pc" "mcp_turn db c pc st = (pc', st', out)"
  shows "calm (ms_db st')"
proof (cases pc)
  case McpArrived
  with assms(1,3) credentials.first_calm show ?thesis
    by (fastforce split: option.splits if_splits prod.splits sum.splits)
next
  case (CredentialFound cred)
  with assms(1,3) credentials.update_calm show ?thesis by (fastforce split: prod.splits)
next
  case (CredentialTouched cred)
  with assms(1,3) actors.first_calm show ?thesis by (fastforce split: prod.splits sum.splits)
next
  case (ToolReturned a reply)
  with assms(2) record_reply_effect [OF sql_database_axioms, of c reply a "ms_db st"] obtain d' row
    where r: "record_reply db c a reply (ms_db st) = Some d'" "row_written db content row (ms_db st) d'" by auto
  with calls.create_calm [OF prod.collapse [symmetric] assms(1), of row] ToolReturned assms(3) show ?thesis
    by (auto simp: row_written_def)
qed (use assms in \<open>auto split: prod.splits\<close>)

end

context sql_database begin

lemma history_of_requests:
  assumes "s = take_turns (mcp_turn db) calls sched (server_start McpArrived st)"
  shows "\<exists>rows. tb_calls (content (ms_db (tn_state s))) = tb_calls (content (ms_db st)) @ map snd rows
    \<and> rows_of (content (ms_db st)) calls (tn_pc s) rows
    \<and> (calm_database content db calm \<and> calm (ms_db st) \<and> fresh_ids (content (ms_db st)) calls \<longrightarrow>
        calm (ms_db (tn_state s)) \<and> fst ` set rows = served_requests (tn_pc s))"
  using assms
proof (induction sched arbitrary: s rule: rev_induct)
  case Nil
  then show ?case by (auto simp: rows_of_def served_requests_def)
next
  case (snoc i sched)
  let ?c0 = "content (ms_db st)" and ?s = "take_turns (mcp_turn db) calls sched (server_start McpArrived st)"
  let ?full = "calm_database content db calm \<and> calm (ms_db st) \<and> fresh_ids ?c0 calls"
  obtain rows where rows: "tb_calls (content (ms_db (tn_state ?s))) = tb_calls ?c0 @ map snd rows"
    "rows_of ?c0 calls (tn_pc ?s) rows"
    "?full \<longrightarrow> calm (ms_db (tn_state ?s)) \<and> fst ` set rows = served_requests (tn_pc ?s)" using snoc.IH by blast
  obtain pc' st' out where t: "mcp_turn db (calls i) (tn_pc ?s i) (tn_state ?s) = (pc', st', out)" by (metis prod.collapse)
  with snoc.prems have s: "tn_state s = st'" "tn_pc s = (tn_pc ?s)(i := pc')" by (simp_all add: take_turns_append take_turn_def)
  have typed: "request_at ?c0 (calls i) (tn_pc ?s i)"
    by (rule sound_turns.run_known(2) [OF typed_sound _ _ _ refl]) simp_all
  have calm: "?full \<longrightarrow> calm (ms_db st')" using calm_database.mcp_turn_calm [OF _ _ typed t] rows(3) by blast
  from typed t show ?case
  proof (cases rule: mcp_turn_writes)
    case silent
    have "rows_of ?c0 calls (tn_pc s) rows" using rows_of_turn [OF rows(2)] silent(2) by (auto simp: s)
    moreover have "served_requests (tn_pc s) = served_requests (tn_pc ?s)"
      using silent(2) by (auto simp: s served_requests_def)
    ultimately show ?thesis using rows(1,3) silent(1) calm s(1) by (intro exI [of _ rows]) simp
  next
    case (row r)
    show ?thesis
      using row(3)
    proof (cases rule: row_written_cases)
      case there
      have "rows_of ?c0 calls (tn_pc s) (rows @ [(i, r)])" unfolding s(2) by (rule rows_of_snoc [OF rows(2) row(1,2)])
      moreover have "served_requests (tn_pc s) = insert i (served_requests (tn_pc ?s))"
        using row(2) by (auto simp: s served_requests_def row_of_request_def)
      ultimately show ?thesis using rows(1,3) there(1) calm s(1) by (intro exI [of _ "rows @ [(i, r)]"]) auto
    next
      case refused
      have "\<not> ?full"
      proof
        assume full: ?full
        then have "uniq_calls (tb_calls ?c0 @ map snd (rows @ [(i, r)]))"
          using fresh_row rows_of_snoc [OF rows(2) row(1,2)] by blast
        then have "uniq_calls (tb_calls (content (ms_db (tn_state ?s))) @ [r])" by (simp add: rows(1))
        with calm_database.calm_insert [OF _ _ _ row(3)] full rows(3) refused show False by fastforce
      qed
      moreover have "rows_of ?c0 calls (tn_pc s) rows" unfolding s(2) using row(1) by (intro rows_of_turn [OF rows(2)]) simp
      ultimately show ?thesis using rows(1) refused s(1) by (intro exI [of _ rows]) auto
    qed
  qed
qed

end

subsection \<open>An example\<close>

text \<open>Any number of requests of one agent for the same URL.\<close>

definition example_requests :: "nat \<Rightarrow> mcp_call" where
  "example_requests i = \<lparr>mc_env = example_mcp_env\<lparr>me_stamp := \<lparr>st_elapsed = 5000000, st_uuid = replicate (Suc i) CHR ''u'', st_now = 9\<rparr>\<rparr>,
     mc_header = ''Bearer T'', mc_request = example_fetch\<rparr>"

definition example_served :: "nat list \<Rightarrow> (mem_db mcp_state, mcp_pc, string \<times> string) server" where
  "example_served sched = take_turns (mcp_turn mem_database) example_requests sched
     (server_start McpArrived (example_mcp_state (example_agents [''T''])))"

lemma example_request_served:
  assumes "ms_db st = example_agents [''T'']"
  shows "\<exists>reply st' out. own_turns (mcp_turn mem_database) (example_requests 0) 7 McpArrived st
    = (McpEnded (Served (Some reply)), st', out)"
proof -
  let ?c = "example_requests 0"
  obtain res st' where run: "mcp_handle mem_database (mc_env ?c) (mc_header ?c) (mc_request ?c) st = (res, st')" by fastforce
  obtain d1 where auth: "authenticate_agent_token mem_database id 8 ''T'' (example_agents [''T'']) = (Inr example_actor, d1)"
    by (auto simp: authenticate_agent_token_def mem_eval example_agents_defs)
  have "\<forall>reply. res \<noteq> Refused reply"
    using run auth assms by (auto simp: mcp_handle_def require_bearer_def cut_prefix_def auth_authenticate_def
        example_requests_def example_mcp_env_def split: prod.splits guarded.splits option.splits)
  moreover from mem.sql_database_axioms run have "\<forall>out. res = Served out \<longrightarrow> out \<noteq> None"
    by (cases rule: mcp_handle_cases) auto
  moreover obtain out where "own_turns (mcp_turn mem_database) ?c 7 McpArrived st = (McpEnded (reply_of res), st', out)"
    using request_alone [OF run] by blast
  ultimately show ?thesis by (cases res) auto
qed

lemma example_first_served:
  "\<exists>reply. tn_pc (example_served (replicate 7 0 @ [1, 2, 1])) 0 = McpEnded (Served (Some reply))"
proof -
  let ?st = "example_mcp_state (example_agents [''T''])"
  have "ms_db ?st = example_agents [''T'']" by (simp add: example_mcp_state_def)
  from example_request_served [OF this] show ?thesis
    using take_own_turns [of "mcp_turn mem_database" example_requests 0 7 "server_start McpArrived ?st"]
    by (auto simp: example_served_def take_turns_append take_turns_other simp del: take_turns.simps(2) replicate.simps)
qed

lemma example_requests_ok:
  "requests_ok (md_tables (example_agents [''T''])) (ms_searcher (example_mcp_state d)) example_requests"
  by (simp add: requests_ok_def example_requests_def example_fetch_def example_agents_defs nul_def)

lemma example_fresh: "fresh_ids (md_tables (example_agents [''T''])) example_requests"
  by (auto simp: fresh_ids_def example_requests_def example_agents_defs uniq_calls_def inj_def dest: arg_cong [of _ _ length])

subsection \<open>Properties\<close>

text \<open>Isolation of the agents on the running endpoint. Whatever requests are handled at the same time
  and however their statements, cache operations and exchanges interleave, a request that is
  served was sent with the token of a live credential, and what it gets comes from an
  answer to an exchange that was sent for the owner of that credential: a page is a piece, at
  the offset asked for, of a response for the same URL, and hits are the start of those
  for the same query.\<close>

theorem concurrent_requests_are_isolated:
  assumes "sql_database content db" "2 * maxb \<le> max_int64" "2 * budget \<le> max_int64"
    "requests_ok (content d0) (new_searcher base timeout' lifetime) calls"
    "s = take_turns (mcp_turn db) calls sched (server_start McpArrived
       \<lparr>ms_fetcher = new_fetcher timeout maxb budget lifetime, ms_searcher = new_searcher base timeout' lifetime, ms_db = d0\<rparr>)"
    "tn_pc s i = McpEnded (Served out)"
  shows "\<exists>reply a token cred. out = Some reply \<and> mc_header (calls i) = ''Bearer '' @ token
    \<and> live (hash_token (me_sha (mc_env (calls i))) token) (content d0) cred \<and> actor_id a = cred_actor cred
    \<and> reply_from (mcp_gave calls (tn_log s)) (mcp_asked (new_searcher base timeout' lifetime) calls (tn_log s)) (calls i) a reply"
proof -
  let ?st = "\<lparr>ms_fetcher = new_fetcher timeout maxb budget lifetime,
    ms_searcher = new_searcher base timeout' lifetime, ms_db = d0\<rparr>" and ?s0 = "new_searcher base timeout' lifetime"
  let ?gave = "mcp_gave calls (tn_log s)" and ?asked = "mcp_asked ?s0 calls (tn_log s)"
  have start: "same_agents (content d0) (content (ms_db ?st)) \<and> tools_from (mcp_gave calls []) (mcp_asked ?s0 calls []) ?s0 ?st"
    using new_fetcher_sat [OF assms(2,3)] new_searcher_sat by (simp add: tools_from_def)
  have "request_at (content d0) (calls i) (tn_pc s i) \<and> content_at ?gave ?asked (content d0) (calls i) (tn_pc s i)"
    by (rule sound_turns.run_known(2) [OF sql_database.content_sound [OF assms(1)] assms(4) start _ assms(5)]) simp
  with assms(6) obtain reply a where "out = Some reply" "owner_of (content d0) (calls i) a"
    "reply_from ?gave ?asked (calls i) a reply" by (cases out) auto
  then show ?thesis unfolding owner_of_def bearer_of_def by metis
qed

theorem concurrent_requests_are_isolated_witness:
  "let s = example_served (replicate 7 0 @ [1, 2, 1])
   in \<exists>reply r. tn_pc s 0 = McpEnded (Served (Some reply)) \<and> reply = FetchReply r
        \<and> (\<forall>x. r = Inr x \<longrightarrow> from_response (example_response ''hello'') 0 x)"
proof -
  define s where "s = example_served (replicate 7 0 @ [1, 2, 1])"
  obtain reply where served: "tn_pc s 0 = McpEnded (Served (Some reply))" using example_first_served by (auto simp: s_def)
  have sizes: "2 * 4 \<le> max_int64" "2 * 8 \<le> max_int64" by (simp_all add: max_int64_def)
  have run: "s = take_turns (mcp_turn mem_database) example_requests (replicate 7 0 @ [1, 2, 1]) (server_start McpArrived
      \<lparr>ms_fetcher = new_fetcher 0 4 8 0, ms_searcher = new_searcher ''http://s/'' 0 0, ms_db = example_agents [''T'']\<rparr>)"
    by (simp only: s_def example_served_def example_mcp_state_def)
  obtain a where "reply_from (mcp_gave example_requests (tn_log s)) (mcp_asked (new_searcher ''http://s/'' 0 0) example_requests (tn_log s))
      (example_requests 0) a reply"
    using concurrent_requests_are_isolated [OF mem.sql_database_axioms sizes
        example_requests_ok [unfolded example_mcp_state_def mcp_state.select_convs] run served] by blast
  then have "\<exists>r. reply = FetchReply r \<and> (\<forall>x. r = Inr x \<longrightarrow> from_response (example_response ''hello'') 0 x)"
    by (cases reply) (fastforce simp: reply_from_def mcp_gave_def example_requests_def example_fetch_def example_mcp_env_def
        example_env_def)+
  with served show ?thesis unfolding s_def [symmetric] Let_def by blast
qed

text \<open>The history under concurrency. However the requests interleave and whichever statements fail,
  the history grows by at most one row for every request that was served, under the name of
  the owner of its token and with its input and outcome, and by nothing else. On a
  database that works, when the identifiers drawn are new, every served request has its
  row.\<close>

theorem concurrent_history_is_complete:
  assumes "sql_database content db"
    "s = take_turns (mcp_turn db) calls sched (server_start McpArrived st)"
  shows "\<exists>rows. tb_calls (content (ms_db (tn_state s))) = tb_calls (content (ms_db st)) @ map snd rows
    \<and> distinct (map fst rows)
    \<and> (\<forall>(i, row) \<in> set rows. row_of_request (content (ms_db st)) (calls i) (tn_pc s i) row)
    \<and> (calm_database content db calm \<and> calm (ms_db st) \<and> fresh_ids (content (ms_db st)) calls \<longrightarrow>
        fst ` set rows = served_requests (tn_pc s))"
  using sql_database.history_of_requests [OF assms(1,2), of calm] unfolding rows_of_def by blast

theorem concurrent_history_is_complete_witness:
  "let s = example_served (replicate 7 0 @ [1, 2, 1])
   in \<exists>rows. tb_calls (md_tables (ms_db (tn_state s))) = map snd rows \<and> fst ` set rows = served_requests (tn_pc s)
        \<and> (\<exists>row. (0, row) \<in> set rows \<and> call_actor row = ''a1'' \<and> call_tool row = ''fetch'' \<and> call_id row = ''u'')"
proof -
  let ?st = "example_mcp_state (example_agents [''T''])"
  define s where "s = example_served (replicate 7 0 @ [1, 2, 1])"
  have st: "ms_db ?st = example_agents [''T'']" "tb_calls (md_tables (example_agents [''T''])) = []"
    by (simp_all add: example_mcp_state_def example_agents_defs)
  have full: "calm_database md_tables mem_database mem_calm \<and> mem_calm (ms_db ?st) \<and> fresh_ids (md_tables (ms_db ?st)) example_requests"
    unfolding st(1) using example_fresh calm.calm_database_axioms by (simp add: mem_calm_def example_agents_def mem_empty_def)
  obtain rows where rows: "tb_calls (md_tables (ms_db (tn_state s))) = map snd rows" "fst ` set rows = served_requests (tn_pc s)"
    "\<forall>(i, row) \<in> set rows. row_of_request (md_tables (ms_db ?st)) (example_requests i) (tn_pc s i) row"
    using concurrent_history_is_complete [OF mem.sql_database_axioms s_def [unfolded example_served_def], of mem_calm] full
    by (auto simp: st)
  have "0 \<in> fst ` set rows" using example_first_served rows(2) by (simp add: s_def served_requests_def)
  then obtain row where row: "(0, row) \<in> set rows" by auto
  with rows(3) have "row_of_request (md_tables (ms_db ?st)) (example_requests 0) (tn_pc s 0) row" by blast
  then obtain a reply where a: "a \<in> set (tb_actors (md_tables (example_agents [''T''])))"
    "reply_row a (mc_request (example_requests 0)) reply row" "call_id row = st_uuid (me_stamp (mc_env (example_requests 0)))"
    unfolding row_of_request_def owner_of_def st(1) by blast
  have "actor_id a = ''a1''" using a(1) by (simp add: example_agents_defs)
  moreover have "call_actor row = actor_id a" "call_tool row = ''fetch''"
    using a(2) by (cases reply; simp add: reply_row_def faithful_row_def example_requests_def example_fetch_def)+
  moreover have "call_id row = ''u''" using a(3) by (simp add: example_requests_def)
  ultimately have "call_actor row = ''a1'' \<and> call_tool row = ''fetch'' \<and> call_id row = ''u''" by simp
  with rows(1,2) row show ?thesis unfolding s_def [symmetric] Let_def by blast
qed

text \<open>Every request ends, and alone it is \<open>mcp_handle\<close>. A request that has had seven turns has ended,
  whatever the others did in between; and seven turns in a row leave the reply, the caches,
  the database and the exchanges of \<open>mcp_handle\<close>, so that all that is proved of that
  function holds for the turns.\<close>

theorem concurrent_request_ends:
  assumes "s = take_turns (mcp_turn db) calls sched start"
  shows "(7 \<le> count_list sched i \<longrightarrow> (\<exists>res. tn_pc s i = McpEnded res))
    \<and> (tn_pc s i = McpArrived \<longrightarrow> (\<forall>res st.
        mcp_handle db (mc_env (calls i)) (mc_header (calls i)) (mc_request (calls i)) (tn_state s) = (res, st)
        \<longrightarrow> (\<exists>out. map snd out = sent_by res \<and> take_turns (mcp_turn db) calls (replicate 7 i) s
              = s\<lparr>tn_state := st, tn_pc := (tn_pc s)(i := McpEnded (reply_of res)),
                  tn_log := tn_log s @ map (Pair i) out\<rparr>)))"
proof (intro conjI impI allI)
  assume "7 \<le> count_list sched i"
  from requests.ends_in_time [OF this] show "\<exists>res. tn_pc s i = McpEnded res" by (simp add: assms)
next
  fix res st
  assume "tn_pc s i = McpArrived"
    "mcp_handle db (mc_env (calls i)) (mc_header (calls i)) (mc_request (calls i)) (tn_state s) = (res, st)"
  with request_alone [OF this(2)] obtain out where "own_turns (mcp_turn db) (calls i) 7 (tn_pc s i) (tn_state s)
      = (McpEnded (reply_of res), st, out)" "map snd out = sent_by res" by auto
  with take_own_turns [where calls = calls and i = i and s = s, OF this(1)]
  show "\<exists>out. map snd out = sent_by res \<and> take_turns (mcp_turn db) calls (replicate 7 i) s
      = s\<lparr>tn_state := st, tn_pc := (tn_pc s)(i := McpEnded (reply_of res)), tn_log := tn_log s @ map (Pair i) out\<rparr>"
    by blast
qed

theorem concurrent_request_ends_witness:
  "let s = example_served [0, 1, 0, 1, 0, 1, 0, 0, 0, 0]
   in (\<exists>res. tn_pc s 0 = McpEnded res) \<and> (\<exists>res st out.
        mcp_handle mem_database (mc_env (example_requests 2)) ''Bearer T'' example_fetch (tn_state s) = (res, st)
        \<and> map snd out = sent_by res \<and> take_turns (mcp_turn mem_database) example_requests (replicate 7 2) s
            = s\<lparr>tn_state := st, tn_pc := (tn_pc s)(2 := McpEnded (reply_of res)), tn_log := tn_log s @ map (Pair 2) out\<rparr>)"
proof -
  define s where "s = example_served [0, 1, 0, 1, 0, 1, 0, 0, 0, 0]"
  obtain res st where run: "mcp_handle mem_database (mc_env (example_requests 2)) (mc_header (example_requests 2))
      (mc_request (example_requests 2)) (tn_state s) = (res, st)" by fastforce
  have "tn_pc s 2 = McpArrived" unfolding s_def example_served_def by (subst take_turns_other) simp_all
  note ends = concurrent_request_ends [OF s_def [unfolded example_served_def]]
  have "\<exists>res. tn_pc s 0 = McpEnded res" using ends [of 0] by simp
  moreover from ends [of 2] \<open>tn_pc s 2 = McpArrived\<close> run obtain out where "map snd out = sent_by res"
    "take_turns (mcp_turn mem_database) example_requests (replicate 7 2) s
      = s\<lparr>tn_state := st, tn_pc := (tn_pc s)(2 := McpEnded (reply_of res)), tn_log := tn_log s @ map (Pair 2) out\<rparr>" by blast
  moreover have "mc_header (example_requests 2) = ''Bearer T''" "mc_request (example_requests 2) = example_fetch"
    by (simp_all add: example_requests_def)
  ultimately show ?thesis using run unfolding s_def [symmetric] Let_def by metis
qed

end
