(* ===== verification/Service_Conc.thy ===== *)
theory Service_Conc
  imports Human_Conc Mcp_Conc
begin

section \<open>The whole service under concurrency\<close>

text \<open>
  Agents, humans and the sweep of the history work on one database at the same time. A
  request to /mcp takes the turns of Mcp_Conc, a request to /api those of Human_Conc. The
  callback, the logout and a sweep do one statement and take one turn. One after the other
  the calls do what App_Run says; here they interleave in any order, and every write of every
  turn keeps to the specification of App_Run.
\<close>

subsection \<open>Calls and their turns\<close>

datatype 'e service_call =
  AgentCall mcp_call
| HumanCall "'e auth_stamp" rest_env string time http_request
| LoginCall login_stamp http_request
| LogoutCall http_request
| SweepCall time

fun call_event :: "'e service_call \<Rightarrow> 'e app_event" where
  "call_event (AgentCall c) = McpRequest (mc_env c) (mc_header c) (mc_request c)"
| "call_event (HumanCall stamp env uuid now req) = ApiRequest stamp env uuid now req"
| "call_event (LoginCall stamp req) = CallbackRequest stamp req"
| "call_event (LogoutCall req) = LogoutRequest req"
| "call_event (SweepCall now) = PruneTick now"

datatype service_pc =
  Waits
| AgentAt mcp_pc
| HumanAt api_pc
| Handled

definition agent_pc :: "service_pc \<Rightarrow> mcp_pc option" where
  "agent_pc pc = (case pc of Waits \<Rightarrow> Some McpArrived | AgentAt p \<Rightarrow> Some p | _ \<Rightarrow> None)"

definition human_pc_of :: "service_pc \<Rightarrow> api_pc option" where
  "human_pc_of pc = (case pc of Waits \<Rightarrow> Some ApiArrived | HumanAt p \<Rightarrow> Some p | _ \<Rightarrow> None)"

lemma pc_simps [simp]:
  "agent_pc Waits = Some McpArrived" "agent_pc (AgentAt p) = Some p" "agent_pc (HumanAt q) = None" "agent_pc Handled = None"
  "human_pc_of Waits = Some ApiArrived" "human_pc_of (HumanAt q) = Some q" "human_pc_of (AgentAt p) = None" "human_pc_of Handled = None"
  by (simp_all add: agent_pc_def human_pc_of_def)

text \<open>A position that belongs to another kind of call cannot be reached; the definition ends it.\<close>

fun service_turn :: "'d deployment \<Rightarrow> 'e service_call \<Rightarrow> service_pc \<Rightarrow> 'd mcp_state
    \<Rightarrow> service_pc \<times> 'd mcp_state \<times> (string \<times> string) list" where
  "service_turn dp (AgentCall c) pc st =
     (case agent_pc pc of
        None \<Rightarrow> (Handled, st, [])
      | Some p \<Rightarrow> (case mcp_turn (dp_db dp) c p st of (p1, st1, out) \<Rightarrow> (AgentAt p1, st1, out)))"
| "service_turn dp (HumanCall stamp env uuid now req) pc st =
     (case human_pc_of pc of
        None \<Rightarrow> (Handled, st, [])
      | Some p \<Rightarrow> (case api_turn dp stamp env uuid now req (p, ms_db st) of (p1, d) \<Rightarrow> (HumanAt p1, st\<lparr>ms_db := d\<rparr>, [])))"
| "service_turn dp call Waits st = (Handled, app_step dp (call_event call) st, [])"
| "service_turn dp call pc st = (Handled, st, [])"

text \<open>Every turn takes a call further.\<close>

fun service_stage :: "service_pc \<Rightarrow> nat" where
  "service_stage Waits = 0"
| "service_stage (AgentAt p) = mcp_stage p"
| "service_stage (HumanAt p) = api_stage p"
| "service_stage Handled = 7"

definition finished :: "service_pc \<Rightarrow> bool" where
  "finished pc \<longleftrightarrow> 7 \<le> service_stage pc"

lemma service_turn_progress:
  assumes "service_turn dp call pc st = (pc', st', out)"
  shows "min 7 (Suc (service_stage pc)) \<le> service_stage pc'"
proof (cases call)
  case (AgentCall c)
  show ?thesis
  proof (cases "agent_pc pc")
    case (Some p)
    obtain p1 st1 out1 where t: "mcp_turn (dp_db dp) c p st = (p1, st1, out1)" by (metis prod.collapse)
    have "service_stage pc = mcp_stage p" using Some by (cases pc) auto
    with mcp_turn_progress [OF t] t assms AgentCall Some show ?thesis by auto
  qed (use assms AgentCall in auto)
next
  case (HumanCall stamp env uuid now req)
  show ?thesis
  proof (cases "human_pc_of pc")
    case (Some p)
    obtain p1 d where t: "api_turn dp stamp env uuid now req (p, ms_db st) = (p1, d)" by fastforce
    have "service_stage pc = api_stage p" using Some by (cases pc) auto
    with api_turn_progress [OF t] t assms HumanCall Some show ?thesis by auto
  qed (use assms HumanCall in auto)
qed (use assms in \<open>cases pc; auto\<close>)+

interpretation calls: finite_turns "service_turn dp" service_stage 7 for dp
  by unfold_locales (rule service_turn_progress)

subsection \<open>Alone, a call is an event of App_Run\<close>

lemma human_turns_alone:
  "(api_turn dp stamp env uuid now req ^^ n) (p, ms_db st) = (p', d') \<Longrightarrow>
     own_turns (service_turn dp) (HumanCall stamp env uuid now req) n (HumanAt p) st = (HumanAt p', st\<lparr>ms_db := d'\<rparr>, [])"
proof (induction n arbitrary: p st)
  case (Suc n)
  obtain p1 d1 where t: "api_turn dp stamp env uuid now req (p, ms_db st) = (p1, d1)" by fastforce
  with Suc.prems have "(api_turn dp stamp env uuid now req ^^ n) (p1, ms_db (st\<lparr>ms_db := d1\<rparr>)) = (p', d')"
    by (simp add: funpow_Suc_right del: funpow.simps)
  from Suc.IH [OF this] t show ?case by simp
qed simp

lemma human_alone:
  "\<exists>reply d. api_handle dp stamp env uuid now req (ms_db st) = (reply, d)
     \<and> own_turns (service_turn dp) (HumanCall stamp env uuid now req) 7 Waits st = (HumanAt (Answered reply), st\<lparr>ms_db := d\<rparr>, [])"
proof -
  obtain reply d where run: "api_handle dp stamp env uuid now req (ms_db st) = (reply, d)" by fastforce
  from human_turns_alone [OF api_alone [OF run]] run show ?thesis
    by (simp add: numeral_eq_Suc del: api_turn.simps)
qed

lemma agent_alone:
  "own_turns (mcp_turn (dp_db dp)) c n p st = (p', st', out) \<Longrightarrow>
     own_turns (service_turn dp) (AgentCall c) n (AgentAt p) st = (AgentAt p', st', out)"
proof (induction n arbitrary: p st out)
  case (Suc n)
  obtain p1 st1 out1 where t: "mcp_turn (dp_db dp) c p st = (p1, st1, out1)" by (metis prod.collapse)
  obtain out2 where "own_turns (mcp_turn (dp_db dp)) c n p1 st1 = (p', st', out2)" "out = out1 @ out2"
    using Suc.prems t by (auto split: prod.splits)
  with Suc.IH t show ?case by simp
qed simp

lemma call_alone:
  "\<exists>pc out. own_turns (service_turn dp) call 7 Waits st = (pc, app_step dp (call_event call) st, out) \<and> finished pc"
proof (cases call)
  case (AgentCall c)
  obtain res st' where run: "mcp_handle (dp_db dp) (mc_env c) (mc_header c) (mc_request c) st = (res, st')" by fastforce
  from request_alone [OF run] obtain out where
    "own_turns (mcp_turn (dp_db dp)) c 7 McpArrived st = (McpEnded (reply_of res), st', out)" by blast
  from agent_alone [OF this] run AgentCall show ?thesis
    by (auto simp: numeral_eq_Suc finished_def simp del: mcp_turn.simps)
next
  case (HumanCall stamp env uuid now req)
  with human_alone [of dp stamp env uuid now req st] show ?thesis by (auto simp: finished_def)
next
  case (LoginCall stamp req)
  then show ?thesis by (simp add: numeral_eq_Suc finished_def)
next
  case (LogoutCall req)
  then show ?thesis by (simp add: numeral_eq_Suc finished_def)
next
  case (SweepCall now)
  then show ?thesis by (simp add: numeral_eq_Suc finished_def)
qed

subsection \<open>What a turn writes\<close>

text \<open>The tables with every credential that was ever issued as if none was revoked: who held_by a token,
  whether it still works or not.\<close>

definition issued :: "tables \<Rightarrow> tables" where
  "issued c = tb_credentials_update (map (\<lambda>x. x\<lparr>cred_revoked := None\<rparr>)) c"

definition holders :: "tables \<Rightarrow> (string \<times> string \<times> string) set" where
  "holders c = (\<lambda>x. (cred_id x, cred_hash x, cred_actor x)) ` set (tb_credentials c)"

definition held_by :: "tables \<Rightarrow> string \<Rightarrow> string \<Rightarrow> bool" where
  "held_by c h i \<longleftrightarrow> (\<exists>j. (j, h, i) \<in> holders c)"

lemma live_held: "live h c cred \<Longrightarrow> held_by c h (cred_actor cred)"
  by (auto simp: live_def held_by_def holders_def intro!: exI [of _ "cred_id cred"] image_eqI [of _ _ cred])

lemma live_issued: "(\<exists>cred. live h (issued c) cred \<and> cred_actor cred = i) \<longleftrightarrow> held_by c h i"
  by (auto simp: live_def issued_def held_by_def holders_def)

lemma within_issuedI:
  assumes "set (tb_actors c) \<subseteq> set (tb_actors c')" "\<And>h i. held_by c h i \<Longrightarrow> held_by c' h i"
  shows "within (issued c') (issued c)"
  unfolding within_def
proof (intro conjI allI impI)
  fix h cred assume "live h (issued c) cred"
  then have "held_by c h (cred_actor cred)" unfolding live_issued [symmetric] by blast
  from assms(2) [OF this] show "\<exists>cred0. live h (issued c') cred0 \<and> cred_actor cred0 = cred_actor cred"
    unfolding live_issued .
qed (use assms(1) in \<open>simp add: issued_def\<close>)

lemma within_issued_now: "within (issued c) c"
  unfolding within_def
proof (intro conjI allI impI)
  fix h cred assume "live h c cred"
  then have "held_by c h (cred_actor cred)" by (rule live_held)
  then show "\<exists>cred0. live h (issued c) cred0 \<and> cred_actor cred0 = cred_actor cred" by (simp add: live_issued)
qed (simp add: issued_def)

lemma within_trans: "within c2 c1 \<Longrightarrow> within c1 c0 \<Longrightarrow> within c2 c0"
  unfolding within_def by (metis order_trans)

lemma holders_map:
  assumes "\<And>x. cred_id (u x) = cred_id x" "\<And>x. cred_hash (u x) = cred_hash x" "\<And>x. cred_actor (u x) = cred_actor x"
  shows "holders (tb_credentials_update (map u) c) = holders c"
  using assms by (simp add: holders_def image_image)

lemma write_keeps_holders:
  assumes "table_write k c c'" shows "holders c \<subseteq> holders c'"
  using assms
proof (cases rule: table_write.cases)
  case (touch P now)
  then show ?thesis by (simp add: holders_map)
next
  case (revoke P now)
  then show ?thesis by (simp add: holders_map)
qed (auto simp: holders_def same_but_humans_def)

lemma writes_keep_holders: "table_writes K c c' \<Longrightarrow> holders c \<subseteq> holders c'"
  by (induction rule: writes_induct) (auto dest: write_keeps_holders)

lemma writes_keep_owner: "table_writes K c c' \<Longrightarrow> held_by c h i \<Longrightarrow> held_by c' h i"
  using writes_keep_holders by (fastforce simp: held_by_def)

lemma writes_within: "table_writes K c c' \<Longrightarrow> within (issued c') (issued c)"
  using writes_keep_actors writes_keep_owner by (intro within_issuedI) blast+

text \<open>What is known of a request stays known when more agents and credentials are.\<close>

lemma bearer_within: "within c1 c0 \<Longrightarrow> bearer_of c0 c i \<Longrightarrow> bearer_of c1 c i"
  unfolding within_def bearer_of_def by metis

lemma owner_within: "within c1 c0 \<Longrightarrow> owner_of c0 c a \<Longrightarrow> owner_of c1 c a"
  using bearer_within by (auto simp: owner_of_def within_def)

lemma request_within:
  assumes "within c1 c0" "request_at c0 c pc" shows "request_at c1 c pc"
  using assms bearer_within [OF assms(1)] owner_within [OF assms(1)]
  by (cases "(c0, c, pc)" rule: request_at.cases) auto

lemma content_within:
  assumes "within c1 c0" "content_at gave asked c0 c pc" shows "content_at gave asked c1 c pc"
  using assms owner_within [OF assms(1)] by (cases "(gave, asked, c0, c, pc)" rule: content_at.cases) auto

lemma mcp_turn_permitted:
  assumes "sql_database content db" "request_at c0 c pc" "mcp_turn db c pc st = (pc', st', out)"
    "set (tb_actors c0) \<subseteq> set (tb_actors (content (ms_db st)))" "st_uuid (me_stamp (mc_env c)) \<noteq> []"
  shows "table_writes {TouchCredentials, AddCall} (content (ms_db st)) (content (ms_db st'))"
proof (cases rule: sql_database.mcp_turn_tables [OF assms(1-3), case_names same touched row])
  case (touched cred P)
  then show ?thesis by (auto intro: writes_one table_write.touch)
next
  case (row a reply r)
  then have a: "a \<in> set (tb_actors (content (ms_db st)))" using assms(2,4) by (auto simp: owner_of_def)
  show ?thesis
    using row(6)
  proof (cases rule: row_written_cases)
    case there
    with a reply_row_actor [OF row(3)] row(4) assms(5) show ?thesis
      by (intro writes_one [of AddCall]) (auto intro!: table_write.call [of a])
  qed simp
qed simp

definition call_known :: "tables \<Rightarrow> 'e service_call \<Rightarrow> service_pc \<Rightarrow> bool" where
  "call_known c call pc \<longleftrightarrow>
     (\<forall>m p. call = AgentCall m \<and> agent_pc pc = Some p \<longrightarrow> request_at (issued c) m p)
     \<and> (\<forall>p. (\<exists>stamp env uuid now req. call = HumanCall stamp env uuid now req) \<and> human_pc_of pc = Some p \<longrightarrow> api_known c p)"

definition calls_ok :: "'d deployment \<Rightarrow> (nat \<Rightarrow> 'e service_call) \<Rightarrow> bool" where
  "calls_ok dp calls \<longleftrightarrow> (\<forall>i. event_ok dp (call_event (calls i)))"

lemma service_turn_writes:
  assumes "sql_database content (dp_db dp)" "event_ok dp (call_event call)" "well_formed (content (ms_db st))"
    "call_known (content (ms_db st)) call pc" "service_turn dp call pc st = (pc', st', out)"
  shows "table_writes (permitted dp (call_event call)) (content (ms_db st)) (content (ms_db st'))"
proof -
  have linked: "linked (content (ms_db st))" using assms(3) by (simp add: well_formed_def)
  show ?thesis
  proof (cases call)
    case (AgentCall m)
    show ?thesis
    proof (cases "agent_pc pc")
      case (Some p)
      obtain p1 st1 out1 where t: "mcp_turn (dp_db dp) m p st = (p1, st1, out1)" by (metis prod.collapse)
      have "request_at (issued (content (ms_db st))) m p" using assms(4) AgentCall Some by (simp add: call_known_def)
      from mcp_turn_permitted [OF assms(1) this t] assms(2,5) AgentCall Some t show ?thesis by (auto simp: issued_def)
    qed (use assms(5) AgentCall in simp)
  next
    case (HumanCall stamp env uuid now req)
    show ?thesis
    proof (cases "human_pc_of pc")
      case (Some p)
      obtain p1 d where t: "api_turn dp stamp env uuid now req (p, ms_db st) = (p1, d)" by fastforce
      from api_turn_permitted [OF assms(1) _ linked t] assms(2,5) HumanCall Some t show ?thesis by auto
    qed (use assms(5) HumanCall in simp)
  qed (use assms(5) app_step_writes [OF assms(1,2) linked] in \<open>cases pc; simp\<close>)+
qed

lemma service_turn_known:
  assumes "sql_database content (dp_db dp)" "event_ok dp (call_event call)" "well_formed (content (ms_db st))"
    "call_known (content (ms_db st)) call pc" "service_turn dp call pc st = (pc', st', out)"
  shows "call_known (content (ms_db st')) call pc'"
  unfolding call_known_def
proof (intro conjI allI impI)
  fix m p' assume now: "call = AgentCall m \<and> agent_pc pc' = Some p'"
  then obtain p where p: "agent_pc pc = Some p" "mcp_turn (dp_db dp) m p st = (p', st', out)"
    using assms(5) by (auto split: option.splits prod.splits)
  with now assms(4) have "request_at (issued (content (ms_db st))) m p" by (simp add: call_known_def)
  from sql_database.mcp_turn_request [OF assms(1) within_issued_now this p(2)]
  show "request_at (issued (content (ms_db st'))) m p'"
    by (rule request_within [OF writes_within [OF service_turn_writes [OF assms]]])
next
  fix p' assume "(\<exists>stamp env uuid now req. call = HumanCall stamp env uuid now req) \<and> human_pc_of pc' = Some p'"
  then obtain stamp env uuid now req where call: "call = HumanCall stamp env uuid now req" "human_pc_of pc' = Some p'" by blast
  then obtain p d where p: "human_pc_of pc = Some p" "api_turn dp stamp env uuid now req (p, ms_db st) = (p', d)"
    and st': "st' = st\<lparr>ms_db := d\<rparr>" using assms(5) by (auto split: option.splits prod.splits)
  have "linked (content (ms_db st))" "api_known (content (ms_db st)) p"
    using assms(3,4) call(1) p(1) by (auto simp: well_formed_def call_known_def)
  from api_turn_known [OF assms(1) _ this p(2)] assms(2) call(1) show "api_known (content (ms_db st')) p'" by (simp add: st')
qed

lemma call_known_start [simp]: "call_known c call Waits"
  by (simp add: call_known_def api_known_def)

lemma call_known_later:
  "table_writes K c c' \<Longrightarrow> call_known c call pc \<Longrightarrow> call_known c' call pc"
  unfolding call_known_def using request_within writes_within api_known_later by metis

lemma data_sound:
  assumes "sql_database content (dp_db dp)"
  shows "stable_turns (service_turn dp) (calls_ok dp) (\<lambda>calls log st. well_formed (content (ms_db st)))
     (\<lambda>calls log st. call_known (content (ms_db st)))"
proof
  fix calls log st i pc pc' st' and out :: "(string \<times> string) list"
  assume t: "calls_ok dp calls" "well_formed (content (ms_db st))" "call_known (content (ms_db st)) (calls i) pc"
    "service_turn dp (calls i) pc st = (pc', st', out)"
  then have ok: "event_ok dp (call_event (calls i))" by (simp add: calls_ok_def)
  note w = service_turn_writes [OF assms ok t(2-4)]
  from writes_well_formed [OF w t(2)] service_turn_known [OF assms ok t(2-4)]
  show "well_formed (content (ms_db st')) \<and> call_known (content (ms_db st')) (calls i) pc'" by blast
  show "call_known (content (ms_db st')) c other" if "call_known (content (ms_db st)) c other" for c other
    using call_known_later [OF w that] .
qed

subsection \<open>Runs\<close>

lemma data_run:
  assumes "sql_database content (dp_db dp)" "calls_ok dp calls" "well_formed (content (ms_db st))"
    "s = take_turns (service_turn dp) calls sched (server_start Waits st)"
  shows "well_formed (content (ms_db (tn_state s)))" "call_known (content (ms_db (tn_state s))) (calls i) (tn_pc s i)"
  by (rule stable_turns.run_sound [OF data_sound [OF assms(1)] assms(2,3) _ assms(4)], simp)+

lemma run_writes:
  assumes "sql_database content (dp_db dp)" "calls_ok dp calls" "well_formed (content (ms_db st))"
    "s = take_turns (service_turn dp) calls sched (server_start Waits st)"
  shows "table_writes (\<Union>i \<in> set later. permitted dp (call_event (calls i))) (content (ms_db (tn_state s)))
    (content (ms_db (tn_state (take_turns (service_turn dp) calls later s))))"
proof (induction later rule: rev_induct)
  case (snoc i later)
  let ?K = "\<lambda>is. \<Union>i \<in> set is. permitted dp (call_event (calls i))"
  let ?s = "take_turns (service_turn dp) calls later s"
  have s: "?s = take_turns (service_turn dp) calls (sched @ later) (server_start Waits st)"
    by (simp add: take_turns_append assms(4))
  obtain pc' st' out where t: "service_turn dp (calls i) (tn_pc ?s i) (tn_state ?s) = (pc', st', out)" by (metis prod.collapse)
  have "table_writes (permitted dp (call_event (calls i))) (content (ms_db (tn_state ?s))) (content (ms_db st'))"
    using assms(2) by (intro service_turn_writes [OF assms(1) _ data_run [OF assms(1-3) s] t]) (simp add: calls_ok_def)
  from writes_mono [OF this, of "?K (later @ [i])"] writes_mono [OF snoc.IH, of "?K (later @ [i])"] t
  show ?case by (auto simp: take_turns_append take_turn_def intro: writes_trans)
qed simp

lemma run_clean:
  assumes "sql_database content (dp_db dp)" "calls_ok dp calls" "well_formed (content (ms_db st))" "clean_ids (content (ms_db st))"
    "s = take_turns (service_turn dp) calls sched (server_start Waits st)"
  shows "clean_ids (content (ms_db (tn_state s)))"
  using permitted_clean run_writes [OF assms(1-3), of "server_start Waits st" "[]" sched] assms(2,4)
  by (fastforce simp: assms(5) calls_ok_def intro: writes_clean)

subsection \<open>Revocation\<close>

text \<open>A request whose token is dead is refused at its first turn.\<close>

lemma dead_turn:
  assumes "sql_database content db" "dead_hash (hash_token (me_sha (mc_env c)) raw) (content (ms_db st))"
    "mc_header c = ''Bearer '' @ raw" "mcp_turn db c McpArrived st = (pc', st', out)"
  shows "\<exists>refusal d. pc' = McpEnded (Refused refusal) \<and> hr_status refusal = 401 \<and> out = []
    \<and> st' = st\<lparr>ms_db := d\<rparr> \<and> content d = content (ms_db st)"
proof (cases "raw = []")
  case True
  with assms(3,4) show ?thesis by (auto simp: cut_prefix_def missing_token_reply_def intro!: exI [of _ "ms_db st"])
next
  case False
  let ?h = "hash_token (me_sha (mc_env c)) raw"
  obtain r d where f: "sql_first (db_credentials db) (\<lambda>x. cred_hash x = ?h \<and> cred_revoked x = None) (ms_db st) = (r, d)"
    by fastforce
  have raw: "cut_prefix (mc_header c) ''Bearer '' = Some raw" by (simp add: assms(3) cut_prefix_def)
  show ?thesis
  proof (cases r)
    case (Inl e)
    with f sql_table.first_missing [OF sql_database.axioms(2) [OF assms(1)]] have "content d = content (ms_db st)" by blast
    with f Inl False raw assms(4) show ?thesis by (auto simp: invalid_token_reply_def)
  next
    case (Inr cred)
    with f sql_table.first_found [OF sql_database.axioms(2) [OF assms(1)]] have "live ?h (content (ms_db st)) cred"
      unfolding live_def by blast
    with dead_hash_not_live [OF assms(2)] show ?thesis by blast
  qed
qed

definition shut_out :: "service_pc \<Rightarrow> bool" where
  "shut_out pc \<longleftrightarrow> (\<exists>refusal. pc = AgentAt (McpEnded (Refused refusal)) \<and> hr_status refusal = 401)"

lemma dead_service_turn:
  assumes "sql_database content (dp_db dp)" "dead_hash (hash_token (me_sha (mc_env c)) raw) (content (ms_db st))"
    "mc_header c = ''Bearer '' @ raw" "pc = Waits \<or> shut_out pc" "service_turn dp (AgentCall c) pc st = (pc', st', out)"
  shows "shut_out pc' \<and> out = [] \<and> (\<exists>d. st' = st\<lparr>ms_db := d\<rparr> \<and> content d = content (ms_db st))"
  using assms(4)
proof
  assume "pc = Waits"
  obtain p1 st1 out1 where t: "mcp_turn (dp_db dp) c McpArrived st = (p1, st1, out1)" by (metis prod.collapse)
  from dead_turn [OF assms(1-3) t] t \<open>pc = Waits\<close> assms(5) show ?thesis by (auto simp: shut_out_def simp del: mcp_turn.simps(1))
qed (use assms(5) in \<open>auto simp: shut_out_def intro!: exI [of _ "ms_db st"]\<close>)

lemma dead_run:
  assumes "sql_database content (dp_db dp)" "calls_ok dp calls" "well_formed (content (ms_db st))"
    "s = take_turns (service_turn dp) calls before (server_start Waits st)"
    "dead_hash (hash_token (dp_sha dp) raw) (content (ms_db (tn_state s)))"
    "calls i = AgentCall c" "mc_header c = ''Bearer '' @ raw" "i \<notin> set before"
    "s' = take_turns (service_turn dp) calls after s"
  shows "(if i \<in> set after then shut_out (tn_pc s' i) else tn_pc s' i = Waits) \<and> (\<forall>x. (i, x) \<notin> set (tn_log s'))"
  using assms(9)
proof (induction after arbitrary: s' rule: rev_induct)
  case Nil
  with take_turns_log [of i _ "service_turn dp" calls before "server_start Waits st"] assms(8) show ?case
    by (auto simp: assms(4) take_turns_other)
next
  case (snoc j js)
  let ?s = "take_turns (service_turn dp) calls js s"
  have dead: "dead_hash (hash_token (me_sha (mc_env c)) raw) (content (ms_db (tn_state ?s)))"
    using writes_keep_dead [OF run_writes [OF assms(1-4)] assms(5)] assms(2,6) by (auto simp: calls_ok_def dest: spec [of _ i])
  obtain pc' st' out where t: "service_turn dp (calls j) (tn_pc ?s j) (tn_state ?s) = (pc', st', out)" by (metis prod.collapse)
  have s': "tn_pc s' = (tn_pc ?s)(j := pc')" "tn_log s' = tn_log ?s @ map (Pair j) out"
    using snoc.prems t by (simp_all add: take_turns_append take_turn_def)
  show ?case
  proof (cases "j = i")
    case True
    have "tn_pc ?s i = Waits \<or> shut_out (tn_pc ?s i)" using snoc.IH [OF refl] by (auto split: if_splits)
    from dead_service_turn [OF assms(1) dead assms(7) this] t True assms(6) have "shut_out pc'" "out = []" by auto
    with snoc.IH [OF refl] True show ?thesis by (auto simp: s')
  qed (use snoc.IH [OF refl] in \<open>auto simp: s'\<close>)
qed

lemma answered_204_kills:
  assumes "sql_database content (dp_db dp)" "router_ok (dp_router dp)" "calls_ok dp calls" "well_formed (content (ms_db st))"
    "s = take_turns (service_turn dp) calls before (server_start Waits st)"
    "calls k = HumanCall stamp env uuid now req" "cred \<in> set (tb_credentials (content (ms_db st)))"
    "dp_router dp rest_routes (rq_method req) (rq_path req) = Matched (b, RevokeToken) (cred_id cred)
     \<or> dp_router dp rest_routes (rq_method req) (rq_path req) = Matched (b, DeleteAgent) (cred_actor cred)"
    "tn_pc s k = HumanAt (Answered reply)" "hr_status reply = 204"
  shows "dead_hash (cred_hash cred) (content (ms_db (tn_state s)))"
proof -
  let ?run = "\<lambda>is. take_turns (service_turn dp) calls is (server_start Waits st)"
  have "tn_pc (server_start Waits st) k \<noteq> HumanAt (Answered reply)" by simp
  then obtain js later where split: "before = js @ k # later" and p: "tn_pc (?run js) k \<noteq> HumanAt (Answered reply)"
    "tn_pc (?run (js @ [k])) k = HumanAt (Answered reply)"
    using turn_when [of "\<lambda>pc. pc = HumanAt (Answered reply)" "server_start Waits st" k "service_turn dp" calls before] assms(5,9)
    by metis
  obtain q d' where t: "human_pc_of (tn_pc (?run js) k) = Some q"
    "api_turn dp stamp env uuid now req (q, ms_db (tn_state (?run js))) = (Answered reply, d')"
    and d': "ms_db (tn_state (?run (js @ [k]))) = d'"
    using p(2) assms(6) by (auto simp: take_turns_append take_turn_def split: prod.splits option.splits)
  have "(cred_id cred, cred_hash cred, cred_actor cred) \<in> holders (content (ms_db st))"
    using assms(7) by (auto simp: holders_def)
  with writes_keep_holders [OF run_writes [OF assms(1,3,4), of "server_start Waits st" "[]" js]]
  have "(cred_id cred, cred_hash cred, cred_actor cred) \<in> holders (content (ms_db (tn_state (?run js))))" by auto
  then obtain x where x: "x \<in> set (tb_credentials (content (ms_db (tn_state (?run js)))))"
    "cred_id x = cred_id cred" "cred_hash x = cred_hash cred" "cred_actor x = cred_actor cred"
    unfolding holders_def by (elim imageE) simp
  have uniq: "uniq_credentials (tb_credentials (content (ms_db (tn_state (?run js)))))"
    using data_run(1) [OF assms(1,3,4) refl] by (simp add: well_formed_def tables_ok_def)
  have "q \<noteq> Answered reply" using p(1) t(1) by (cases "tn_pc (?run js) k") auto
  from api_turn_kills [OF assms(1,2) uniq x(1) _ t(2) this assms(10)] assms(8) x(2-4)
  have "dead_hash (cred_hash cred) (content (ms_db (tn_state (?run (js @ [k])))))" by (auto simp: d')
  from writes_keep_dead [OF run_writes [OF assms(1,3,4) refl] this, of later] show ?thesis
    by (simp add: assms(5) split take_turns_append)
qed

subsection \<open>What the agents get\<close>

text \<open>The responses of the origins, and the hits of SearXNG, to the exchanges of a log: for whom, and for
  which URL or query.\<close>

definition service_gave :: "(nat \<Rightarrow> 'e service_call) \<Rightarrow> (nat \<times> string \<times> string) list \<Rightarrow> string \<Rightarrow> string
    \<Rightarrow> http_response \<Rightarrow> bool" where
  "service_gave calls log caller url resp \<longleftrightarrow>
     (\<exists>j m inp u. (j, caller, url_string u) \<in> set log \<and> calls j = AgentCall m \<and> mc_request m = CallFetch inp
        \<and> in_url inp = url \<and> env_parse (me_fetch (mc_env m)) url = Inr u
        \<and> env_origin (me_fetch (mc_env m)) (url_string u) = Inr resp)"

definition service_asked :: "searcher \<Rightarrow> (nat \<Rightarrow> 'e service_call) \<Rightarrow> (nat \<times> string \<times> string) list \<Rightarrow> string
    \<Rightarrow> string \<Rightarrow> search_result list \<Rightarrow> bool" where
  "service_asked s0 calls log caller query rs \<longleftrightarrow>
     (\<exists>j m inp target. (j, caller, target) \<in> set log \<and> calls j = AgentCall m \<and> mc_request m = CallSearch inp
        \<and> in_query inp = query \<and> hits_of (me_search (mc_env m)) s0 query rs)"

text \<open>No answer of SearXNG is so large that its size would not fit the cache's counter.\<close>

definition hits_fit :: "searcher \<Rightarrow> (nat \<Rightarrow> 'e service_call) \<Rightarrow> bool" where
  "hits_fit s0 calls \<longleftrightarrow> (\<forall>i m inp rs. calls i = AgentCall m \<longrightarrow> mc_request m = CallSearch inp
     \<longrightarrow> hits_of (me_search (mc_env m)) s0 (in_query inp) rs \<longrightarrow> default_results_cache_bytes + results_size rs \<le> max_int64)"

lemma service_gave_mono: "service_gave calls log c u resp \<Longrightarrow> service_gave calls (log @ later) c u resp"
  unfolding service_gave_def by (metis Un_iff set_append)

lemma service_asked_mono: "service_asked s0 calls log c q rs \<Longrightarrow> service_asked s0 calls (log @ later) c q rs"
  unfolding service_asked_def by (metis Un_iff set_append)

definition content_known :: "(string \<Rightarrow> string \<Rightarrow> http_response \<Rightarrow> bool) \<Rightarrow> (string \<Rightarrow> string \<Rightarrow> search_result list \<Rightarrow> bool)
    \<Rightarrow> tables \<Rightarrow> 'e service_call \<Rightarrow> service_pc \<Rightarrow> bool" where
  "content_known gave asked c call pc \<longleftrightarrow>
     (\<forall>m p. call = AgentCall m \<and> agent_pc pc = Some p \<longrightarrow> content_at gave asked (issued c) m p)"

lemma content_known_later:
  assumes "table_writes K c c'" "content_known (service_gave calls log) (service_asked s0 calls log) c call pc"
  shows "content_known (service_gave calls (log @ later)) (service_asked s0 calls (log @ later)) c' call pc"
  unfolding content_known_def
proof (intro allI impI)
  fix m p assume "call = AgentCall m \<and> agent_pc pc = Some p"
  with assms(2) have at: "content_at (service_gave calls log) (service_asked s0 calls log) (issued c) m p"
    by (simp add: content_known_def)
  have "content_at (service_gave calls (log @ later)) (service_asked s0 calls (log @ later)) (issued c) m p"
    by (rule content_at_mono [OF _ _ at]) (erule service_gave_mono service_asked_mono)+
  then show "content_at (service_gave calls (log @ later)) (service_asked s0 calls (log @ later)) (issued c') m p"
    by (rule content_within [OF writes_within [OF assms(1)]])
qed

lemma other_turn_tools:
  assumes "\<And>m. call \<noteq> AgentCall m" "service_turn dp call pc st = (pc', st', out)"
  shows "\<exists>d. st' = st\<lparr>ms_db := d\<rparr>"
proof (cases call)
  case (HumanCall stamp env uuid now req)
  with assms(2) show ?thesis by (auto split: prod.splits option.splits intro: exI [of _ "ms_db st"])
next
  case (LoginCall stamp req)
  with assms(2) show ?thesis by (cases pc) (auto split: auth_provider.splits intro: exI [of _ "ms_db st"])
next
  case (LogoutCall req)
  with assms(2) show ?thesis by (cases pc) (auto split: auth_provider.splits intro: exI [of _ "ms_db st"])
next
  case (SweepCall now)
  with assms(2) show ?thesis by (cases pc) (auto intro: exI [of _ "ms_db st"])
qed (use assms(1) in simp)

lemma service_turn_content:
  assumes "sql_database content (dp_db dp)" "calls_ok dp calls" "hits_fit s0 calls"
    "well_formed (content (ms_db st))" "clean_ids (content (ms_db st))"
    "tools_from (service_gave calls log) (service_asked s0 calls log) s0 st"
    "call_known (content (ms_db st)) (calls i) pc"
    "content_known (service_gave calls log) (service_asked s0 calls log) (content (ms_db st)) (calls i) pc"
    "service_turn dp (calls i) pc st = (pc', st', out)"
  shows "tools_from (service_gave calls (log @ map (Pair i) out)) (service_asked s0 calls (log @ map (Pair i) out)) s0 st'
    \<and> content_known (service_gave calls (log @ map (Pair i) out)) (service_asked s0 calls (log @ map (Pair i) out))
        (content (ms_db st')) (calls i) pc'"
proof -
  let ?log = "log @ map (Pair i) out"
  let ?gave = "service_gave calls ?log" and ?asked = "service_asked s0 calls ?log"
  have ok: "event_ok dp (call_event (calls i))" using assms(2) by (simp add: calls_ok_def)
  note writes = service_turn_writes [OF assms(1) ok assms(4,7,9)]
  have tools: "tools_from ?gave ?asked s0 st"
    by (rule tools_from_mono [OF _ _ assms(6)]) (erule service_gave_mono service_asked_mono)+
  show ?thesis
  proof (cases "\<exists>m p. calls i = AgentCall m \<and> agent_pc pc = Some p")
    case False
    have st': "\<exists>d. st' = st\<lparr>ms_db := d\<rparr>"
    proof (cases "\<exists>m. calls i = AgentCall m")
      case True
      then obtain m where m: "calls i = AgentCall m" by blast
      with False have "agent_pc pc = None" by (cases "agent_pc pc") auto
      with m assms(9) have "st' = st\<lparr>ms_db := ms_db st\<rparr>" by simp
      then show ?thesis by blast
    qed (use other_turn_tools [OF _ assms(9)] in blast)
    have pc': "agent_pc pc' = None" if m: "calls i = AgentCall m" for m
    proof -
      from False m have "agent_pc pc = None" by (cases "agent_pc pc") auto
      with m assms(9) have "pc' = Handled" by simp
      then show ?thesis by (simp add: agent_pc_def)
    qed
    from st' have "tools_from ?gave ?asked s0 st'" using tools by (elim exE) simp
    with pc' show ?thesis by (auto simp: content_known_def)
  next
    case True
    then obtain m p where m: "calls i = AgentCall m" "agent_pc pc = Some p" by blast
    then obtain p' where t: "mcp_turn (dp_db dp) m p st = (p', st', out)" "pc' = AgentAt p'"
      using assms(9) by (auto split: prod.splits)
    have typed: "request_at (issued (content (ms_db st))) m p" using assms(7) m by (simp add: call_known_def)
    have at: "content_at ?gave ?asked (issued (content (ms_db st))) m p"
      using content_known_later [OF writes_none assms(8)] m by (simp add: content_known_def)
    have "tools_from ?gave ?asked s0 st' \<and> content_at ?gave ?asked (issued (content (ms_db st))) m p'"
    proof (rule mcp_turn_content [OF tools typed at _ t(1)])
      show "\<forall>a \<in> set (tb_actors (issued (content (ms_db st)))). nul \<notin> set (actor_id a)"
        using assms(5) by (simp add: clean_ids_def issued_def)
    next
      fix a :: actor and inp u resp
      assume "mc_request m = CallFetch inp" "env_parse (me_fetch (mc_env m)) (in_url inp) = Inr u"
        "(actor_id a, url_string u) \<in> set out" "env_origin (me_fetch (mc_env m)) (url_string u) = Inr resp"
      with m(1) show "?gave (actor_id a) (in_url inp) resp" unfolding service_gave_def by fastforce
    next
      fix a :: actor and inp target rs
      assume s: "mc_request m = CallSearch inp" "(actor_id a, target) \<in> set out"
        "hits_of (me_search (mc_env m)) s0 (in_query inp) rs"
      with m(1) have "?asked (actor_id a) (in_query inp) rs" unfolding service_asked_def by fastforce
      with assms(3) m(1) s show "?asked (actor_id a) (in_query inp) rs \<and> default_results_cache_bytes + results_size rs \<le> max_int64"
        unfolding hits_fit_def by blast
    qed
    with content_within [OF writes_within [OF writes]] t(2) m(1) show ?thesis by (auto simp: content_known_def)
  qed
qed

lemma service_sound:
  assumes "sql_database content (dp_db dp)"
  shows "stable_turns (service_turn dp) (\<lambda>calls. calls_ok dp calls \<and> hits_fit s0 calls)
     (\<lambda>calls log st. well_formed (content (ms_db st)) \<and> clean_ids (content (ms_db st))
        \<and> tools_from (service_gave calls log) (service_asked s0 calls log) s0 st)
     (\<lambda>calls log st call pc. call_known (content (ms_db st)) call pc
        \<and> content_known (service_gave calls log) (service_asked s0 calls log) (content (ms_db st)) call pc)"
proof (unfold_locales, goal_cases)
  case (1 calls log st i pc pc' st' out)
  have ok: "event_ok dp (call_event (calls i))" using 1(1) by (simp add: calls_ok_def)
  have data: "well_formed (content (ms_db st))" "clean_ids (content (ms_db st))"
    and known: "call_known (content (ms_db st)) (calls i) pc" using 1(2,3) by simp_all
  note w = service_turn_writes [OF assms ok data(1) known 1(4)]
  have "well_formed (content (ms_db st'))" "clean_ids (content (ms_db st'))"
    using writes_well_formed [OF w data(1)] writes_clean [OF w data(2) permitted_clean [OF ok]] .
  moreover have "call_known (content (ms_db st')) (calls i) pc'" by (rule service_turn_known [OF assms ok data(1) known 1(4)])
  moreover note service_turn_content [OF assms conjunct1 [OF 1(1)] conjunct2 [OF 1(1)] data
      conjunct2 [OF conjunct2 [OF 1(2)]] known conjunct2 [OF 1(3)] 1(4)]
  ultimately show ?case by simp
next
  case (2 calls log st i pc pc' st' out c other)
  have ok: "event_ok dp (call_event (calls i))" using 2(1) by (simp add: calls_ok_def)
  have data: "well_formed (content (ms_db st))" and known: "call_known (content (ms_db st)) (calls i) pc"
    using 2(2,3) by simp_all
  note w = service_turn_writes [OF assms ok data known 2(4)]
  from call_known_later [OF w conjunct1 [OF 2(5)]] content_known_later [OF w conjunct2 [OF 2(5)]] show ?case by simp
qed

text \<open>A hash belongs to one agent, in all the tables of a run.\<close>

lemma held_unique:
  assumes "uniq_credentials (tb_credentials c)" "held_by c h i" "held_by c h j" shows "i = j"
  using assms distinct_map_eq [of cred_hash "tb_credentials c"]
  by (auto simp: held_by_def holders_def uniq_credentials_def)

text \<open>A request that has begun and was not refused found its token live at its first turn.\<close>

lemma first_turn_live:
  assumes "sql_database content (dp_db dp)" "calls i = AgentCall c" "s = take_turns (service_turn dp) calls sched (server_start Waits st)"
    "tn_pc s i = AgentAt p" "\<And>r. p \<noteq> McpEnded (Refused r)"
  shows "\<exists>before after raw cred. sched = before @ i # after \<and> i \<notin> set before \<and> mc_header c = ''Bearer '' @ raw
    \<and> live (hash_token (me_sha (mc_env c)) raw)
        (content (ms_db (tn_state (take_turns (service_turn dp) calls before (server_start Waits st))))) cred"
proof -
  let ?run = "\<lambda>is. take_turns (service_turn dp) calls is (server_start Waits st)"
  have "\<not> tn_pc (server_start Waits st) i \<noteq> Waits" "tn_pc (?run sched) i \<noteq> Waits" using assms(3,4) by simp_all
  then obtain before after where sched: "sched = before @ i # after" and waits: "tn_pc (?run before) i = Waits"
    using turn_when [of "\<lambda>pc. pc \<noteq> Waits" "server_start Waits st" i "service_turn dp" calls sched] by blast
  let ?st = "tn_state (?run before)"
  obtain p1 st1 out1 where t: "mcp_turn (dp_db dp) c McpArrived ?st = (p1, st1, out1)" by (metis prod.collapse)
  with waits assms(2) have now: "tn_pc (?run (before @ [i])) i = AgentAt p1"
    by (simp add: take_turns_append take_turn_def del: mcp_turn.simps)
  have "p1 \<noteq> McpEnded (Refused r)" for r
  proof
    assume r: "p1 = McpEnded (Refused r)"
    have "tn_pc (take_turns (service_turn dp) calls after (?run (before @ [i]))) i = AgentAt p1"
      by (rule take_turns_stay [OF _ now]) (simp add: r assms(2))
    with r assms(4,5) show False by (simp add: assms(3) sched take_turns_append)
  qed
  with t obtain raw cred d where raw: "cut_prefix (mc_header c) ''Bearer '' = Some raw"
    and f: "sql_first (db_credentials (dp_db dp)) (\<lambda>x. cred_hash x = hash_token (me_sha (mc_env c)) raw \<and> cred_revoked x = None)
      (ms_db ?st) = (Inr cred, d)" by (auto split: option.splits if_splits prod.splits sum.splits)
  have "mc_header c = ''Bearer '' @ raw"
    using raw by (auto simp: cut_prefix_def split: if_splits) (metis append_take_drop_id append_Cons append_Nil)
  moreover have "live (hash_token (me_sha (mc_env c)) raw) (content (ms_db ?st)) cred"
    using f sql_table.first_found [OF sql_database.axioms(2) [OF assms(1)]] unfolding live_def by blast
  moreover have "i \<notin> set before"
  proof
    assume "i \<in> set before"
    then have "count_list before i \<noteq> 0" by (simp add: count_list_0_iff)
    then have "1 \<le> count_list before i" by simp
    with calls.turns_progress [of "server_start Waits st" i before dp calls] waits show False by simp
  qed
  ultimately show ?thesis using sched by blast
qed

text \<open>So the agent that a request ran for is the one whose credential was live then.\<close>

lemma owner_was_live:
  assumes "sql_database content (dp_db dp)" "calls_ok dp calls" "well_formed (content (ms_db st))"
    "s = take_turns (service_turn dp) calls sched (server_start Waits st)" "calls i = AgentCall c"
    "tn_pc s i = AgentAt p" "\<And>r. p \<noteq> McpEnded (Refused r)"
    "owner_of (issued (content (ms_db (tn_state s)))) c a"
  shows "a \<in> set (tb_actors (content (ms_db (tn_state s))))"
    "\<exists>before after raw cred. sched = before @ i # after \<and> i \<notin> set before \<and> mc_header c = ''Bearer '' @ raw \<and> cred_actor cred = actor_id a
      \<and> live (hash_token (dp_sha dp) raw)
          (content (ms_db (tn_state (take_turns (service_turn dp) calls before (server_start Waits st))))) cred"
proof -
  let ?last = "content (ms_db (tn_state s))"
  show "a \<in> set (tb_actors ?last)" using assms(8) by (simp add: owner_of_def issued_def)
  have sha: "me_sha (mc_env c) = dp_sha dp" using assms(2,5) by (auto simp: calls_ok_def dest: spec [of _ i])
  obtain before after raw cred where first: "sched = before @ i # after" "i \<notin> set before" "mc_header c = ''Bearer '' @ raw"
    "live (hash_token (dp_sha dp) raw) (content (ms_db (tn_state (take_turns (service_turn dp) calls before (server_start Waits st))))) cred"
    using first_turn_live [OF assms(1,5,4,6,7)] unfolding sha by blast
  let ?then = "take_turns (service_turn dp) calls before (server_start Waits st)"
  have "held_by ?last (hash_token (dp_sha dp) raw) (cred_actor cred)"
  proof (rule writes_keep_owner)
    show "table_writes (\<Union>j \<in> set (i # after). permitted dp (call_event (calls j))) (content (ms_db (tn_state ?then))) ?last"
      using run_writes [OF assms(1-3) refl, where sched = before and later = "i # after"]
      by (simp only: assms(4) first(1) take_turns_append)
    show "held_by (content (ms_db (tn_state ?then))) (hash_token (dp_sha dp) raw) (cred_actor cred)"
      using first(4) by (rule live_held)
  qed
  moreover have "held_by ?last (hash_token (dp_sha dp) raw) (actor_id a)"
    using assms(8) first(3) by (auto simp: owner_of_def bearer_of_def sha live_issued [symmetric])
  moreover have "uniq_credentials (tb_credentials ?last)"
    using data_run(1) [OF assms(1-4)] by (simp add: well_formed_def tables_ok_def)
  ultimately have "cred_actor cred = actor_id a" using held_unique by blast
  with first show "\<exists>before after raw cred. sched = before @ i # after \<and> i \<notin> set before \<and> mc_header c = ''Bearer '' @ raw \<and> cred_actor cred = actor_id a
      \<and> live (hash_token (dp_sha dp) raw)
          (content (ms_db (tn_state (take_turns (service_turn dp) calls before (server_start Waits st))))) cred" by blast
qed

subsection \<open>What is sent\<close>

text \<open>An exchange that the input of a request asks for: to the URL that it parses to, or to SearXNG with
  its query.\<close>

definition asked_by :: "string \<Rightarrow> mcp_call \<Rightarrow> string \<Rightarrow> bool" where
  "asked_by base c target \<longleftrightarrow> (case mc_request c of
      CallFetch inp \<Rightarrow> 0 \<le> in_offset inp \<and> (\<exists>u. env_parse (me_fetch (mc_env c)) (in_url inp) = Inr u
        \<and> (url_scheme u = ''http'' \<or> url_scheme u = ''https'') \<and> target = url_string u)
    | CallSearch inp \<Rightarrow> trim_space (in_query inp) \<noteq> []
        \<and> (\<exists>endpoint rq. se_endpoint (me_search (mc_env c)) (base @ ''/search'') = Inr endpoint \<and> target = endpoint rq
             \<and> parse_query rq = Some [(''format'', ''json''), (''q'', in_query inp)]))"

text \<open>What was checked of the input before the turn that sends.\<close>

fun vetted :: "mcp_call \<Rightarrow> mcp_pc \<Rightarrow> bool" where
  "vetted c (FetchRuns a inp (ResultMissed u)) \<longleftrightarrow> 0 \<le> in_offset inp \<and> env_parse (me_fetch (mc_env c)) (in_url inp) = Inr u
     \<and> (url_scheme u = ''http'' \<or> url_scheme u = ''https'')"
| "vetted c (FetchRuns a inp (SnapshotMissed u)) \<longleftrightarrow> 0 \<le> in_offset inp \<and> env_parse (me_fetch (mc_env c)) (in_url inp) = Inr u
     \<and> (url_scheme u = ''http'' \<or> url_scheme u = ''https'')"
| "vetted c (SearchRuns a inp SearchMissed) \<longleftrightarrow> trim_space (in_query inp) \<noteq> []"
| "vetted c pc \<longleftrightarrow> True"

lemma fetch_turn_sends:
  assumes "fetch_turn (agent_fetch c a inp) pc f = (pc', f', reqs)" "vetted c (FetchRuns a inp pc)" "mc_request c = CallFetch inp"
  shows "vetted c (FetchRuns a inp pc') \<and> (reqs = [] \<or> (\<exists>target res. reqs = [target] \<and> asked_by base c target
    \<and> pc' = Ended res \<and> fetch_stage pc = 2))"
proof (cases pc)
  case Arrived
  with assms show ?thesis by (auto simp: agent_fetch_def split: if_splits sum.splits prod.splits option.splits)
next
  case (ResultMissed u)
  with assms show ?thesis by (auto split: prod.splits option.splits)
next
  case (SnapshotMissed u)
  have "snd (do_get (fc_env (agent_fetch c a inp)) u) \<in> {[], [url_string u]}"
    by (auto simp: do_get_def split: sum.splits get_error.splits)
  with assms SnapshotMissed show ?thesis by (auto simp: asked_by_def split: sum.splits prod.splits)
qed (use assms in simp)

lemma search_turn_sends:
  assumes "search_turn (agent_search c a inp) pc s = (pc', s', reqs)" "vetted c (SearchRuns a inp pc)" "mc_request c = CallSearch inp"
  shows "vetted c (SearchRuns a inp pc') \<and> s_base_url s' = s_base_url s
    \<and> (reqs = [] \<or> (\<exists>target res. reqs = [target] \<and> asked_by (s_base_url s) c target \<and> pc' = SearchEnded res \<and> search_stage pc = 1))"
proof (cases pc)
  case SearchArrived
  with assms show ?thesis by (auto simp: agent_search_def split: if_splits prod.splits option.splits)
next
  case SearchMissed
  obtain res rq where q: "query_searxng (me_search (mc_env c)) s (in_query inp) (clamp_limit (in_limit inp)) = (res, rq)" by fastforce
  then have "rq = [] \<or> (\<exists>endpoint. se_endpoint (me_search (mc_env c)) (s_base_url s @ ''/search'') = Inr endpoint
      \<and> rq = [endpoint (raw_query (in_query inp))])"
    by (auto simp: query_searxng_def Let_def split: sum.splits search_failure.splits if_splits)
  moreover have "pc' = SearchEnded res" "s_base_url s' = s_base_url s" "reqs = rq"
    using assms(1) SearchMissed q by (auto simp: agent_search_def split: sum.splits if_splits)
  ultimately show ?thesis
    using assms(2,3) SearchMissed parse_raw_query [of "in_query inp"] by (auto simp: asked_by_def)
qed (use assms in simp)

lemma mcp_turn_sends:
  assumes "request_at c0 c pc" "vetted c pc" "mcp_turn db c pc st = (pc', st', out)"
  shows "vetted c pc' \<and> s_base_url (ms_searcher st') = s_base_url (ms_searcher st)
    \<and> (out = [] \<or> (\<exists>a target reply. out = [(actor_id a, target)] \<and> owner_of c0 c a
         \<and> asked_by (s_base_url (ms_searcher st)) c target \<and> pc' = ToolReturned a reply \<and> mcp_stage pc < 6))"
proof (cases pc)
  case (FetchRuns a inp fpc)
  obtain pc1 f reqs where t: "fetch_turn (agent_fetch c a inp) fpc (ms_fetcher st) = (pc1, f, reqs)" by (metis prod.collapse)
  have "mc_request c = CallFetch inp" "owner_of c0 c a" "vetted c (FetchRuns a inp fpc)" using assms(1,2) FetchRuns by simp_all
  with fetch_turn_sends [OF t, of "s_base_url (ms_searcher st)"] t assms(3) FetchRuns show ?thesis by (cases pc1) auto
next
  case (SearchRuns a inp spc)
  obtain pc1 s reqs where t: "search_turn (agent_search c a inp) spc (ms_searcher st) = (pc1, s, reqs)" by (metis prod.collapse)
  have "mc_request c = CallSearch inp" "owner_of c0 c a" "vetted c (SearchRuns a inp spc)" using assms(1,2) SearchRuns by simp_all
  with search_turn_sends [OF t] t assms(3) SearchRuns show ?thesis by (cases pc1) auto
qed (use assms(3) in \<open>auto split: option.splits if_splits sum.splits prod.splits tool_request.splits\<close>)

text \<open>An exchange of the log, and where its request stands.\<close>

definition sent_for :: "string \<Rightarrow> (nat \<Rightarrow> 'e service_call) \<Rightarrow> tables \<Rightarrow> service_pc \<Rightarrow> nat \<Rightarrow> string \<Rightarrow> string \<Rightarrow> bool" where
  "sent_for base calls c pc i agent target \<longleftrightarrow> (\<exists>m p a. calls i = AgentCall m \<and> pc = AgentAt p \<and> 6 \<le> mcp_stage p
     \<and> (\<forall>r. p \<noteq> McpEnded (Refused r)) \<and> owner_of (issued c) m a \<and> actor_id a = agent \<and> asked_by base m target)"

definition sends_ok :: "string \<Rightarrow> (nat \<Rightarrow> 'e service_call) \<Rightarrow> ('d mcp_state, service_pc, string \<times> string) server \<Rightarrow> tables \<Rightarrow> bool" where
  "sends_ok base calls s c \<longleftrightarrow> s_base_url (ms_searcher (tn_state s)) = base
     \<and> (\<forall>i m p. calls i = AgentCall m \<longrightarrow> agent_pc (tn_pc s i) = Some p \<longrightarrow> vetted m p)
     \<and> (\<forall>i agent target. (i, agent, target) \<in> set (tn_log s) \<longrightarrow> sent_for base calls c (tn_pc s i) i agent target
          \<and> filter (\<lambda>x. fst x = i) (tn_log s) = [(i, agent, target)])"

lemma sent_for_later:
  assumes "table_writes K c c'" "sent_for base calls c pc i agent target" shows "sent_for base calls c' pc i agent target"
  using assms(2) owner_within [OF writes_within [OF assms(1)]] unfolding sent_for_def by blast

text \<open>A request that has sent its exchange is past its tool, and a turn sends nothing more.\<close>

lemma sent_for_stays:
  assumes "sent_for base calls c (tn_pc s i) i agent target" "service_turn dp (calls i) (tn_pc s i) st = (pc', st', out)"
  shows "sent_for base calls c pc' i agent target \<and> out = []"
proof -
  obtain m p where m: "calls i = AgentCall m" "tn_pc s i = AgentAt p" "6 \<le> mcp_stage p"
    using assms(1) unfolding sent_for_def by blast
  then consider a reply where "p = ToolReturned a reply" | res where "p = McpEnded res" by (cases p) auto
  then show ?thesis
  proof cases
    case 1
    with assms m show ?thesis unfolding sent_for_def by (auto split: option.splits prod.splits)
  next
    case 2
    with assms(2) m have "pc' = tn_pc s i" "out = []" by auto
    with assms(1) show ?thesis by simp
  qed
qed

lemma turn_sends_ok:
  assumes "sql_database content (dp_db dp)" "event_ok dp (call_event (calls j))" "well_formed (content (ms_db (tn_state s)))"
    "call_known (content (ms_db (tn_state s))) (calls j) (tn_pc s j)" "sends_ok base calls s (content (ms_db (tn_state s)))"
  shows "sends_ok base calls (take_turn (service_turn dp) calls j s) (content (ms_db (tn_state (take_turn (service_turn dp) calls j s))))"
proof -
  let ?c = "content (ms_db (tn_state s))"
  obtain pc' st' out where t: "service_turn dp (calls j) (tn_pc s j) (tn_state s) = (pc', st', out)" by (metis prod.collapse)
  let ?c' = "content (ms_db st')" and ?pc = "(tn_pc s)(j := pc')"
  note w = service_turn_writes [OF assms(1-4) t]
  have before: "s_base_url (ms_searcher (tn_state s)) = base"
    "\<And>i m p. calls i = AgentCall m \<Longrightarrow> agent_pc (tn_pc s i) = Some p \<Longrightarrow> vetted m p"
    "\<And>i agent target. (i, agent, target) \<in> set (tn_log s) \<Longrightarrow> sent_for base calls ?c (tn_pc s i) i agent target
       \<and> filter (\<lambda>x. fst x = i) (tn_log s) = [(i, agent, target)]"
    using assms(5) by (auto simp: sends_ok_def)
  have turn: "s_base_url (ms_searcher st') = base \<and> (\<forall>m p. calls j = AgentCall m \<longrightarrow> agent_pc pc' = Some p \<longrightarrow> vetted m p)
      \<and> (out = [] \<or> (\<exists>agent target. out = [(agent, target)] \<and> sent_for base calls ?c pc' j agent target
           \<and> (\<forall>m p. calls j = AgentCall m \<longrightarrow> agent_pc (tn_pc s j) = Some p \<longrightarrow> mcp_stage p < 6)))"
  proof (cases "\<exists>m p. calls j = AgentCall m \<and> agent_pc (tn_pc s j) = Some p")
    case True
    then obtain m p where m: "calls j = AgentCall m" "agent_pc (tn_pc s j) = Some p" by blast
    then obtain p' where p': "mcp_turn (dp_db dp) m p (tn_state s) = (p', st', out)" "pc' = AgentAt p'"
      using t by (auto split: prod.splits)
    have "request_at (issued ?c) m p" using assms(4) m by (simp add: call_known_def)
    from mcp_turn_sends [OF this before(2) [OF m] p'(1)] before(1) m p'(2) show ?thesis
      by (auto simp: sent_for_def)
  next
    case False
    then have "(\<exists>d. st' = (tn_state s)\<lparr>ms_db := d\<rparr>) \<and> out = [] \<and> (\<forall>m. calls j = AgentCall m \<longrightarrow> agent_pc pc' = None)"
      using other_turn_tools [OF _ t] t
      by (cases "calls j"; cases "tn_pc s j") (auto split: prod.splits option.splits intro: exI [of _ "ms_db (tn_state s)"])
    with before(1) show ?thesis by auto
  qed
  have "sent_for base calls ?c' (?pc i) i agent target \<and> filter (\<lambda>x. fst x = i) (tn_log s @ map (Pair j) out) = [(i, agent, target)]"
    if "(i, agent, target) \<in> set (tn_log s @ map (Pair j) out)" for i agent target
  proof (cases "(i, agent, target) \<in> set (tn_log s)")
    case True
    note old = before(3) [OF True]
    show ?thesis
    proof (cases "i = j")
      case True
      with sent_for_stays [OF conjunct1 [OF old], where dp = dp] t
      have "sent_for base calls ?c pc' j agent target" "out = []" by blast+
      with True old sent_for_later [OF w] show ?thesis by simp
    next
      case False
      then have "filter (\<lambda>x. fst x = i) (map (Pair j) out) = []" by (simp add: filter_empty_conv)
      with False old sent_for_later [OF w] show ?thesis by auto
    qed
  next
    case False
    with that turn have new: "i = j" "out = [(agent, target)]" "sent_for base calls ?c pc' j agent target"
      and early: "\<And>m p. calls j = AgentCall m \<Longrightarrow> agent_pc (tn_pc s j) = Some p \<Longrightarrow> mcp_stage p < 6" by auto
    have "filter (\<lambda>x. fst x = j) (tn_log s) = []"
    proof (rule ccontr)
      assume "filter (\<lambda>x. fst x = j) (tn_log s) \<noteq> []"
      then obtain a' t' where "(j, a', t') \<in> set (tn_log s)" by (auto simp: filter_empty_conv)
      from before(3) [OF this] obtain m p where "calls j = AgentCall m" "tn_pc s j = AgentAt p" "6 \<le> mcp_stage p"
        unfolding sent_for_def by blast
      with early [of m p] show False by simp
    qed
    with new sent_for_later [OF w] show ?thesis by simp
  qed
  with turn before(2) t show ?thesis unfolding sends_ok_def by (auto simp: take_turn_def)
qed

lemma run_sends_ok:
  assumes "sql_database content (dp_db dp)" "calls_ok dp calls" "well_formed (content (ms_db st))"
  shows "sends_ok (s_base_url (ms_searcher st)) calls (take_turns (service_turn dp) calls sched (server_start Waits st))
    (content (ms_db (tn_state (take_turns (service_turn dp) calls sched (server_start Waits st)))))"
proof (induction sched rule: rev_induct)
  case Nil
  then show ?case by (simp add: sends_ok_def)
next
  case (snoc j sched)
  have "event_ok dp (call_event (calls j))" using assms(2) by (simp add: calls_ok_def)
  from turn_sends_ok [where dp = dp, OF assms(1) this data_run [OF assms refl] snoc.IH] show ?case by (simp add: take_turns_append)
qed

subsection \<open>The history\<close>

lemma write_keeps_out: "table_write k c c' \<Longrightarrow> k \<noteq> AddCall \<Longrightarrow> set (tb_calls c') \<subseteq> set (tb_calls c)"
  by (auto elim!: table_writeE simp: same_but_humans_def)

lemma writes_keep_out: "table_writes K c c' \<Longrightarrow> AddCall \<notin> K \<Longrightarrow> set (tb_calls c') \<subseteq> set (tb_calls c)"
  by (induction rule: writes_induct) (use write_keeps_out in blast)+

lemma permitted_call: "AddCall \<in> permitted dp (call_event call) \<Longrightarrow> \<exists>m. call = AgentCall m"
  by (cases call) (auto simp: route_writes_def split: route_match.splits endpoint.splits if_splits)

definition row_of_call :: "tables \<Rightarrow> 'e service_call \<Rightarrow> service_pc \<Rightarrow> tool_call \<Rightarrow> bool" where
  "row_of_call c call pc row \<longleftrightarrow> (\<exists>m p. call = AgentCall m \<and> pc = AgentAt p \<and> row_of_request (issued c) m p row)"

lemma row_of_call_later:
  assumes "table_writes K c c'" "row_of_call c call pc row" shows "row_of_call c' call pc row"
  using assms(2) owner_within [OF writes_within [OF assms(1)]] unfolding row_of_call_def row_of_request_def by blast

lemma row_of_call_stays:
  assumes "row_of_call c call pc row" "service_turn dp call pc st = (pc', st', out)" shows "pc' = pc"
  using assms by (auto simp: row_of_call_def row_of_request_def)

lemma turn_row:
  assumes "sql_database content (dp_db dp)" "event_ok dp (call_event call)" "well_formed (content (ms_db st))"
    "call_known (content (ms_db st)) call pc" "service_turn dp call pc st = (pc', st', out)"
    "row \<in> set (tb_calls (content (ms_db st')))" "row \<notin> set (tb_calls (content (ms_db st)))"
  shows "row_of_call (content (ms_db st')) call pc' row"
proof -
  note writes = service_turn_writes [OF assms(1-5)]
  have "AddCall \<in> permitted dp (call_event call)" using writes_keep_out [OF writes] assms(6,7) by blast
  then obtain m where m: "call = AgentCall m" using permitted_call by blast
  obtain p where p: "agent_pc pc = Some p" using assms(5-7) m by (cases "agent_pc pc") auto
  with m assms(5) obtain p' where t: "mcp_turn (dp_db dp) m p st = (p', st', out)" "pc' = AgentAt p'" by (auto split: prod.splits)
  have typed: "request_at (issued (content (ms_db st))) m p" using assms(4) m p by (simp add: call_known_def)
  have "row_of_request (issued (content (ms_db st))) m p' row"
  proof (cases rule: sql_database.mcp_turn_tables [OF assms(1) typed t(1), case_names same touched row])
    case (row a reply r)
    with assms(6,7) have "row = r" by (auto elim: row_written_cases)
    with row typed show ?thesis by (auto simp: row_of_request_def)
  qed (use assms(6,7) in simp_all)
  with m t(2) have "row_of_call (content (ms_db st)) call pc' row" by (simp add: row_of_call_def)
  then show ?thesis by (rule row_of_call_later [OF writes])
qed

lemma history_attributed:
  assumes "sql_database content (dp_db dp)" "calls_ok dp calls" "well_formed (content (ms_db st))"
    "s = take_turns (service_turn dp) calls sched (server_start Waits st)"
    "row \<in> set (tb_calls (content (ms_db (tn_state s))))" "row \<notin> set (tb_calls (content (ms_db st)))"
  shows "\<exists>i. row_of_call (content (ms_db (tn_state s))) (calls i) (tn_pc s i) row"
  using assms(4,5)
proof (induction sched arbitrary: s rule: rev_induct)
  case Nil
  with assms(6) show ?case by simp
next
  case (snoc j js)
  let ?s = "take_turns (service_turn dp) calls js (server_start Waits st)"
  obtain pc' st' out where t: "service_turn dp (calls j) (tn_pc ?s j) (tn_state ?s) = (pc', st', out)" by (metis prod.collapse)
  with snoc.prems have s: "tn_state s = st'" "tn_pc s = (tn_pc ?s)(j := pc')" by (simp_all add: take_turns_append take_turn_def)
  have ok: "event_ok dp (call_event (calls j))" using assms(2) by (simp add: calls_ok_def)
  note step = assms(1) ok data_run [OF assms(1-3) refl] t
  show ?case
  proof (cases "row \<in> set (tb_calls (content (ms_db (tn_state ?s))))")
    case True
    then obtain i where i: "row_of_call (content (ms_db (tn_state ?s))) (calls i) (tn_pc ?s i) row" using snoc.IH by blast
    from row_of_call_later [OF service_turn_writes [OF step] this] row_of_call_stays [OF this, of dp] t
    have "row_of_call (content (ms_db (tn_state s))) (calls i) (tn_pc s i) row" by (auto simp: s)
    then show ?thesis by blast
  next
    case False
    from turn_row [OF step _ this] snoc.prems(2) have "row_of_call (content (ms_db (tn_state s))) (calls j) (tn_pc s j) row"
      by (simp add: s)
    then show ?thesis by blast
  qed
qed

text \<open>What the sweeps of a schedule may delete.\<close>

lemma swept_only_old:
  assumes "\<forall>i \<in> set sched. \<forall>now. calls i = SweepCall now \<longrightarrow> dp_retention dp \<le> 0 \<or> now - called \<le> dp_retention dp"
    "DeleteCalls t \<in> (\<Union>i \<in> set sched. permitted dp (call_event (calls i)))"
  shows "t \<le> called"
proof -
  from assms(2) obtain i where i: "i \<in> set sched" "DeleteCalls t \<in> permitted dp (call_event (calls i))" by blast
  from delete_only_by_sweep [OF i(2)] obtain now where "call_event (calls i) = PruneTick now" "0 < dp_retention dp"
    "t = now - dp_retention dp" by blast
  with assms(1) i(1) show ?thesis by (cases "calls i") fastforce+
qed

text \<open>The identifiers that the agents' requests draw for their rows are new and differ.\<close>

definition ids_fresh :: "tables \<Rightarrow> (nat \<Rightarrow> 'e service_call) \<Rightarrow> bool" where
  "ids_fresh c0 calls \<longleftrightarrow> (\<forall>i m. calls i = AgentCall m \<longrightarrow> st_uuid (me_stamp (mc_env m)) \<notin> call_id ` set (tb_calls c0)
     \<and> (\<forall>j n. calls j = AgentCall n \<and> st_uuid (me_stamp (mc_env n)) = st_uuid (me_stamp (mc_env m)) \<longrightarrow> j = i))"

text \<open>The turn that ends a request with a reply writes its row, when the database works.\<close>

lemma served_turn_writes_row:
  assumes "calm_database content db calm" "calm (ms_db st)" "request_at c0 m p"
    "mcp_turn db m p st = (McpEnded (Served (Some reply)), st', out)" "p \<noteq> McpEnded (Served (Some reply))"
    "uniq_calls (tb_calls (content (ms_db st)))"
    "st_uuid (me_stamp (mc_env m)) \<notin> call_id ` set (tb_calls (content (ms_db st)))"
  shows "\<exists>a row. reply_row a (mc_request m) reply row \<and> call_id row = st_uuid (me_stamp (mc_env m))
    \<and> call_called_at row = st_now (me_stamp (mc_env m)) \<and> row \<in> set (tb_calls (content (ms_db st')))"
proof -
  have sql: "sql_database content db" using assms(1) by (rule calm_database.axioms(1))
  obtain a reply' where p: "p = ToolReturned a reply'"
    using assms(4,5) by (cases p) (auto split: option.splits if_splits prod.splits sum.splits tool_request.splits
        fetch_pc.splits search_pc.splits)
  show ?thesis
  proof (cases rule: sql_database.mcp_turn_tables [OF sql assms(3,4), case_names same touched row])
    case (row b reply2 r)
    have "uniq_calls (tb_calls (content (ms_db st)) @ [r])" using assms(6,7) row(4) by (simp add: uniq_calls_def)
    from calm_database.calm_insert [OF assms(1,2) this row(6)] row(2-5) show ?thesis by auto
  qed (use p in simp_all)
qed

lemma served_is_recorded:
  assumes "calm_database content (dp_db dp) calm" "calls_ok dp calls" "well_formed (content (ms_db st))"
    "ids_fresh (content (ms_db st)) calls" "s = take_turns (service_turn dp) calls sched (server_start Waits st)"
    "\<forall>n. calm (ms_db (tn_state (take_turns (service_turn dp) calls (take n sched) (server_start Waits st))))"
    "calls i = AgentCall m" "tn_pc s i = AgentAt (McpEnded (Served (Some reply)))"
    "\<forall>j \<in> set sched. \<forall>now. calls j = SweepCall now \<longrightarrow>
       dp_retention dp \<le> 0 \<or> now - st_now (me_stamp (mc_env m)) \<le> dp_retention dp"
  shows "\<exists>a row. reply_row a (mc_request m) reply row \<and> call_id row = st_uuid (me_stamp (mc_env m))
    \<and> row \<in> set (tb_calls (content (ms_db (tn_state s))))"
proof -
  let ?run = "\<lambda>is. take_turns (service_turn dp) calls is (server_start Waits st)" and ?ended = "AgentAt (McpEnded (Served (Some reply)))"
  have sql: "sql_database content (dp_db dp)" using assms(1) by (rule calm_database.axioms(1))
  have "tn_pc (server_start Waits st) i \<noteq> ?ended" by simp
  then obtain js later where split: "sched = js @ i # later" and p: "tn_pc (?run js) i \<noteq> ?ended" "tn_pc (?run (js @ [i])) i = ?ended"
    using turn_when [of "\<lambda>pc. pc = ?ended" "server_start Waits st" i "service_turn dp" calls sched] assms(5,8) by metis
  let ?st = "tn_state (?run js)"
  obtain q st' out where t: "agent_pc (tn_pc (?run js) i) = Some q"
    "mcp_turn (dp_db dp) m q ?st = (McpEnded (Served (Some reply)), st', out)" and st': "tn_state (?run (js @ [i])) = st'"
    using p(2) assms(7) by (auto simp: take_turns_append take_turn_def split: prod.splits option.splits)
  have q: "q \<noteq> McpEnded (Served (Some reply))" using p(1) t(1) by (cases "tn_pc (?run js) i") auto
  note data = data_run [OF sql assms(2,3) refl, of js]
  have typed: "request_at (issued (content (ms_db ?st))) m q" using data(2) [of i] assms(7) t(1) by (simp add: call_known_def)
  have fresh: "st_uuid (me_stamp (mc_env m)) \<notin> call_id ` set (tb_calls (content (ms_db ?st)))"
  proof
    assume "st_uuid (me_stamp (mc_env m)) \<in> call_id ` set (tb_calls (content (ms_db ?st)))"
    then obtain x where x: "x \<in> set (tb_calls (content (ms_db ?st)))" "call_id x = st_uuid (me_stamp (mc_env m))" by auto
    with assms(4,7) have "x \<notin> set (tb_calls (content (ms_db st)))" unfolding ids_fresh_def by (metis imageI)
    with history_attributed [OF sql assms(2,3) refl x(1)] obtain j
      where "row_of_call (content (ms_db ?st)) (calls j) (tn_pc (?run js) j) x" by blast
    then obtain n reply' where j: "calls j = AgentCall n" "tn_pc (?run js) j = AgentAt (McpEnded (Served (Some reply')))"
      "call_id x = st_uuid (me_stamp (mc_env n))" unfolding row_of_call_def row_of_request_def by blast
    with x(2) assms(4,7) have "j = i" unfolding ids_fresh_def by metis
    with j(2) t q show False by auto
  qed
  have "calm (ms_db ?st)" using spec [OF assms(6), of "length js"] split by simp
  from served_turn_writes_row [OF assms(1) this typed t(2) q _ fresh] data(1) obtain a row
    where row: "reply_row a (mc_request m) reply row" "call_id row = st_uuid (me_stamp (mc_env m))"
      "call_called_at row = st_now (me_stamp (mc_env m))" "row \<in> set (tb_calls (content (ms_db st')))"
    by (auto simp: well_formed_def tables_ok_def)
  have "row \<in> set (tb_calls (content (ms_db (tn_state (take_turns (service_turn dp) calls later (?run (js @ [i])))))))"
  proof (rule writes_keep_call [OF run_writes [OF sql assms(2,3) refl]])
    show "\<forall>t. DeleteCalls t \<in> (\<Union>i \<in> set later. permitted dp (call_event (calls i))) \<longrightarrow> t \<le> call_called_at row"
      using swept_only_old [where dp = dp and calls = calls and sched = later and called = "call_called_at row"] assms(9) row(3) split by auto
  qed (use row(4) st' in simp)
  then show ?thesis using row(1,2) by (auto simp: assms(5) split take_turns_append)
qed

subsection \<open>A token that was issued\<close>

text \<open>The turn at which a request that issues a token comes to be answered with 201 leaves tables that
  admit the token.\<close>

lemma answered_201_admits:
  assumes "sql_database content (dp_db dp)" "router_ok (dp_router dp)" "calls_ok dp calls" "well_formed (content (ms_db st))"
    "s = take_turns (service_turn dp) calls before (server_start Waits st)"
    "calls k = HumanCall stamp env uuid now req"
    "dp_router dp rest_routes (rq_method req) (rq_path req) = Matched (b, IssueToken) i"
    "tn_pc s k = HumanAt (Answered reply)" "hr_status reply = 201"
    "\<forall>j \<in> set before. \<not> revoking dp (call_event (calls j))"
  shows "\<exists>token. reply = json_reply 201 (JObj [(''token'', JStr token)]) \<and> token \<noteq> []
    \<and> admits (hash_token (dp_sha dp) token) i (content (ms_db (tn_state s)))
    \<and> (\<exists>raw. re_rnd env = Inr raw \<and> token = token_prefix @ b64_encode True raw)"
proof -
  let ?run = "\<lambda>is. take_turns (service_turn dp) calls is (server_start Waits st)"
  have "tn_pc (server_start Waits st) k \<noteq> HumanAt (Answered reply)" by simp
  then obtain js later where split: "before = js @ k # later" and p: "tn_pc (?run js) k \<noteq> HumanAt (Answered reply)"
    "tn_pc (?run (js @ [k])) k = HumanAt (Answered reply)"
    using turn_when [of "\<lambda>pc. pc = HumanAt (Answered reply)" "server_start Waits st" k "service_turn dp" calls before] assms(5,8)
    by metis
  obtain q d' where t: "human_pc_of (tn_pc (?run js) k) = Some q"
    "api_turn dp stamp env uuid now req (q, ms_db (tn_state (?run js))) = (Answered reply, d')"
    and d': "ms_db (tn_state (?run (js @ [k]))) = d'"
    using p(2) assms(6) by (auto simp: take_turns_append take_turn_def split: prod.splits option.splits)
  have q: "q \<noteq> Answered reply" using p(1) t(1) by (cases "tn_pc (?run js) k") auto
  have sha: "re_sha env = dp_sha dp" using assms(3,6) by (auto simp: calls_ok_def dest: spec [of _ k])
  from api_turn_answers [OF assms(1,2) t(2) q] assms(9) obtain e j ctx where
    "dp_router dp rest_routes (rq_method req) (rq_path req) = Matched (b, e) j"
    "call_endpoint (dp_db dp) env e j ctx req (ms_db (tn_state (?run js))) = (reply, d')" using assms(7) by fastforce
  then have "call_endpoint (dp_db dp) env IssueToken i ctx req (ms_db (tn_state (?run js))) = (reply, d')" using assms(7) by simp
  from issuing_route_admits [OF assms(1) this assms(9)] obtain token where
    token: "reply = json_reply 201 (JObj [(''token'', JStr token)])" "token \<noteq> []" "admits (hash_token (dp_sha dp) token) i (content d')"
    "\<exists>raw. re_rnd env = Inr raw \<and> token = token_prefix @ b64_encode True raw"
    unfolding sha by blast
  have quiet: "RevokeCredentials \<notin> (\<Union>j \<in> set later. permitted dp (call_event (calls j)))"
    using assms(10) revoke_only_by_route by (fastforce simp: split)
  have "admits (hash_token (dp_sha dp) token) i (content (ms_db (tn_state (?run (js @ [k])))))"
    using token(3) by (simp only: d')
  from writes_keep_live [OF run_writes [OF assms(1,3,4) refl] this quiet]
  have "admits (hash_token (dp_sha dp) token) i (content (ms_db (tn_state s)))"
    by (simp add: assms(5) split take_turns_append)
  with token show ?thesis by blast
qed

text \<open>A request with such a token goes on, turn by turn, until it is served.\<close>

definition goes_on :: "string \<Rightarrow> mcp_pc \<Rightarrow> bool" where
  "goes_on i pc = (case pc of
      CredentialFound cred \<Rightarrow> cred_actor cred = i
    | CredentialTouched cred \<Rightarrow> cred_actor cred = i
    | McpEnded res \<Rightarrow> \<exists>reply. res = Served (Some reply)
    | _ \<Rightarrow> True)"

lemma live_turn:
  assumes "calm_database content db calm" "calm (ms_db st)" "uniq_credentials (tb_credentials (content (ms_db st)))"
    "admits (hash_token (me_sha (mc_env c)) raw) (actor_id a) (content (ms_db st))" "a \<in> set (tb_actors (content (ms_db st)))"
    "mc_header c = ''Bearer '' @ raw" "raw \<noteq> []" "request_at c0 c p" "goes_on (actor_id a) p"
    "mcp_turn db c p st = (p', st', out)"
  shows "goes_on (actor_id a) p'"
proof (cases p)
  case McpArrived
  let ?h = "hash_token (me_sha (mc_env c)) raw"
  have raw: "cut_prefix (mc_header c) ''Bearer '' = Some raw" by (simp add: assms(6) cut_prefix_def)
  obtain cred where cred: "cred \<in> set (tb_credentials (content (ms_db st)))" "cred_hash cred = ?h" "cred_revoked cred = None"
    "cred_actor cred = actor_id a" using assms(4) by (auto simp: admits_def live_def)
  obtain r d where f: "sql_first (db_credentials db) (\<lambda>x. cred_hash x = ?h \<and> cred_revoked x = None) (ms_db st) = (r, d)"
    by fastforce
  from calm_table.found_when_calm [OF calm_database.axioms(3) [OF assms(1)] assms(2) cred(1) _ f] cred(2,3)
  obtain x where x: "r = Inr x" "x \<in> set (tb_credentials (content (ms_db st)))" "cred_hash x = ?h" by auto
  with cred assms(3) distinct_map_eq [of cred_hash "tb_credentials (content (ms_db st))" x cred]
  have "cred_actor x = actor_id a" by (simp add: uniq_credentials_def)
  with McpArrived raw assms(7,10) f x(1) show ?thesis by (auto simp: goes_on_def)
next
  case (CredentialFound cred)
  with assms(9,10) show ?thesis by (auto simp: goes_on_def split: prod.splits)
next
  case (CredentialTouched cred)
  then have owner: "actor_id a = cred_actor cred" using assms(9) by (simp add: goes_on_def)
  obtain r d where f: "sql_first (db_actors db) (\<lambda>a. actor_id a = cred_actor cred) (ms_db st) = (r, d)" by fastforce
  from calm_table.found_when_calm [OF calm_database.axioms(2) [OF assms(1)] assms(2,5) owner f] obtain x where "r = Inr x" by auto
  with CredentialTouched assms(10) f show ?thesis by (auto simp: goes_on_def split: tool_request.splits)
next
  case (ToolReturned b reply)
  then have "answers_request c reply" using assms(8) by simp
  from record_reply_effect [OF calm_database.axioms(1) [OF assms(1)] this] obtain d' where "record_reply db c b reply (ms_db st) = Some d'"
    by blast
  with ToolReturned assms(10) show ?thesis by (auto simp: goes_on_def)
qed (use assms(9,10) in \<open>auto simp: goes_on_def split: prod.splits fetch_pc.splits search_pc.splits\<close>)

lemma live_run:
  assumes "calm_database content (dp_db dp) calm" "calls_ok dp calls" "well_formed (content (ms_db st))"
    "s = take_turns (service_turn dp) calls before (server_start Waits st)"
    "admits (hash_token (dp_sha dp) raw) (actor_id a) (content (ms_db (tn_state s)))" "a \<in> set (tb_actors (content (ms_db (tn_state s))))"
    "calls i = AgentCall c" "mc_header c = ''Bearer '' @ raw" "raw \<noteq> []" "i \<notin> set before"
    "\<forall>j \<in> set after. \<not> revoking dp (call_event (calls j))"
    "\<forall>n. calm (ms_db (tn_state (take_turns (service_turn dp) calls (take n after) s)))"
  shows "\<exists>p. agent_pc (tn_pc (take_turns (service_turn dp) calls after s) i) = Some p \<and> goes_on (actor_id a) p"
  using assms(11,12)
proof (induction after rule: rev_induct)
  case Nil
  then show ?case by (simp add: assms(4,10) take_turns_other goes_on_def)
next
  case (snoc j js)
  let ?s = "take_turns (service_turn dp) calls js s"
  have sql: "sql_database content (dp_db dp)" using assms(1) by (rule calm_database.axioms(1))
  have "calm (ms_db (tn_state (take_turns (service_turn dp) calls (take n js) s)))" for n
    using spec [OF snoc.prems(2), of "min n (length js)"] by (simp add: min_def split: if_splits)
  then obtain p where p: "agent_pc (tn_pc ?s i) = Some p" "goes_on (actor_id a) p" using snoc.IH snoc.prems(1) by auto
  obtain pc' st' out where t: "service_turn dp (calls j) (tn_pc ?s j) (tn_state ?s) = (pc', st', out)" by (metis prod.collapse)
  then have s': "tn_pc (take_turns (service_turn dp) calls (js @ [j]) s) = (tn_pc ?s)(j := pc')"
    by (simp add: take_turns_append take_turn_def)
  show ?case
  proof (cases "j = i")
    case False
    with p show ?thesis by (simp add: s')
  next
    case True
    have whole: "?s = take_turns (service_turn dp) calls (before @ js) (server_start Waits st)"
      by (simp add: take_turns_append assms(4))
    note data = data_run [OF sql assms(2,3) whole]
    have writes: "table_writes (\<Union>i \<in> set js. permitted dp (call_event (calls i))) (content (ms_db (tn_state s))) (content (ms_db (tn_state ?s)))"
      by (rule run_writes [OF sql assms(2-4)])
    have quiet: "RevokeCredentials \<notin> (\<Union>i \<in> set js. permitted dp (call_event (calls i)))"
      using snoc.prems(1) revoke_only_by_route by fastforce
    have sha: "me_sha (mc_env c) = dp_sha dp" using assms(2,7) by (auto simp: calls_ok_def dest: spec [of _ i])
    obtain p' where t': "mcp_turn (dp_db dp) c p (tn_state ?s) = (p', st', out)" "pc' = AgentAt p'"
      using t True assms(7) p(1) by (auto split: prod.splits)
    have "goes_on (actor_id a) p'"
    proof (rule live_turn [OF assms(1) _ _ _ _ assms(8,9) _ p(2) t'(1)])
      show "calm (ms_db (tn_state ?s))" using spec [OF snoc.prems(2), of "length js"] by simp
      show "uniq_credentials (tb_credentials (content (ms_db (tn_state ?s))))"
        using data(1) by (simp add: well_formed_def tables_ok_def)
      show "admits (hash_token (me_sha (mc_env c)) raw) (actor_id a) (content (ms_db (tn_state ?s)))"
        unfolding sha by (rule writes_keep_live [OF writes assms(5) quiet])
      show "a \<in> set (tb_actors (content (ms_db (tn_state ?s))))" using writes_keep_actors [OF writes] assms(6) by blast
      show "request_at (issued (content (ms_db (tn_state ?s)))) c p"
        using data(2) [of i] assms(7) p(1) by (simp add: call_known_def)
    qed
    then show ?thesis unfolding s' using True t'(2) by simp
  qed
qed

subsection \<open>One call after the other\<close>

lemma sequential_run:
  assumes "distinct is" "\<And>i. i \<in> set is \<Longrightarrow> tn_pc s i = Waits"
  shows "tn_state (take_turns (service_turn dp) calls (concat (map (replicate 7) is)) s)
    = app_run dp (map (\<lambda>i. call_event (calls i)) is) (tn_state s)"
  using assms
proof (induction "is" arbitrary: s)
  case (Cons i js)
  obtain pc out where own: "own_turns (service_turn dp) (calls i) 7 Waits (tn_state s)
      = (pc, app_step dp (call_event (calls i)) (tn_state s), out)" using call_alone by blast
  let ?s = "take_turns (service_turn dp) calls (replicate 7 i) s"
  have "?s = s\<lparr>tn_state := app_step dp (call_event (calls i)) (tn_state s), tn_pc := (tn_pc s)(i := pc),
      tn_log := tn_log s @ map (Pair i) out\<rparr>" using own Cons.prems(2) by (intro take_own_turns) simp
  moreover from this Cons.prems have "tn_pc ?s j = Waits" if "j \<in> set js" for j using that by auto
  ultimately show ?case using Cons.IH [of ?s] Cons.prems(1)
    by (simp add: take_turns_append del: replicate.simps take_turns.simps)
qed simp

subsection \<open>An example\<close>

text \<open>Agents ask for a page, an admin revokes their token, and a sweep runs.\<close>

definition example_service :: "nat \<Rightarrow> string service_call" where
  "example_service i = (if i = 1 then HumanCall (example_stamp 0 (Inl ''down'')) example_rest_env ''h'' 9
        (example_api ''DELETE'' ''/credentials/idT'')
     else if i = 3 then SweepCall 9 else AgentCall (example_requests i))"

lemma example_service_simps [simp]:
  "example_service 0 = AgentCall (example_requests 0)" "example_service 2 = AgentCall (example_requests 2)"
  "example_service (Suc 0) = HumanCall (example_stamp 0 (Inl ''down'')) example_rest_env ''h'' 9
     (example_api ''DELETE'' ''/credentials/idT'')" "example_service 3 = SweepCall 9"
  by (simp_all add: example_service_def)

lemma example_service_ok:
  assumes "dp_sha dp = id" "dp_retention dp \<le> max_int64" shows "calls_ok dp example_service"
  using example_api_request_ok [of 5 "''DELETE''" "''/credentials/idT''"] assms
  by (simp add: calls_ok_def example_service_def example_api_request_def example_requests_def example_mcp_env_def)

text \<open>The first agent is served when it does its turns before the others.\<close>

lemma example_service_served:
  assumes "ms_db st = example_agents [''T'']" "0 \<notin> set later" "dp_db dp = mem_database"
  shows "\<exists>reply. tn_pc (take_turns (service_turn dp) example_service (replicate 7 0 @ later) (server_start Waits st)) 0
    = AgentAt (McpEnded (Served (Some reply)))"
proof -
  obtain reply st' out where "own_turns (mcp_turn (dp_db dp)) (example_requests 0) 7 McpArrived st
      = (McpEnded (Served (Some reply)), st', out)" using example_request_served [OF assms(1)] assms(3) by auto
  from agent_alone [OF this] have "own_turns (service_turn dp) (example_service 0) 7 (AgentAt McpArrived) st
      = (AgentAt (McpEnded (Served (Some reply))), st', out)" by simp
  then have "own_turns (service_turn dp) (example_service 0) 7 Waits st = (AgentAt (McpEnded (Served (Some reply))), st', out)"
    by (simp add: numeral_eq_Suc del: mcp_turn.simps)
  then show ?thesis
    using take_own_turns [of "service_turn dp" example_service 0 7 "server_start Waits st"] assms(2)
    by (simp add: take_turns_append take_turns_other del: take_turns.simps(2) replicate.simps)
qed

text \<open>Its turns send one request.\<close>

lemma log_kept: "x \<in> set (tn_log s) \<Longrightarrow> x \<in> set (tn_log (take_turns turn calls sched s))"
  by (induction sched arbitrary: s) (simp_all add: take_turn_def split: prod.splits)

lemma example_service_sends:
  assumes "dp_db dp = mem_database"
  shows "\<exists>agent. (0, agent, ''http://x'') \<in> set (tn_log (take_turns (service_turn dp) example_service (replicate 7 0 @ later)
    (server_start Waits (example_mcp_state (example_agents [''T'']))))) "
proof -
  let ?st = "example_mcp_state (example_agents [''T''])" and ?c = "example_requests 0"
  obtain res st' where run: "mcp_handle mem_database (mc_env ?c) (mc_header ?c) (mc_request ?c) ?st = (res, st')" by fastforce
  obtain d1 where auth: "authenticate_agent_token mem_database id 8 ''T'' (example_agents [''T'']) = (Inr example_actor, d1)"
    by (auto simp: authenticate_agent_token_def mem_eval example_agents_defs)
  have "snd (snd (fetch_doc (me_fetch (mc_env ?c)) (new_fetcher 0 4 8 0) ''http://x'' 0 ''a1'')) = [''http://x'']"
    by (simp add: fetch_doc_def example_requests_def example_mcp_env_def example_env_def example_url new_fetcher_misses do_get_def
        Let_def split: prod.split)
  then obtain r f where doc: "fetch_doc (me_fetch (mc_env ?c)) (new_fetcher 0 4 8 0) ''http://x'' 0 ''a1'' = (r, f, [''http://x''])"
    by (metis prod.collapse)
  have "sent_by res = [''http://x'']"
    using run auth doc dispatch_total [of mem_database "mc_env ?c" example_actor "mc_request ?c" "?st\<lparr>ms_db := d1\<rparr>"]
    by (auto simp: mcp_handle_def require_bearer_def cut_prefix_def auth_authenticate_def example_requests_def example_fetch_def
        example_mcp_env_def example_mcp_state_def example_actor_def dispatch_tool_def recorded_def fetch_tool_def fetch_handler_def
        split: prod.splits option.splits)
  with request_alone [OF run] obtain agent pc where
    "own_turns (mcp_turn mem_database) ?c 7 McpArrived ?st = (pc, st', [(agent, ''http://x'')])" by (auto simp: map_eq_Cons_conv)
  from agent_alone [where dp = dp, unfolded assms, OF this] have
    "own_turns (service_turn dp) (example_service 0) 7 Waits ?st = (AgentAt pc, st', [(agent, ''http://x'')])"
    by (simp add: numeral_eq_Suc assms del: mcp_turn.simps)
  then have "(0, agent, ''http://x'') \<in> set (tn_log (take_turns (service_turn dp) example_service (replicate 7 0) (server_start Waits ?st)))"
    using take_own_turns [of "service_turn dp" example_service 0 7 "server_start Waits ?st"]
    by (simp del: take_turns.simps(2) replicate.simps)
  from log_kept [OF this] show ?thesis unfolding take_turns_append by blast
qed

subsection \<open>Properties\<close>

text \<open>C1: no agent is ever served what another agent fetched or searched, whatever runs at the same
  time. Start the service with any flags that build and bound the sizes, and let requests of agents,
  requests of humans, logins, logouts and sweeps interleave turn by turn: a request to /mcp
  that is served had a live token when it took its first turn, it ran for the owner of that
  credential, and what it got comes from an answer to an exchange sent for the same agent: a page
  is a piece, at the offset asked for, of a response for the same URL, and hits are
  the start of those for the same query.\<close>

theorem concurrent_service_isolates_agents:
  assumes "sql_database content db" "build_app_handler benv cf = Inr (ap, rc)"
    "2 * wrap64 (cf_fetch_max_bytes cf) \<le> max_int64" "2 * wrap64 (cf_fetch_cache_max_bytes cf) \<le> max_int64"
    "dp = deploy cf ap db sha g chi" "well_formed (content d)" "clean_ids (content d)"
    "calls_ok dp calls" "hits_fit (app_searcher ap) calls"
    "s = take_turns (service_turn dp) calls sched (server_start Waits (app_start ap d))"
    "calls i = AgentCall c" "tn_pc s i = AgentAt (McpEnded (Served out))"
  shows "\<exists>before after raw cred a reply. sched = before @ i # after \<and> mc_header c = ''Bearer '' @ raw
    \<and> live (hash_token sha raw)
        (content (ms_db (tn_state (take_turns (service_turn dp) calls before (server_start Waits (app_start ap d)))))) cred
    \<and> a \<in> set (tb_actors (content (ms_db (tn_state s)))) \<and> cred_actor cred = actor_id a \<and> out = Some reply
    \<and> reply_from (service_gave calls (tn_log s)) (service_asked (app_searcher ap) calls (tn_log s)) c a reply"
proof -
  let ?st = "app_start ap d" and ?gave = "service_gave calls" and ?asked = "service_asked (app_searcher ap) calls"
  let ?last = "content (ms_db (tn_state s))"
  have sql: "sql_database content (dp_db dp)" and sha: "dp_sha dp = sha" by (simp_all add: assms(1,5))
  have wf: "well_formed (content (ms_db ?st))" by (simp add: assms(6))
  have start: "well_formed (content (ms_db ?st)) \<and> clean_ids (content (ms_db ?st))
      \<and> tools_from (?gave []) (?asked []) (app_searcher ap) ?st"
    using new_fetcher_sat [OF assms(3,4)] new_searcher_sat assms(6,7) build_app_tools [OF assms(2)]
    by (simp add: tools_from_def app_start_def)
  have "call_known ?last (calls i) (tn_pc s i) \<and> content_known (?gave (tn_log s)) (?asked (tn_log s)) ?last (calls i) (tn_pc s i)"
    by (rule stable_turns.run_sound(2) [OF service_sound [OF sql] _ start _ assms(10)])
      (use assms(8,9) in \<open>simp_all add: content_known_def\<close>)
  with assms(11,12) obtain reply a where served: "out = Some reply" "owner_of (issued ?last) c a"
    "reply_from (?gave (tn_log s)) (?asked (tn_log s)) c a reply"
    by (cases out) (auto simp: call_known_def content_known_def)
  from owner_was_live [OF sql assms(8) wf assms(10-12) _ served(2)] served(1,3) show ?thesis unfolding sha by blast
qed

theorem concurrent_service_isolates_agents_witness:
  "\<exists>ap. let s = take_turns (service_turn (deploy example_config ap mem_database id tag_cipher segment_router)) example_service
        (replicate 7 0 @ [2, 1, 3, 1]) (server_start Waits (app_start ap (example_agents [''T''])))
   in \<exists>reply r. tn_pc s 0 = AgentAt (McpEnded (Served (Some reply))) \<and> reply = FetchReply r
        \<and> (\<forall>x. r = Inr x \<longrightarrow> from_response (example_response ''hello'') 0 x)"
proof -
  obtain ap rc where built: "build_app_handler example_build_env example_config = Inr (ap, rc)"
    using example_config_builds by (metis prod.exhaust)
  let ?dp = "deploy example_config ap mem_database id tag_cipher segment_router" and ?st = "app_start ap (example_agents [''T''])"
  define s where "s = take_turns (service_turn ?dp) example_service (replicate 7 0 @ [2, 1, 3, 1]) (server_start Waits ?st)"
  have sizes: "2 * wrap64 (cf_fetch_max_bytes example_config) \<le> max_int64"
    "2 * wrap64 (cf_fetch_cache_max_bytes example_config) \<le> max_int64"
    by (simp_all add: example_config_def default_config_def default_max_bytes_def default_cache_max_bytes_def
        wrap64_def max_int64_def)
  have d: "well_formed (md_tables (example_agents [''T'']))" "clean_ids (md_tables (example_agents [''T'']))"
    using example_start_well_formed by (simp_all add: example_mcp_state_def clean_ids_def example_agents_defs nul_def)
  have calls: "calls_ok ?dp example_service" "hits_fit (app_searcher ap) example_service"
    by (rule example_service_ok)
      (simp_all add: example_config_def default_config_def max_int64_def hits_fit_def example_service_def example_requests_def
        example_fetch_def)
  obtain reply where served: "tn_pc s 0 = AgentAt (McpEnded (Served (Some reply)))"
    using example_service_served [of ?st "[2, 1, 3, 1]" ?dp] by (auto simp: s_def)
  from concurrent_service_isolates_agents [OF mem.sql_database_axioms built sizes refl d calls s_def example_service_simps(1) served]
  obtain a where "reply_from (service_gave example_service (tn_log s)) (service_asked (app_searcher ap) example_service (tn_log s))
      (example_requests 0) a reply" by blast
  then have "\<exists>r. reply = FetchReply r \<and> (\<forall>x. r = Inr x \<longrightarrow> from_response (example_response ''hello'') 0 x)"
    by (cases reply) (fastforce simp: reply_from_def service_gave_def example_service_def example_requests_def example_fetch_def
        example_mcp_env_def example_env_def split: if_splits)+
  with served show ?thesis unfolding s_def Let_def by blast
qed

text \<open>C2: revocation cuts off every request that arrives after it, whatever is in flight. Once DELETE
  /credentials/{id} or DELETE /actors/{id} was answered 204, in any interleaving with other
  requests, logins and sweeps, a request to /mcp with the token of that credential that had
  not begun is refused with 401 at its first turn and stays refused: it sends nothing, and none of its
  turns changes a cache or the tables.\<close>

theorem revocation_reaches_every_request:
  assumes "sql_database content (dp_db dp)" "router_ok (dp_router dp)" "calls_ok dp calls" "well_formed (content (ms_db st))"
    "s = take_turns (service_turn dp) calls before (server_start Waits st)"
    "calls k = HumanCall stamp env uuid now req" "cred \<in> set (tb_credentials (content (ms_db st)))"
    "cred_hash cred = hash_token (dp_sha dp) raw"
    "dp_router dp rest_routes (rq_method req) (rq_path req) = Matched (b, RevokeToken) (cred_id cred)
     \<or> dp_router dp rest_routes (rq_method req) (rq_path req) = Matched (b, DeleteAgent) (cred_actor cred)"
    "tn_pc s k = HumanAt (Answered reply)" "hr_status reply = 204"
    "calls i = AgentCall c" "mc_header c = ''Bearer '' @ raw" "i \<notin> set before"
    "s' = take_turns (service_turn dp) calls (after @ [i]) s"
  shows "(\<exists>refusal. tn_pc s' i = AgentAt (McpEnded (Refused refusal)) \<and> hr_status refusal = 401)
    \<and> (\<forall>exchange. (i, exchange) \<notin> set (tn_log s'))
    \<and> (\<exists>d. tn_state s' = (tn_state (take_turns (service_turn dp) calls after s))\<lparr>ms_db := d\<rparr>
        \<and> content d = content (ms_db (tn_state (take_turns (service_turn dp) calls after s))))"
proof -
  let ?s = "take_turns (service_turn dp) calls after s"
  have dead: "dead_hash (hash_token (dp_sha dp) raw) (content (ms_db (tn_state s)))"
    using answered_204_kills [OF assms(1-7,9-11)] by (simp add: assms(8))
  note run = dead_run [OF assms(1,3-5) dead assms(12-14)]
  have now: "tn_pc ?s i = Waits \<or> shut_out (tn_pc ?s i)" using run [OF refl, of after] by (auto split: if_splits)
  have "dead_hash (hash_token (me_sha (mc_env c)) raw) (content (ms_db (tn_state ?s)))"
    using writes_keep_dead [OF run_writes [OF assms(1,3-5)] dead] assms(3,12) by (auto simp: calls_ok_def dest: spec [of _ i])
  moreover obtain pc' st' out where t: "service_turn dp (AgentCall c) (tn_pc ?s i) (tn_state ?s) = (pc', st', out)"
    by (metis prod.collapse)
  moreover have "tn_state s' = st'" using t assms(12,15) by (simp add: take_turns_append take_turn_def)
  ultimately have "\<exists>d. tn_state s' = (tn_state ?s)\<lparr>ms_db := d\<rparr> \<and> content d = content (ms_db (tn_state ?s))"
    using dead_service_turn [OF assms(1) _ assms(13) now] by blast
  moreover have "shut_out (tn_pc s' i)" "\<forall>x. (i, x) \<notin> set (tn_log s')" using run [OF assms(15)] by simp_all
  ultimately show ?thesis by (auto simp: shut_out_def)
qed

theorem revocation_reaches_every_request_witness:
  "let dp = example_deployment 5;
       s = take_turns (service_turn dp) example_service (0 # replicate 7 1)
             (server_start Waits (example_mcp_state (example_agents [''T''])))
   in (\<exists>cred. tn_pc s 0 = AgentAt (CredentialFound cred))
      \<and> (\<exists>refusal. tn_pc (take_turns (service_turn dp) example_service ([0, 3] @ [2]) s) 2
            = AgentAt (McpEnded (Refused refusal)) \<and> hr_status refusal = 401)"
proof -
  let ?st = "example_mcp_state (example_agents [''T''])" and ?dp = "example_deployment 5"
  let ?req = "example_api ''DELETE'' ''/credentials/idT''"
  let ?run = "\<lambda>is. take_turns (service_turn ?dp) example_service is (server_start Waits ?st)"
  let ?cred = "\<lparr>cred_id = ''idT'', cred_actor = ''a1'', cred_label = [],
        cred_hash = hash_token (dp_sha ?dp) ''T'', cred_created = 6, cred_revoked = None, cred_last_used = None\<rparr>"
  have first: "tn_state (?run [0]) = ?st" "tn_pc (?run [0]) 1 = Waits" "\<exists>cred. tn_pc (?run [0]) 0 = AgentAt (CredentialFound cred)"
    by (simp_all add: take_turn_def example_requests_def cut_prefix_def example_mcp_env_def example_mcp_state_def mem_eval
        example_agents_defs)
  obtain reply d where revoked: "api_handle ?dp (example_stamp 0 (Inl ''down'')) example_rest_env ''h'' 9 ?req (ms_db ?st) = (reply, d)"
    "own_turns (service_turn ?dp) (example_service 1) 7 Waits ?st = (HumanAt (Answered reply), ?st\<lparr>ms_db := d\<rparr>, [])"
    using human_alone [of ?dp "example_stamp 0 (Inl ''down'')" example_rest_env "''h''" 9 ?req ?st] by auto
  have status: "hr_status reply = 204"
    using revoked(1) example_routes(1) unfolding example_api_handle
    by (auto simp: example_rest_eval revoke_token_handler_def revoke_agent_token_def mem_eval example_mcp_state_def
        example_agents_defs)
  have whole: "?run (0 # replicate 7 1) = take_turns (service_turn ?dp) example_service (replicate 7 1) (?run [0])" by simp
  have "take_turns (service_turn ?dp) example_service (replicate 7 1) (?run [0])
      = (?run [0])\<lparr>tn_state := ?st\<lparr>ms_db := d\<rparr>, tn_pc := (tn_pc (?run [0]))(1 := HumanAt (Answered reply)),
          tn_log := tn_log (?run [0]) @ map (Pair 1) []\<rparr>"
    by (rule take_own_turns) (simp only: first(1,2) revoked(2))
  with first(3) have now: "tn_pc (?run (0 # replicate 7 1)) 1 = HumanAt (Answered reply)"
    "\<exists>cred. tn_pc (?run (0 # replicate 7 1)) 0 = AgentAt (CredentialFound cred)" unfolding whole by simp_all
  have calls: "calls_ok ?dp example_service" by (rule example_service_ok) (simp_all add: max_int64_def example_deployment_def)
  have start: "well_formed (md_tables (ms_db ?st))" "?cred \<in> set (tb_credentials (md_tables (ms_db ?st)))"
    using example_start_well_formed by (simp_all add: example_mcp_state_def example_agents_defs)
  have route: "dp_router ?dp rest_routes (rq_method ?req) (rq_path ?req) = Matched (True, RevokeToken) (cred_id ?cred)
      \<or> dp_router ?dp rest_routes (rq_method ?req) (rq_path ?req) = Matched (True, DeleteAgent) (cred_actor ?cred)"
    using example_routes(1) by (simp add: example_api_def)
  have router: "router_ok (dp_router ?dp)" by (simp add: segment_router_ok)
  have late: "mc_header (example_requests 2) = ''Bearer '' @ ''T''" "(2 :: nat) \<notin> set (0 # replicate 7 1)"
    by (simp_all add: example_requests_def)
  from revocation_reaches_every_request [OF example_deployment_sql router calls start(1) refl _ start(2) _ route now(1) status
      example_service_simps(2) late refl, where after = "[0, 3]"] now(2)
  show ?thesis unfolding Let_def by simp
qed

text \<open>C9: the data stay well formed under concurrency. In every interleaving of requests of agents and
  humans, logins, logouts and sweeps, whichever statements fail, all unique indexes hold, every
  identity is linked to a human actor, every session has one of the two roles, every call in the
  history belongs to an actor, and no actor ever disappears or is renamed.\<close>

theorem concurrent_data_stay_well_formed:
  assumes "sql_database content (dp_db dp)" "calls_ok dp calls" "well_formed (content (ms_db st))"
    "s = take_turns (service_turn dp) calls sched (server_start Waits st)"
  shows "well_formed (content (ms_db (tn_state s)))
    \<and> set (tb_actors (content (ms_db st))) \<subseteq> set (tb_actors (content (ms_db (tn_state s))))"
  using data_run(1) [OF assms] writes_keep_actors [OF run_writes [OF assms(1-3), of "server_start Waits st" "[]" sched]]
  by (simp add: assms(4))

theorem concurrent_data_stay_well_formed_witness:
  "let c = md_tables (ms_db (tn_state (take_turns (service_turn (example_deployment 5)) example_service [0, 1, 0, 1, 3, 1, 0, 2]
       (server_start Waits (example_mcp_state (example_agents [''T''])))))) in well_formed c \<and> example_actor \<in> set (tb_actors c)"
proof -
  have "calls_ok (example_deployment 5) example_service"
    by (rule example_service_ok) (simp_all add: max_int64_def example_deployment_def)
  moreover have "example_actor \<in> set (tb_actors (md_tables (ms_db (example_mcp_state (example_agents [''T''])))))"
    by (simp add: example_mcp_state_def example_agents_defs)
  ultimately show ?thesis
    using concurrent_data_stay_well_formed [OF example_deployment_sql _ example_start_well_formed refl] unfolding Let_def by blast
qed

text \<open>C10: every turn does to the data what its request may do and nothing else. At every point of every
  interleaving the change of the tables by the next turn is made of the writes permitted to its
  call: a tool call touches its credential and adds calls, a login or logout changes sessions, the API
  changes sessions, registers the human and does the one write of its route, and only a sweep
  deletes history, up to its cutoff.\<close>

theorem every_turn_keeps_to_its_writes:
  assumes "sql_database content (dp_db dp)" "calls_ok dp calls" "well_formed (content (ms_db st))"
    "s = take_turns (service_turn dp) calls sched (server_start Waits st)"
  shows "table_writes (permitted dp (call_event (calls i))) (content (ms_db (tn_state s)))
    (content (ms_db (tn_state (take_turn (service_turn dp) calls i s))))"
  using run_writes [OF assms, of "[i]"] by simp

theorem every_turn_keeps_to_its_writes_witness:
  "let s = take_turns (service_turn (example_deployment 5)) example_service [0, 1, 0, 1]
        (server_start Waits (example_mcp_state (example_agents [''T''])))
   in table_writes {DeleteCalls 4} (md_tables (ms_db (tn_state s)))
        (md_tables (ms_db (tn_state (take_turn (service_turn (example_deployment 5)) example_service 3 s))))"
proof -
  have "calls_ok (example_deployment 5) example_service"
    by (rule example_service_ok) (simp_all add: max_int64_def example_deployment_def)
  from every_turn_keeps_to_its_writes [OF example_deployment_sql this example_start_well_formed refl, where sched = "[0, 1, 0, 1]" and i = 3]
  show ?thesis by (simp add: Let_def)
qed

text \<open>C4: the history names the agent that called. In every interleaving, a row of the history that was
  not there at the start was written by a request that was served, ran for the owner of a
  credential that was live at the first turn of that request, and holds this agent, the input
  and the outcome of the call.\<close>

theorem concurrent_history_is_attributed:
  assumes "sql_database content (dp_db dp)" "calls_ok dp calls" "well_formed (content (ms_db st))"
    "s = take_turns (service_turn dp) calls sched (server_start Waits st)"
    "row \<in> set (tb_calls (content (ms_db (tn_state s))))" "row \<notin> set (tb_calls (content (ms_db st)))"
  shows "\<exists>i c a reply before after raw cred. calls i = AgentCall c
    \<and> tn_pc s i = AgentAt (McpEnded (Served (Some reply))) \<and> reply_row a (mc_request c) reply row
    \<and> a \<in> set (tb_actors (content (ms_db (tn_state s))))
    \<and> sched = before @ i # after \<and> mc_header c = ''Bearer '' @ raw \<and> cred_actor cred = actor_id a
    \<and> live (hash_token (dp_sha dp) raw)
        (content (ms_db (tn_state (take_turns (service_turn dp) calls before (server_start Waits st))))) cred"
proof -
  obtain i c a reply where i: "calls i = AgentCall c" "tn_pc s i = AgentAt (McpEnded (Served (Some reply)))"
    "owner_of (issued (content (ms_db (tn_state s)))) c a" "reply_row a (mc_request c) reply row"
    using history_attributed [OF assms] unfolding row_of_call_def row_of_request_def by blast
  from owner_was_live [OF assms(1-4) i(1,2) _ i(3)] i show ?thesis by blast
qed

theorem concurrent_history_is_attributed_witness:
  "let s = take_turns (service_turn (example_deployment 5)) example_service (replicate 7 0)
        (server_start Waits (example_mcp_state (example_agents [''T''])))
   in \<exists>row a reply. tb_calls (md_tables (ms_db (tn_state s))) = [row] \<and> a \<in> set (tb_actors (md_tables (ms_db (tn_state s))))
        \<and> tn_pc s 0 = AgentAt (McpEnded (Served (Some reply))) \<and> reply_row a example_fetch reply row"
proof -
  let ?st = "example_mcp_state (example_agents [''T''])" and ?dp = "example_deployment 5" and ?c = "example_requests 0"
  define s where "s = take_turns (service_turn ?dp) example_service (replicate 7 0) (server_start Waits ?st)"
  have calls: "calls_ok ?dp example_service" by (rule example_service_ok) (simp_all add: max_int64_def example_deployment_def)
  obtain res st' where run: "mcp_handle mem_database (mc_env ?c) (''Bearer '' @ ''T'') example_fetch ?st = (res, st')" by fastforce
  have "tn_state s = st'"
    using sequential_run [of "[0]" "server_start Waits ?st" ?dp example_service] run
    by (simp add: s_def example_requests_def del: take_turns.simps replicate.simps)
  moreover have "live (hash_token (me_sha (mc_env ?c)) ''T'') (md_tables (ms_db ?st)) \<lparr>cred_id = ''idT'', cred_actor = ''a1'',
      cred_label = [], cred_hash = hash_token id ''T'', cred_created = 6, cred_revoked = None, cred_last_used = None\<rparr>"
    by (simp add: live_def example_requests_def example_mcp_env_def example_mcp_state_def example_agents_defs)
  moreover have st: "mem_calm (ms_db ?st)" "tables_ok (md_tables (ms_db ?st))" "example_actor \<in> set (tb_actors (md_tables (ms_db ?st)))"
    "tb_calls (md_tables (ms_db ?st)) = []"
    using example_start_well_formed by (simp_all add: mem_calm_def example_mcp_state_def example_agents_defs well_formed_def)
  ultimately obtain row where row: "tb_calls (md_tables (ms_db (tn_state s))) = [row]"
    using mcp_served_when_calm [OF calm.calm_database_axioms st(1,2) _ _ st(3) _ _ run] by (fastforce simp: example_actor_def)
  from concurrent_history_is_attributed [OF example_deployment_sql calls example_start_well_formed s_def, of row]
  obtain i c a reply before after where i: "example_service i = AgentCall c" "tn_pc s i = AgentAt (McpEnded (Served (Some reply)))"
    "reply_row a (mc_request c) reply row" "a \<in> set (tb_actors (md_tables (ms_db (tn_state s))))"
    "replicate 7 0 = before @ i # after" by (auto simp: row st(4))
  have "i \<in> set (replicate 7 0)" unfolding i(5) by simp
  then have "i = 0" by simp
  with i(1) have "mc_request c = example_fetch" by (auto simp: example_requests_def)
  with row i \<open>i = 0\<close> show ?thesis unfolding s_def [symmetric] Let_def by auto
qed

text \<open>C29: the service exchanges only what an admitted request asks for, and once. In any interleaving of
  the calls, whichever statements fail, every exchange of the log belongs to a request to
  /mcp whose token was live at its first turn, and is for the owner of that credential; a
  Fetch has it with the URL that its own input parses to, of scheme http or https and with
  an offset that is not negative, a Search with the endpoint of the configured SearXNG,
  with a query that a server reads as format=json and q, the text asked for; and it is
  the only exchange of that request. An exchange is one call of the HTTP client; the
  client's retries and the redirects it follows are inside it.\<close>

theorem exchanges_are_authorized:
  assumes "sql_database content (dp_db dp)" "calls_ok dp calls" "well_formed (content (ms_db st))"
    "s = take_turns (service_turn dp) calls sched (server_start Waits st)" "(i, agent, target) \<in> set (tn_log s)"
  shows "\<exists>c before after raw cred. calls i = AgentCall c \<and> asked_by (s_base_url (ms_searcher st)) c target
    \<and> sched = before @ i # after \<and> i \<notin> set before \<and> mc_header c = ''Bearer '' @ raw \<and> cred_actor cred = agent
    \<and> live (hash_token (dp_sha dp) raw)
        (content (ms_db (tn_state (take_turns (service_turn dp) calls before (server_start Waits st))))) cred
    \<and> agent \<in> actor_id ` set (tb_actors (content (ms_db (tn_state s))))
    \<and> filter (\<lambda>x. fst x = i) (tn_log s) = [(i, agent, target)]"
proof -
  have "sent_for (s_base_url (ms_searcher st)) calls (content (ms_db (tn_state s))) (tn_pc s i) i agent target"
    and one: "filter (\<lambda>x. fst x = i) (tn_log s) = [(i, agent, target)]"
    using run_sends_ok [OF assms(1-3), of sched] assms(5) unfolding sends_ok_def assms(4) by blast+
  then obtain c p a where c: "calls i = AgentCall c" "tn_pc s i = AgentAt p" "\<And>r. p \<noteq> McpEnded (Refused r)"
    "owner_of (issued (content (ms_db (tn_state s)))) c a" "actor_id a = agent" "asked_by (s_base_url (ms_searcher st)) c target"
    unfolding sent_for_def by blast
  from owner_was_live [OF assms(1-4) c(1-4)] c(1,5,6) one show ?thesis by blast
qed

theorem exchanges_are_authorized_witness:
  "let s = take_turns (service_turn (example_deployment 5)) example_service (replicate 7 0 @ [2, 1, 3, 1])
        (server_start Waits (example_mcp_state (example_agents [''T''])))
   in filter (\<lambda>x. fst x = 0) (tn_log s) = [(0, ''a1'', ''http://x'')]
      \<and> asked_by ''http://s'' (example_requests 0) ''http://x''"
proof -
  let ?st = "example_mcp_state (example_agents [''T''])" and ?dp = "example_deployment 5"
  define s where "s = take_turns (service_turn ?dp) example_service (replicate 7 0 @ [2, 1, 3, 1]) (server_start Waits ?st)"
  have calls: "calls_ok ?dp example_service" by (rule example_service_ok) (simp_all add: max_int64_def example_deployment_def)
  obtain agent where sent: "(0, agent, ''http://x'') \<in> set (tn_log s)"
    using example_service_sends [of ?dp] by (auto simp: s_def example_deployment_def)
  obtain c before after raw cred where e: "example_service 0 = AgentCall c" "asked_by (s_base_url (ms_searcher ?st)) c ''http://x''"
    "replicate 7 0 @ [2, 1, 3, 1] = before @ 0 # after" "0 \<notin> set before" "cred_actor cred = agent"
    "live (hash_token (dp_sha ?dp) raw)
      (md_tables (ms_db (tn_state (take_turns (service_turn ?dp) example_service before (server_start Waits ?st))))) cred"
    "filter (\<lambda>x. fst x = 0) (tn_log s) = [(0, agent, ''http://x'')]"
    using exchanges_are_authorized [OF example_deployment_sql calls example_start_well_formed s_def sent] by blast
  have "before = []" using e(3,4) by (cases before) (auto simp: numeral_eq_Suc)
  with e(5,6) have "agent = ''a1''" by (auto simp: live_def example_mcp_state_def example_agents_defs)
  moreover have "s_base_url (ms_searcher ?st) = ''http://s''"
    by (simp add: example_mcp_state_def new_searcher_def trim_suffix_def)
  ultimately show ?thesis using e(1,2,7) unfolding s_def [symmetric] Let_def by simp
qed

text \<open>C11: nothing but the retention removes a call. In every interleaving a call in the history
  stays as it is until a sweep finds it older than the retention, and on a calm database
  GET /tool-calls/{id} answers with it and with the name of its agent, deleted or not.\<close>

theorem recorded_call_survives_concurrency:
  assumes "sql_database content (dp_db dp)" "calls_ok dp calls" "well_formed (content (ms_db st))"
    "s = take_turns (service_turn dp) calls sched (server_start Waits st)" "x \<in> set (tb_calls (content (ms_db st)))"
    "\<forall>i \<in> set sched. \<forall>now. calls i = SweepCall now \<longrightarrow> dp_retention dp \<le> 0 \<or> now - call_called_at x \<le> dp_retention dp"
  shows "x \<in> set (tb_calls (content (ms_db (tn_state s))))
    \<and> (\<exists>a \<in> set (tb_actors (content (ms_db st))). actor_id a = call_actor x
        \<and> (calm_database content (dp_db dp) calm \<and> calm (ms_db (tn_state s)) \<longrightarrow>
            fst (get_history_entry_handler (dp_db dp) env (call_id x) (ms_db (tn_state s)))
              = json_reply 200 (JObj [(''call'', call_json (re_time env) x), (''actor'', JStr (actor_name a))])))"
proof -
  let ?last = "ms_db (tn_state s)" and ?K = "\<Union>i \<in> set sched. permitted dp (call_event (calls i))"
  have writes: "table_writes ?K (content (ms_db st)) (content ?last)"
    using run_writes [OF assms(1-3), of "server_start Waits st" "[]" sched] by (simp add: assms(4))
  have "\<forall>t. DeleteCalls t \<in> ?K \<longrightarrow> t \<le> call_called_at x" using swept_only_old assms(6) by blast
  then have stays: "x \<in> set (tb_calls (content ?last))" using writes_keep_call [OF writes assms(5)] by blast
  obtain a where a: "a \<in> set (tb_actors (content (ms_db st)))" "actor_id a = call_actor x"
    using assms(3,5) by (auto simp: well_formed_def)
  have a': "a \<in> set (tb_actors (content ?last))" using writes_keep_actors [OF writes] a(1) by blast
  have "uniq_calls (tb_calls (content ?last))" "uniq_actors (tb_actors (content ?last))"
    using data_run(1) [OF assms(1-4)] by (simp_all add: well_formed_def tables_ok_def)
  with stays a a' history_entry_calm [of content "dp_db dp" calm ?last x a env] show ?thesis by blast
qed

theorem recorded_call_survives_concurrency_witness:
  "let d = ms_db (tn_state (take_turns (service_turn (example_deployment 5)) example_service [3] (server_start Waits example_past)));
       x = example_call ''2'' ''fetch'' 5
   in tb_calls (md_tables d) = [x]
      \<and> fst (get_history_entry_handler mem_database example_rest_env ''2'' d)
          = json_reply 200 (JObj [(''call'', call_json show_int x), (''actor'', JStr ''bot'')])"
proof -
  let ?x = "example_call ''2'' ''fetch'' 5" and ?dp = "example_deployment 5"
  define s where "s = take_turns (service_turn ?dp) example_service [3] (server_start Waits example_past)"
  have swept: "ms_db (tn_state s) = past_calls [?x]"
    using example_after_sweep by (simp add: s_def take_turn_def example_sweep_def)
  have calls: "calls_ok ?dp example_service" by (rule example_service_ok) (simp_all add: max_int64_def example_deployment_def)
  have x: "?x \<in> set (tb_calls (md_tables (ms_db example_past)))"
    by (simp add: example_past_def example_mcp_state_def past_calls_defs)
  have kept: "\<forall>i \<in> set [3]. \<forall>now. example_service i = SweepCall now \<longrightarrow> dp_retention ?dp \<le> 0
      \<or> now - call_called_at ?x \<le> dp_retention ?dp" by (simp add: example_call_def)
  have names: "\<forall>a \<in> set (tb_actors (md_tables (ms_db example_past))). actor_name a = ''bot''"
    by (simp add: example_past_def example_mcp_state_def past_calls_defs)
  have "calm_database md_tables (dp_db ?dp) mem_calm \<and> mem_calm (ms_db (tn_state s))"
    by (simp add: calm.calm_database_axioms swept mem_calm_def past_calls_defs)
  with conjunct2 [OF recorded_call_survives_concurrency [OF example_deployment_sql calls example_past_well_formed s_def x kept,
      of mem_calm example_rest_env]] names
  have "fst (get_history_entry_handler mem_database example_rest_env ''2'' (ms_db (tn_state s)))
      = json_reply 200 (JObj [(''call'', call_json show_int ?x), (''actor'', JStr ''bot'')])"
    by (auto simp: example_call_def example_rest_env_def)
  moreover have "tb_calls (md_tables (ms_db (tn_state s))) = [?x]" by (simp add: swept past_calls_defs)
  ultimately show ?thesis unfolding s_def Let_def by blast
qed

lemma agent_turns_calm:
  assumes "calm_database content (dp_db dp) calm" "calls_ok dp calls" "well_formed (content (ms_db st))"
    "s = take_turns (service_turn dp) calls before (server_start Waits st)" "calm (ms_db (tn_state s))"
    "\<forall>i \<in> set sched. \<exists>m. calls i = AgentCall m"
  shows "calm (ms_db (tn_state (take_turns (service_turn dp) calls sched s)))"
  using assms(6)
proof (induction sched rule: rev_induct)
  case (snoc i sched)
  let ?s = "take_turns (service_turn dp) calls sched s"
  have sql: "sql_database content (dp_db dp)" using assms(1) by (rule calm_database.axioms(1))
  have "?s = take_turns (service_turn dp) calls (before @ sched) (server_start Waits st)" by (simp add: take_turns_append assms(4))
  note data = data_run(2) [OF sql assms(2,3) this, of i]
  obtain m where m: "calls i = AgentCall m" using snoc.prems by auto
  show ?case
  proof (cases "agent_pc (tn_pc ?s i)")
    case None
    with snoc m show ?thesis by (simp add: take_turns_append take_turn_def)
  next
    case (Some p)
    obtain p' st' out where t: "mcp_turn (dp_db dp) m p (tn_state ?s) = (p', st', out)" by (metis prod.collapse)
    have "request_at (issued (content (ms_db (tn_state ?s)))) m p" using data m Some by (simp add: call_known_def)
    from calm_database.mcp_turn_calm [OF assms(1) _ this t] snoc have "calm (ms_db st')" by simp
    with m Some t show ?thesis by (simp add: take_turns_append take_turn_def)
  qed
qed (use assms(5) in simp)

text \<open>A human looks at the profile, from two tabs at the first login.\<close>

definition example_tabs :: "nat \<Rightarrow> string service_call" where
  "example_tabs i = HumanCall (example_stamp 0 (Inl ''down'')) example_rest_env (if i = 0 then ''h'' else ''g'') 9
     (example_api ''GET'' ''/me'')"

lemma example_tabs_ok:
  assumes "dp_sha dp = id" shows "calls_ok dp example_tabs"
  using example_api_request_ok [of 5 "''GET''" "''/me''"] assms
  by (simp add: calls_ok_def example_tabs_def example_api_request_def nul_def)

text \<open>An admin issues a token, and an agent uses it.\<close>

definition example_issue :: "nat \<Rightarrow> string service_call" where
  "example_issue i = (if i = 1 then HumanCall (example_stamp 0 (Inl ''down'')) example_rest_env ''h'' 9
        (example_api ''POST'' ''/actors/a1/credentials'')
     else AgentCall ((example_requests i)\<lparr>mc_header := ''Bearer '' @ token_prefix @ b64_encode True ''R''\<rparr>))"

lemma example_issue_ok:
  assumes "dp_sha dp = id" shows "calls_ok dp example_issue"
  using example_api_request_ok [of 5 "''POST''" "''/actors/a1/credentials''"] assms
  by (simp add: calls_ok_def example_issue_def example_api_request_def example_requests_def example_mcp_env_def)

lemmas example_turns_eval = take_turn_def stub_authenticate_def create_human_tx_def new_human_def new_identity_def
  load_actor_def failed_reply_def mem_eval

text \<open>C19: a human is one actor, also at a first login in two tabs. In every interleaving with anything
  else, two requests to the API of the same subject that were admitted, at any two points of
  the run, were admitted as the same actor, of the kind human, and it stays in the table.\<close>

theorem concurrent_humans_agree:
  assumes "sql_database content (dp_db dp)" "calls_ok dp calls" "well_formed (content (ms_db st))"
    "s = take_turns (service_turn dp) calls before (server_start Waits st)" "s' = take_turns (service_turn dp) calls after s"
    "calls i = HumanCall stamp env uuid now req" "tn_pc s i = HumanAt (Admitted idn a)"
    "calls j = HumanCall stamp' env' uuid' now' req'" "tn_pc s' j = HumanAt (Admitted idn' b)"
    "id_subject idn = id_subject idn'"
  shows "a = b \<and> actor_kind a = HumanKind \<and> a \<in> set (tb_actors (content (ms_db (tn_state s'))))"
proof -
  have s': "s' = take_turns (service_turn dp) calls (before @ after) (server_start Waits st)"
    by (simp add: assms(4,5) take_turns_append)
  note end_data = data_run [OF assms(1-3) s']
  have "api_known (content (ms_db (tn_state s))) (Admitted idn a)"
    using data_run(2) [OF assms(1-4), of i] assms(6,7) by (auto simp: call_known_def)
  then have "api_known (content (ms_db (tn_state s'))) (Admitted idn a)"
    unfolding assms(5) by (rule api_known_later [OF run_writes [OF assms(1-4)]])
  moreover have "api_known (content (ms_db (tn_state s'))) (Admitted idn' b)"
    using end_data(2) [of j] assms(8,9) by (auto simp: call_known_def)
  moreover have "linked (content (ms_db (tn_state s')))" using end_data(1) by (simp add: well_formed_def)
  ultimately show ?thesis using admitted_same assms(10) by (auto simp: api_known_def)
qed

theorem concurrent_humans_agree_witness:
  "let run = \<lambda>sched. take_turns (service_turn (example_deployment 5)) example_tabs sched
        (server_start Waits (example_mcp_state (example_agents [''T''])))
   in \<exists>idn a. tn_pc (run [0, 1, 0, 1, 0, 1, 1, 0]) 0 = HumanAt (Admitted idn a)
        \<and> tn_pc (run ([0, 1, 0, 1, 0, 1, 1, 0] @ [1])) 1 = HumanAt (Admitted idn a) \<and> actor_kind a = HumanKind"
proof -
  let ?dp = "example_deployment 5" and ?d0 = "example_agents [''T'']"
  let ?idn = "\<lparr>id_subject = ''stub-user'', id_name = ''Local Tester'', id_role = ''admin''\<rparr>" and ?me = "new_human ''h'' ''Local Tester'' 9"
  let ?st = "example_mcp_state ?d0" and ?turn = "\<lambda>uuid. api_turn ?dp (example_stamp 0 (Inl ''down'')) example_rest_env uuid 9 (example_api ''GET'' ''/me'')"
  let ?run = "\<lambda>sched. take_turns (service_turn ?dp) example_tabs sched (server_start Waits ?st)"
  define d1 where "d1 = ?d0\<lparr>md_tables := add_human (new_identity ''h'' ''stub-user'' ''admin'') ?me (md_tables ?d0)\<rparr>"
  have looks: "?turn u (ApiArrived, d) = (Identified ?idn, d)" "?turn u (Identified ?idn, ?d0) = (NoIdentity ?idn, ?d0)" for u d
    by (simp_all add: example_turns_eval example_deployment_def example_agents_defs)
  have wins: "?turn ''h'' (NoIdentity ?idn, ?d0) = (ActorKnown ?idn ''h'', d1)"
    by (simp add: d1_def example_turns_eval example_agents_defs add_human_def)
  have loses: "?turn ''g'' (NoIdentity ?idn, d1) = (IdentityTaken ?idn, d1)" "?turn ''g'' (IdentityTaken ?idn, d1) = (ActorKnown ?idn ''h'', d1)"
    by (simp_all add: d1_def example_turns_eval example_agents_defs add_human_def)
  have loads: "?turn u (ActorKnown ?idn ''h'', d1) = (Admitted ?idn ?me, d1)" for u
    by (simp add: d1_def example_turns_eval example_agents_defs add_human_def)
  define at :: "service_pc \<Rightarrow> service_pc \<Rightarrow> mem_db \<Rightarrow> (mem_db mcp_state, service_pc, string \<times> string) server" where
    "at p q d = \<lparr>tn_state = ?st\<lparr>ms_db := d\<rparr>, tn_pc = (\<lambda>_. Waits)(0 := p, Suc 0 := q), tn_log = []\<rparr>" for p q d
  have tab0: "take_turn (service_turn ?dp) example_tabs 0 (at p q d) = at (HumanAt p1) q d1"
    if "human_pc_of p = Some p0" "?turn ''h'' (p0, d) = (p1, d1)" for p q p0 p1 d d1
    using that by (simp add: take_turn_def at_def example_tabs_def fun_upd_twist del: api_turn.simps)
  have tab1: "take_turn (service_turn ?dp) example_tabs (Suc 0) (at p q d) = at p (HumanAt q1) d1"
    if "human_pc_of q = Some q0" "?turn ''g'' (q0, d) = (q1, d1)" for p q q0 q1 d d1
    using that by (simp add: take_turn_def at_def example_tabs_def del: api_turn.simps)
  have start: "server_start Waits ?st = at Waits Waits ?d0"
    by (simp add: at_def server_start_def example_mcp_state_def fun_eq_iff)
  have before: "?run [0, 1, 0, 1, 0, 1, 1, 0] = at (HumanAt (Admitted ?idn ?me)) (HumanAt (ActorKnown ?idn ''h'')) d1"
    unfolding start by (simp add: tab0 tab1 looks wins loses loads del: api_turn.simps)
  have here: "tn_pc (?run [0, 1, 0, 1, 0, 1, 1, 0]) 0 = HumanAt (Admitted ?idn ?me)"
    unfolding before by (simp add: at_def)
  have there: "tn_pc (take_turns (service_turn ?dp) example_tabs [1] (?run [0, 1, 0, 1, 0, 1, 1, 0])) 1 = HumanAt (Admitted ?idn ?me)"
    unfolding before by (simp add: tab1 [OF _ loads] del: api_turn.simps) (simp add: at_def)
  have "calls_ok ?dp example_tabs" by (rule example_tabs_ok) simp
  from concurrent_humans_agree [OF example_deployment_sql this example_start_well_formed refl refl _ here _ there refl]
  have "actor_kind ?me = HumanKind" by (simp add: example_tabs_def)
  with here there show ?thesis unfolding Let_def take_turns_append by blast
qed

text \<open>C3: every served request is recorded. On a database that works throughout, when the identifiers
  drawn for the rows are new, a request to /mcp that was served has its row in the history,
  faithful to it, whatever else ran at the same time, until a sweep finds it older than the
  retention.\<close>

theorem served_request_is_recorded:
  assumes "calm_database content (dp_db dp) calm" "calls_ok dp calls" "well_formed (content (ms_db st))"
    "ids_fresh (content (ms_db st)) calls" "s = take_turns (service_turn dp) calls sched (server_start Waits st)"
    "\<forall>n. calm (ms_db (tn_state (take_turns (service_turn dp) calls (take n sched) (server_start Waits st))))"
    "calls i = AgentCall c" "tn_pc s i = AgentAt (McpEnded (Served (Some reply)))"
    "\<forall>j \<in> set sched. \<forall>now. calls j = SweepCall now \<longrightarrow>
       dp_retention dp \<le> 0 \<or> now - st_now (me_stamp (mc_env c)) \<le> dp_retention dp"
  shows "\<exists>a row. reply_row a (mc_request c) reply row \<and> call_id row = st_uuid (me_stamp (mc_env c))
    \<and> {x \<in> set (tb_calls (content (ms_db (tn_state s)))). call_id x = st_uuid (me_stamp (mc_env c))} = {row}"
proof -
  obtain a row where row: "reply_row a (mc_request c) reply row" "call_id row = st_uuid (me_stamp (mc_env c))"
    "row \<in> set (tb_calls (content (ms_db (tn_state s))))" using served_is_recorded [OF assms] by blast
  have "uniq_calls (tb_calls (content (ms_db (tn_state s))))"
    using data_run(1) [OF calm_database.axioms(1) [OF assms(1)] assms(2,3,5)] by (simp add: well_formed_def tables_ok_def)
  with row(2,3) distinct_map_eq [of call_id "tb_calls (content (ms_db (tn_state s)))"]
  have "{x \<in> set (tb_calls (content (ms_db (tn_state s)))). call_id x = st_uuid (me_stamp (mc_env c))} = {row}"
    by (auto simp: uniq_calls_def)
  with row(1,2) show ?thesis by blast
qed

theorem served_request_is_recorded_witness:
  "let s = take_turns (service_turn (example_deployment 5)) example_service (replicate 7 0 @ [2, 2])
        (server_start Waits (example_mcp_state (example_agents [''T''])))
   in \<exists>row. {x \<in> set (tb_calls (md_tables (ms_db (tn_state s)))). call_id x = ''u''} = {row} \<and> call_tool row = ''fetch''"
proof -
  let ?dp = "example_deployment 5" and ?st = "example_mcp_state (example_agents [''T''])" and ?sched = "replicate 7 0 @ [2, 2] :: nat list"
  have calm: "calm_database md_tables (dp_db ?dp) mem_calm" by (simp add: calm.calm_database_axioms)
  have ok: "calls_ok ?dp example_service" by (rule example_service_ok) (simp_all add: max_int64_def example_deployment_def)
  have fresh: "ids_fresh (md_tables (ms_db ?st)) example_service"
    by (auto simp: ids_fresh_def example_service_def example_requests_def example_mcp_state_def example_agents_defs
        split: if_splits dest: arg_cong [of _ _ length])
  have works: "\<forall>n. mem_calm (ms_db (tn_state (take_turns (service_turn ?dp) example_service (take n ?sched) (server_start Waits ?st))))"
  proof (intro allI agent_turns_calm [OF calm ok example_start_well_formed, where before = "[]"])
    show "\<forall>i \<in> set (take n ?sched). \<exists>m. example_service i = AgentCall m" for n
      using set_take_subset [of n ?sched] by fastforce
  qed (simp_all add: mem_calm_def example_mcp_state_def example_agents_defs)
  obtain reply where "tn_pc (take_turns (service_turn ?dp) example_service ?sched (server_start Waits ?st)) 0
      = AgentAt (McpEnded (Served (Some reply)))"
    using example_service_served [of ?st "[2, 2]" ?dp] by (auto simp: example_mcp_state_def)
  from served_request_is_recorded [OF calm ok example_start_well_formed fresh refl works example_service_simps(1) this]
  obtain a row where row: "reply_row a example_fetch reply row"
    "{x \<in> set (tb_calls (md_tables (ms_db (tn_state (take_turns (service_turn ?dp) example_service ?sched (server_start Waits ?st)))))).
       call_id x = ''u''} = {row}" by (auto simp: example_requests_def)
  from row(1) have "call_tool row = ''fetch''" by (cases reply; simp add: reply_row_def faithful_row_def example_fetch_def)
  with row(2) show ?thesis unfolding Let_def by blast
qed

text \<open>C8: a token that the UI issued works, whatever runs at the same time. When POST
  /actors/{id}/credentials for an existing agent was answered 201, its body holds a token,
  and in every interleaving in which nothing is revoked and the database works, a request to
  /mcp with that token that begins after it is served once it has taken its turns.\<close>

theorem issued_token_is_served_concurrently:
  assumes "calm_database content (dp_db dp) calm" "router_ok (dp_router dp)" "calls_ok dp calls" "well_formed (content (ms_db st))"
    "s = take_turns (service_turn dp) calls before (server_start Waits st)"
    "calls k = HumanCall stamp env uuid now req" "a \<in> set (tb_actors (content (ms_db st)))"
    "dp_router dp rest_routes (rq_method req) (rq_path req) = Matched (b, IssueToken) (actor_id a)"
    "tn_pc s k = HumanAt (Answered reply)" "hr_status reply = 201"
    "\<forall>j \<in> set (before @ after). \<not> revoking dp (call_event (calls j))"
    "\<forall>n. calm (ms_db (tn_state (take_turns (service_turn dp) calls (take n after) s)))"
  shows "\<exists>raw token. re_rnd env = Inr raw \<and> token = token_prefix @ b64_encode True raw
    \<and> reply = json_reply 201 (JObj [(''token'', JStr token)])
    \<and> (\<forall>i c. calls i = AgentCall c \<and> mc_header c = ''Bearer '' @ token \<and> i \<notin> set before \<and> 7 \<le> count_list after i \<longrightarrow>
        (\<exists>out. tn_pc (take_turns (service_turn dp) calls after s) i = AgentAt (McpEnded (Served (Some out)))))"
proof -
  have sql: "sql_database content (dp_db dp)" using assms(1) by (rule calm_database.axioms(1))
  obtain token where token: "reply = json_reply 201 (JObj [(''token'', JStr token)])" "token \<noteq> []"
    "admits (hash_token (dp_sha dp) token) (actor_id a) (content (ms_db (tn_state s)))"
    "\<exists>raw. re_rnd env = Inr raw \<and> token = token_prefix @ b64_encode True raw"
    using answered_201_admits [OF sql assms(2-6,8-10)] assms(11) by auto
  have a: "a \<in> set (tb_actors (content (ms_db (tn_state s))))"
    using writes_keep_actors [OF run_writes [OF sql assms(3,4), of "server_start Waits st" "[]" before]] assms(5,7) by auto
  have "\<exists>out. tn_pc (take_turns (service_turn dp) calls after s) i = AgentAt (McpEnded (Served (Some out)))"
    if i: "calls i = AgentCall c" "mc_header c = ''Bearer '' @ token" "i \<notin> set before" "7 \<le> count_list after i" for i c
  proof -
    obtain p where p: "agent_pc (tn_pc (take_turns (service_turn dp) calls after s) i) = Some p" "goes_on (actor_id a) p"
      using live_run [OF assms(1,3,4,5) token(3) a i(1,2) token(2) i(3), of after] assms(11,12) by auto
    have "7 \<le> service_stage (tn_pc (take_turns (service_turn dp) calls after s) i)" using calls.ends_in_time [OF i(4)] .
    with p show ?thesis
      by (cases "tn_pc (take_turns (service_turn dp) calls after s) i") (auto simp: goes_on_def)
  qed
  with token(1,4) show ?thesis by blast
qed

theorem issued_token_is_served_concurrently_witness:
  "let run = \<lambda>sched. take_turns (service_turn (example_deployment 5)) example_issue sched
        (server_start Waits (example_mcp_state (example_agents [''T''])))
   in (\<exists>reply. tn_pc (run (replicate 7 1)) 1 = HumanAt (Answered reply) \<and> hr_status reply = 201)
      \<and> (\<exists>out. tn_pc (run (replicate 7 1 @ [2, 0, 2, 0, 0, 0, 0, 0, 0])) 0 = AgentAt (McpEnded (Served (Some out))))"
proof -
  let ?dp = "example_deployment 5" and ?st = "example_mcp_state (example_agents [''T''])" and ?after = "[2, 0, 2, 0, 0, 0, 0, 0, 0] :: nat list"
  let ?req = "example_api ''POST'' ''/actors/a1/credentials''" and ?token = "token_prefix @ b64_encode True ''R''"
  let ?s = "take_turns (service_turn ?dp) example_issue (replicate 7 1) (server_start Waits ?st)"
  have calm: "calm_database md_tables (dp_db ?dp) mem_calm" by (simp add: calm.calm_database_axioms)
  have router: "router_ok (dp_router ?dp)" by (simp add: segment_router_ok)
  have ok: "calls_ok ?dp example_issue" by (rule example_issue_ok) simp
  have call: "example_issue 1 = HumanCall (example_stamp 0 (Inl ''down'')) example_rest_env ''h'' 9 ?req" by (simp add: example_issue_def)
  have a: "example_actor \<in> set (tb_actors (md_tables (ms_db ?st)))" by (simp add: example_mcp_state_def example_agents_defs)
  have route: "dp_router ?dp rest_routes (rq_method ?req) (rq_path ?req) = Matched (True, IssueToken) (actor_id example_actor)"
    using example_routes(2) by (simp add: example_api_def example_actor_def)
  obtain reply d where run: "api_handle ?dp (example_stamp 0 (Inl ''down'')) example_rest_env ''h'' 9 ?req (ms_db ?st) = (reply, d)"
    and own: "own_turns (service_turn ?dp) (example_issue 1) 7 Waits ?st = (HumanAt (Answered reply), ?st\<lparr>ms_db := d\<rparr>, [])"
    unfolding call using human_alone [of ?dp "example_stamp 0 (Inl ''down'')" example_rest_env "''h''" 9 ?req ?st] by blast
  have ne: "hash_token id ?token \<noteq> hash_token id ''T''"
    using hash_token_def hex_encode_inj by (fastforce simp: token_prefix_def)
  have reply: "reply = json_reply 201 (JObj [(''token'', JStr ?token)])" and d: "md_faults d = []"
    using run ne example_routes(2) unfolding example_api_handle
    by (auto simp: example_rest_eval issue_token_handler_def auth_issue_def issue_agent_token_def Let_def mem_eval
        example_mcp_state_def example_agents_defs example_rest_env_def)
  have s: "tn_pc ?s 1 = HumanAt (Answered reply)" "mem_calm (ms_db (tn_state ?s))"
    using take_own_turns [of "service_turn ?dp" example_issue 1 7 "server_start Waits ?st"] own d
    by (simp_all add: mem_calm_def del: take_turns.simps replicate.simps)
  have works: "\<forall>n. mem_calm (ms_db (tn_state (take_turns (service_turn ?dp) example_issue (take n ?after) ?s)))"
  proof (intro allI agent_turns_calm [OF calm ok example_start_well_formed refl s(2)])
    show "\<forall>i \<in> set (take n ?after). \<exists>m. example_issue i = AgentCall m" for n
      using set_take_subset [of n ?after] by (fastforce simp: example_issue_def)
  qed
  have quiet: "\<forall>j \<in> set (replicate 7 1 @ ?after). \<not> revoking ?dp (call_event (example_issue j))"
    using route by (auto simp: example_issue_def)
  have status: "hr_status reply = 201" by (simp add: reply)
  from issued_token_is_served_concurrently [OF calm router ok example_start_well_formed refl call a route s(1) status quiet works]
  obtain raw where raw: "re_rnd example_rest_env = Inr raw" and
    served: "\<And>i c. example_issue i = AgentCall c \<Longrightarrow> mc_header c = ''Bearer '' @ token_prefix @ b64_encode True raw \<Longrightarrow>
        i \<notin> set (replicate 7 1) \<Longrightarrow> 7 \<le> count_list ?after i \<Longrightarrow>
        \<exists>out. tn_pc (take_turns (service_turn ?dp) example_issue ?after ?s) i = AgentAt (McpEnded (Served (Some out)))"
    by blast
  have raw: "raw = ''R''" using raw by (simp add: example_rest_env_def)
  have "\<exists>out. tn_pc (take_turns (service_turn ?dp) example_issue ?after ?s) 0 = AgentAt (McpEnded (Served (Some out)))"
  proof (rule served)
    show "example_issue 0 = AgentCall ((example_requests 0)\<lparr>mc_header := ''Bearer '' @ ?token\<rparr>)" by (simp add: example_issue_def)
  qed (simp_all add: raw)
  with s(1) status show ?thesis unfolding Let_def take_turns_append [of _ _ "replicate 7 1"] by blast
qed

text \<open>C18: only admins manage agents, also under concurrency. In every interleaving, a turn that changes the
  agents or their credentials, but for the time of the last use, is the endpoint of a request
  to the API whose human was identified with the role admin.\<close>

theorem only_admins_manage_concurrently:
  assumes "sql_database content (dp_db dp)" "router_ok (dp_router dp)" "calls_ok dp calls" "well_formed (content (ms_db st))"
    "s = take_turns (service_turn dp) calls sched (server_start Waits st)"
    "managed (content (ms_db (tn_state (take_turn (service_turn dp) calls i s)))) \<noteq> managed (content (ms_db (tn_state s)))"
  shows "\<exists>stamp env uuid now req idn a. calls i = HumanCall stamp env uuid now req
    \<and> tn_pc s i = HumanAt (Admitted idn a) \<and> id_role idn = ''admin''
    \<and> actor_kind a = HumanKind \<and> owns (id_subject idn) (content (ms_db (tn_state s))) (actor_id a)"
proof -
  note data = data_run [OF assms(1,3-5)]
  have ok: "event_ok dp (call_event (calls i))" using assms(3) by (simp add: calls_ok_def)
  have linked: "linked (content (ms_db (tn_state s)))" using data(1) by (simp add: well_formed_def)
  obtain pc' st' out where t: "service_turn dp (calls i) (tn_pc s i) (tn_state s) = (pc', st', out)" by (metis prod.collapse)
  with assms(6) have diff: "managed (content (ms_db st')) \<noteq> managed (content (ms_db (tn_state s)))" by (simp add: take_turn_def)
  have "\<exists>k \<in> permitted dp (call_event (calls i)). managing k"
    using writes_keep_managed [OF service_turn_writes [OF assms(1) ok data t]] diff by blast
  then obtain stamp env uuid now req where call: "calls i = HumanCall stamp env uuid now req"
    by (cases "calls i") (auto split: if_splits)
  obtain p where p: "human_pc_of (tn_pc s i) = Some p"
    using t call diff by (cases "human_pc_of (tn_pc s i)") auto
  obtain p1 d where turn: "api_turn dp stamp env uuid now req (p, ms_db (tn_state s)) = (p1, d)" by fastforce
  with t call p diff have "managed (content d) \<noteq> managed (content (ms_db (tn_state s)))" by auto
  with api_turn_manages [OF assms(1,2) _ linked turn] ok call obtain idn a where
    admin: "p = Admitted idn a" "id_role idn = ''admin''" by auto
  have "api_known (content (ms_db (tn_state s))) (Admitted idn a)"
    using data(2) [of i] call p admin(1) by (auto simp: call_known_def)
  moreover from admitted_same [OF linked this this] have "actor_kind a = HumanKind" by simp
  moreover have "tn_pc s i = HumanAt (Admitted idn a)" using p admin(1) by (cases "tn_pc s i") auto
  ultimately show ?thesis using call admin(2) by (auto simp: api_known_def)
qed

theorem only_admins_manage_concurrently_witness:
  "let run = \<lambda>sched. take_turns (service_turn (example_deployment 5)) example_service sched
        (server_start Waits (example_mcp_state (example_agents [''T''])))
   in \<exists>idn a. tn_pc (run (replicate 4 1)) 1 = HumanAt (Admitted idn a) \<and> id_role idn = ''admin''
      \<and> managed (md_tables (ms_db (tn_state (take_turn (service_turn (example_deployment 5)) example_service 1 (run (replicate 4 1))))))
          \<noteq> managed (md_tables (ms_db (tn_state (run (replicate 4 1)))))"
proof -
  let ?dp = "example_deployment 5" and ?d0 = "example_agents [''T'']" and ?st = "example_mcp_state (example_agents [''T''])"
  let ?idn = "\<lparr>id_subject = ''stub-user'', id_name = ''Local Tester'', id_role = ''admin''\<rparr>" and ?me = "new_human ''h'' ''Local Tester'' 9"
  let ?req = "example_api ''DELETE'' ''/credentials/idT''"
  let ?turn = "api_turn ?dp (example_stamp 0 (Inl ''down'')) example_rest_env ''h'' 9 ?req"
  let ?s = "take_turns (service_turn ?dp) example_service (replicate 4 1) (server_start Waits ?st)"
  define d1 where "d1 = ?d0\<lparr>md_tables := add_human (new_identity ''h'' ''stub-user'' ''admin'') ?me (md_tables ?d0)\<rparr>"
  have turns: "?turn (ApiArrived, ?d0) = (Identified ?idn, ?d0)" "?turn (Identified ?idn, ?d0) = (NoIdentity ?idn, ?d0)"
    by (simp_all add: example_turns_eval example_deployment_def example_agents_defs)
  have registers: "?turn (NoIdentity ?idn, ?d0) = (ActorKnown ?idn ''h'', d1)" "?turn (ActorKnown ?idn ''h'', d1) = (Admitted ?idn ?me, d1)"
    by (simp_all add: d1_def example_turns_eval example_agents_defs add_human_def)
  have "(?turn ^^ 4) (ApiArrived, ms_db ?st) = (Admitted ?idn ?me, d1)"
    by (simp add: numeral_eq_Suc funpow_Suc_right example_mcp_state_def turns registers del: funpow.simps api_turn.simps)
  from human_turns_alone [OF this]
  have own: "own_turns (service_turn ?dp) (example_service 1) 4 Waits ?st = (HumanAt (Admitted ?idn ?me), ?st\<lparr>ms_db := d1\<rparr>, [])"
    by (simp add: numeral_eq_Suc del: api_turn.simps)
  have s: "tn_pc ?s 1 = HumanAt (Admitted ?idn ?me)" "tn_state ?s = ?st\<lparr>ms_db := d1\<rparr>"
    using take_own_turns [of "service_turn ?dp" example_service 1 4 "server_start Waits ?st"] own
    by (simp_all del: take_turns.simps replicate.simps)
  obtain reply d2 where last: "?turn (Admitted ?idn ?me, d1) = (Answered reply, d2)"
    by (cases "?turn (Admitted ?idn ?me, d1)") (auto split: prod.splits)
  have "map cred_revoked (tb_credentials (md_tables d2)) \<noteq> map cred_revoked (tb_credentials (md_tables d1))"
    using last example_routes(1)
    by (auto simp: d1_def example_rest_eval revoke_token_handler_def revoke_agent_token_def mem_eval example_agents_defs add_human_def)
  then have revoked: "managed (md_tables d2) \<noteq> managed (md_tables d1)"
    by (auto simp: managed_def o_def dest: arg_cong [of "map _ _" _ "map cred_revoked"])
  have "tn_state (take_turn (service_turn ?dp) example_service 1 ?s) = ?st\<lparr>ms_db := d2\<rparr>"
    using s last by (simp add: take_turn_def del: api_turn.simps take_turns.simps replicate.simps)
  with s revoked have "managed (md_tables (ms_db (tn_state (take_turn (service_turn ?dp) example_service 1 ?s))))
      \<noteq> managed (md_tables (ms_db (tn_state ?s)))" by simp
  moreover have "calls_ok ?dp example_service" by (rule example_service_ok) (simp_all add: max_int64_def example_deployment_def)
  ultimately show ?thesis
    using only_admins_manage_concurrently [OF example_deployment_sql _ _ example_start_well_formed refl, of 5 example_service 1 "replicate 4 1"]
    unfolding Let_def by (auto simp: segment_router_ok)
qed


text \<open>C5: the service is its calls. Every call is finished after seven turns, whatever the others did in
  between, and calls that take their turns one after the other leave the caches and the
  database as \<open>app_run\<close> does on their events: App_Run, where a request is one step, is the schedule
  without interleaving.\<close>

theorem calls_end_and_run_in_order:
  "(7 \<le> count_list sched i \<longrightarrow> finished (tn_pc (take_turns (service_turn dp) calls sched s) i))
    \<and> (distinct is \<and> (\<forall>i \<in> set is. tn_pc s i = Waits) \<longrightarrow>
        tn_state (take_turns (service_turn dp) calls (concat (map (replicate 7) is)) s)
          = app_run dp (map (\<lambda>i. call_event (calls i)) is) (tn_state s))"
proof (intro conjI impI)
  assume "7 \<le> count_list sched i"
  then show "finished (tn_pc (take_turns (service_turn dp) calls sched s) i)"
    unfolding finished_def by (rule calls.ends_in_time)
qed (auto intro: sequential_run)

theorem calls_end_and_run_in_order_witness:
  "finished (tn_pc (take_turns (service_turn (example_deployment 5)) example_service [1, 1, 0, 1, 1, 3, 1, 1, 1]
       (server_start Waits (example_mcp_state (example_agents [''T''])))) 1)
   \<and> tn_state (take_turns (service_turn (example_deployment 5)) example_service (concat (map (replicate 7) [0, 3]))
       (server_start Waits (example_mcp_state (example_agents [''T'']))))
     = app_run (example_deployment 5) (map (\<lambda>i. call_event (example_service i)) [0, 3]) (example_mcp_state (example_agents [''T'']))"
  using calls_end_and_run_in_order [of "[1, 1, 0, 1, 1, 3, 1, 1, 1]" 1 "example_deployment 5" example_service
      "server_start Waits (example_mcp_state (example_agents [''T'']))" "[0, 3]"] by simp

end
