(* ===== verification/Db_Cache.thy ===== *)
theory Db_Cache
  imports Cache Database
begin

section \<open>The cache in a database table (databaseCache in internal/cache/cache.go)\<close>

text \<open>
  The other implementation of the interface \<open>Cache[V]\<close>: the entries are rows of a table, so
  every operation is a few statements, and every error but that of the first SELECT and of
  the JSON codec is ignored. The statements are a parameter, as in theory Database; the
  locale \<open>cache_statements\<close> says what they do when they succeed. \<open>evict\<close> calls itself until
  the budget is met; it is a partial function, because nothing in it makes sure that a call
  removes a row: \<open>Delete("key = ?", key)\<close> of GORM takes its first argument as the value to
  delete and the key as the condition, an SQL expression of its own. What such an
  expression selects, if it is one, is \<open>condition\<close>.
\<close>

subsection \<open>Rows, statements and operations\<close>

record cache_row =
  cr_key :: string
  cr_value :: bytes
  cr_size :: int
  cr_expires :: time
  cr_accessed :: time

record 'd cache_table =
  ct_create :: "'d \<Rightarrow> 'd"                                  \<comment> \<open>CREATE TABLE IF NOT EXISTS\<close>
  ct_rows :: "('d, cache_row) table_ops"
  ct_sum :: "'d \<Rightarrow> (db_error + int) \<times> 'd"                  \<comment> \<open>SELECT SUM(size), scanned into an int64\<close>
  ct_oldest :: "'d \<Rightarrow> (db_error + string option) \<times> 'd"     \<comment> \<open>SELECT key ORDER BY last_accessed_at LIMIT 1\<close>
  ct_delete_where :: "string \<Rightarrow> 'd \<Rightarrow> db_error option \<times> 'd"   \<comment> \<open>DELETE with an expression as it is\<close>
  ct_count :: "'d \<Rightarrow> (db_error + int) \<times> 'd"

record 'v codec =
  jc_marshal :: "'v \<Rightarrow> bytes option"
  jc_unmarshal :: "bytes \<Rightarrow> 'v option"

record database_cache =
  dc_max_bytes :: int
  dc_ttl :: duration
  dc_table :: string

definition new_database :: "(string \<Rightarrow> 'd cache_table) \<Rightarrow> string \<Rightarrow> int \<Rightarrow> duration \<Rightarrow> 'd \<Rightarrow> database_cache \<times> 'd" where
  "new_database db table maxb d st =
     (\<lparr>dc_max_bytes = (if maxb \<le> 0 then 1073741824 else maxb),
       dc_ttl = (if d \<le> 0 then default_ttl else d), dc_table = table\<rparr>, ct_create (db table) st)"

text \<open>A failed Scan leaves the variable at its zero value.\<close>

fun scanned_int :: "db_error + int \<Rightarrow> int" where
  "scanned_int (Inl e) = 0"
| "scanned_int (Inr n) = n"

fun scanned_key :: "db_error + string option \<Rightarrow> string" where
  "scanned_key (Inr (Some k)) = k"
| "scanned_key res = []"

text \<open>The two instants are the two readings of the clock.\<close>

definition db_get :: "(string \<Rightarrow> 'd cache_table) \<Rightarrow> 'v codec \<Rightarrow> database_cache \<Rightarrow> time \<times> time \<Rightarrow> string \<Rightarrow> 'd
    \<Rightarrow> 'v option \<times> 'd" where
  "db_get db jc dc now key d =
     (case sql_first (ct_rows (db (dc_table dc))) (\<lambda>r. cr_key r = key \<and> fst now < cr_expires r) d of
        (Inl e, d1) \<Rightarrow> (None, d1)
      | (Inr row, d1) \<Rightarrow>
          case sql_update (ct_rows (db (dc_table dc))) (\<lambda>r. cr_key r = key) (\<lambda>r. r\<lparr>cr_accessed := snd now\<rparr>) d1 of
            (ignored, d2) \<Rightarrow> (jc_unmarshal jc (cr_value row), d2))"

partial_function (option) db_evict :: "(string \<Rightarrow> 'd cache_table) \<Rightarrow> database_cache \<Rightarrow> 'd \<Rightarrow> 'd option" where
  "db_evict db dc d =
     (case ct_sum (db (dc_table dc)) d of
        (tot, d1) \<Rightarrow>
          if scanned_int tot > dc_max_bytes dc then
            case ct_oldest (db (dc_table dc)) d1 of
              (oldest, d2) \<Rightarrow>
                if scanned_key oldest \<noteq> [] then
                  db_evict db dc (snd (ct_delete_where (db (dc_table dc)) (scanned_key oldest) d2))
                else Some d2
          else Some d1)"

definition db_put :: "(string \<Rightarrow> 'd cache_table) \<Rightarrow> 'v codec \<Rightarrow> database_cache \<Rightarrow> time \<times> time \<Rightarrow> string \<Rightarrow> 'v \<Rightarrow> int
    \<Rightarrow> 'd \<Rightarrow> 'd option" where
  "db_put db jc dc now key v bytes_used d =
     (case jc_marshal jc v of
        None \<Rightarrow> Some d
      | Some data \<Rightarrow>
          db_evict db dc (snd (sql_save (ct_rows (db (dc_table dc))) cr_key
            \<lparr>cr_key = key, cr_value = data, cr_size = bytes_used, cr_expires = fst now + dc_ttl dc,
             cr_accessed = snd now\<rparr> d)))"

definition db_used :: "(string \<Rightarrow> 'd cache_table) \<Rightarrow> database_cache \<Rightarrow> 'd \<Rightarrow> int \<times> 'd" where
  "db_used db dc d = (case ct_sum (db (dc_table dc)) d of (tot, d1) \<Rightarrow> (scanned_int tot, d1))"

definition db_len :: "(string \<Rightarrow> 'd cache_table) \<Rightarrow> database_cache \<Rightarrow> 'd \<Rightarrow> int \<times> 'd" where
  "db_len db dc d = (case ct_count (db (dc_table dc)) d of (n, d1) \<Rightarrow> (scanned_int n, d1))"

definition db_max_bytes :: "database_cache \<Rightarrow> int" where
  "db_max_bytes dc = dc_max_bytes dc"

definition db_expire_all :: "(string \<Rightarrow> 'd cache_table) \<Rightarrow> database_cache \<Rightarrow> time \<Rightarrow> 'd \<Rightarrow> 'd" where
  "db_expire_all db dc now d = snd (sql_delete (ct_rows (db (dc_table dc))) (\<lambda>r. cr_expires r \<le> now) d)"

subsection \<open>What the statements do\<close>

definition uniq_keys :: "cache_row list \<Rightarrow> bool" where
  "uniq_keys rows \<longleftrightarrow> distinct (map cr_key rows)"

definition total_size :: "cache_row list \<Rightarrow> int" where
  "total_size rows = sum_list (map cr_size rows)"

locale cache_statements =
  sql_table content "\<lambda>rows. rows" "\<lambda>f. f" uniq_keys "ct_rows t"
  for content :: "'d \<Rightarrow> cache_row list" and t :: "'d cache_table" +
  fixes condition :: "string \<Rightarrow> (cache_row \<Rightarrow> bool) option"
  assumes create_keeps: "content (ct_create t d) = content d"
    and sum_keeps: "ct_sum t d = (tot, d') \<Longrightarrow> content d' = content d"
    and sum_value: "ct_sum t d = (Inr n, d') \<Longrightarrow> n = total_size (content d)"
    and oldest_keeps: "ct_oldest t d = (oldest, d') \<Longrightarrow> content d' = content d"
    and oldest_row: "ct_oldest t d = (Inr (Some k), d') \<Longrightarrow>
      \<exists>r \<in> set (content d). cr_key r = k \<and> (\<forall>r' \<in> set (content d). cr_accessed r \<le> cr_accessed r')"
    and oldest_none: "ct_oldest t d = (Inr None, d') \<Longrightarrow> content d = []"
    and delete_where_ok: "ct_delete_where t k d = (None, d') \<Longrightarrow>
      \<exists>P. condition k = Some P \<and> content d' = filter (\<lambda>r. \<not> P r) (content d)"
    and delete_where_failed: "ct_delete_where t k d = (Some e, d') \<Longrightarrow> content d' = content d"
    and count_keeps: "ct_count t d = (n1, d') \<Longrightarrow> content d' = content d"
    and count_value: "ct_count t d = (Inr n, d') \<Longrightarrow> n = blen (content d)"

text \<open>A calm table, on which no statement fails, but for an expression that is none, and for the sum of
  no rows, which is NULL.\<close>

locale calm_cache_statements = cache_statements content t condition +
  calm_table content "\<lambda>rows. rows" "\<lambda>f. f" uniq_keys "ct_rows t" calm
  for content :: "'d \<Rightarrow> cache_row list" and t :: "'d cache_table"
    and condition :: "string \<Rightarrow> (cache_row \<Rightarrow> bool) option" and calm :: "'d \<Rightarrow> bool" +
  assumes sum_calm: "ct_sum t d = (tot, d') \<Longrightarrow> calm d
      \<Longrightarrow> calm d' \<and> (content d \<noteq> [] \<longrightarrow> fits64 (total_size (content d)) \<longrightarrow> (\<exists>n. tot = Inr n))"
    and oldest_calm: "ct_oldest t d = (oldest, d') \<Longrightarrow> calm d \<Longrightarrow> calm d' \<and> (\<exists>k. oldest = Inr k)"
    and delete_where_calm: "ct_delete_where t k d = (res, d') \<Longrightarrow> calm d
      \<Longrightarrow> calm d' \<and> (condition k \<noteq> None \<longrightarrow> res = None)"

subsection \<open>Reading\<close>

definition db_stored :: "('d \<Rightarrow> cache_row list) \<Rightarrow> 'v codec \<Rightarrow> 'd \<Rightarrow> string \<Rightarrow> ('v \<times> time) option" where
  "db_stored content jc d k =
     (case filter (\<lambda>r. cr_key r = k) (content d) of
        [] \<Rightarrow> None
      | r # rs \<Rightarrow> map_option (\<lambda>v. (v, cr_expires r)) (jc_unmarshal jc (cr_value r)))"

definition db_live :: "'d \<Rightarrow> time \<times> time \<Rightarrow> time \<Rightarrow> bool" where
  "db_live d now expires \<longleftrightarrow> fst now < expires"

lemma filter_key:
  assumes "uniq_keys rows" "r \<in> set rows"
  shows "filter (\<lambda>r'. cr_key r' = cr_key r) rows = [r]"
  using assms
proof (induction rows)
  case (Cons a rows)
  show ?case
  proof (cases "a = r")
    case True
    with Cons.prems have "filter (\<lambda>r'. cr_key r' = cr_key r) rows = []"
      by (auto simp: uniq_keys_def filter_empty_conv dest: image_eqI [of _ cr_key, rotated])
    with True show ?thesis by simp
  next
    case False
    with Cons show ?thesis by (auto simp: uniq_keys_def)
  qed
qed simp

lemma stored_touched:
  assumes "content d' = map (\<lambda>r. if cr_key r = k then r\<lparr>cr_accessed := now\<rparr> else r) (content d)"
  shows "db_stored content jc d' k' = db_stored content jc d k'"
proof -
  let ?touch = "\<lambda>r. if cr_key r = k then r\<lparr>cr_accessed := now\<rparr> else r"
  have "(case filter (\<lambda>r. cr_key r = k') (map ?touch rows) of [] \<Rightarrow> None
        | r # rs \<Rightarrow> map_option (\<lambda>v. (v, cr_expires r)) (jc_unmarshal jc (cr_value r)))
      = (case filter (\<lambda>r. cr_key r = k') rows of [] \<Rightarrow> None
        | r # rs \<Rightarrow> map_option (\<lambda>v. (v, cr_expires r)) (jc_unmarshal jc (cr_value r)))" for rows
    by (induction rows) simp_all
  then show ?thesis unfolding db_stored_def assms .
qed

context cache_statements begin

lemma keys_after_get:
  assumes "db_get db jc dc now key d = (res, d')" "db (dc_table dc) = t"
  shows "content d' = content d \<or> content d'
    = map (\<lambda>r. if cr_key r = key then r\<lparr>cr_accessed := snd now\<rparr> else r) (content d)"
proof -
  obtain r1 d1 where f: "sql_first (ct_rows t) (\<lambda>r. cr_key r = key \<and> fst now < cr_expires r) d = (r1, d1)" by fastforce
  show ?thesis
  proof (cases r1)
    case (Inl e)
    with f assms first_missing show ?thesis by (fastforce simp: db_get_def)
  next
    case (Inr row)
    with first_found f have d1: "content d1 = content d" by blast
    obtain u d2 where u: "sql_update (ct_rows t) (\<lambda>r. cr_key r = key) (\<lambda>r. r\<lparr>cr_accessed := snd now\<rparr>) d1 = (u, d2)" by fastforce
    with f Inr assms have "d' = d2" by (simp add: db_get_def)
    with u update_ok update_failed d1 show ?thesis by (cases u) fastforce+
  qed
qed

lemma get_found:
  assumes "db_get db jc dc now key d = (Some v, d')" "db (dc_table dc) = t"
  shows "\<exists>r \<in> set (content d). cr_key r = key \<and> fst now < cr_expires r \<and> jc_unmarshal jc (cr_value r) = Some v"
proof -
  obtain r1 d1 where f: "sql_first (ct_rows t) (\<lambda>r. cr_key r = key \<and> fst now < cr_expires r) d = (r1, d1)" by fastforce
  with assms obtain row where "r1 = Inr row" "jc_unmarshal jc (cr_value row) = Some v"
    by (auto simp: db_get_def split: sum.splits prod.splits)
  with first_found f show ?thesis by blast
qed

end

text \<open>So the cache in a table is a reader as the cache in memory is.\<close>

sublocale cache_statements \<subseteq> reader: cache_reader "db_get (\<lambda>_. t) jc dc" "db_stored content jc" db_live
    "\<lambda>d. uniq_keys (content d)" for jc :: "'v codec" and dc
proof
  fix d :: 'd and now :: "time \<times> time" and k k' :: string and v :: 'v and x :: "'v \<times> time"
  let ?touch = "map (\<lambda>r. if cr_key r = k then r\<lparr>cr_accessed := snd now\<rparr> else r)"
  have keys: "map cr_key (?touch rows) = map cr_key rows" for rows by simp
  have after: "content (snd (db_get (\<lambda>_. t) jc dc now k d)) \<in> {content d, ?touch (content d)}"
    using keys_after_get [OF prod.collapse [symmetric] refl, of jc dc now k d] by blast
  assume uniq: "uniq_keys (content d)"
  have "map cr_key (content (snd (db_get (\<lambda>_. t) jc dc now k d))) = map cr_key (content d)"
    using after by (elim insertE emptyE) (simp_all only: keys)
  with uniq show "uniq_keys (content (snd (db_get (\<lambda>_. t) jc dc now k d)))" by (simp only: uniq_keys_def)
  show "\<exists>t. db_stored content jc d k = Some (v, t) \<and> db_live d now t" if hit: "fst (db_get (\<lambda>_. t) jc dc now k d) = Some v"
  proof -
    obtain d' where "db_get (\<lambda>_. t) jc dc now k d = (Some v, d')" using hit by (metis prod.collapse)
    from get_found [OF this refl] obtain r where "r \<in> set (content d)" "cr_key r = k" "fst now < cr_expires r"
      "jc_unmarshal jc (cr_value r) = Some v" by blast
    with filter_key [OF uniq] show ?thesis by (fastforce simp: db_stored_def db_live_def)
  qed
  have same: "db_stored content jc d' k' = db_stored content jc d k'" if "content d' = ?touch (content d)" for d'
    using that by (rule stored_touched)
  show "db_stored content jc d k' = Some x" if "db_stored content jc (snd (db_get (\<lambda>_. t) jc dc now k d)) k' = Some x"
    using that after same by (metis (no_types, lifting) db_stored_def insertE singletonD)
qed

subsection \<open>Writing\<close>

context cache_statements begin

text \<open>\<open>evict\<close> only removes rows.\<close>

lemma delete_subset:
  assumes "ct_delete_where t k d = (res, d')"
  shows "set (content d') \<subseteq> set (content d) \<and> (uniq_keys (content d) \<longrightarrow> uniq_keys (content d'))"
proof (cases res)
  case None
  with delete_where_ok assms obtain P where "content d' = filter (\<lambda>r. \<not> P r) (content d)" by blast
  then show ?thesis by (auto simp: uniq_filter)
next
  case (Some e)
  with delete_where_failed assms show ?thesis by fastforce
qed

lemma evict_subset:
  assumes run: "db_evict db dc d = Some d'" and db: "db (dc_table dc) = t"
  shows "set (content d') \<subseteq> set (content d) \<and> (uniq_keys (content d) \<longrightarrow> uniq_keys (content d'))"
proof -
  let ?G = "\<lambda>d d'. set (content d') \<subseteq> set (content d) \<and> (uniq_keys (content d) \<longrightarrow> uniq_keys (content d'))"
  have "db (dc_table dc) = t \<longrightarrow> ?G d d'"
  proof (rule db_evict.raw_induct [where P = "\<lambda>db dc d d'. db (dc_table dc) = t \<longrightarrow> ?G d d'", OF _ run])
    fix f :: "(string \<Rightarrow> 'd cache_table) \<Rightarrow> database_cache \<Rightarrow> 'd \<Rightarrow> 'd option" and db dc d d'
    assume IH: "\<And>db dc d d'. f db dc d = Some d' \<Longrightarrow> db (dc_table dc) = t \<longrightarrow> ?G d d'"
      and eq: "(case ct_sum (db (dc_table dc)) d of (tot, d1) \<Rightarrow>
          if scanned_int tot > dc_max_bytes dc then
            case ct_oldest (db (dc_table dc)) d1 of (oldest, d2) \<Rightarrow>
                if scanned_key oldest \<noteq> [] then f db dc (snd (ct_delete_where (db (dc_table dc)) (scanned_key oldest) d2))
                else Some d2
          else Some d1) = Some d'"
    show "db (dc_table dc) = t \<longrightarrow> ?G d d'"
    proof
      assume t: "db (dc_table dc) = t"
      obtain tot d1 where s1: "ct_sum t d = (tot, d1)" by fastforce
      obtain oldest d2 where s2: "ct_oldest t d1 = (oldest, d2)" by fastforce
      obtain res d3 where s3: "ct_delete_where t (scanned_key oldest) d2 = (res, d3)" by fastforce
      have same: "content d1 = content d" "content d2 = content d" using sum_keeps [OF s1] oldest_keeps [OF s2] by simp_all
      have "(if scanned_int tot > dc_max_bytes dc then if scanned_key oldest \<noteq> [] then f db dc d3 else Some d2
          else Some d1) = Some d'" using eq unfolding t s1 prod.case s2 s3 snd_conv .
      then have "d' = d1 \<or> d' = d2 \<or> f db dc d3 = Some d'" by (metis option.inject)
      then show "?G d d'"
      proof (elim disjE)
        assume "f db dc d3 = Some d'"
        from IH [OF this] t delete_subset [OF s3] same show ?thesis by auto
      qed (simp_all add: same)
    qed
  qed
  with db show ?thesis by blast
qed

lemma save_rows:
  assumes "sql_save (ct_rows t) cr_key r d = (res, d')" "uniq_keys (content d)"
  shows "uniq_keys (content d') \<and> set (content d') \<subseteq> insert r (set (content d))"
  using assms save_ok [of cr_key r d d'] save_failed [of cr_key r d _ d'] by (cases res) (auto simp: save_row_set)

end

subsection \<open>Runs\<close>

datatype 'v db_op =
  DbGet "time \<times> time" string
| DbPut "time \<times> time" string 'v int
| DbExpireAll time

fun db_run :: "(string \<Rightarrow> 'd cache_table) \<Rightarrow> 'v codec \<Rightarrow> database_cache \<Rightarrow> 'v db_op list \<Rightarrow> 'd \<Rightarrow> 'd option" where
  "db_run db jc dc [] d = Some d"
| "db_run db jc dc (DbGet now k # os) d = db_run db jc dc os (snd (db_get db jc dc now k d))"
| "db_run db jc dc (DbPut now k v n # os) d =
     (case db_put db jc dc now k v n d of None \<Rightarrow> None | Some d1 \<Rightarrow> db_run db jc dc os d1)"
| "db_run db jc dc (DbExpireAll now # os) d = db_run db jc dc os (db_expire_all db dc now d)"

text \<open>A row comes from a Put: its value is the encoded value, and it expires one TTL after it.\<close>

definition row_from :: "'v codec \<Rightarrow> database_cache \<Rightarrow> 'v db_op list \<Rightarrow> cache_row \<Rightarrow> bool" where
  "row_from jc dc os r \<longleftrightarrow> (\<exists>now v n. DbPut now (cr_key r) v n \<in> set os \<and> jc_marshal jc v = Some (cr_value r)
     \<and> cr_expires r = fst now + dc_ttl dc)"

context cache_statements begin

lemma put_rows:
  assumes "db_put db jc dc now k v n d = Some d'" "db (dc_table dc) = t" "uniq_keys (content d)"
    "\<forall>r \<in> set (content d). row_from jc dc all r" "DbPut now k v n \<in> set all"
  shows "uniq_keys (content d') \<and> (\<forall>r \<in> set (content d'). row_from jc dc all r)"
proof (cases "jc_marshal jc v")
  case None
  with assms show ?thesis by (simp add: db_put_def)
next
  case (Some data)
  let ?r = "\<lparr>cr_key = k, cr_value = data, cr_size = n, cr_expires = fst now + dc_ttl dc, cr_accessed = snd now\<rparr>"
  obtain res d1 where save: "sql_save (ct_rows t) cr_key ?r d = (res, d1)" by fastforce
  with assms(1,2) Some have ev: "db_evict db dc d1 = Some d'" by (simp add: db_put_def)
  have "row_from jc dc all ?r" unfolding row_from_def using assms(5) Some by (intro exI [of _ now] exI [of _ v] exI [of _ n]) simp
  with save_rows [OF save assms(3)] evict_subset [OF ev assms(2)] assms(4) show ?thesis by blast
qed

lemma run_rows:
  assumes "db_run db jc dc os d = Some d'" "db (dc_table dc) = t" "uniq_keys (content d)"
    "\<forall>r \<in> set (content d). row_from jc dc all r" "set os \<subseteq> set all"
  shows "uniq_keys (content d') \<and> (\<forall>r \<in> set (content d'). row_from jc dc all r)"
  using assms
proof (induction os arbitrary: d)
  case (Cons op os)
  show ?case
  proof (cases op)
    case (DbGet now k)
    obtain v d1 where g: "db_get db jc dc now k d = (v, d1)" by fastforce
    have "uniq_keys (content d1) \<and> (\<forall>r \<in> set (content d1). row_from jc dc all r)"
      using keys_after_get [OF g Cons.prems(2)] Cons.prems(3,4)
      by (auto simp: uniq_keys_def row_from_def comp_def if_distrib cong: if_cong)
    with Cons DbGet g show ?thesis by simp
  next
    case (DbPut now k v n)
    with Cons.prems(1) obtain d1 where p: "db_put db jc dc now k v n d = Some d1" "db_run db jc dc os d1 = Some d'"
      by (auto split: option.splits)
    from put_rows [OF p(1) Cons.prems(2-4)] Cons.prems(5) DbPut
    have "uniq_keys (content d1) \<and> (\<forall>r \<in> set (content d1). row_from jc dc all r)" by simp
    with Cons.IH [OF p(2) Cons.prems(2)] Cons.prems(5) show ?thesis by simp
  next
    case (DbExpireAll now)
    obtain res d1 where del: "sql_delete (ct_rows t) (\<lambda>r. cr_expires r \<le> now) d = (res, d1)" by fastforce
    have "uniq_keys (content d1) \<and> set (content d1) \<subseteq> set (content d)"
      using del delete_ok delete_failed Cons.prems(3) uniq_filter by (cases res) fastforce+
    with Cons DbExpireAll del show ?thesis by (auto simp: db_expire_all_def)
  qed
qed simp

end

text \<open>Unlike the operation of the cache in memory, ExpireAllForTesting leaves the live entries alone.\<close>

lemma db_expire_all_keeps_live:
  assumes "cache_statements content (db (dc_table dc)) condition" "uniq_keys (content d)"
    "r \<in> set (content d)" "now < cr_expires r"
  shows "r \<in> set (content (db_expire_all db dc now d))"
proof -
  note table = cache_statements.axioms(1) [OF assms(1)]
  obtain res d1 where del: "sql_delete (ct_rows (db (dc_table dc))) (\<lambda>r. cr_expires r \<le> now) d = (res, d1)" by fastforce
  with sql_table.delete_ok [OF table] sql_table.delete_failed [OF table] assms(3,4) show ?thesis
    by (cases res) (fastforce simp: db_expire_all_def)+
qed

subsection \<open>Eviction\<close>
lemma total_size_simps [simp]:
  "total_size [] = 0" "total_size (r # rows) = cr_size r + total_size rows"
  by (simp_all add: total_size_def)

definition sizes_fit :: "cache_row list \<Rightarrow> bool" where
  "sizes_fit rows \<longleftrightarrow> (\<forall>r \<in> set rows. 0 \<le> cr_size r) \<and> total_size rows \<le> max_int64"

lemma total_size_filter:
  "\<forall>r \<in> set rows. 0 \<le> cr_size r \<Longrightarrow> 0 \<le> total_size (filter P rows) \<and> total_size (filter P rows) \<le> total_size rows"
  by (induction rows) auto

lemma sizes_fit_filter: "sizes_fit rows \<Longrightarrow> sizes_fit (filter P rows)"
  using total_size_filter [of rows P] by (auto simp: sizes_fit_def)

lemma sizes_fit_int64: "sizes_fit rows \<Longrightarrow> fits64 (total_size rows)"
  using total_size_filter [of rows "\<lambda>_. True"] by (simp add: sizes_fit_def fits64_def min_int64_def)

lemma total_size_replace:
  assumes "uniq_keys rows" "\<forall>r \<in> set rows. 0 \<le> cr_size r" "0 \<le> cr_size r"
  shows "total_size (map (\<lambda>r'. if cr_key r' = cr_key r then r else r') rows) \<le> total_size rows + cr_size r"
  using assms(1,2)
proof (induction rows)
  case (Cons a rows)
  show ?case
  proof (cases "cr_key a = cr_key r")
    case True
    with Cons.prems have "map (\<lambda>r'. if cr_key r' = cr_key r then r else r') rows = rows"
      by (intro map_idI) (auto simp: uniq_keys_def image_iff)
    with True Cons.prems(2) show ?thesis by simp
  next
    case False
    with Cons show ?thesis by (simp add: uniq_keys_def)
  qed
qed (use assms(3) in simp)

lemma sizes_fit_save:
  assumes "uniq_keys rows" "sizes_fit rows" "0 \<le> cr_size r" "total_size rows + cr_size r \<le> max_int64"
  shows "sizes_fit (save_row cr_key r rows)"
proof -
  have "total_size (save_row cr_key r rows) \<le> total_size rows + cr_size r"
    using total_size_replace [OF assms(1) _ assms(3)] assms(2)
    by (simp add: save_row_def sizes_fit_def total_size_def)
  with assms(2-4) show ?thesis by (auto simp: sizes_fit_def save_row_set)
qed

text \<open>A row whose key, taken as an expression, selects the row itself: the only rows that \<open>evict\<close> can
  be sure to remove.\<close>

definition evictable :: "(string \<Rightarrow> (cache_row \<Rightarrow> bool) option) \<Rightarrow> cache_row \<Rightarrow> bool" where
  "evictable condition r \<longleftrightarrow> cr_key r \<noteq> [] \<and> (case condition (cr_key r) of None \<Rightarrow> False | Some P \<Rightarrow> P r)"

context calm_cache_statements begin

lemma sum_when_calm:
  assumes "calm d" "sizes_fit (content d)" "ct_sum t d = (tot, d')"
  shows "calm d' \<and> content d' = content d \<and> scanned_int tot = total_size (content d)"
proof (cases tot)
  case (Inl e)
  with sum_calm [OF assms(3,1)] sum_keeps [OF assms(3)] sizes_fit_int64 [OF assms(2)] have "content d = []" by auto
  with Inl sum_calm [OF assms(3,1)] sum_keeps [OF assms(3)] show ?thesis by simp
next
  case (Inr n)
  with sum_calm [OF assms(3,1)] sum_keeps [OF assms(3)] sum_value assms(3) show ?thesis by auto
qed

lemma oldest_when_calm:
  assumes "calm d" "content d \<noteq> []" "ct_oldest t d = (oldest, d')"
  shows "calm d' \<and> content d' = content d \<and> (\<exists>r \<in> set (content d). scanned_key oldest = cr_key r)"
proof -
  obtain k where k: "oldest = Inr k" "calm d'" using oldest_calm [OF assms(3,1)] by blast
  with assms(2,3) oldest_none obtain x where "k = Some x" by (cases k) auto
  with k oldest_row [of d x d'] oldest_keeps [OF assms(3)] assms(3) show ?thesis by force
qed

lemma evict_returns:
  assumes "db (dc_table dc) = t" "0 \<le> dc_max_bytes dc" "calm d" "sizes_fit (content d)"
    "\<forall>r \<in> set (content d). evictable condition r"
  shows "\<exists>d'. db_evict db dc d = Some d' \<and> calm d' \<and> total_size (content d') \<le> dc_max_bytes dc"
  using assms(3-5)
proof (induction "length (content d)" arbitrary: d rule: less_induct)
  case less
  obtain tot d1 where s1: "ct_sum t d = (tot, d1)" by fastforce
  note sum1 = sum_when_calm [OF less.prems(1,2) s1]
  show ?case
  proof (cases "total_size (content d) \<le> dc_max_bytes dc")
    case True
    with sum1 s1 assms(1) show ?thesis by (simp add: db_evict.simps [of db dc d])
  next
    case False
    with assms(2) have ne: "content d1 \<noteq> []" using sum1 by auto
    obtain oldest d2 where s2: "ct_oldest t d1 = (oldest, d2)" by fastforce
    with oldest_when_calm [OF _ ne s2] sum1 obtain r where r: "calm d2" "content d2 = content d" "r \<in> set (content d)"
      "scanned_key oldest = cr_key r" by auto
    obtain P where P: "condition (cr_key r) = Some P" "P r" "cr_key r \<noteq> []"
      using less.prems(3) r(3) by (auto simp: evictable_def split: option.splits)
    obtain res d3 where s3: "ct_delete_where t (cr_key r) d2 = (res, d3)" by fastforce
    have d3: "calm d3" "content d3 = filter (\<lambda>r. \<not> P r) (content d)"
      using delete_where_calm [OF s3 r(1)] delete_where_ok [of "cr_key r" d2 d3] s3 P(1) r(2) by auto
    have "length (content d3) < length (content d)"
      unfolding d3(2) using P(2) r(3) by (intro length_filter_less) simp_all
    from less.hyps [OF this d3(1)] d3(2) less.prems(2,3) sizes_fit_filter
    obtain d' where "db_evict db dc d3 = Some d'" "calm d'" "total_size (content d') \<le> dc_max_bytes dc" by auto
    moreover have "db_evict db dc d = db_evict db dc d3"
      using False sum1 s1 s2 s3 r(4) P(3) assms(1) by (simp add: db_evict.simps [of db dc d])
    ultimately show ?thesis by simp
  qed
qed

text \<open>When the keys are no expressions, nothing is ever removed and the recursion goes on.\<close>

lemma evict_goes_on:
  assumes "db (dc_table dc) = t" "calm d" "sizes_fit (content d)" "0 \<le> dc_max_bytes dc"
    "dc_max_bytes dc < total_size (content d)" "\<forall>r \<in> set (content d). cr_key r \<noteq> [] \<and> condition (cr_key r) = None"
  shows "db_evict db dc d = None"
proof (rule ccontr)
  let ?rows = "content d"
  assume "db_evict db dc d \<noteq> None"
  then obtain d' where run: "db_evict db dc d = Some d'" by blast
  let ?G = "\<lambda>db dc d. db (dc_table dc) = t \<and> calm d \<and> content d = ?rows \<and> dc_max_bytes dc < total_size ?rows"
  have "\<not> ?G db dc d"
  proof (rule db_evict.raw_induct [where P = "\<lambda>db dc d d'. \<not> ?G db dc d", OF _ run])
    fix f :: "(string \<Rightarrow> 'd cache_table) \<Rightarrow> database_cache \<Rightarrow> 'd \<Rightarrow> 'd option" and db dc e d'
    assume IH: "\<And>db dc d d'. f db dc d = Some d' \<Longrightarrow> \<not> ?G db dc d"
      and eq: "(case ct_sum (db (dc_table dc)) e of (tot, d1) \<Rightarrow>
          if scanned_int tot > dc_max_bytes dc then
            case ct_oldest (db (dc_table dc)) d1 of (oldest, d2) \<Rightarrow>
                if scanned_key oldest \<noteq> [] then f db dc (snd (ct_delete_where (db (dc_table dc)) (scanned_key oldest) d2))
                else Some d2
          else Some d1) = Some d'"
    show "\<not> ?G db dc e"
    proof
      assume G: "?G db dc e"
      obtain tot d1 where s1: "ct_sum t e = (tot, d1)" by fastforce
      obtain oldest d2 where s2: "ct_oldest t d1 = (oldest, d2)" by fastforce
      obtain res d3 where s3: "ct_delete_where t (scanned_key oldest) d2 = (res, d3)" by fastforce
      have e1: "calm d1" "content d1 = ?rows" "scanned_int tot = total_size ?rows"
        using sum_when_calm [OF _ _ s1] G assms(3) by simp_all
      have "?rows \<noteq> []" using assms(4,5) by auto
      with oldest_when_calm [OF e1(1) _ s2] e1(2) obtain r where e2: "calm d2" "content d2 = ?rows" "r \<in> set ?rows"
        "scanned_key oldest = cr_key r" by auto
      have e3: "calm d3" "content d3 = ?rows"
        using delete_where_calm [OF s3 e2(1)] delete_where_ok [of "cr_key r" d2 d3] delete_where_failed [of "cr_key r" d2 _ d3]
          s3 e2 assms(6) by (cases res; fastforce)+
      have "f db dc d3 = Some d'"
        using eq G e1(3) e2(3,4) s1 s2 s3 assms(6) by simp
      from IH [OF this] G e3 show False by simp
    qed
  qed
  with assms show False by simp
qed

end

subsection \<open>A table in memory\<close>

definition mem_cache_table :: "(string \<Rightarrow> (cache_row \<Rightarrow> bool) option) \<Rightarrow> (cache_row list mem_store) cache_table" where
  "mem_cache_table condition =
     \<lparr>ct_create = (\<lambda>d. d),
      ct_rows = mem_table (\<lambda>rows. rows) (\<lambda>f. f) uniq_keys,
      ct_sum = mem_statement (\<lambda>d. (if md_tables d = [] then Inl (DbError ''converting NULL to int64 is unsupported'')
          else Inr (total_size (md_tables d)), d)),
      ct_oldest = mem_statement (\<lambda>d. (Inr (case order_rows (\<lambda>a b. cr_accessed a < cr_accessed b) (md_tables d) of
          [] \<Rightarrow> None | r # _ \<Rightarrow> Some (cr_key r)), d)),
      ct_delete_where = (\<lambda>k d. as_error (mem_statement (\<lambda>d. case condition k of
          None \<Rightarrow> (Inl (DbError ''SQL logic error''), d)
        | Some P \<Rightarrow> (Inr (), d\<lparr>md_tables := filter (\<lambda>r. \<not> P r) (md_tables d)\<rparr>)) d)),
      ct_count = mem_statement (\<lambda>d. (Inr (blen (md_tables d)), d))\<rparr>"

lemma uniq_keys_filter: "uniq_keys rows \<Longrightarrow> uniq_keys (filter P rows)"
  by (simp add: uniq_keys_def distinct_map_filter)

lemma mem_cache_rows:
  "sql_table md_tables (\<lambda>rows. rows) (\<lambda>f. f) uniq_keys (ct_rows (mem_cache_table condition))"
  unfolding mem_cache_table_def cache_table.select_convs by (rule mem_table_laws) (simp_all add: uniq_keys_filter)

lemma order_rows_Nil: "order_rows lt rows = [] \<longleftrightarrow> rows = []"
  by (metis order_rows_set set_empty)

lemma oldest_first:
  assumes "order_rows (\<lambda>a b. cr_accessed a < cr_accessed b) rows = r # rs"
  shows "r \<in> set rows \<and> (\<forall>r' \<in> set rows. cr_accessed r \<le> cr_accessed r')"
proof -
  have "strict_weak (\<lambda>a b. cr_accessed a < cr_accessed b)" by (auto simp: strict_weak_def)
  from order_rows_sorted [OF this, of rows] order_rows_set [of "\<lambda>a b. cr_accessed a < cr_accessed b" rows] assms
  show ?thesis by (auto simp: not_less)
qed

interpretation mem_cache: cache_statements md_tables "mem_cache_table condition" condition for condition
proof (rule cache_statements.intro [OF mem_cache_rows], unfold_locales, goal_cases)
  case (5 d k d')
  then show ?case unfolding mem_cache_table_def cache_table.select_convs
    by (elim mem_statement_cases) (auto split: list.splits dest!: oldest_first)
next
  case (6 d d')
  then show ?case unfolding mem_cache_table_def cache_table.select_convs
    by (elim mem_statement_cases) (auto split: list.splits simp: order_rows_Nil)
qed (auto simp: mem_cache_table_def as_error_None as_error_Some split: option.splits if_splits elim!: mem_statement_cases)

interpretation calm_mem_cache: calm_cache_statements md_tables "mem_cache_table condition" condition mem_calm for condition
proof (intro calm_cache_statements.intro mem_cache.cache_statements_axioms)
  show "calm_table md_tables (\<lambda>rows. rows) (\<lambda>f. f) uniq_keys (ct_rows (mem_cache_table condition)) mem_calm"
    using mem_cache_rows unfolding mem_cache_table_def cache_table.select_convs by (rule mem_calm_laws)
  show "calm_cache_statements_axioms md_tables (mem_cache_table condition) condition mem_calm"
    by unfold_locales (auto simp: mem_cache_table_def mem_calm_def mem_statement_def as_error_def split: option.splits if_splits)
qed

subsection \<open>Properties\<close>

text \<open>C22: the cache in a table serves only what was put. Over any run of its operations on a table that
  starts empty, whichever statements fail and whatever the evictions remove, a value that
  Get returns is the decoded text of a value that was put under the same key, less than one
  TTL before.\<close>

theorem database_cache_serves_what_was_put:
  assumes "cache_statements content (db table) condition" "new_database db table maxb lifetime d0 = (dc, d1)"
    "content d0 = []" "db_run db jc dc ops d1 = Some d2" "db_get db jc dc now k d2 = (Some v, d3)"
  shows "\<exists>earlier v0 n data. DbPut earlier k v0 n \<in> set ops \<and> jc_marshal jc v0 = Some data
    \<and> jc_unmarshal jc data = Some v \<and> fst now < fst earlier + dc_ttl dc"
proof -
  have dc: "db (dc_table dc) = db table" and empty: "content d1 = []"
    using assms(2,3) cache_statements.create_keeps [OF assms(1)] by (auto simp: new_database_def)
  have "\<forall>r \<in> set (content d2). row_from jc dc ops r"
    using cache_statements.run_rows [OF assms(1,4) dc, of ops] empty by (simp add: uniq_keys_def)
  with cache_statements.get_found [OF assms(1,5) dc] show ?thesis by (fastforce simp: row_from_def)
qed

theorem database_cache_serves_what_was_put_witness:
  "let db = (\<lambda>_. mem_cache_table (\<lambda>_. None)); jc = \<lparr>jc_marshal = Some, jc_unmarshal = Some\<rparr>;
       run = new_database db ''pages'' 100 60 \<lparr>md_tables = [], md_faults = []\<rparr>;
       ops = [DbPut (1, 1) ''k'' ''a'' 1, DbPut (5, 5) ''k'' ''b'' 1, DbPut (6, 6) ''l'' ''c'' 1]
   in \<exists>d v. db_run db jc (fst run) ops (snd run) = Some d \<and> fst (db_get db jc (fst run) (64, 65) ''k'' d) = Some v
        \<and> (\<exists>earlier n. DbPut earlier ''k'' v n \<in> set ops \<and> 64 < fst earlier + 60)"
proof -
  define db where "db = (\<lambda>_ :: string. mem_cache_table (\<lambda>_. None))"
  define jc where "jc = (\<lparr>jc_marshal = Some, jc_unmarshal = Some\<rparr> :: string codec)"
  define ops where "ops = [DbPut (1, 1) ''k'' ''a'' 1, DbPut (5, 5) ''k'' ''b'' 1, DbPut (6, 6) ''l'' ''c'' 1]"
  define dc where "dc = \<lparr>dc_max_bytes = 100, dc_ttl = 60, dc_table = ''pages''\<rparr>"
  let ?d0 = "\<lparr>md_tables = [], md_faults = []\<rparr> :: cache_row list mem_store"
  have new: "new_database db ''pages'' 100 60 ?d0 = (dc, ?d0)"
    by (simp add: new_database_def dc_def db_def mem_cache_table_def)
  define d where "d = \<lparr>md_tables = [\<lparr>cr_key = ''k'', cr_value = ''b'', cr_size = 1, cr_expires = 65, cr_accessed = 5\<rparr>,
      \<lparr>cr_key = ''l'', cr_value = ''c'', cr_size = 1, cr_expires = 66, cr_accessed = 6\<rparr>], md_faults = []\<rparr>"
  have run: "db_run db jc dc ops ?d0 = Some d"
    by (simp add: ops_def jc_def db_put_def db_evict.simps db_def mem_cache_table_def dc_def mem_eval uniq_keys_def
        save_row_def d_def)
  obtain d3 where get: "db_get db jc dc (64, 65) ''k'' d = (Some ''b'', d3)"
    by (simp add: db_get_def db_def jc_def mem_cache_table_def dc_def mem_eval uniq_keys_def d_def)
  have sql: "cache_statements md_tables (db ''pages'') (\<lambda>_. None)"
    using mem_cache.cache_statements_axioms by (simp add: db_def)
  have "\<exists>earlier v0 n data. DbPut earlier ''k'' v0 n \<in> set ops \<and> jc_marshal jc v0 = Some data
      \<and> jc_unmarshal jc data = Some ''b'' \<and> fst (64, 65 :: time) < fst earlier + dc_ttl dc"
    by (rule database_cache_serves_what_was_put [OF sql new _ run get]) simp
  then show ?thesis
    using new run get unfolding db_def jc_def ops_def Let_def by (auto simp: dc_def)
qed

text \<open>C23: Put meets the byte budget where the eviction can work. On a table whose statements succeed and
  whose keys, read as expressions, select their own rows, Put returns, and afterwards the
  sizes of the rows are together at most the budget.\<close>

theorem database_put_meets_budget:
  assumes "calm_cache_statements content (db (dc_table dc)) condition calm" "calm d" "uniq_keys (content d)"
    "sizes_fit (content d)" "0 \<le> n" "total_size (content d) + n \<le> max_int64" "0 \<le> dc_max_bytes dc"
    "\<forall>r \<in> set (content d). evictable condition r"
    "\<forall>r. cr_key r = k \<longrightarrow> evictable condition r" "jc_marshal jc v = Some data"
  shows "\<exists>d'. db_put db jc dc now k v n d = Some d' \<and> total_size (content d') \<le> dc_max_bytes dc"
proof -
  let ?t = "db (dc_table dc)"
  let ?r = "\<lparr>cr_key = k, cr_value = data, cr_size = n, cr_expires = fst now + dc_ttl dc, cr_accessed = snd now\<rparr>"
  have table: "cache_statements content ?t condition" "calm_table content (\<lambda>rows. rows) (\<lambda>f. f) uniq_keys (ct_rows ?t) calm"
    using assms(1) by (simp_all add: calm_cache_statements_def)
  obtain res d1 where save: "sql_save (ct_rows ?t) cr_key ?r d = (res, d1)" by fastforce
  have "uniq_keys (save_row cr_key ?r (content d))"
    using assms(3) by (auto simp: uniq_keys_def save_row_keys)
  then have "res = None" "calm d1" using calm_table.save_calm [OF table(2) save assms(2)] by auto
  then have d1: "content d1 = save_row cr_key ?r (content d)"
    using sql_table.save_ok [OF cache_statements.axioms(1) [OF table(1)]] save by blast
  have "sizes_fit (content d1)" unfolding d1 using assms(3-6) by (intro sizes_fit_save) simp_all
  moreover have "\<forall>r \<in> set (content d1). evictable condition r" using assms(8,9) by (auto simp: d1 save_row_set)
  ultimately show ?thesis
    using calm_cache_statements.evict_returns [where db = db and dc = dc, OF assms(1) refl assms(7) \<open>calm d1\<close>] save assms(10) by (auto simp: db_put_def)
qed

theorem database_put_meets_budget_witness:
  "let db = (\<lambda>_. mem_cache_table (\<lambda>c. Some (\<lambda>r. cr_key r = c))); jc = \<lparr>jc_marshal = Some, jc_unmarshal = Some\<rparr>;
       dc = \<lparr>dc_max_bytes = 3, dc_ttl = 60, dc_table = ''pages''\<rparr>;
       d = \<lparr>md_tables = [\<lparr>cr_key = ''a'', cr_value = ''1'', cr_size = 2, cr_expires = 65, cr_accessed = 5\<rparr>], md_faults = []\<rparr>
   in \<exists>d'. db_put db jc dc (7, 8) ''b'' ''2'' 2 d = Some d' \<and> total_size (md_tables d') \<le> 3"
proof -
  let ?select = "\<lambda>c. Some (\<lambda>r. cr_key r = c)"
  let ?db = "\<lambda>_ :: string. mem_cache_table ?select"
  let ?dc = "\<lparr>dc_max_bytes = 3, dc_ttl = 60, dc_table = ''pages''\<rparr>"
  let ?d = "\<lparr>md_tables = [\<lparr>cr_key = ''a'', cr_value = ''1'', cr_size = 2, cr_expires = 65, cr_accessed = 5\<rparr>], md_faults = []\<rparr>"
  have "\<exists>d'. db_put ?db \<lparr>jc_marshal = Some, jc_unmarshal = Some\<rparr> ?dc (7, 8) ''b'' ''2'' 2 ?d = Some d'
      \<and> total_size (md_tables d') \<le> dc_max_bytes ?dc"
    by (rule database_put_meets_budget [where db = ?db and dc = ?dc, OF calm_mem_cache.calm_cache_statements_axioms])
      (auto simp: mem_calm_def uniq_keys_def sizes_fit_def max_int64_def evictable_def)
  then show ?thesis by (simp add: Let_def)
qed

text \<open>C17: otherwise Put never returns. On a table whose statements succeed, when the keys are no SQL
  expressions (as the keys of the tools, which hold a NUL byte and a URL, are not), the first
  Put beyond the budget recurses for ever: the Delete in \<open>evict\<close> fails, its error is
  dropped, and the sum stays as it is.\<close>

theorem database_put_never_returns:
  assumes "calm_cache_statements content (db (dc_table dc)) condition calm" "calm d" "uniq_keys (content d)"
    "sizes_fit (save_row cr_key r (content d))" "dc_max_bytes dc < total_size (save_row cr_key r (content d))"
    "0 \<le> dc_max_bytes dc" "\<forall>r' \<in> insert r (set (content d)). cr_key r' \<noteq> [] \<and> condition (cr_key r') = None"
    "jc_marshal jc v = Some (cr_value r)" "cr_expires r = fst now + dc_ttl dc" "cr_accessed r = snd now"
  shows "db_put db jc dc now (cr_key r) v (cr_size r) d = None"
proof -
  let ?t = "db (dc_table dc)"
  have table: "cache_statements content ?t condition" "calm_table content (\<lambda>rows. rows) (\<lambda>f. f) uniq_keys (ct_rows ?t) calm"
    using assms(1) by (simp_all add: calm_cache_statements_def)
  have r: "\<lparr>cr_key = cr_key r, cr_value = cr_value r, cr_size = cr_size r, cr_expires = fst now + dc_ttl dc,
      cr_accessed = snd now\<rparr> = r" using assms(9,10) by simp
  obtain res d1 where save: "sql_save (ct_rows ?t) cr_key r d = (res, d1)" by fastforce
  have "uniq_keys (save_row cr_key r (content d))" using assms(3) by (auto simp: uniq_keys_def save_row_keys)
  then have "res = None" "calm d1" using calm_table.save_calm [OF table(2) save assms(2)] by auto
  then have d1: "content d1 = save_row cr_key r (content d)"
    using sql_table.save_ok [OF cache_statements.axioms(1) [OF table(1)]] save by blast
  have "db_evict db dc d1 = None"
    by (rule calm_cache_statements.evict_goes_on [where db = db and dc = dc, OF assms(1) refl \<open>calm d1\<close>])
      (use assms(4-7) in \<open>auto simp: d1 save_row_set\<close>)
  with save assms(8) show ?thesis by (simp add: db_put_def r)
qed

theorem database_put_never_returns_witness:
  "let db = (\<lambda>_. mem_cache_table (\<lambda>_. None)); jc = \<lparr>jc_marshal = Some, jc_unmarshal = Some\<rparr>;
       dc = \<lparr>dc_max_bytes = 3, dc_ttl = 60, dc_table = ''pages''\<rparr>;
       d = \<lparr>md_tables = [\<lparr>cr_key = ''a'', cr_value = ''1'', cr_size = 2, cr_expires = 65, cr_accessed = 5\<rparr>], md_faults = []\<rparr>
   in db_put db jc dc (7, 8) ''b'' ''2'' 2 d = None"
proof -
  let ?db = "\<lambda>_ :: string. mem_cache_table (\<lambda>_. None)"
  let ?dc = "\<lparr>dc_max_bytes = 3, dc_ttl = 60, dc_table = ''pages''\<rparr>"
  let ?d = "\<lparr>md_tables = [\<lparr>cr_key = ''a'', cr_value = ''1'', cr_size = 2, cr_expires = 65, cr_accessed = 5\<rparr>], md_faults = []\<rparr>"
  let ?r = "\<lparr>cr_key = ''b'', cr_value = ''2'', cr_size = 2, cr_expires = 67, cr_accessed = 8\<rparr>"
  have "db_put ?db \<lparr>jc_marshal = Some, jc_unmarshal = Some\<rparr> ?dc (7, 8) (cr_key ?r) ''2'' (cr_size ?r) ?d = None"
    by (rule database_put_never_returns [where db = ?db and dc = ?dc, OF calm_mem_cache.calm_cache_statements_axioms])
      (auto simp: mem_calm_def uniq_keys_def sizes_fit_def max_int64_def save_row_def)
  then show ?thesis by (simp add: Let_def)
qed

end
