(* ===== verification/Spec2Isabelle.thy ===== *)
theory Spec2Isabelle
  imports Open_Db Service_Conc Db_Cache
begin

text \<open>
  A verification development for mcp-webtools, a Go server that gives AI agents two tools
  over MCP, fetch (one HTTP document, page by page) and search (SearXNG), that records every
  tool call in a database, and that shows the history to humans, who log in with Keycloak and,
  as admins, manage the agents and their tokens.

  \<^bold>\<open>The program and the theories\<close> (paths under src/)

  A request to /mcp passes RequireBearer, is decoded by the MCP SDK, runs one of the tools on
  the shared caches, and is recorded. A request to /api passes RequireHumanAuth, whose
  provider is the stub or OIDCProvider, and runs a handler over the repositories. Three browser
  routes log humans in and out, one goroutine sweeps the history, and a server whose database
  is down starts degraded and swaps its routes in later.

  \<^item> Prelude, Utf8, Encoding, Json, Http: what Go's standard library does where the code uses
    it. int64 arithmetic that wraps (\<open>wrap64\<close>), slice expressions that panic (\<open>None\<close>), the
    UTF-8 decoders, base64 and hex, json.Marshal, requests, replies and cookies.
  \<^item> Cache (internal/cache): \<open>memory_cache\<close> is memoryCache, a list of keys in order of use with
    the map of entries. Db_Cache: databaseCache over the statements on its table.
  \<^item> Http_Client (internal/httpclient), Paging and Fetch (internal/tools/fetch): \<open>fetcher\<close> is the
    Fetcher struct, \<open>fetch_doc\<close> is Fetcher.Fetch with both caches, readChunk, captureAndPage
    and the rest. Search (internal/tools/search): \<open>search_web\<close> is Searcher.Search.
  \<^item> Database (internal/storage/models.go): the rows, the statements and their laws. Actor_Repo,
    History_Repo, Human_Repo: the three repositories, one definition per function. Open_Db: Open,
    the migration lock and the backfill.
  \<^item> Recorder (internal/recorder), Auth (internal/auth), Mcp (internal/mcpserver and the
    registrars): \<open>mcp_handle\<close> is one request to /mcp on the state \<open>mcp_state\<close> of fetcher, searcher
    and database.
  \<^item> Turns, Fetch_Conc, Search_Conc, Mcp_Conc: the same requests as goroutines. A request is cut
    at every access to the shared caches and the database (\<open>mcp_turn\<close>), a schedule interleaves
    the turns of any number of requests, and seven turns in a row are \<open>mcp_handle\<close>.
  \<^item> Crypto, Human_Auth, Oidc, Oidc_Wiring (internal/humanauth): refresh-token encryption, the
    middleware, sessions and the browser routes, and NewOIDCHandlers, which ties them to one
    refresher. Rest_Api (internal/restapi): the handlers, the route table and the dispatch.
  \<^item> Server and Startup (cmd/webtools/main.go, internal/health, internal/frontend): flags, probes,
    buildAppHandler, both starts, the retry and the pruning loop, shutdown and exit code.
  \<^item> App_Run: all of it as one state machine, \<open>app_step\<close>, whose events are the requests, logins,
    logouts and sweeps. Human_Conc: a request to /api cut at its statements (\<open>api_turn\<close>: session,
    refresh, identity, registration, actor, endpoint), of which seven in a row are \<open>api_handle\<close>.
    Service_Conc: the same service with all its calls interleaved turn by turn
    (\<open>service_turn\<close>); App_Run is the schedule without interleaving. This theory: properties of runs
    of events.

  A struct is a record, an enumeration a datatype, an error a value of a sum, a panic \<open>None\<close>;
  state is passed explicitly and returned; goroutines are step relations or explicit
  interleavings of turns. Go strings and byte slices are char lists, time instants and
  durations integers in nanoseconds.

  \<^bold>\<open>Interfaces\<close>

  Locales state what one component relies on in another, and each is interpreted on the model.
  \<^item> \<open>cache_reader\<close> and \<open>byte_cache\<close> are the interface Cache[V]: the memory cache meets both, the
    database cache the first (a sublocale of its statements), and the tools use their facts.
  \<^item> \<open>sql_table\<close>, \<open>sql_database\<close>: a failed statement changes nothing, a successful one does what
    SQL says, unique indexes hold, transactions are all or nothing; every statement may fail.
    \<open>calm_table\<close>, \<open>calm_database\<close>: none fails. \<open>cache_statements\<close> and \<open>calm_cache_statements\<close> say the
    same of the table of the database cache. Database and Db_Cache interpret them on a database
    in memory with scripted failures.
  \<^item> \<open>human_writes\<close>: what a writer of the identity tables keeps. \<open>human_provider\<close>: the Provider
    interface, met by the stub and by OIDCProvider. \<open>token_refresher\<close>: the interface of the same
    name, met by the Keycloak refresher and by the wired one.
  \<^item> \<open>finite_turns\<close>, \<open>stable_turns\<close>, \<open>sound_turns\<close>: what a cut handler promises, namely that every turn
    takes it further, that a turn keeps what is known of the state and of its call, and that
    what is known of a call is stable under the turns of the others. They give termination and
    invariants under every schedule, for Fetch, Search, the requests to /mcp and the service.

  \<^bold>\<open>Parameters\<close>

  Code that is not in the repository is an argument: GORM and the SQL engine, SHA-256, AES-GCM
  (\<open>aead_ok\<close>: opening inverts sealing), the OAuth2 and OIDC libraries, url.Parse, the origin and
  SearXNG with the retrying client between, the decoding of JSON, the rendering of instants, the
  chi router (\<open>router_ok\<close>), the MCP SDK, randomness, uuids and the clock. The hypotheses on them are
  named where they are used, and the witnesses instantiate them with concrete functions. An
  exchange with an origin or with SearXNG, as the logs count them, is one call of client.Do
  (\<open>do_get\<close>, \<open>query_searxng\<close>): the retries of the client that httpclient.New configures and
  the redirects that net/http follows are inside it, and the answer is the one it ends with.

  \<^bold>\<open>What the lemmas show\<close>

  \<^item> The tools: the pages of a text document reassemble to it whatever the caches do, paging stands
    still exactly on pages without a rune, results are isolated per agent also under
    concurrency, repeats need no request, failures are not stored, SearXNG is sent exactly the
    query that was asked, every exchange belongs to an admitted request and is its only one,
    what the caches hold is what they count and within their budget, and they evict the least
    recently used; the database cache serves only what was put, and its eviction ends
    exactly where keys select their rows.
  \<^item> The history: every served request is recorded by one row that is faithful to it, under
    every interleaving, recording never changes an outcome, cursors enumerate the filtered history while it grows, a
    request for a page gets exactly the rows after its cursor, and 400 when that names no
    call, sweeps remove only what is too old, and the backfill of an old table, interrupted
    anywhere, ends in the rows of one complete run.
  \<^item> Authentication: revoked tokens are dead for good, issued ones live, concurrent first
    logins of a human agree on one actor, only admins manage agents, sessions answer with
    identities that Keycloak confirmed less than 15 minutes ago and live on exactly the refresh
    token it gave last, encryption round-trips.
  \<^item> The service: invariants of the tables by a refinement. \<open>table_write\<close> specifies the kinds of
    write, every event and every turn keeps to the kinds it is permitted, and the invariants are
    proved on the specification. Under every interleaving agents stay isolated, a revocation
    reaches every request that begins after it, and the history names who called and holds every
    served call, a token issued in the UI is served, tabs of one human agree on one actor, and
    only requests of admins change agents and credentials. Start-up: ready means serving, the retry
    loop returns after the first success.

  \<^bold>\<open>Bounds and fuel\<close>

  \<open>evict_loop\<close> recurses on the list of keys, which every round shortens. \<open>walk_history\<close> and
  \<open>fetch_all\<close> are clients with fuel; their theorems give the fuel that is enough (one more
  than the number of calls left, of bytes left). \<open>retry_open\<close> and \<open>db_evict\<close> may run for ever and are
  partial functions, with theorems that say when they return. Hypotheses of the form
  \<open>2 * budget \<le> max_int64\<close> keep the byte counts of a cache from wrapping; what happens beyond is
  stated where it matters (\<open>largest_page_size_reads_nothing\<close>).

  \<^bold>\<open>Not modelled\<close>

  The third-party libraries above, the retries and redirects of the HTTP client among them; the
  listener, the sockets and the draining of connections;
  logging (internal/storage/logger.go configures it and nothing else); the parsing of flags; the
  JavaScript user interface. In Service_Conc an endpoint of the API, the callback, the logout and a
  sweep are one turn each: an endpoint does one write or only reads, and what another call
  writes between two reads of one endpoint (the pages of the history and their names) is not
  interleaved. Concurrency at the start-up is modelled apart, in Startup.
\<close>

section \<open>Properties across components\<close>

subsection \<open>Revocation\<close>

text \<open>An admin who deletes an agent or revokes one of its credentials in the UI cuts it off. Once
  DELETE /credentials/{id} or DELETE /actors/{id} was answered 204, and whatever the service
  handles after it, every request to /mcp with the token of that credential is refused with
  401, no tool runs, no cache changes and nothing is recorded.\<close>

theorem revocation_reaches_mcp:
  assumes "sql_database content (dp_db dp)" "router_ok (dp_router dp)" "well_formed (content (ms_db st))"
    "\<forall>ev \<in> set (ApiRequest stamp env uuid now req # evs). event_ok dp ev"
    "cred \<in> set (tb_credentials (content (ms_db st)))" "cred_hash cred = hash_token (dp_sha dp) raw"
    "dp_router dp rest_routes (rq_method req) (rq_path req) = Matched (b, RevokeToken) (cred_id cred)
     \<or> dp_router dp rest_routes (rq_method req) (rq_path req) = Matched (b, DeleteAgent) (cred_actor cred)"
    "hr_status (fst (api_handle dp stamp env uuid now req (ms_db st))) = 204"
    "st1 = app_run dp (ApiRequest stamp env uuid now req # evs) st" "me_sha menv = dp_sha dp"
    "mcp_handle (dp_db dp) menv (''Bearer '' @ raw) treq st1 = (res, st2)"
  shows "(\<exists>refusal. res = Refused refusal \<and> hr_status refusal = 401)
    \<and> ms_fetcher st2 = ms_fetcher st1 \<and> ms_searcher st2 = ms_searcher st1
    \<and> tb_calls (content (ms_db st2)) = tb_calls (content (ms_db st1))"
proof -
  let ?ev = "ApiRequest stamp env uuid now req"
  obtain reply d1 where run: "api_handle dp stamp env uuid now req (ms_db st) = (reply, d1)" by fastforce
  have ev: "event_ok dp ?ev" using assms(4) by simp
  have "dead_hash (cred_hash cred) (content d1)"
  proof (cases rule: api_handle_cases [OF assms(1,2) ev assms(3) run, case_names turned_away called])
    case turned_away
    with assms(8) run show ?thesis by simp
  next
    case (called d2 ctx admin e i)
    then show ?thesis
      using assms(3,5,7,8) run
      by (intro revoking_route_kills [OF assms(1) called(2)]) (auto simp: well_formed_def tables_ok_def)
  qed
  moreover have "app_run dp [?ev] st = st\<lparr>ms_db := d1\<rparr>" using run by simp
  moreover have "well_formed (content (ms_db (app_run dp [?ev] st)))"
    using ev by (intro app_run_well_formed [OF assms(1) _ assms(3)]) simp
  ultimately have dead: "dead_hash (hash_token (me_sha menv) raw) (content (ms_db st1))"
    using app_run_keeps_dead [OF assms(1), of evs "app_run dp [?ev] st"] assms(4,6,9,10) by simp
  show ?thesis
  proof (cases rule: mcp_handle_cases [OF assms(1,11), case_names refused served])
    case (refused refusal)
    have "ms_fetcher st2 = ms_fetcher st1" "ms_searcher st2 = ms_searcher st1" by (subst refused(3), simp)+
    moreover have "tb_calls (content (ms_db st2)) = tb_calls (content (ms_db st1))" by (subst refused(4)) simp
    ultimately show ?thesis using refused(1,2) by blast
  next
    case (served token a cred' d2 reply reqs)
    with dead_hash_not_live [OF dead] show ?thesis by auto
  qed
qed

theorem revocation_reaches_mcp_witness:
  "let revoke = example_api_request ''DELETE'' ''/credentials/idT''; more = example_api_request ''POST'' ''/actors/a1/credentials'';
       st1 = app_run (example_deployment 5) [revoke, more] (example_mcp_state (example_agents [''T'', ''U'']))
   in \<exists>refusal. fst (mcp_handle mem_database example_mcp_env ''Bearer T'' example_fetch st1) = Refused refusal
        \<and> hr_status refusal = 401"
proof -
  let ?st = "example_mcp_state (example_agents [''T'', ''U''])" and ?req = "example_api ''DELETE'' ''/credentials/idT''"
  let ?more = "example_api_request ''POST'' ''/actors/a1/credentials''"
  let ?cred = "\<lparr>cred_id = ''idT'', cred_actor = ''a1'', cred_label = [],
        cred_hash = hash_token id ''T'', cred_created = 6, cred_revoked = None, cred_last_used = None\<rparr>"
  have ne: "hash_token id ''T'' \<noteq> hash_token id ''U''" using hash_token_def hex_encode_inj by fastforce
  have ok: "router_ok (dp_router (example_deployment 5))" "well_formed (md_tables (ms_db ?st))"
    using ne by (simp_all add: segment_router_ok well_formed_def tables_ok_def linked_def roles_known_def
        example_mcp_state_def example_agents_defs uniq_defs)
  have evs: "\<forall>ev \<in> set (ApiRequest (example_stamp 0 (Inl ''down'')) example_rest_env ''h'' 9 ?req # [?more]).
      event_ok (example_deployment 5) ev"
    using example_api_request_ok [of 5 "''DELETE''" "''/credentials/idT''"] example_api_request_ok [of 5 "''POST''"]
    by (simp add: example_api_request_def)
  have cred: "?cred \<in> set (tb_credentials (md_tables (ms_db ?st)))"
    by (simp add: example_mcp_state_def example_agents_defs)
  have route: "dp_router (example_deployment 5) rest_routes (rq_method ?req) (rq_path ?req) = Matched (True, RevokeToken) (cred_id ?cred)
      \<or> dp_router (example_deployment 5) rest_routes (rq_method ?req) (rq_path ?req) = Matched (True, DeleteAgent) (cred_actor ?cred)"
    using example_routes(1) by (simp add: example_api_def)
  have status: "hr_status (fst (api_handle (example_deployment 5) (example_stamp 0 (Inl ''down'')) example_rest_env ''h'' 9 ?req
      (ms_db ?st))) = 204"
    unfolding example_api_handle using ne example_routes(1)
    by (simp add: example_rest_eval revoke_token_handler_def revoke_agent_token_def mem_eval example_mcp_state_def
        example_agents_defs)
  let ?st1 = "app_run (example_deployment 5) (ApiRequest (example_stamp 0 (Inl ''down'')) example_rest_env ''h'' 9 ?req # [?more]) ?st"
  obtain res st2 where mcp: "mcp_handle (dp_db (example_deployment 5)) example_mcp_env (''Bearer '' @ ''T'') example_fetch ?st1
      = (res, st2)" by fastforce
  from conjunct1 [OF revocation_reaches_mcp [OF example_deployment_sql ok evs cred _ route status refl _ mcp]] mcp
  show ?thesis by (simp add: Let_def example_api_request_def example_mcp_env_def)
qed

subsection \<open>A token from the UI works at the endpoint\<close>

text \<open>A token that the UI issued works. When POST /actors/{id}/credentials for an existing agent was
  answered 201, the body holds a token, and for as long as no credential is revoked and no
  agent deleted, whatever else the service handles, every request to /mcp with that token
  on a database that works is served as that agent and recorded under it.\<close>

theorem issued_token_is_served:
  assumes "calm_database content (dp_db dp) calm" "router_ok (dp_router dp)" "well_formed (content (ms_db st))"
    "\<forall>ev \<in> set (ApiRequest stamp env uuid now req # evs). event_ok dp ev"
    "\<forall>ev \<in> set evs. \<not> revoking dp ev"
    "dp_router dp rest_routes (rq_method req) (rq_path req) = Matched (b, IssueToken) (actor_id a)"
    "a \<in> set (tb_actors (content (ms_db st)))"
    "api_handle dp stamp env uuid now req (ms_db st) = (reply, d1)" "hr_status reply = 201"
    "st1 = app_run dp evs (st\<lparr>ms_db := d1\<rparr>)" "calm (ms_db st1)"
  shows "\<exists>token. reply = json_reply 201 (JObj [(''token'', JStr token)])
    \<and> (\<forall>menv treq. me_sha menv = dp_sha dp \<and> st_uuid (me_stamp menv) \<notin> call_id ` set (tb_calls (content (ms_db st1))) \<longrightarrow>
        (\<exists>out reqs c st2. mcp_handle (dp_db dp) menv (''Bearer '' @ token) treq st1 = (Served (Some (out, reqs)), st2)
           \<and> reply_row a treq out c \<and> tb_calls (content (ms_db st2)) = tb_calls (content (ms_db st1)) @ [c]))"
proof -
  have sql: "sql_database content (dp_db dp)" using assms(1) by (rule calm_database.axioms(1))
  let ?ev = "ApiRequest stamp env uuid now req"
  have ev: "event_ok dp ?ev" and evs: "\<forall>ev \<in> set evs. event_ok dp ev" using assms(4) by simp_all
  have start: "app_run dp [?ev] st = st\<lparr>ms_db := d1\<rparr>" using assms(8) by simp
  have wf1: "well_formed (content (ms_db (st\<lparr>ms_db := d1\<rparr>)))"
    and actors1: "a \<in> set (tb_actors (content (ms_db (st\<lparr>ms_db := d1\<rparr>))))"
    using app_run_well_formed [OF sql _ assms(3), of "[?ev]"] app_run_keeps_actors [OF sql _ assms(3), of "[?ev]"] ev assms(7)
    unfolding start by auto
  obtain token where token: "reply = json_reply 201 (JObj [(''token'', JStr token)])" "token \<noteq> []"
    "admits (hash_token (dp_sha dp) token) (actor_id a) (content d1)"
  proof (cases rule: api_handle_cases [OF sql assms(2) ev assms(3,8), case_names turned_away called])
    case (called d2 ctx admin e i)
    then have e: "e = IssueToken" "i = actor_id a" using assms(6) by simp_all
    from issuing_route_admits [OF sql called(2) [unfolded e] assms(9)] ev obtain token where
      "reply = json_reply 201 (JObj [(''token'', JStr token)])" "token \<noteq> []"
      "admits (hash_token (dp_sha dp) token) (actor_id a) (content d1)" by auto
    then show ?thesis by (rule that)
  qed (use assms(9) in simp)
  from app_run_keeps_live [OF sql evs wf1 _ assms(5)] token(3) assms(10) obtain cred where
    live: "live (hash_token (dp_sha dp) token) (content (ms_db st1)) cred" "cred_actor cred = actor_id a"
    by (auto simp: admits_def)
  have ok: "tables_ok (content (ms_db st1))" "a \<in> set (tb_actors (content (ms_db st1)))"
    using app_run_well_formed [OF sql evs wf1] app_run_keeps_actors [OF sql evs wf1] actors1 assms(10)
    by (auto simp: well_formed_def)
  have "\<exists>out reqs c st2. mcp_handle (dp_db dp) menv (''Bearer '' @ token) treq st1 = (Served (Some (out, reqs)), st2)
      \<and> reply_row a treq out c \<and> tb_calls (content (ms_db st2)) = tb_calls (content (ms_db st1)) @ [c]"
    if menv: "me_sha menv = dp_sha dp" "st_uuid (me_stamp menv) \<notin> call_id ` set (tb_calls (content (ms_db st1)))" for menv treq
  proof -
    obtain res st2 where run: "mcp_handle (dp_db dp) menv (''Bearer '' @ token) treq st1 = (res, st2)" by fastforce
    from mcp_served_when_calm [OF assms(1,11) ok(1) live(1) [folded menv(1)] token(2) ok(2) live(2) [symmetric] menv(2) run]
    show ?thesis unfolding run by blast
  qed
  with token(1) show ?thesis by blast
qed

theorem issued_token_is_served_witness:
  "let dp = example_deployment 5; st = example_mcp_state (example_agents [''T'']);
       st1 = app_run dp [example_api_request ''POST'' ''/actors/a1/credentials'', PruneTick 9] st
   in \<exists>token. fst (api_handle dp (example_stamp 0 (Inl ''down'')) example_rest_env ''h'' 9
            (example_api ''POST'' ''/actors/a1/credentials'') (ms_db st)) = json_reply 201 (JObj [(''token'', JStr token)])
        \<and> (\<exists>out reqs c st2. mcp_handle mem_database example_mcp_env (''Bearer '' @ token) example_fetch st1
              = (Served (Some (out, reqs)), st2) \<and> reply_row example_actor example_fetch out c
            \<and> tb_calls (md_tables (ms_db st2)) = tb_calls (md_tables (ms_db st1)) @ [c])"
proof -
  let ?st = "example_mcp_state (example_agents [''T''])" and ?req = "example_api ''POST'' ''/actors/a1/credentials''"
  let ?dp = "example_deployment 5" and ?stamp = "example_stamp 0 (Inl ''down'')"
  have calm: "calm_database md_tables (dp_db ?dp) mem_calm" by (simp add: calm.calm_database_axioms)
  have ok: "router_ok (dp_router ?dp)" by (simp add: segment_router_ok)
  have evs: "\<forall>ev \<in> set (ApiRequest ?stamp example_rest_env ''h'' 9 ?req # [PruneTick 9]). event_ok ?dp ev"
    using example_api_request_ok [of 5 "''POST''"] by (simp add: example_api_request_def max_int64_def)
  have quiet: "\<forall>ev \<in> set [PruneTick 9 :: string app_event]. \<not> revoking ?dp ev" by simp
  have route: "dp_router ?dp rest_routes (rq_method ?req) (rq_path ?req) = Matched (True, IssueToken) (actor_id example_actor)"
    using example_routes(2) by (simp add: example_api_def example_actor_def)
  have a: "example_actor \<in> set (tb_actors (md_tables (ms_db ?st)))" by (simp add: example_mcp_state_def example_agents_defs)
  obtain reply d1 where run: "api_handle ?dp ?stamp example_rest_env ''h'' 9 ?req (ms_db ?st) = (reply, d1)" by fastforce
  let ?token = "token_prefix @ b64_encode True ''R''"
  have ne: "hash_token id ?token \<noteq> hash_token id ''T''"
    using hash_token_def hex_encode_inj by (fastforce simp: token_prefix_def)
  have reply: "reply = json_reply 201 (JObj [(''token'', JStr ?token)])"
    and d1: "md_faults d1 = [] \<and> tb_calls (md_tables d1) = []"
    using run ne example_routes(2) unfolding example_api_handle
    by (auto simp: example_rest_eval issue_token_handler_def auth_issue_def issue_agent_token_def Let_def mem_eval
        example_mcp_state_def example_agents_defs example_rest_env_def)
  let ?st1 = "app_run ?dp [PruneTick 9 :: string app_event] (?st\<lparr>ms_db := d1\<rparr>)"
  have db1: "mem_calm (ms_db ?st1)" "tb_calls (md_tables (ms_db ?st1)) = []"
    using d1 by (simp_all add: mem_calm_def prune_history_until_done_def prune_tool_calls_def mem_eval)
  from issued_token_is_served [OF calm ok example_start_well_formed evs quiet route a run _ refl db1(1)] obtain token where
    token: "reply = json_reply 201 (JObj [(''token'', JStr token)])"
    "\<exists>out reqs c st2. mcp_handle (dp_db ?dp) example_mcp_env (''Bearer '' @ token) example_fetch ?st1 = (Served (Some (out, reqs)), st2)
       \<and> reply_row example_actor example_fetch out c \<and> tb_calls (md_tables (ms_db st2)) = tb_calls (md_tables (ms_db ?st1)) @ [c]"
    unfolding db1(2) by (auto simp: reply example_mcp_env_def)
  have "fst (api_handle ?dp ?stamp example_rest_env ''h'' 9 ?req (ms_db ?st)) = json_reply 201 (JObj [(''token'', JStr token)])"
    using run token(1) by simp
  moreover have "?st1 = app_run ?dp [example_api_request ''POST'' ''/actors/a1/credentials'', PruneTick 9] ?st"
    using run by (simp add: example_api_request_def)
  ultimately show ?thesis using token(2) unfolding Let_def by (metis example_deployment_simps(1))
qed

subsection \<open>Isolation of the agents\<close>

text \<open>What the origins answered in a run of the service: the response that some request of the run, of
  the owner of a live token, obtained for the URL it asked for.\<close>

definition obtained_in :: "('d \<Rightarrow> tables) \<Rightarrow> 'd deployment \<Rightarrow> 'e app_event list \<Rightarrow> 'd mcp_state
    \<Rightarrow> string \<Rightarrow> string \<Rightarrow> http_response \<Rightarrow> bool" where
  "obtained_in content dp evs st agent url resp \<longleftrightarrow>
     (\<exists>before after env token inp cred u. evs = before @ McpRequest env (''Bearer '' @ token) (CallFetch inp) # after
        \<and> live (hash_token (dp_sha dp) token) (content (ms_db (app_run dp before st))) cred
        \<and> agent = cred_actor cred \<and> url = in_url inp
        \<and> env_parse (me_fetch env) url = Inr u \<and> env_origin (me_fetch env) (url_string u) = Inr resp)"

lemma step_fetcher:
  assumes "\<And>env header req. ev \<noteq> McpRequest env header req"
  shows "ms_fetcher (app_step dp ev st) = ms_fetcher st"
  using assms by (cases ev) (auto split: auth_provider.splits)

lemma app_run_clean:
  assumes "sql_database content (dp_db dp)" "\<forall>ev \<in> set evs. event_ok dp ev" "well_formed (content (ms_db st))"
    "clean_ids (content (ms_db st))"
  shows "clean_ids (content (ms_db (app_run dp evs st)))"
  using permitted_clean assms(2) by (intro writes_clean [OF app_run_writes [OF assms(1-3)] assms(4)]) blast

text \<open>One request of the run, when the caches before it hold only such documents.\<close>

lemma request_step:
  assumes "sql_database content (dp_db dp)" "\<forall>ev \<in> set evs. event_ok dp ev" "well_formed (content (ms_db st))"
    "clean_ids (content (ms_db st))" "evs = before @ McpRequest env header req # after"
    "mcp_handle (dp_db dp) env header req (app_run dp before st) = (res, st')"
    "fetcher_sat (snap_origin (obtained_in content dp evs st)) (result_origin (obtained_in content dp evs st))
      (ms_fetcher (app_run dp before st))"
  shows "fetcher_sat (snap_origin (obtained_in content dp evs st)) (result_origin (obtained_in content dp evs st)) (ms_fetcher st')
    \<and> (\<forall>inp out. req = CallFetch inp \<and> res = Served out \<longrightarrow> (\<exists>token cred r reqs. header = ''Bearer '' @ token
        \<and> live (hash_token (me_sha env) token) (content (ms_db (app_run dp before st))) cred \<and> out = Some (FetchReply r, reqs)
        \<and> (\<forall>x. r = Inr x \<longrightarrow> (\<exists>resp. obtained_in content dp evs st (cred_actor cred) (in_url inp) resp
             \<and> from_response resp (in_offset inp) x))))"
proof (rule mcp_fetch_step [OF assms(1,6,7)])
  show "\<forall>a \<in> set (tb_actors (content (ms_db (app_run dp before st)))). nul \<notin> set (actor_id a)"
    using app_run_clean [OF assms(1) _ assms(3,4), of before] assms(2,5) by (simp add: clean_ids_def)
next
  fix inp token cred u resp
  assume request: "req = CallFetch inp" "header = ''Bearer '' @ token"
      "live (hash_token (me_sha env) token) (content (ms_db (app_run dp before st))) cred"
      "env_parse (me_fetch env) (in_url inp) = Inr u" "env_origin (me_fetch env) (url_string u) = Inr resp"
  have "me_sha env = dp_sha dp" using assms(2,5) by simp
  with request assms(5) show "obtained_in content dp evs st (cred_actor cred) (in_url inp) resp"
    unfolding obtained_in_def by (intro exI [of _ before] exI [of _ after] exI) auto
qed

text \<open>At every point of the run the caches hold only documents that were obtained in the run, each under
  the agent and the URL it was obtained for.\<close>

lemma run_fetcher_sat:
  assumes "sql_database content (dp_db dp)" "\<forall>ev \<in> set evs. event_ok dp ev" "well_formed (content (ms_db st))"
    "clean_ids (content (ms_db st))" "\<And>S R. fetcher_sat S R (ms_fetcher st)" "evs = before @ after"
  shows "fetcher_sat (snap_origin (obtained_in content dp evs st)) (result_origin (obtained_in content dp evs st))
    (ms_fetcher (app_run dp before st))"
  using assms(6)
proof (induction before arbitrary: after rule: rev_induct)
  case (snoc ev before)
  let ?ob = "obtained_in content dp evs st" and ?st = "app_run dp before st"
  have IH: "fetcher_sat (snap_origin ?ob) (result_origin ?ob) (ms_fetcher ?st)" using snoc.prems by (intro snoc.IH) simp
  show ?case
  proof (cases "\<exists>env header req. ev = McpRequest env header req")
    case False
    with step_fetcher [of ev dp ?st] IH show ?thesis by simp
  next
    case True
    then obtain env header req where ev: "ev = McpRequest env header req" by blast
    obtain res st' where run: "mcp_handle (dp_db dp) env header req ?st = (res, st')" by fastforce
    have "evs = before @ McpRequest env header req # after" using snoc.prems ev by simp
    from conjunct1 [OF request_step [OF assms(1-4) this run IH]] run ev show ?thesis by simp
  qed
qed (use assms(5) in simp)

text \<open>No agent is ever served what another agent fetched. Start the service with any flags that
  build and bound the sizes, and let it handle anything: a fetch through /mcp is answered
  only to the owner of a live token, and the page it returns is the piece, at the offset
  asked for, of a response that an origin gave, in this run, to a request of the same agent
  for the same URL. The two caches, their expiry and their eviction never mix agents, URLs
  or offsets.\<close>

theorem service_isolates_agents:
  assumes "sql_database content db" "build_app_handler benv cf = Inr (ap, rc)"
    "2 * wrap64 (cf_fetch_max_bytes cf) \<le> max_int64" "2 * wrap64 (cf_fetch_cache_max_bytes cf) \<le> max_int64"
    "dp = deploy cf ap db sha g chi" "well_formed (content d)" "clean_ids (content d)"
    "\<forall>ev \<in> set evs. event_ok dp ev" "evs = before @ McpRequest env header (CallFetch inp) # after"
    "mcp_handle db env header (CallFetch inp) (app_run dp before (app_start ap d)) = (Served out, st')"
  shows "\<exists>token cred r reqs. header = ''Bearer '' @ token
    \<and> live (hash_token sha token) (content (ms_db (app_run dp before (app_start ap d)))) cred
    \<and> out = Some (FetchReply r, reqs)
    \<and> (\<forall>x. r = Inr x \<longrightarrow> (\<exists>resp. obtained_in content dp evs (app_start ap d) (cred_actor cred) (in_url inp) resp
          \<and> from_response resp (in_offset inp) x))"
proof -
  let ?st = "app_start ap d"
  have dp: "sql_database content (dp_db dp)" "well_formed (content (ms_db ?st))" "clean_ids (content (ms_db ?st))"
    using assms(1,6,7) by (simp_all add: assms(5))
  have "fetcher_sat S R (ms_fetcher ?st)" for S R
    using new_fetcher_sat [OF assms(3,4)] by (simp add: build_app_tools(1) [OF assms(2)])
  from run_fetcher_sat [OF dp(1) assms(8) dp(2,3) this assms(9)]
  have sat: "fetcher_sat (snap_origin (obtained_in content dp evs ?st)) (result_origin (obtained_in content dp evs ?st))
      (ms_fetcher (app_run dp before ?st))" .
  have run: "mcp_handle (dp_db dp) env header (CallFetch inp) (app_run dp before ?st) = (Served out, st')"
    using assms(10) by (simp add: assms(5))
  have "me_sha env = sha" using assms(8,9) by (simp add: assms(5))
  with request_step [OF dp(1) assms(8) dp(2,3) assms(9) run sat] show ?thesis by simp
qed

theorem service_isolates_agents_witness:
  "\<exists>ap. (let dp = deploy example_config ap mem_database id tag_cipher segment_router;
            st = app_start ap (example_agents [''T'']); tool = McpRequest example_mcp_env ''Bearer T'' example_fetch :: unit app_event
        in \<exists>out st' r reqs. mcp_handle mem_database example_mcp_env ''Bearer T'' example_fetch (app_run dp [PruneTick 8 :: unit app_event] st)
              = (Served out, st') \<and> out = Some (FetchReply r, reqs)
           \<and> (\<forall>x. r = Inr x \<longrightarrow> (\<exists>resp. obtained_in md_tables dp [PruneTick 8, tool] st ''a1'' ''http://x'' resp \<and> from_response resp 0 x)))"
proof -
  obtain ap rc where built: "build_app_handler example_build_env example_config = Inr (ap, rc)"
    using example_config_builds by (metis prod.exhaust)
  let ?dp = "deploy example_config ap mem_database id tag_cipher segment_router" and ?d = "example_agents [''T'']"
  let ?inp = "\<lparr>in_url = ''http://x'', in_offset = 0\<rparr>" and ?tool = "McpRequest example_mcp_env ''Bearer T'' example_fetch :: unit app_event"
  have evs: "\<forall>ev \<in> set [PruneTick 8, ?tool]. event_ok ?dp ev"
    by (simp add: example_mcp_env_def example_config_def default_config_def max_int64_def)
  have split: "[PruneTick 8, ?tool] = [PruneTick 8] @ McpRequest example_mcp_env ''Bearer T'' (CallFetch ?inp) # []"
    by (simp add: example_fetch_def)
  have d: "well_formed (md_tables ?d)" "clean_ids (md_tables ?d)"
    using example_start_well_formed by (simp_all add: example_mcp_state_def clean_ids_def example_agents_defs nul_def)
  have sizes: "2 * wrap64 (cf_fetch_max_bytes example_config) \<le> max_int64"
    "2 * wrap64 (cf_fetch_cache_max_bytes example_config) \<le> max_int64"
    by (simp_all add: example_config_def default_config_def default_max_bytes_def default_cache_max_bytes_def
        wrap64_def max_int64_def)
  have same: "app_run ?dp [PruneTick 8 :: unit app_event] (app_start ap ?d) = app_start ap ?d"
    by (simp add: prune_history_until_done_def example_config_def default_config_def app_start_def)
  have live: "live (hash_token (me_sha example_mcp_env) ''T'') (md_tables ?d) \<lparr>cred_id = ''idT'', cred_actor = ''a1'',
      cred_label = [], cred_hash = hash_token id ''T'', cred_created = 6, cred_revoked = None, cred_last_used = None\<rparr>"
    by (simp add: live_def example_mcp_env_def example_agents_defs)
  obtain res st' where handled: "mcp_handle mem_database example_mcp_env (''Bearer '' @ ''T'') example_fetch (app_start ap ?d)
      = (res, st')" by fastforce
  have st: "mem_calm (ms_db (app_start ap ?d))" "tables_ok (md_tables (ms_db (app_start ap ?d)))"
    "example_actor \<in> set (tb_actors (md_tables (ms_db (app_start ap ?d))))" "tb_calls (md_tables (ms_db (app_start ap ?d))) = []"
    using d(1) by (simp_all add: mem_calm_def example_agents_defs well_formed_def)
  have live': "live (hash_token (me_sha example_mcp_env) ''T'') (md_tables (ms_db (app_start ap ?d))) \<lparr>cred_id = ''idT'',
      cred_actor = ''a1'', cred_label = [], cred_hash = hash_token id ''T'', cred_created = 6, cred_revoked = None,
      cred_last_used = None\<rparr>" using live by simp
  obtain out where "res = Served out"
    using mcp_served_when_calm [OF calm.calm_database_axioms st(1,2) live' _ st(3) _ _ handled]
    by (auto simp: st(4) [simplified] example_actor_def)
  with handled have served: "mcp_handle mem_database example_mcp_env ''Bearer T'' example_fetch
      (app_run ?dp [PruneTick 8 :: unit app_event] (app_start ap ?d)) = (Served out, st')" unfolding same by simp
  from service_isolates_agents [OF mem.sql_database_axioms built sizes refl d evs split served [unfolded example_fetch_def]]
  obtain token cred r reqs where answer:
    "live (hash_token id token) (md_tables ?d) cred" "out = Some (FetchReply r, reqs)"
    "\<forall>x. r = Inr x \<longrightarrow> (\<exists>resp. obtained_in md_tables ?dp [PruneTick 8, ?tool] (app_start ap ?d) (cred_actor cred) ''http://x'' resp
        \<and> from_response resp 0 x)"
    unfolding same by auto
  have owner: "cred_actor cred = ''a1''" using answer(1) by (auto simp: live_def example_agents_defs)
  show ?thesis
    unfolding Let_def
    by (rule exI [of _ ap], rule exI [of _ out], rule exI [of _ st'], rule exI [of _ r], rule exI [of _ reqs])
      (rule conjI [OF served conjI [OF answer(2) answer(3) [unfolded owner]]])
qed

end
